(* ===== verification/Prelude.thy ===== *)
theory Prelude
  imports Main "HOL-Library.Sublist" "HOL-Library.Char_ord" "HOL-Library.Monad_Syntax"
begin

text \<open>
  What the components share: Go strings as byte lists with the part of the packages \<open>strings\<close>
  and \<open>strconv\<close> the program uses, lookups in association lists, and the generic state
  machine whose invariant is lifted once from single steps to whole runs.

  A Go string is a sequence of bytes; here it is a \<open>string\<close>, whose characters are bytes, so
  \<open>length\<close> is Go's \<open>len\<close>. \<open>TrimSpace\<close> and \<open>Fields\<close> know every Unicode space by its UTF-8
  encoding. \<open>ToLower\<close> and \<open>ToUpper\<close> map ASCII letters and the four non-ASCII letters whose
  other case is an ASCII letter; other letters are left as they are, which no comparison with an
  ASCII constant can tell apart from Go's result.
\<close>

named_theorems go_simps \<open>equations that unfold the string functions on concrete input\<close>

section \<open>Bytes\<close>

definition byte_of :: "char \<Rightarrow> nat" where
  "byte_of c = of_char c"

definition ascii_space :: "char \<Rightarrow> bool" where
  "ascii_space c \<longleftrightarrow> c \<in> set [CHR '' '', CHR 0x09, CHR 0x0A, CHR 0x0B, CHR 0x0C, CHR 0x0D]"

definition is_digit :: "char \<Rightarrow> bool" where
  "is_digit c \<longleftrightarrow> 48 \<le> byte_of c \<and> byte_of c \<le> 57"

definition is_lower :: "char \<Rightarrow> bool" where
  "is_lower c \<longleftrightarrow> 97 \<le> byte_of c \<and> byte_of c \<le> 122"

definition is_upper :: "char \<Rightarrow> bool" where
  "is_upper c \<longleftrightarrow> 65 \<le> byte_of c \<and> byte_of c \<le> 90"

definition lower_char :: "char \<Rightarrow> char" where
  "lower_char c = (if is_upper c then char_of (byte_of c + 32) else c)"

definition upper_char :: "char \<Rightarrow> char" where
  "upper_char c = (if is_lower c then char_of (byte_of c - 32) else c)"

text \<open>The line feed, the separator of almost every parser below.\<close>

definition NL :: char where
  "NL = CHR 0x0A"

definition TAB :: char where
  "TAB = CHR 0x09"

text \<open>The three non-ASCII characters the program prints in its messages.\<close>

definition em_dash :: string where
  "em_dash = [CHR 0xE2, CHR 0x80, CHR 0x94]"

definition ellipsis :: string where
  "ellipsis = [CHR 0xE2, CHR 0x80, CHR 0xA6]"

definition middle_dot :: string where
  "middle_dot = [CHR 0xC2, CHR 0xB7]"

section \<open>Spaces\<close>

text \<open>
  The UTF-8 encodings of the runes for which \<open>unicode.IsSpace\<close> holds. No encoding starts another,
  so the first that starts a string is the only one.
\<close>

definition space_seqs :: "string list" where
  "space_seqs =
     map (\<lambda>c. [c]) [CHR '' '', CHR 0x09, CHR 0x0A, CHR 0x0B, CHR 0x0C, CHR 0x0D] @
     [[CHR 0xC2, CHR 0x85], [CHR 0xC2, CHR 0xA0], [CHR 0xE1, CHR 0x9A, CHR 0x80]] @
     map (\<lambda>c. [CHR 0xE2, CHR 0x80, c])
       [CHR 0x80, CHR 0x81, CHR 0x82, CHR 0x83, CHR 0x84, CHR 0x85, CHR 0x86, CHR 0x87, CHR 0x88,
        CHR 0x89, CHR 0x8A, CHR 0xA8, CHR 0xA9, CHR 0xAF] @
     [[CHR 0xE2, CHR 0x81, CHR 0x9F], [CHR 0xE3, CHR 0x80, CHR 0x80]]"

text \<open>
  \<open>space_len s\<close> is the number of bytes of the space that starts \<open>s\<close>, 0 when \<open>s\<close> does not start
  with one; \<open>space_len_rev\<close> is the same for the space that ends a string given reversed.
\<close>

definition space_len :: "string \<Rightarrow> nat" where
  "space_len s = (case find (\<lambda>p. prefix p s) space_seqs of None \<Rightarrow> 0 | Some p \<Rightarrow> length p)"

definition space_len_rev :: "string \<Rightarrow> nat" where
  "space_len_rev s =
     (case find (\<lambda>p. prefix (rev p) s) space_seqs of None \<Rightarrow> 0 | Some p \<Rightarrow> length p)"

lemma space_seqs_nonempty: "p \<in> set space_seqs \<Longrightarrow> p \<noteq> []"
  by (auto simp: space_seqs_def)

lemma space_len_eq_0: "space_len s = 0 \<longleftrightarrow> (\<forall>p \<in> set space_seqs. \<not> prefix p s)"
  by (auto simp: space_len_def find_None_iff find_Some_iff dest: space_seqs_nonempty split: option.splits)
     (metis nth_mem space_seqs_nonempty)

lemma space_len_rev_eq_0: "space_len_rev s = 0 \<longleftrightarrow> (\<forall>p \<in> set space_seqs. \<not> prefix (rev p) s)"
  by (auto simp: space_len_rev_def find_None_iff find_Some_iff dest: space_seqs_nonempty split: option.splits)
     (metis nth_mem space_seqs_nonempty)

lemma space_len_Nil [simp]: "space_len [] = 0" "space_len_rev [] = 0"
  by (auto simp: space_len_eq_0 space_len_rev_eq_0 dest: space_seqs_nonempty)

lemma space_len_pos: "space_len s \<noteq> 0 \<Longrightarrow> length s - space_len s < length s"
  by (cases s) auto

lemma space_len_rev_pos: "space_len_rev s \<noteq> 0 \<Longrightarrow> length s - space_len_rev s < length s"
  by (cases s) auto

function trim_left :: "string \<Rightarrow> string" where
  "trim_left s = (if space_len s = 0 then s else trim_left (drop (space_len s) s))"
  by pat_completeness auto
termination
  by (relation "measure length") (simp_all add: space_len_pos)

function trim_left_rev :: "string \<Rightarrow> string" where
  "trim_left_rev s = (if space_len_rev s = 0 then s else trim_left_rev (drop (space_len_rev s) s))"
  by pat_completeness auto
termination
  by (relation "measure length") (simp_all add: space_len_rev_pos)

declare trim_left.simps [simp del] trim_left_rev.simps [simp del]

definition trim_right :: "string \<Rightarrow> string" where
  "trim_right s = rev (trim_left_rev (rev s))"

text \<open>\<open>strings.TrimSpace\<close>.\<close>

definition trim_space :: "string \<Rightarrow> string" where
  "trim_space s = trim_right (trim_left s)"

subsection \<open>Laws of trimming\<close>

lemma trim_left_nonspace [simp]: "space_len s = 0 \<Longrightarrow> trim_left s = s"
  by (subst trim_left.simps) simp

lemma space_len_trim_left [simp]: "space_len (trim_left s) = 0"
proof (induction s rule: trim_left.induct)
  case (1 s)
  then show ?case by (cases "space_len s = 0") (simp_all add: trim_left.simps [of s])
qed

lemma space_len_rev_trim_left_rev [simp]: "space_len_rev (trim_left_rev s) = 0"
proof (induction s rule: trim_left_rev.induct)
  case (1 s)
  then show ?case by (cases "space_len_rev s = 0") (simp_all add: trim_left_rev.simps [of s])
qed

lemma trim_left_rev_nonspace [simp]: "space_len_rev s = 0 \<Longrightarrow> trim_left_rev s = s"
  by (subst trim_left_rev.simps) simp

lemma trim_left_suffix: "suffix (trim_left s) s"
proof (induction s rule: trim_left.induct)
  case (1 s)
  show ?case
  proof (cases "space_len s = 0")
    case False
    with 1 have "suffix (trim_left (drop (space_len s) s)) (drop (space_len s) s)" by simp
    then have "suffix (trim_left (drop (space_len s) s)) s"
      using suffix_drop suffix_order.trans by blast
    with False show ?thesis by (simp add: trim_left.simps [of s])
  qed simp
qed

lemma trim_left_rev_suffix: "suffix (trim_left_rev s) s"
proof (induction s rule: trim_left_rev.induct)
  case (1 s)
  show ?case
  proof (cases "space_len_rev s = 0")
    case False
    with 1 have "suffix (trim_left_rev (drop (space_len_rev s) s)) (drop (space_len_rev s) s)" by simp
    then have "suffix (trim_left_rev (drop (space_len_rev s) s)) s"
      using suffix_drop suffix_order.trans by blast
    with False show ?thesis by (simp add: trim_left_rev.simps [of s])
  qed simp
qed

lemma trim_right_prefix: "prefix (trim_right s) s"
  using trim_left_rev_suffix [of "rev s"] by (simp add: trim_right_def suffix_to_prefix)

lemma set_trim_space: "set (trim_space s) \<subseteq> set s"
  unfolding trim_space_def
  using set_mono_prefix [OF trim_right_prefix] set_mono_suffix [OF trim_left_suffix] by blast

lemma length_trim_space: "length (trim_space s) \<le> length s"
  unfolding trim_space_def
  using prefix_length_le [OF trim_right_prefix] suffix_length_le [OF trim_left_suffix] le_trans by blast

text \<open>Shortening a string from the right cannot make it start with a space unless it is empty.\<close>

lemma space_len_prefix: "space_len s = 0 \<Longrightarrow> prefix t s \<Longrightarrow> space_len t = 0"
  by (auto simp: space_len_eq_0 dest: prefix_order.trans)

lemma trim_space_no_lead [simp]: "space_len (trim_space s) = 0"
  unfolding trim_space_def by (rule space_len_prefix [OF _ trim_right_prefix]) simp

lemma trim_space_no_trail [simp]: "space_len_rev (rev (trim_space s)) = 0"
  by (simp add: trim_space_def trim_right_def)

lemma trim_space_id: "space_len s = 0 \<Longrightarrow> space_len_rev (rev s) = 0 \<Longrightarrow> trim_space s = s"
  by (simp add: trim_space_def trim_right_def)

lemma trim_space_idem [simp]: "trim_space (trim_space s) = trim_space s"
  by (rule trim_space_id) simp_all

lemma trim_space_Nil [simp]: "trim_space [] = []"
  by (rule trim_space_id) simp_all

text \<open>A string of ASCII non-spaces is its own trim.\<close>

definition plain_char :: "char \<Rightarrow> bool" where
  "plain_char c \<longleftrightarrow> \<not> ascii_space c \<and> byte_of c < 128"

lemma space_seqs_not_plain:
  "list_all (\<lambda>p. \<not> plain_char (hd p) \<and> \<not> plain_char (last p)) space_seqs"
  by (simp add: space_seqs_def plain_char_def ascii_space_def byte_of_def)

lemma space_len_plain: "plain_char c \<Longrightarrow> space_len (c # cs) = 0"
  using space_seqs_not_plain
  by (auto simp: space_len_eq_0 list_all_iff prefix_Cons dest: space_seqs_nonempty)

lemma space_len_rev_plain: "plain_char c \<Longrightarrow> space_len_rev (c # cs) = 0"
  using space_seqs_not_plain
  by (auto simp: space_len_rev_eq_0 list_all_iff prefix_Cons dest: space_seqs_nonempty)

lemma trim_space_plain:
  assumes "s = [] \<or> plain_char (hd s) \<and> plain_char (last s)"
  shows "trim_space s = s"
proof (cases s)
  case Nil
  then show ?thesis by simp
next
  case (Cons c cs)
  with assms have p: "plain_char c" "plain_char (last s)" by auto
  have "rev s = last s # rev (butlast s)"
    using Cons by (metis append_butlast_last_id list.discI rev.simps(2) rev_rev_ident rev_swap)
  then show ?thesis
    using p Cons by (intro trim_space_id) (simp_all only: space_len_plain space_len_rev_plain)
qed

end
