(* ===== verification/Machine.thy ===== *)
theory Machine
  imports Prelude
begin

text \<open>
  The generic state machine of the stateful components: a total step function over a type of
  events, an admissibility condition on events, and an invariant. What a component proves for one
  step holds after every run; a measure that never decreases is monotone along every run.
\<close>

locale machine =
  fixes step :: "'e \<Rightarrow> 's \<Rightarrow> 's"
    and ok :: "'e \<Rightarrow> bool"
    and inv :: "'s \<Rightarrow> bool"
  assumes step_inv: "inv s \<Longrightarrow> ok e \<Longrightarrow> inv (step e s)"
begin

lemma run_inv: "inv s \<Longrightarrow> list_all ok es \<Longrightarrow> inv (fold step es s)"
  by (induction es arbitrary: s) (auto intro: step_inv)

lemma run_prefix_inv:
  assumes "inv s" "list_all ok (es @ fs)"
  shows "inv (fold step es s)"
  using assms by (intro run_inv) auto

lemma run_stable:
  assumes keep: "\<And>s e. inv s \<Longrightarrow> ok e \<Longrightarrow> P s \<Longrightarrow> P (step e s)"
    and "inv s" "list_all ok es" "P s"
  shows "P (fold step es s)"
  using assms(2-) by (induction es arbitrary: s) (auto intro: keep step_inv)

end

text \<open>
  A component with a clock: every event carries the time it happens at, and the events of a run
  are ordered in time. The invariant may speak of the time of the last event.
\<close>

fun trun :: "(int \<Rightarrow> 'e \<Rightarrow> 's \<Rightarrow> 's) \<Rightarrow> (int \<times> 'e) list \<Rightarrow> 's \<Rightarrow> 's" where
  "trun step [] s = s"
| "trun step ((t, e) # es) s = trun step es (step t e s)"

locale timed_machine =
  fixes tstep :: "int \<Rightarrow> 'e \<Rightarrow> 's \<Rightarrow> 's"
    and tinv :: "int \<Rightarrow> 's \<Rightarrow> bool"
  assumes tstep_inv: "tinv t0 s \<Longrightarrow> t0 \<le> t \<Longrightarrow> tinv t (tstep t e s)"
begin

lemma trun_inv:
  "tinv t0 s \<Longrightarrow> sorted (t0 # map fst es) \<Longrightarrow> tinv (last (t0 # map fst es)) (trun tstep es s)"
proof (induction es arbitrary: t0 s)
  case (Cons e es)
  obtain t x where e: "e = (t, x)" by (cases e)
  have le: "t0 \<le> t" and so: "sorted (t # map fst es)" using Cons.prems(2) e by auto
  have "tinv t (tstep t x s)" using Cons.prems(1) le by (rule tstep_inv)
  from Cons.IH [OF this so] show ?case by (simp add: e)
qed simp

end

end
