(* ===== verification/GoStrings.thy ===== *)
theory GoStrings
  imports Prelude
begin

text \<open>
  The functions of Go's packages \<open>strings\<close> and \<open>strconv\<close> that the program calls, on byte strings,
  and the laws about them that the components share: joining what was split gives the string
  back, an integer printed in decimal is read back, a substring test is \<open>sublist\<close>.
\<close>

section \<open>Case\<close>

fun to_lower :: "string \<Rightarrow> string" where
  "to_lower [] = []"
| "to_lower (c # cs) =
     (if c = CHR 0xE2 \<and> prefix [CHR 0x84, CHR 0xAA] cs then CHR ''k'' # to_lower (drop 2 cs)
      else if c = CHR 0xC4 \<and> prefix [CHR 0xB0] cs then CHR ''i'' # to_lower (drop 1 cs)
      else lower_char c # to_lower cs)"

fun to_upper :: "string \<Rightarrow> string" where
  "to_upper [] = []"
| "to_upper (c # cs) =
     (if c = CHR 0xC5 \<and> prefix [CHR 0xBF] cs then CHR ''S'' # to_upper (drop 1 cs)
      else if c = CHR 0xC4 \<and> prefix [CHR 0xB1] cs then CHR ''I'' # to_upper (drop 1 cs)
      else upper_char c # to_upper cs)"

lemma lower_char_plain [simp]: "\<not> is_upper c \<Longrightarrow> lower_char c = c"
  by (simp add: lower_char_def)

lemma not_upper_lower_char [simp]: "\<not> is_upper (lower_char c)"
  by (auto simp: lower_char_def is_upper_def byte_of_def)

lemma to_lower_id: "\<forall>c \<in> set s. byte_of c < 128 \<and> \<not> is_upper c \<Longrightarrow> to_lower s = s"
  by (induction s rule: to_lower.induct) (auto simp: byte_of_def)

section \<open>Prefixes, suffixes and substrings\<close>

text \<open>\<open>strings.HasPrefix(s, p)\<close>, \<open>HasSuffix\<close>, \<open>TrimPrefix\<close> and \<open>TrimSuffix\<close>.\<close>

definition has_prefix :: "string \<Rightarrow> string \<Rightarrow> bool" where
  "has_prefix s p = prefix p s"

definition has_suffix :: "string \<Rightarrow> string \<Rightarrow> bool" where
  "has_suffix s p = suffix p s"

definition trim_prefix :: "string \<Rightarrow> string \<Rightarrow> string" where
  "trim_prefix s p = (if prefix p s then drop (length p) s else s)"

definition trim_suffix :: "string \<Rightarrow> string \<Rightarrow> string" where
  "trim_suffix s p = (if suffix p s then take (length s - length p) s else s)"

text \<open>\<open>strings.Index(s, p)\<close>: the first position of \<open>p\<close>, \<open>None\<close> for Go's -1.\<close>

fun index_of :: "string \<Rightarrow> string \<Rightarrow> nat option" where
  "index_of [] p = (if p = [] then Some 0 else None)"
| "index_of (c # cs) p = (if prefix p (c # cs) then Some 0 else map_option Suc (index_of cs p))"

definition contains :: "string \<Rightarrow> string \<Rightarrow> bool" where
  "contains s p \<longleftrightarrow> index_of s p \<noteq> None"

lemma contains_iff: "contains s p \<longleftrightarrow> sublist p s"
  by (induction s p rule: index_of.induct) (auto simp: contains_def sublist_Cons_right)

lemma index_of_Some:
  "index_of s p = Some i \<Longrightarrow> prefix p (drop i s) \<and> i + length p \<le> length s"
proof (induction s p arbitrary: i rule: index_of.induct)
  case (2 c cs p)
  then show ?case
    by (cases i) (auto split: if_splits dest: prefix_length_le)
qed (auto split: if_splits)

lemma index_of_first: "index_of s p = Some i \<Longrightarrow> j < i \<Longrightarrow> \<not> prefix p (drop j s)"
proof (induction s p arbitrary: i j rule: index_of.induct)
  case (2 c cs p)
  then show ?case by (cases j) (auto split: if_splits)
qed (auto split: if_splits)

lemma index_of_split: "index_of s p = Some i \<Longrightarrow> s = take i s @ p @ drop (i + length p) s"
  using index_of_Some [of s p i]
  by (metis add.commute append_eq_conv_conj append_take_drop_id drop_drop prefix_def)

text \<open>\<open>strings.Cut(s, p)\<close>: before, after, found.\<close>

definition cut :: "string \<Rightarrow> string \<Rightarrow> string \<times> string \<times> bool" where
  "cut s p = (case index_of s p of
     None \<Rightarrow> (s, [], False)
   | Some i \<Rightarrow> (take i s, drop (i + length p) s, True))"

text \<open>\<open>strings.Contains\<close> on a single byte is membership.\<close>

lemma contains_char: "contains s [c] \<longleftrightarrow> c \<in> set s"
  by (induction s) (auto simp: contains_def)

lemma index_of_char: "index_of s [c] = (if c \<in> set s then Some (length (takeWhile (\<lambda>x. x \<noteq> c) s)) else None)"
  by (induction s) auto

section \<open>Splitting and joining\<close>

text \<open>\<open>strings.Split\<close> at a single byte and \<open>strings.Join\<close>.\<close>

fun split_on :: "char \<Rightarrow> string \<Rightarrow> string list" where
  "split_on c [] = [[]]"
| "split_on c (x # xs) =
     (if x = c then [] # split_on c xs
      else case split_on c xs of [] \<Rightarrow> [[x]] | y # ys \<Rightarrow> (x # y) # ys)"

fun join :: "string \<Rightarrow> string list \<Rightarrow> string" where
  "join sep [] = []"
| "join sep [x] = x"
| "join sep (x # y # ys) = x @ sep @ join sep (y # ys)"

lemma split_on_ne [simp]: "split_on c s \<noteq> []"
  by (cases s) (auto split: list.splits)

lemma join_Cons: "xs \<noteq> [] \<Longrightarrow> join sep (x # xs) = x @ sep @ join sep xs"
  by (cases xs) auto

lemma join_split_on [simp]: "join [c] (split_on c s) = s"
proof (induction c s rule: split_on.induct)
  case (2 c x xs)
  obtain y ys where y: "split_on c xs = y # ys" using split_on_ne [of c xs] by (meson neq_Nil_conv)
  with 2 show ?case by (cases ys) (auto simp: join_Cons)
qed simp

lemma split_on_parts: "p \<in> set (split_on c s) \<Longrightarrow> c \<notin> set p"
proof (induction c s arbitrary: p rule: split_on.induct)
  case (2 c x xs)
  obtain y ys where y: "split_on c xs = y # ys" using split_on_ne [of c xs] by (meson neq_Nil_conv)
  with 2 show ?case by (cases "x = c") auto
qed simp

lemma split_on_sub: "p \<in> set (split_on c s) \<Longrightarrow> set p \<subseteq> set s"
proof (induction c s arbitrary: p rule: split_on.induct)
  case (2 c x xs)
  obtain y ys where y: "split_on c xs = y # ys" using split_on_ne [of c xs] by (meson neq_Nil_conv)
  show ?case
  proof (cases "x = c")
    case True
    with 2 show ?thesis by auto
  next
    case False
    then have "\<And>q. q \<in> set (y # ys) \<Longrightarrow> set q \<subseteq> set xs" using 2(2) y by metis
    with False y 2(3) show ?thesis by auto blast
  qed
qed simp

lemma split_on_no_sep: "c \<notin> set s \<Longrightarrow> split_on c s = [s]"
  by (induction c s rule: split_on.induct) auto

lemma split_on_append: "c \<notin> set s \<Longrightarrow> split_on c (s @ c # t) = s # split_on c t"
  by (induction s) auto

lemma split_on_join:
  "ps \<noteq> [] \<Longrightarrow> \<forall>p \<in> set ps. c \<notin> set p \<Longrightarrow> split_on c (join [c] ps) = ps"
proof (induction ps)
  case (Cons p ps)
  then show ?case by (cases ps) (auto simp: split_on_no_sep split_on_append)
qed simp

text \<open>The lines of an output.\<close>

abbreviation lines_of :: "string \<Rightarrow> string list" where
  "lines_of s \<equiv> split_on NL s"

text \<open>\<open>strings.ReplaceAll\<close> of a single byte.\<close>

definition replace_char :: "char \<Rightarrow> string \<Rightarrow> string \<Rightarrow> string" where
  "replace_char c r s = concat (map (\<lambda>x. if x = c then r else [x]) s)"

lemma replace_char_simps [simp]:
  "replace_char c r [] = []"
  "replace_char c r (x # s) = (if x = c then r else [x]) @ replace_char c r s"
  by (simp_all add: replace_char_def)

section \<open>Fields\<close>

text \<open>\<open>strings.Fields\<close>: the maximal runs of non-spaces.\<close>

fun span_word :: "string \<Rightarrow> string \<times> string" where
  "span_word [] = ([], [])"
| "span_word (c # cs) =
     (if space_len (c # cs) \<noteq> 0 then ([], c # cs)
      else (case span_word cs of (w, r) \<Rightarrow> (c # w, r)))"

lemma span_word_length: "length (snd (span_word s)) \<le> length s"
  by (induction s rule: span_word.induct) (auto split: prod.splits)

lemma span_word_append: "fst (span_word s) @ snd (span_word s) = s"
  by (induction s rule: span_word.induct) (auto split: prod.splits)

lemma length_trim_left: "length (trim_left s) \<le> length s"
  by (rule suffix_length_le [OF trim_left_suffix])

lemma span_word_shorter:
  assumes "trim_left s \<noteq> []"
  shows "length (snd (span_word (trim_left s))) < length s"
proof -
  obtain c cs where c: "trim_left s = c # cs" using assms by (meson neq_Nil_conv)
  have "space_len (c # cs) = 0" using c space_len_trim_left [of s] by simp
  then have "length (snd (span_word (c # cs))) \<le> length cs"
    using span_word_length [of cs] by (auto split: prod.splits)
  also have "\<dots> < length s" using c length_trim_left [of s] by simp
  finally show ?thesis by (simp only: c)
qed

function go_fields :: "string \<Rightarrow> string list" where
  "go_fields s =
     (if trim_left s = [] then []
      else fst (span_word (trim_left s)) # go_fields (snd (span_word (trim_left s))))"
  by pat_completeness auto
termination
  by (relation "measure length") (simp_all add: span_word_shorter)

declare go_fields.simps [simp del]
lemmas [go_simps] = go_fields.simps

lemma go_fields_word_ne:
  assumes "w \<in> set (go_fields s)" shows "w \<noteq> []"
  using assms
proof (induction s rule: go_fields.induct)
  case (1 s)
  show ?case
  proof (cases "trim_left s = []")
    case True
    with 1 show ?thesis by (simp add: go_fields.simps [of s])
  next
    case False
    then obtain c cs where c: "trim_left s = c # cs" by (meson neq_Nil_conv)
    then have "space_len (c # cs) = 0" using space_len_trim_left [of s] by simp
    then have "fst (span_word (trim_left s)) \<noteq> []" by (simp add: c split: prod.splits)
    with 1 False show ?thesis by (auto simp: go_fields.simps [of s])
  qed
qed

text \<open>A field contains no space, so it is its own trim.\<close>

lemma span_word_no_space: "i < length (fst (span_word s)) \<Longrightarrow> space_len (drop i s) = 0"
proof (induction s arbitrary: i rule: span_word.induct)
  case (2 c cs)
  then show ?case by (cases i) (auto split: prod.splits if_splits)
qed simp

lemma trim_span_word: "trim_space (fst (span_word s)) = fst (span_word s)"
proof -
  define w where "w = fst (span_word s)"
  obtain r where s: "s = w @ r" using span_word_append [of s] w_def by metis
  have none: "\<not> prefix p (drop i w)" if "i < length w" "p \<in> set space_seqs" for i p
  proof
    assume "prefix p (drop i w)"
    then have "prefix p (drop i s)" using s that(1) by (simp add: prefix_prefix)
    then have "space_len (drop i s) \<noteq> 0" using that(2) by (auto simp: space_len_eq_0)
    then show False using span_word_no_space [of i s] that(1) w_def by simp
  qed
  have "space_len w = 0"
    using none [of 0] space_seqs_nonempty by (cases "w = []") (auto simp: space_len_eq_0)
  moreover have "\<not> prefix (rev p) (rev w)" if p: "p \<in> set space_seqs" for p
  proof
    assume "prefix (rev p) (rev w)"
    then obtain u where u: "w = u @ p" by (metis prefix_def rev_append rev_rev_ident)
    then have "length u < length w" using space_seqs_nonempty [OF p] by simp
    from none [OF this p] u show False by simp
  qed
  ultimately have "trim_space w = w" by (intro trim_space_id) (auto simp: space_len_rev_eq_0)
  then show ?thesis by (simp add: w_def)
qed

lemma trim_go_field: "w \<in> set (go_fields s) \<Longrightarrow> trim_space w = w"
proof (induction s rule: go_fields.induct)
  case (1 s)
  then show ?case
    by (cases "trim_left s = []") (auto simp: go_fields.simps [of s] trim_span_word)
qed

section \<open>Trimming other bytes\<close>

text \<open>\<open>strings.TrimRight\<close>, \<open>TrimLeft\<close> and \<open>Trim\<close> with a set of ASCII bytes.\<close>

definition trim_right_of :: "string \<Rightarrow> string \<Rightarrow> string" where
  "trim_right_of s cs = rev (dropWhile (\<lambda>c. c \<in> set cs) (rev s))"

definition trim_left_of :: "string \<Rightarrow> string \<Rightarrow> string" where
  "trim_left_of s cs = dropWhile (\<lambda>c. c \<in> set cs) s"

definition trim_of :: "string \<Rightarrow> string \<Rightarrow> string" where
  "trim_of s cs = trim_right_of (trim_left_of s cs) cs"

section \<open>Runes\<close>

text \<open>
  \<open>[]rune(s)\<close>: the UTF-8 sequences of a string. A byte that starts no well-formed sequence is a
  rune of its own, U+FFFD, as Go decodes it. \<open>rune_len\<close> is the width of the first rune, 0 when the
  first byte is invalid.
\<close>

definition cont :: "nat \<Rightarrow> bool" where
  "cont b \<longleftrightarrow> 128 \<le> b \<and> b \<le> 191"

definition rune_len :: "string \<Rightarrow> nat" where
  "rune_len s =
     (let b = (\<lambda>i. if i < length s then byte_of (s ! i) else 0) in
      if b 0 < 128 then 1
      else if 194 \<le> b 0 \<and> b 0 \<le> 223 \<and> cont (b 1) then 2
      else if 224 \<le> b 0 \<and> b 0 \<le> 239 \<and> cont (b 1) \<and> cont (b 2) \<and>
              (b 0 = 224 \<longrightarrow> 160 \<le> b 1) \<and> (b 0 = 237 \<longrightarrow> b 1 \<le> 159) then 3
      else if 240 \<le> b 0 \<and> b 0 \<le> 244 \<and> cont (b 1) \<and> cont (b 2) \<and> cont (b 3) \<and>
              (b 0 = 240 \<longrightarrow> 144 \<le> b 1) \<and> (b 0 = 244 \<longrightarrow> b 1 \<le> 143) then 4
      else 0)"

definition replacement_rune :: string where
  "replacement_rune = [CHR 0xEF, CHR 0xBF, CHR 0xBD]"

function runes :: "string \<Rightarrow> string list" where
  "runes s =
     (if s = [] then []
      else if rune_len s = 0 then replacement_rune # runes (drop 1 s)
      else take (rune_len s) s # runes (drop (rune_len s) s))"
  by pat_completeness auto
termination
  by (relation "measure length") (auto simp: neq_Nil_conv)

declare runes.simps [simp del]
lemmas [go_simps] = runes.simps

lemma runes_Nil [simp]: "runes [] = []"
  by (simp add: runes.simps)

lemma runes_ascii: "\<forall>c \<in> set s. byte_of c < 128 \<Longrightarrow> runes s = map (\<lambda>c. [c]) s"
proof (induction s)
  case (Cons c s)
  then show ?case by (subst runes.simps) (simp add: rune_len_def Let_def)
qed simp

lemma length_runes_le: "length (runes s) \<le> length s"
proof (induction s rule: runes.induct)
  case (1 s)
  show ?case
  proof (cases "s = []")
    case False
    then have "0 < length s" by simp
    with 1 False show ?thesis
      by (cases "rune_len s = 0") (auto simp: runes.simps [of s] Suc_le_eq intro: le_less_trans)
  qed simp
qed

section \<open>Decimal numbers\<close>

definition digit_char :: "nat \<Rightarrow> char" where
  "digit_char n = char_of (n + 48)"

definition digit_val :: "char \<Rightarrow> nat" where
  "digit_val c = byte_of c - 48"

fun digits :: "nat \<Rightarrow> string" where
  "digits n = (if n < 10 then [digit_char n] else digits (n div 10) @ [digit_char (n mod 10)])"

declare digits.simps [simp del]
lemmas [go_simps] = digits.simps

text \<open>\<open>strconv.Itoa\<close>.\<close>

definition itoa :: "int \<Rightarrow> string" where
  "itoa i = (if i < 0 then CHR ''-'' # digits (nat (- i)) else digits (nat i))"

definition digits_val :: "string \<Rightarrow> nat" where
  "digits_val s = foldl (\<lambda>n c. 10 * n + digit_val c) 0 s"

definition int64_range :: "int \<Rightarrow> bool" where
  "int64_range i \<longleftrightarrow> - (2 ^ 63) \<le> i \<and> i < 2 ^ 63"

text \<open>\<open>strconv.Atoi\<close>: \<open>None\<close> stands for its error, whatever the value returned beside it.\<close>

definition atoi :: "string \<Rightarrow> int option" where
  "atoi s =
     (let neg = prefix ''-'' s;
          ds = (if neg \<or> prefix ''+'' s then tl s else s);
          v = (if neg then - int (digits_val ds) else int (digits_val ds))
      in if ds \<noteq> [] \<and> list_all is_digit ds \<and> int64_range v then Some v else None)"

text \<open>The value \<open>strconv.Atoi\<close> returns when its error is ignored: 0 for bad syntax, clamped when out of range.\<close>

definition atoi_value :: "string \<Rightarrow> int" where
  "atoi_value s =
     (let neg = prefix ''-'' s;
          ds = (if neg \<or> prefix ''+'' s then tl s else s);
          v = (if neg then - int (digits_val ds) else int (digits_val ds))
      in if ds = [] \<or> \<not> list_all is_digit ds then 0
         else if v > 2 ^ 63 - 1 then 2 ^ 63 - 1
         else if v < - (2 ^ 63) then - (2 ^ 63) else v)"

text \<open>\<open>strings.SplitN(s, sep, n)\<close> at a single byte, for \<open>n > 0\<close>.\<close>

fun split_n :: "nat \<Rightarrow> char \<Rightarrow> string \<Rightarrow> string list" where
  "split_n 0 c s = []"
| "split_n (Suc 0) c s = [s]"
| "split_n (Suc (Suc n)) c s =
     (if c \<in> set s
      then takeWhile (\<lambda>x. x \<noteq> c) s # split_n (Suc n) c (tl (dropWhile (\<lambda>x. x \<noteq> c) s))
      else [s])"

lemma split_n_cons: "c \<notin> set x \<Longrightarrow> split_n (Suc (Suc n)) c (x @ c # s) = x # split_n (Suc n) c s"
  by (simp add: takeWhile_append dropWhile_append)

lemma digit_char_is_digit [simp]: "n < 10 \<Longrightarrow> is_digit (digit_char n)"
  by (simp add: is_digit_def digit_char_def byte_of_def)

lemma digit_val_char [simp]: "n < 10 \<Longrightarrow> digit_val (digit_char n) = n"
  by (simp add: digit_val_def digit_char_def byte_of_def)

lemma digits_ne [simp]: "digits n \<noteq> []"
  by (simp add: digits.simps [of n])

lemma digits_all: "list_all is_digit (digits n)"
  by (induction n rule: digits.induct) (simp add: digits.simps)

lemma digits_val_snoc: "digits_val (s @ [c]) = 10 * digits_val s + digit_val c"
  by (simp add: digits_val_def)

lemma digits_val_digits [simp]: "digits_val (digits n) = n"
proof (induction n rule: digits.induct)
  case (1 n)
  then show ?case
    by (cases "n < 10") (simp_all add: digits.simps [of n] digits_val_snoc, simp add: digits_val_def)
qed

lemma is_digit_not_sign: "is_digit c \<Longrightarrow> c \<noteq> CHR ''-'' \<and> c \<noteq> CHR ''+''"
  by (auto simp: is_digit_def byte_of_def)

lemma digits_no_sign: "\<not> prefix ''-'' (digits n) \<and> \<not> prefix ''+'' (digits n)"
  using digits_all [of n] digits_ne [of n] is_digit_not_sign
  by (cases "digits n") (auto simp: list_all_iff)

lemma atoi_itoa: "int64_range i \<Longrightarrow> atoi (itoa i) = Some i"
  using digits_no_sign [of "nat i"]
  by (auto simp: atoi_def itoa_def Let_def digits_all)

lemma atoi_value_itoa: "int64_range i \<Longrightarrow> atoi_value (itoa i) = i"
  using digits_no_sign [of "nat i"]
  by (auto simp: atoi_value_def itoa_def Let_def digits_all int64_range_def)

lemma itoa_inj: "int64_range i \<Longrightarrow> int64_range j \<Longrightarrow> itoa i = itoa j \<Longrightarrow> i = j"
  using atoi_itoa by (metis option.inject)

lemma digit_not_space: "is_digit c \<Longrightarrow> plain_char c"
  by (auto simp: is_digit_def plain_char_def ascii_space_def byte_of_def)

lemma trim_space_digits: "list_all is_digit s \<Longrightarrow> trim_space s = s"
  by (rule trim_space_plain) (auto simp: list_all_iff digit_not_space)

lemma length_digits: "0 < k \<Longrightarrow> n < 10 ^ k \<Longrightarrow> length (digits n) \<le> k"
proof (induction k arbitrary: n)
  case (Suc k)
  show ?case
  proof (cases "n < 10")
    case True
    then show ?thesis by (simp add: digits.simps [of n])
  next
    case False
    then have "0 < k" using Suc.prems(2) by (cases k) auto
    moreover have "n div 10 < 10 ^ k" using Suc.prems(2) by (simp add: div_less_iff_less_mult mult.commute)
    ultimately show ?thesis using Suc.IH [of "n div 10"] False by (simp add: digits.simps [of n])
  qed
qed simp

text \<open>An integer field printed in a message.\<close>

abbreviation itoan :: "nat \<Rightarrow> string" where
  "itoan n \<equiv> itoa (int n)"

end
