(* ===== verification/RestartPolicy.thy ===== *)
theory RestartPolicy
  imports GoStrings "HOL-Library.Multiset"
begin

text \<open>
  \<open>internal/restartpolicy\<close>: which services may be restarted in place and which need a reboot.
  Every function of the package is here. The maps \<open>handlers\<close> and \<open>resistant\<close> are read with
  Go's default for an absent key, so they are functions to \<open>bool\<close>.
\<close>

section \<open>The unit tables\<close>

definition norm_unit :: "string \<Rightarrow> string" where
  "norm_unit s = to_lower (trim_space s)"

definition dbus_units :: "string list" where
  "dbus_units = [''dbus'', ''dbus.service'', ''dbus.socket'', ''dbus-broker'', ''dbus-broker.service'']"

definition is_dbus_family :: "string \<Rightarrow> bool" where
  "is_dbus_family svc \<longleftrightarrow> norm_unit svc \<in> set dbus_units"

definition is_known_reboot_only :: "string \<Rightarrow> bool" where
  "is_known_reboot_only svc \<longleftrightarrow> norm_unit svc \<in> set [''containerd'', ''containerd.service'']"

definition is_risky :: "string \<Rightarrow> bool" where
  "is_risky svc \<longleftrightarrow>
     (if is_dbus_family svc then True
      else norm_unit svc \<in> set [''systemd-logind'', ''systemd-logind.service''])"

definition is_disruptive :: "string \<Rightarrow> bool" where
  "is_disruptive svc \<longleftrightarrow>
     (if is_risky svc then True
      else norm_unit svc \<in> set
        [''docker'', ''docker.service'', ''containerd'', ''containerd.service'',
         ''ssh'', ''ssh.service'', ''sshd'', ''sshd.service'',
         ''systemd-networkd'', ''systemd-networkd.service'',
         ''networkmanager'', ''networkmanager.service'',
         ''networking'', ''networking.service'',
         ''systemd-resolved'', ''systemd-resolved.service'',
         ''tailscaled'', ''tailscaled.service'', ''wg-quick@wg0.service''])"

section \<open>Classify\<close>

fun classify :: "string list \<Rightarrow> (string \<Rightarrow> bool) \<Rightarrow> (string \<Rightarrow> bool) \<Rightarrow> string list \<times> string list" where
  "classify [] handlers resistant = ([], [])"
| "classify (s # ss) handlers resistant =
     (case classify ss handlers resistant of (restartable, reboot_only) \<Rightarrow>
        if resistant s then (restartable, s # reboot_only)
        else if (is_dbus_family s \<or> is_known_reboot_only s) \<and> \<not> handlers s
        then (restartable, s # reboot_only)
        else (s # restartable, reboot_only))"

section \<open>The contract of a classification\<close>

text \<open>
  The database layer and the views only rely on this interface: every flagged unit lands in
  exactly one of two buckets, in the order in which it was reported, and the choice for one unit
  depends on nothing but that unit.
\<close>

locale bucketing =
  fixes bucket :: "string list \<Rightarrow> (string \<Rightarrow> bool) \<Rightarrow> (string \<Rightarrow> bool) \<Rightarrow> string list \<times> string list"
    and reboot :: "(string \<Rightarrow> bool) \<Rightarrow> (string \<Rightarrow> bool) \<Rightarrow> string \<Rightarrow> bool"
  assumes bucket_fst: "fst (bucket ss h r) = filter (\<lambda>s. \<not> reboot h r s) ss"
    and bucket_snd: "snd (bucket ss h r) = filter (reboot h r) ss"
    and reboot_resistant: "r s \<Longrightarrow> reboot h r s"
    and reboot_mono: "reboot h r s \<Longrightarrow> (r s \<Longrightarrow> r' s) \<Longrightarrow> (h' s \<Longrightarrow> h s) \<Longrightarrow> reboot h' r' s"
begin

lemma bucket_mset: "mset (fst (bucket ss h r)) + mset (snd (bucket ss h r)) = mset ss"
  by (simp add: bucket_fst bucket_snd)

lemma bucket_disjoint: "set (fst (bucket ss h r)) \<inter> set (snd (bucket ss h r)) = {}"
  by (auto simp: bucket_fst bucket_snd)

lemma bucket_union: "set (fst (bucket ss h r)) \<union> set (snd (bucket ss h r)) = set ss"
  by (auto simp: bucket_fst bucket_snd)

lemma bucket_append:
  "bucket (ss @ ts) h r =
     (fst (bucket ss h r) @ fst (bucket ts h r), snd (bucket ss h r) @ snd (bucket ts h r))"
  by (rule prod_eqI) (simp_all add: bucket_fst bucket_snd)

lemma bucket_resistant: "r s \<Longrightarrow> s \<notin> set (fst (bucket ss h r))"
  using reboot_resistant by (auto simp: bucket_fst)

text \<open>A unit that was learned to be resistant never becomes restartable by learning more.\<close>

lemma bucket_learn:
  "(\<And>s. r s \<Longrightarrow> r' s) \<Longrightarrow> set (fst (bucket ss h r')) \<subseteq> set (fst (bucket ss h r))"
  using reboot_mono [of h r _ r' h] by (auto simp: bucket_fst)

text \<open>What is restartable with fewer handlers is restartable with more.\<close>

lemma bucket_handlers:
  "(\<And>s. h s \<Longrightarrow> h' s) \<Longrightarrow> set (fst (bucket ss h r)) \<subseteq> set (fst (bucket ss h' r))"
  using reboot_mono [of h' r _ r h] by (auto simp: bucket_fst)

end

definition needs_reboot :: "(string \<Rightarrow> bool) \<Rightarrow> (string \<Rightarrow> bool) \<Rightarrow> string \<Rightarrow> bool" where
  "needs_reboot h r s \<longleftrightarrow> r s \<or> (is_dbus_family s \<or> is_known_reboot_only s) \<and> \<not> h s"

lemma classify_filter:
  "classify ss h r = (filter (\<lambda>s. \<not> needs_reboot h r s) ss, filter (needs_reboot h r) ss)"
  by (induction ss) (auto simp: needs_reboot_def)

interpretation cls: bucketing classify needs_reboot
  by unfold_locales (auto simp: classify_filter needs_reboot_def)

section \<open>Properties\<close>

text \<open>
  Classify loses and duplicates nothing: the restartable and the reboot-only units together are
  exactly the flagged units, with multiplicities, and no unit is in both lists.\<close>

theorem classify_partition:
  "mset (fst (classify ss h r)) + mset (snd (classify ss h r)) = mset ss \<and>
   set (fst (classify ss h r)) \<inter> set (snd (classify ss h r)) = {}"
  using cls.bucket_mset cls.bucket_disjoint by simp

text \<open>
  The lockout guard: a unit Classify calls restartable is not learned-resistant, and when it is the
  D-Bus bus under any spelling or a known kernel-coupled unit the host has a handler for it.\<close>

theorem classify_restartable_safe:
  assumes "s \<in> set (fst (classify ss h r))"
  shows "\<not> r s \<and> (norm_unit s \<in> set dbus_units \<or> is_known_reboot_only s \<longrightarrow> h s)"
  using assms by (auto simp: classify_filter needs_reboot_def is_dbus_family_def)

theorem classify_restartable_safe_witness:
  "'' DBus.Service'' \<in> set (fst (classify ['' DBus.Service'', ''dbus''] (\<lambda>s. s \<noteq> ''dbus'') (\<lambda>_. False))) \<and>
   norm_unit '' DBus.Service'' \<in> set dbus_units \<and> '' DBus.Service'' \<noteq> ''dbus''"
proof -
  have m: "'' DBus.Service'' \<in> set (fst (classify ['' DBus.Service'', ''dbus''] (\<lambda>s. s \<noteq> ''dbus'') (\<lambda>_. False)))"
    by simp
  have n: "norm_unit '' DBus.Service'' \<in> set dbus_units" by code_simp
  from classify_restartable_safe [OF m] n have "'' DBus.Service'' \<noteq> ''dbus''" by blast
  with m n show ?thesis by blast
qed

lemma risky_disruptive: "is_risky s \<Longrightarrow> is_disruptive s"
  by (simp add: is_disruptive_def)

lemma dbus_risky: "is_dbus_family s \<Longrightarrow> is_risky s"
  by (simp add: is_risky_def)

lemma norm_unit_trim [simp]: "norm_unit (trim_space s) = norm_unit s"
  by (simp add: norm_unit_def)

end
