(* ===== verification/Cron.thy ===== *)
theory Cron
  imports GoStrings
begin

text \<open>
  The two halves of the schedule language. \<open>cmd/server/main.go\<close> validates an expression when a
  job is saved (\<open>validateCronExpression\<close>); \<open>internal/scheduler/scheduler.go\<close> matches it against
  the wall clock once a minute (\<open>cronMatches\<close>) and predicts the next firing (\<open>NextRun\<close>). The two
  files parse the language separately, each with its own copy of \<open>isCronMacro\<close> and
  \<open>cronValueToInt\<close>; both copies are modelled, the server's under the prefix \<open>v_\<close>.

  An instant is its number of nanoseconds since an epoch that is a whole minute; the time zone is
  a parameter \<open>loc\<close> that reads the wall clock at an instant.
\<close>

section \<open>The scheduler's matcher\<close>

record civil =
  c_minute :: int
  c_hour :: int
  c_day :: int
  c_month :: int
  c_weekday :: int

definition is_cron_macro :: "string \<Rightarrow> bool" where
  "is_cron_macro expr \<longleftrightarrow> to_lower (trim_space expr) \<in> set
     [''@yearly'', ''@annually'', ''@monthly'', ''@weekly'', ''@daily'', ''@midnight'', ''@hourly'']"

definition expand_macro :: "string \<Rightarrow> string" where
  "expand_macro expr =
     (let m = to_lower (trim_space expr) in
      if m \<in> set [''@yearly'', ''@annually''] then ''0 0 1 1 *''
      else if m = ''@monthly'' then ''0 0 1 * *''
      else if m = ''@weekly'' then ''0 0 * * 0''
      else if m \<in> set [''@daily'', ''@midnight''] then ''0 0 * * *''
      else if m = ''@hourly'' then ''0 * * * *''
      else expr)"

definition cron_value_to_int :: "string \<Rightarrow> string \<Rightarrow> int option" where
  "cron_value_to_int value label =
     (let v = to_lower (trim_space value) in
      case atoi v of
        Some n \<Rightarrow> Some n
      | None \<Rightarrow>
          if label = ''month'' then
            map_of
              [(''jan'', 1), (''january'', 1), (''feb'', 2), (''february'', 2), (''mar'', 3), (''march'', 3),
               (''apr'', 4), (''april'', 4), (''may'', 5), (''jun'', 6), (''june'', 6), (''jul'', 7), (''july'', 7),
               (''aug'', 8), (''august'', 8), (''sep'', 9), (''september'', 9), (''oct'', 10), (''october'', 10),
               (''nov'', 11), (''november'', 11), (''dec'', 12), (''december'', 12)] v
          else if label = ''weekday'' then
            map_of
              [(''sun'', 0), (''sunday'', 0), (''mon'', 1), (''monday'', 1), (''tue'', 2), (''tuesday'', 2),
               (''wed'', 3), (''wednesday'', 3), (''thu'', 4), (''thursday'', 4), (''fri'', 5), (''friday'', 5),
               (''sat'', 6), (''saturday'', 6)] v
          else None)"

text \<open>
  \<open>segmentMatches\<close>. The step is read first; a bad step, a bad bound or a value outside the limits
  makes the segment match nothing.
\<close>

definition segment_step :: "string \<Rightarrow> (bool \<times> int) option" where
  "segment_step segment =
     (case cut segment ''/'' of (base, step_text, has_step) \<Rightarrow>
        if has_step then
          (case atoi step_text of
             None \<Rightarrow> None
           | Some n \<Rightarrow> if n < 1 then None else Some (True, n))
        else Some (False, 1))"

definition segment_base :: "string \<Rightarrow> int \<Rightarrow> string \<Rightarrow> int \<Rightarrow> int \<Rightarrow> (bool \<times> int) option" where
  "segment_base base value label lim_lo lim_hi =
     (if base = ''*'' then Some (True, lim_lo)
      else if contains base ''-'' then
        (case cut base ''-'' of (lo_text, hi_text, ok) \<Rightarrow>
           if \<not> ok then None
           else
             (case (cron_value_to_int lo_text label, cron_value_to_int hi_text label) of
                (Some lo, Some hi) \<Rightarrow>
                  if lo < lim_lo \<or> hi > lim_hi \<or> lo > hi then None
                  else Some (value \<ge> lo \<and> value \<le> hi, lo)
              | _ \<Rightarrow> None))
      else
        (case cron_value_to_int base label of
           None \<Rightarrow> None
         | Some n \<Rightarrow> if n < lim_lo \<or> n > lim_hi then None else Some (value = n, n)))"

definition segment_matches :: "string \<Rightarrow> int \<Rightarrow> string \<Rightarrow> int \<Rightarrow> int \<Rightarrow> bool" where
  "segment_matches segment value label lim_lo lim_hi =
     (case segment_step segment of
        None \<Rightarrow> False
      | Some (has_step, step) \<Rightarrow>
          (case segment_base (fst (cut segment ''/'')) value label lim_lo lim_hi of
             None \<Rightarrow> False
           | Some (matches_base, start) \<Rightarrow>
               if \<not> matches_base then False
               else if \<not> has_step then True
               else if value < start then False
               else (value - start) mod step = 0))"

fun segments_match :: "string list \<Rightarrow> int \<Rightarrow> string \<Rightarrow> int \<Rightarrow> int \<Rightarrow> bool" where
  "segments_match [] value label lim_lo lim_hi = False"
| "segments_match (seg # segs) value label lim_lo lim_hi =
     (if trim_space seg = [] then False
      else if segment_matches (trim_space seg) value label lim_lo lim_hi then True
      else segments_match segs value label lim_lo lim_hi)"

definition field_matches :: "string \<Rightarrow> int \<Rightarrow> string \<Rightarrow> int \<Rightarrow> int \<Rightarrow> bool" where
  "field_matches field value label lim_lo lim_hi =
     segments_match (split_on (CHR '','') field) value label lim_lo lim_hi"

definition weekday_field_matches :: "string \<Rightarrow> int \<Rightarrow> bool" where
  "weekday_field_matches field wd =
     (if field_matches field wd ''weekday'' 0 7 then True
      else if wd = 0 \<and> field_matches field 7 ''weekday'' 0 7 then True
      else False)"

definition parts_match :: "string list \<Rightarrow> civil \<Rightarrow> bool" where
  "parts_match parts now =
     (if length parts \<noteq> 5 then False
      else if \<not> field_matches (parts ! 0) (c_minute now) ''minute'' 0 59 then False
      else if \<not> field_matches (parts ! 1) (c_hour now) ''hour'' 0 23 then False
      else if \<not> field_matches (parts ! 3) (c_month now) ''month'' 1 12 then False
      else
        (let dom = trim_space (parts ! 2);
             dow = trim_space (parts ! 4);
             dom_match = field_matches dom (c_day now) ''day'' 1 31;
             dow_match = weekday_field_matches dow (c_weekday now)
         in if dom \<noteq> ''*'' \<and> dow \<noteq> ''*'' then dom_match \<or> dow_match
            else dom_match \<and> dow_match))"

definition cron_matches :: "string \<Rightarrow> civil \<Rightarrow> bool" where
  "cron_matches expr now =
     (let e = trim_space expr in
      if e = [] then False
      else parts_match (go_fields (if is_cron_macro e then expand_macro e else e)) now)"

section \<open>NextRun\<close>

definition minute_ns :: int where
  "minute_ns = 60 * 1000000000"

definition next_run_window :: nat where
  "next_run_window = 366 * 24 * 60"

fun scan_minutes :: "nat \<Rightarrow> string \<Rightarrow> (int \<Rightarrow> civil) \<Rightarrow> int \<Rightarrow> int option" where
  "scan_minutes 0 expr loc t = None"
| "scan_minutes (Suc n) expr loc t =
     (if cron_matches expr (loc t) then Some t
      else scan_minutes n expr loc (t + minute_ns))"

definition truncate_minute :: "int \<Rightarrow> int" where
  "truncate_minute t = t - t mod minute_ns"

definition next_run :: "string \<Rightarrow> (int \<Rightarrow> civil) \<Rightarrow> int \<Rightarrow> int option" where
  "next_run expr loc from =
     (if trim_space expr = [] then None
      else scan_minutes next_run_window expr loc (truncate_minute from + minute_ns))"

section \<open>The server's validator\<close>

definition v_is_cron_macro :: "string \<Rightarrow> bool" where
  "v_is_cron_macro expr \<longleftrightarrow> to_lower (trim_space expr) \<in> set
     [''@yearly'', ''@annually'', ''@monthly'', ''@weekly'', ''@daily'', ''@midnight'', ''@hourly'']"

definition v_cron_value_to_int :: "string \<Rightarrow> string \<Rightarrow> int option" where
  "v_cron_value_to_int value label =
     (let v = to_lower (trim_space value) in
      case atoi v of
        Some n \<Rightarrow> Some n
      | None \<Rightarrow>
          if label = ''month'' then
            map_of
              [(''jan'', 1), (''january'', 1), (''feb'', 2), (''february'', 2), (''mar'', 3), (''march'', 3),
               (''apr'', 4), (''april'', 4), (''may'', 5), (''jun'', 6), (''june'', 6), (''jul'', 7), (''july'', 7),
               (''aug'', 8), (''august'', 8), (''sep'', 9), (''september'', 9), (''oct'', 10), (''october'', 10),
               (''nov'', 11), (''november'', 11), (''dec'', 12), (''december'', 12)] v
          else if label = ''weekday'' then
            map_of
              [(''sun'', 0), (''sunday'', 0), (''mon'', 1), (''monday'', 1), (''tue'', 2), (''tuesday'', 2),
               (''wed'', 3), (''wednesday'', 3), (''thu'', 4), (''thursday'', 4), (''fri'', 5), (''friday'', 5),
               (''sat'', 6), (''saturday'', 6)] v
          else None)"

text \<open>One segment of \<open>validateCronField\<close>: \<open>None\<close> where the loop continues, the error otherwise.\<close>

definition validate_segment :: "string \<Rightarrow> int \<Rightarrow> int \<Rightarrow> string \<Rightarrow> string option" where
  "validate_segment seg lim_lo lim_hi label =
     (if seg = [] then Some ''empty segment''
      else if seg = ''*'' then None
      else
        (case cut seg ''/'' of (base, step, has_step) \<Rightarrow>
           if has_step \<and> (case atoi step of None \<Rightarrow> True | Some n \<Rightarrow> n < 1)
           then Some ''step must be a positive integer''
           else if base = ''*'' then None
           else if contains base ''-'' then
             (case cut base ''-'' of (lo_text, hi_text, ok) \<Rightarrow>
                if \<not> ok then Some ''invalid range''
                else
                  (case (v_cron_value_to_int lo_text label, v_cron_value_to_int hi_text label) of
                     (Some lo, Some hi) \<Rightarrow>
                       if lo > hi then Some ''range start cannot be greater than range end''
                       else if lo < lim_lo \<or> hi > lim_hi
                       then Some (''range must be between '' @ itoa lim_lo @ '' and '' @ itoa lim_hi)
                       else None
                   | _ \<Rightarrow> Some ''range bounds must be integers or valid names''))
           else
             (case v_cron_value_to_int base label of
                None \<Rightarrow> Some ''value must be an integer, *, range, step, or valid name''
              | Some val \<Rightarrow>
                  if val < lim_lo \<or> val > lim_hi
                  then Some (''value must be between '' @ itoa lim_lo @ '' and '' @ itoa lim_hi)
                  else None)))"

fun validate_segments :: "string list \<Rightarrow> int \<Rightarrow> int \<Rightarrow> string \<Rightarrow> string option" where
  "validate_segments [] lim_lo lim_hi label = None"
| "validate_segments (seg # segs) lim_lo lim_hi label =
     (case validate_segment (trim_space seg) lim_lo lim_hi label of
        Some err \<Rightarrow> Some err
      | None \<Rightarrow> validate_segments segs lim_lo lim_hi label)"

definition validate_cron_field :: "string \<Rightarrow> int \<Rightarrow> int \<Rightarrow> string \<Rightarrow> string option" where
  "validate_cron_field field lim_lo lim_hi label =
     validate_segments (split_on (CHR '','') field) lim_lo lim_hi label"

definition cron_limits :: "(int \<times> int \<times> string) list" where
  "cron_limits = [(0, 59, ''minute''), (0, 23, ''hour''), (1, 31, ''day''), (1, 12, ''month''), (0, 7, ''weekday'')]"

fun validate_fields :: "string list \<Rightarrow> (int \<times> int \<times> string) list \<Rightarrow> string" where
  "validate_fields (f # fs) ((lo, hi, label) # ls) =
     (case validate_cron_field f lo hi label of
        Some err \<Rightarrow> ''invalid '' @ label @ '' field: '' @ err
      | None \<Rightarrow> validate_fields fs ls)"
| "validate_fields _ _ = []"

definition validate_cron_expression :: "string \<Rightarrow> string" where
  "validate_cron_expression expr =
     (let e = trim_space expr in
      if v_is_cron_macro e then []
      else if length (go_fields e) \<noteq> 5 then
        ''cron_expr must contain 5 fields (minute hour day month weekday) or a macro like @daily''
      else validate_fields (go_fields e) cron_limits)"

section \<open>The two copies agree\<close>

lemma v_is_cron_macro_eq: "v_is_cron_macro = is_cron_macro"
  by (rule ext) (simp add: v_is_cron_macro_def is_cron_macro_def)

lemma v_cron_value_to_int_eq: "v_cron_value_to_int = cron_value_to_int"
  by (intro ext) (simp only: v_cron_value_to_int_def cron_value_to_int_def)

section \<open>Validation against matching\<close>

text \<open>Which segments parse, and where they start, does not depend on the value matched.\<close>

lemma segment_base_none:
  "segment_base base v label lo hi = None \<longleftrightarrow> segment_base base w label lo hi = None"
  by (auto simp: segment_base_def split: option.splits prod.splits if_splits)

lemma segment_base_start:
  "segment_base base v label lo hi = Some (m, start) \<Longrightarrow> lo \<le> hi \<Longrightarrow>
     lo \<le> start \<and> start \<le> hi \<and> segment_base base start label lo hi = Some (True, start)"
  by (auto simp: segment_base_def split: option.splits prod.splits if_splits)

lemma segment_matches_start:
  assumes "segment_step seg \<noteq> None" "segment_base (fst (cut seg ''/'')) v label lo hi \<noteq> None" "lo \<le> hi"
  shows "\<exists>w. lo \<le> w \<and> w \<le> hi \<and> segment_matches seg w label lo hi"
proof -
  obtain m start where b: "segment_base (fst (cut seg ''/'')) v label lo hi = Some (m, start)"
    using assms(2) by auto
  from segment_base_start [OF this assms(3)] assms(1) show ?thesis
    by (intro exI [of _ start]) (auto simp: segment_matches_def)
qed

lemma segment_matches_parts:
  "segment_matches seg v label lo hi \<Longrightarrow>
     segment_step seg \<noteq> None \<and> segment_base (fst (cut seg ''/'')) v label lo hi \<noteq> None"
  by (auto simp: segment_matches_def split: option.splits)

lemma cron_value_Nil [simp]: "cron_value_to_int [] label = None"
  by (simp add: cron_value_to_int_def atoi_def)

lemma validate_segment_iff_parts:
  "validate_segment seg lo hi label = None \<longleftrightarrow>
     segment_step seg \<noteq> None \<and> segment_base (fst (cut seg ''/'')) lo label lo hi \<noteq> None"
proof (cases "seg = [] \<or> seg = ''*''")
  case True
  then show ?thesis
    by (auto simp: validate_segment_def segment_step_def segment_base_def cut_def contains_def)
next
  case False
  obtain base st hs where c: "cut seg ''/'' = (base, st, hs)" by (cases "cut seg ''/''")
  obtain l h k where d: "cut base ''-'' = (l, h, k)" by (cases "cut base ''-''")
  define b where "b = (hs \<and> (case atoi st of None \<Rightarrow> True | Some n \<Rightarrow> n < 1))"
  have step: "segment_step seg = None \<longleftrightarrow> b"
    by (simp add: segment_step_def c b_def split: option.split)
  show ?thesis
  proof (cases "b \<or> base = ''*''")
    case True
    then show ?thesis
      using False step by (cases b) (simp_all add: validate_segment_def c segment_base_def flip: b_def)
  next
    case n: False
    have v: "validate_segment seg lo hi label =
        (if contains base ''-'' then
           (if \<not> k then Some ''invalid range''
            else
              (case (cron_value_to_int l label, cron_value_to_int h label) of
                 (Some lo', Some hi') \<Rightarrow>
                   if lo' > hi' then Some ''range start cannot be greater than range end''
                   else if lo' < lo \<or> hi' > hi
                   then Some (''range must be between '' @ itoa lo @ '' and '' @ itoa hi)
                   else None
               | _ \<Rightarrow> Some ''range bounds must be integers or valid names''))
         else
           (case cron_value_to_int base label of
              None \<Rightarrow> Some ''value must be an integer, *, range, step, or valid name''
            | Some val \<Rightarrow>
                if val < lo \<or> val > hi
                then Some (''value must be between '' @ itoa lo @ '' and '' @ itoa hi)
                else None))"
      using False n
      by (simp only: validate_segment_def c d prod.case v_cron_value_to_int_eq b_def de_Morgan_disj
          if_False simp_thms)
    show ?thesis
      using n by (simp add: v step segment_base_def c d split: option.split)
  qed
qed

lemma validate_segment_iff:
  assumes "lo \<le> hi"
  shows "validate_segment seg lo hi label = None \<longleftrightarrow>
     (\<exists>v. lo \<le> v \<and> v \<le> hi \<and> segment_matches seg v label lo hi)"
proof
  assume "validate_segment seg lo hi label = None"
  then show "\<exists>v. lo \<le> v \<and> v \<le> hi \<and> segment_matches seg v label lo hi"
    unfolding validate_segment_iff_parts
    by (elim conjE) (rule segment_matches_start [OF _ _ assms])
next
  assume "\<exists>v. lo \<le> v \<and> v \<le> hi \<and> segment_matches seg v label lo hi"
  then obtain v where "segment_matches seg v label lo hi" by blast
  from segment_matches_parts [OF this] show "validate_segment seg lo hi label = None"
    using segment_base_none [of "fst (cut seg ''/'')" v label lo hi lo]
    by (simp only: validate_segment_iff_parts) simp
qed

text \<open>The value a segment matches lies within the limits of its field.\<close>

lemma segment_matches_limits:
  "segment_matches seg v label lo hi \<Longrightarrow> lo \<le> v \<Longrightarrow> v \<le> hi \<or> fst (cut seg ''/'') = ''*''"
  by (auto simp: segment_matches_def segment_base_def split: option.splits prod.splits if_splits)

lemma validate_segments_all:
  "validate_segments segs lo hi label = None \<longleftrightarrow>
     (\<forall>seg \<in> set segs. validate_segment (trim_space seg) lo hi label = None)"
  by (induction segs) (auto split: option.splits)

lemma segments_match_all:
  "(\<forall>seg \<in> set segs. trim_space seg \<noteq> []) \<Longrightarrow>
     segments_match segs v label lo hi \<longleftrightarrow>
     (\<exists>seg \<in> set segs. segment_matches (trim_space seg) v label lo hi)"
  by (induction segs) auto

lemma validate_segment_ne: "validate_segment seg lo hi label = None \<Longrightarrow> seg \<noteq> []"
  by (auto simp: validate_segment_def)

lemma validate_field_segments:
  assumes "validate_cron_field field lo hi label = None"
  shows "field_matches field v label lo hi \<longleftrightarrow>
     (\<exists>seg \<in> set (split_on (CHR '','') field). segment_matches (trim_space seg) v label lo hi)"
  unfolding field_matches_def
  by (rule segments_match_all)
    (use assms validate_segment_ne in \<open>auto simp: validate_cron_field_def validate_segments_all\<close>)

lemma validate_field_satisfiable:
  assumes "validate_cron_field field lo hi label = None" "lo \<le> hi"
  shows "\<exists>v. lo \<le> v \<and> v \<le> hi \<and> field_matches field v label lo hi"
proof -
  obtain seg where seg: "seg \<in> set (split_on (CHR '','') field)"
    by (meson list.set_sel(1) split_on_ne)
  then have "validate_segment (trim_space seg) lo hi label = None"
    using assms(1) by (simp add: validate_cron_field_def validate_segments_all)
  then obtain v where "lo \<le> v" "v \<le> hi" "segment_matches (trim_space seg) v label lo hi"
    using validate_segment_iff [OF assms(2)] by blast
  with seg show ?thesis using validate_field_segments [OF assms(1)] by blast
qed

lemma validate_fields_all:
  "length fs = length ls \<Longrightarrow> validate_fields fs ls = [] \<longleftrightarrow>
     list_all2 (\<lambda>f (lo, hi, label). validate_cron_field f lo hi label = None) fs ls"
  by (induction fs ls rule: validate_fields.induct) (auto split: option.splits)

text \<open>The fields an expression stands for, macro or not: what both sides end up with.\<close>

definition cron_parts :: "string \<Rightarrow> string list" where
  "cron_parts expr = go_fields (if is_cron_macro expr then expand_macro expr else trim_space expr)"

lemma is_cron_macro_trim [simp]: "is_cron_macro (trim_space e) = is_cron_macro e"
  by (simp add: is_cron_macro_def)

lemma expand_macro_trim [simp]: "is_cron_macro e \<Longrightarrow> expand_macro (trim_space e) = expand_macro e"
  by (auto simp: is_cron_macro_def expand_macro_def Let_def)

lemma cron_matches_parts:
  "cron_matches expr now \<longleftrightarrow> trim_space expr \<noteq> [] \<and> parts_match (cron_parts expr) now"
  by (simp add: cron_matches_def cron_parts_def Let_def)

definition valid_parts :: "string list \<Rightarrow> bool" where
  "valid_parts ps \<longleftrightarrow> length ps = 5 \<and> validate_fields ps cron_limits = []"

lemma macro_valid_parts:
  assumes "is_cron_macro e"
  shows "valid_parts (go_fields (expand_macro e))"
proof -
  have "expand_macro e \<in> set [''0 0 1 1 *'', ''0 0 1 * *'', ''0 0 * * 0'', ''0 0 * * *'', ''0 * * * *'']"
    using assms by (auto simp: is_cron_macro_def expand_macro_def Let_def)
  moreover have "list_all (\<lambda>m. valid_parts (go_fields m))
      [''0 0 1 1 *'', ''0 0 1 * *'', ''0 0 * * 0'', ''0 0 * * *'', ''0 * * * *'']"
    by code_simp
  ultimately show ?thesis by (auto simp: list_all_iff)
qed

lemma valid_expr_parts: "validate_cron_expression expr = [] \<Longrightarrow> valid_parts (cron_parts expr)"
  using macro_valid_parts [of expr]
  by (auto simp: validate_cron_expression_def cron_parts_def valid_parts_def v_is_cron_macro_eq
      Let_def split: if_splits)

lemma valid_expr_nonblank: "validate_cron_expression expr = [] \<Longrightarrow> trim_space expr \<noteq> []"
  by (rule notI) (simp add: validate_cron_expression_def v_is_cron_macro_eq is_cron_macro_def
      Let_def go_fields.simps [of "[]"])

lemma cron_parts_trim: "w \<in> set (cron_parts expr) \<Longrightarrow> trim_space w = w"
  unfolding cron_parts_def by (rule trim_go_field)

text \<open>The five fields of an accepted expression, each accepted by the field validator.\<close>

lemma valid_parts_cases:
  assumes "valid_parts ps"
  obtains mi ho da mo wd where "ps = [mi, ho, da, mo, wd]"
    "validate_cron_field mi 0 59 ''minute'' = None"
    "validate_cron_field ho 0 23 ''hour'' = None"
    "validate_cron_field da 1 31 ''day'' = None"
    "validate_cron_field mo 1 12 ''month'' = None"
    "validate_cron_field wd 0 7 ''weekday'' = None"
proof -
  have "list_all2 (\<lambda>f (lo, hi, label). validate_cron_field f lo hi label = None) ps cron_limits"
    using assms validate_fields_all [of ps cron_limits]
    by (simp add: valid_parts_def) (simp add: cron_limits_def)
  then show thesis
    by (auto simp: cron_limits_def list_all2_Cons2 intro: that)
qed

lemma parts_match_iff:
  assumes "\<forall>w \<in> set [mi, ho, da, mo, wd]. trim_space w = w"
  shows "parts_match [mi, ho, da, mo, wd] now \<longleftrightarrow>
     field_matches mi (c_minute now) ''minute'' 0 59 \<and>
     field_matches ho (c_hour now) ''hour'' 0 23 \<and>
     field_matches mo (c_month now) ''month'' 1 12 \<and>
     (if da \<noteq> ''*'' \<and> wd \<noteq> ''*''
      then field_matches da (c_day now) ''day'' 1 31 \<or> weekday_field_matches wd (c_weekday now)
      else field_matches da (c_day now) ''day'' 1 31 \<and> weekday_field_matches wd (c_weekday now))"
  using assms by (simp add: parts_match_def Let_def)

lemma weekday_satisfiable:
  assumes "validate_cron_field wd 0 7 ''weekday'' = None"
  shows "\<exists>v. 0 \<le> v \<and> v \<le> 6 \<and> weekday_field_matches wd v"
proof -
  obtain v where v: "0 \<le> v" "v \<le> 7" "field_matches wd v ''weekday'' 0 7"
    using validate_field_satisfiable [OF assms] by auto
  show ?thesis
  proof (cases "v = 7")
    case True
    with v have "weekday_field_matches wd 0" by (simp add: weekday_field_matches_def)
    then show ?thesis by (intro exI [of _ 0]) simp
  next
    case False
    with v have "weekday_field_matches wd v" "v \<le> 6" by (simp_all add: weekday_field_matches_def)
    with v show ?thesis by blast
  qed
qed

text \<open>\<open>NextRun\<close>'s scan.\<close>

lemma minute_diff: "b mod minute_ns = 0 \<Longrightarrow> u mod minute_ns = 0 \<Longrightarrow> \<exists>q. u = b + minute_ns * q"
  using mult_div_mod_eq [of minute_ns u] mult_div_mod_eq [of minute_ns b]
  by (intro exI [of _ "u div minute_ns - b div minute_ns"]) (simp add: right_diff_distrib)

lemma all_less_Suc_split: "(\<forall>k < Suc n. P k) \<longleftrightarrow> P 0 \<and> (\<forall>k < n. P (Suc k))"
  by (auto simp: less_Suc_eq_0_disj)

lemma scan_minutes_Some:
  "scan_minutes n expr loc t = Some u \<Longrightarrow>
     \<exists>k < n. u = t + int k * minute_ns \<and> cron_matches expr (loc u) \<and>
       (\<forall>j < k. \<not> cron_matches expr (loc (t + int j * minute_ns)))"
proof (induction n arbitrary: t)
  case (Suc n)
  show ?case
  proof (cases "cron_matches expr (loc t)")
    case True
    with Suc.prems show ?thesis by (intro exI [of _ 0]) simp
  next
    case False
    with Suc.prems have "scan_minutes n expr loc (t + minute_ns) = Some u" by simp
    from Suc.IH [OF this] obtain k where k: "k < n" "u = t + minute_ns + int k * minute_ns"
      "cron_matches expr (loc u)"
      "\<forall>j < k. \<not> cron_matches expr (loc (t + minute_ns + int j * minute_ns))" by blast
    have "\<not> cron_matches expr (loc (t + int j * minute_ns))" if "j < Suc k" for j
      using that k(4) False by (cases j) (auto simp: algebra_simps)
    with k show ?thesis by (intro exI [of _ "Suc k"]) (auto simp: algebra_simps)
  qed
qed simp

lemma scan_minutes_None:
  "scan_minutes n expr loc t = None \<longleftrightarrow> (\<forall>k < n. \<not> cron_matches expr (loc (t + int k * minute_ns)))"
proof (induction n arbitrary: t)
  case (Suc n)
  have "(\<forall>k < Suc n. \<not> cron_matches expr (loc (t + int k * minute_ns))) \<longleftrightarrow>
      \<not> cron_matches expr (loc t) \<and>
      (\<forall>k < n. \<not> cron_matches expr (loc (t + minute_ns + int k * minute_ns)))"
    by (subst all_less_Suc_split) (simp add: algebra_simps)
  with Suc show ?case by simp
qed simp

section \<open>Properties\<close>

text \<open>C37
  The validator and the matcher, written separately, agree on every field: a field is accepted iff
  every one of its comma-separated segments matches some value within the limits of the field. So
  nothing that could fire is refused, and nothing accepted is dead.\<close>

theorem validate_field_iff:
  assumes "lo \<le> hi"
  shows "validate_cron_field field lo hi label = None \<longleftrightarrow>
     (\<forall>seg \<in> set (split_on (CHR '','') field).
        \<exists>v. lo \<le> v \<and> v \<le> hi \<and> segment_matches (trim_space seg) v label lo hi)"
  unfolding validate_cron_field_def validate_segments_all
  by (simp only: validate_segment_iff [OF assms])

theorem validate_field_iff_witness:
  "\<exists>v. 1 \<le> v \<and> v \<le> 12 \<and> segment_matches (trim_space '' oct-dec/2'') v ''month'' 1 12"
proof -
  have "validate_cron_field ''2, oct-dec/2'' 1 12 ''month'' = None" by code_simp
  moreover have "'' oct-dec/2'' \<in> set (split_on (CHR '','') ''2, oct-dec/2'')" by simp
  ultimately show ?thesis using validate_field_iff [of 1 12 "''2, oct-dec/2''" "''month''"] by simp
qed

text \<open>
  An expression the server accepts, macro or five fields, is not dead in the scheduler: some reading
  of the wall clock within the limits of its fields matches it.\<close>

theorem valid_expression_matches:
  assumes "validate_cron_expression expr = []"
  shows "\<exists>now. 0 \<le> c_minute now \<and> c_minute now \<le> 59 \<and> 0 \<le> c_hour now \<and> c_hour now \<le> 23 \<and>
     1 \<le> c_day now \<and> c_day now \<le> 31 \<and> 1 \<le> c_month now \<and> c_month now \<le> 12 \<and>
     0 \<le> c_weekday now \<and> c_weekday now \<le> 6 \<and> cron_matches expr now"
proof -
  obtain mi ho da mo wd where ps: "cron_parts expr = [mi, ho, da, mo, wd]"
    and v: "validate_cron_field mi 0 59 ''minute'' = None"
      "validate_cron_field ho 0 23 ''hour'' = None"
      "validate_cron_field da 1 31 ''day'' = None"
      "validate_cron_field mo 1 12 ''month'' = None"
      "validate_cron_field wd 0 7 ''weekday'' = None"
    using valid_parts_cases [OF valid_expr_parts [OF assms]] by metis
  have trim: "\<forall>w \<in> set [mi, ho, da, mo, wd]. trim_space w = w"
    using cron_parts_trim [of _ expr] by (simp add: ps)
  obtain a where a: "0 \<le> a" "a \<le> 59" "field_matches mi a ''minute'' 0 59"
    using validate_field_satisfiable [OF v(1)] by auto
  obtain b where b: "0 \<le> b" "b \<le> 23" "field_matches ho b ''hour'' 0 23"
    using validate_field_satisfiable [OF v(2)] by auto
  obtain c where c: "1 \<le> c" "c \<le> 31" "field_matches da c ''day'' 1 31"
    using validate_field_satisfiable [OF v(3)] by auto
  obtain d where d: "1 \<le> d" "d \<le> 12" "field_matches mo d ''month'' 1 12"
    using validate_field_satisfiable [OF v(4)] by auto
  obtain e where e: "0 \<le> e" "e \<le> 6" "weekday_field_matches wd e"
    using weekday_satisfiable [OF v(5)] by auto
  have "cron_matches expr \<lparr>c_minute = a, c_hour = b, c_day = c, c_month = d, c_weekday = e\<rparr>"
    using valid_expr_nonblank [OF assms] a b c d e
    by (simp add: cron_matches_parts ps parts_match_iff [OF trim])
  with a b c d e show ?thesis
    by (intro exI [of _ "\<lparr>c_minute = a, c_hour = b, c_day = c, c_month = d, c_weekday = e\<rparr>"]) simp
qed

theorem valid_expression_matches_witness:
  "\<exists>now. cron_matches ''30 3 * * sun-6/2,7'' now"
proof -
  have "validate_cron_expression ''30 3 * * sun-6/2,7'' = []" by code_simp
  from valid_expression_matches [OF this] show ?thesis by blast
qed

text \<open>C20
  NextRun is sound and minimal: the instant it returns is a whole minute strictly after \<open>from\<close>, at
  most the window later, matches the expression on the wall clock, and no whole minute between
  matches.\<close>

theorem next_run_earliest:
  assumes "next_run expr loc from = Some t"
  shows "from < t \<and> t \<le> from + int next_run_window * minute_ns \<and> t mod minute_ns = 0 \<and>
     cron_matches expr (loc t) \<and>
     (\<forall>u. from < u \<and> u < t \<and> u mod minute_ns = 0 \<longrightarrow> \<not> cron_matches expr (loc u))"
proof -
  define b where "b = truncate_minute from"
  have "scan_minutes next_run_window expr loc (b + minute_ns) = Some t"
    using assms by (simp add: next_run_def b_def split: if_splits)
  from scan_minutes_Some [OF this] obtain k where
    k: "k < next_run_window" "t = b + minute_ns + int k * minute_ns" "cron_matches expr (loc t)"
    and early: "\<forall>j < k. \<not> cron_matches expr (loc (b + minute_ns + int j * minute_ns))" by blast
  have bm: "b mod minute_ns = 0" "b \<le> from" "from < b + minute_ns"
    by (simp_all add: b_def truncate_minute_def minute_ns_def minus_mod_eq_mult_div)
  have none: "\<not> cron_matches expr (loc u)" if u: "from < u" "u < t" "u mod minute_ns = 0" for u
  proof -
    obtain q where q: "u = b + minute_ns * q" using minute_diff [OF bm(1) u(3)] by blast
    have "0 < q" using q u(1) bm(2) by (simp add: minute_ns_def) 
    moreover have "q < 1 + int k" using q u(2) k(2) by (simp add: minute_ns_def)
    ultimately have "nat (q - 1) < k" "b + minute_ns + int (nat (q - 1)) * minute_ns = u"
      using q by (simp_all add: algebra_simps)
    with early show ?thesis by metis
  qed
  have "t \<le> b + int next_run_window * minute_ns"
    using k(1,2) by (simp add: minute_ns_def)
  then show ?thesis using k bm none by (simp add: minute_ns_def)
qed

theorem next_run_earliest_witness:
  "(90 * 1000000000 :: int) < 180 * 1000000000 \<and>
   cron_matches ''3 * * * *'' \<lparr>c_minute = 3, c_hour = 0, c_day = 1, c_month = 1, c_weekday = 4\<rparr>"
proof -
  let ?loc = "\<lambda>t::int. \<lparr>c_minute = t div minute_ns mod 60, c_hour = 0, c_day = 1, c_month = 1, c_weekday = 4\<rparr>"
  have w: "next_run_window = Suc (Suc 527038)" by (simp add: next_run_window_def)
  have "scan_minutes (Suc (Suc n)) ''3 * * * *'' ?loc 120000000000 = Some 180000000000" for n
    by code_simp
  from this [of 527038] have s: "scan_minutes next_run_window ''3 * * * *'' ?loc 120000000000 = Some 180000000000"
    by (simp only: w)
  have "trim_space ''3 * * * *'' \<noteq> []" by code_simp
  moreover have "truncate_minute (90 * 1000000000) + minute_ns = 120000000000"
    by (simp add: truncate_minute_def minute_ns_def)
  ultimately have "next_run ''3 * * * *'' ?loc (90 * 1000000000) = Some (180 * 1000000000)"
    by (simp only: next_run_def if_False s) simp
  from next_run_earliest [OF this] show ?thesis by (simp add: minute_ns_def)
qed

text \<open>
  NextRun returns nothing exactly when no whole minute of its window, which is 366 days long,
  matches; a blank expression is the case that never matches.\<close>

theorem next_run_none_iff:
  "next_run expr loc from = None \<longleftrightarrow>
     (\<forall>k. 1 \<le> k \<and> k \<le> next_run_window \<longrightarrow>
        \<not> cron_matches expr (loc (truncate_minute from + int k * minute_ns)))"
proof (cases "trim_space expr = []")
  case True
  then show ?thesis by (simp add: next_run_def cron_matches_parts)
next
  case False
  have "(\<forall>k < n. P (Suc k)) \<longleftrightarrow> (\<forall>k. 1 \<le> k \<and> k \<le> n \<longrightarrow> P k)" for n and P :: "nat \<Rightarrow> bool"
    by (metis Suc_le_eq Suc_le_mono le_add1 less_eq_Suc_le not0_implies_Suc not_one_le_zero plus_1_eq_Suc)
  from this [of next_run_window "\<lambda>k. \<not> cron_matches expr (loc (truncate_minute from + int k * minute_ns))"]
  show ?thesis using False
    by (simp add: next_run_def scan_minutes_None algebra_simps)
qed

theorem next_run_none_iff_witness:
  "\<not> cron_matches ''61 * * * *'' \<lparr>c_minute = 5, c_hour = 0, c_day = 1, c_month = 1, c_weekday = 4\<rparr>"
proof -
  let ?loc = "\<lambda>t::int. \<lparr>c_minute = 5, c_hour = 0, c_day = 1, c_month = 1, c_weekday = 4\<rparr>"
  have "\<not> cron_matches ''61 * * * *'' (?loc t)" for t by code_simp
  then have "next_run ''61 * * * *'' ?loc 0 = None"
    by (simp add: next_run_def scan_minutes_None)
  from iffD1 [OF next_run_none_iff this, rule_format, of 1]
  show ?thesis by (simp add: next_run_window_def)
qed

end
