(* ===== verification/RateLimit.thy ===== *)
theory RateLimit
  imports GoStrings Machine
begin

text \<open>
  \<open>internal/ratelimit/limiter.go\<close>: the per-host cooldown of SSH operations and the per-client
  login lockout. The maps are partial functions, instants and durations are nanoseconds, and the
  current time is an argument of each operation. A retry delay is rounded as Go does it, to the
  whole second below plus one.
\<close>

definition second_ns :: int where
  "second_ns = 1000000000"

text \<open>\<open>int(remaining.Seconds()) + 1\<close>, at least 1; the conversion truncates towards zero.\<close>

definition retry_secs :: "int \<Rightarrow> int" where
  "retry_secs remaining =
     (let s = (if remaining \<ge> 0 then remaining div second_ns else - ((- remaining) div second_ns)) + 1
      in if s < 1 then 1 else s)"

section \<open>The host cooldown\<close>

record host_limiter =
  hl_cooldown :: int
  hl_last :: "string \<rightharpoonup> int"

definition new_host_limiter :: "int \<Rightarrow> host_limiter" where
  "new_host_limiter cooldown = \<lparr>hl_cooldown = cooldown, hl_last = Map.empty\<rparr>"

definition host_allow :: "int \<Rightarrow> string \<Rightarrow> host_limiter \<Rightarrow> (bool \<times> int) \<times> host_limiter" where
  "host_allow now h l =
     (case hl_last l h of
        Some last_at \<Rightarrow>
          let remaining = hl_cooldown l - (now - last_at) in
          if remaining > 0 then ((False, retry_secs remaining), l)
          else ((True, 0), l\<lparr>hl_last := (hl_last l)(h \<mapsto> now)\<rparr>)
      | None \<Rightarrow> ((True, 0), l\<lparr>hl_last := (hl_last l)(h \<mapsto> now)\<rparr>))"

section \<open>The login limiter\<close>

record login_limiter =
  ll_failures :: "string \<rightharpoonup> int list"
  ll_max :: int
  ll_window :: int

definition new_login_limiter :: "int \<Rightarrow> int \<Rightarrow> login_limiter" where
  "new_login_limiter m w = \<lparr>ll_failures = Map.empty, ll_max = m, ll_window = w\<rparr>"

definition failures_of :: "login_limiter \<Rightarrow> string \<Rightarrow> int list" where
  "failures_of l key = (case ll_failures l key of None \<Rightarrow> [] | Some ts \<Rightarrow> ts)"

definition prune_failures :: "int \<Rightarrow> string \<Rightarrow> login_limiter \<Rightarrow> int list \<times> login_limiter" where
  "prune_failures now key l =
     (let cutoff = now - ll_window l;
          out = filter (\<lambda>t. t > cutoff) (failures_of l key)
      in (out,
          if length out = 0 then l\<lparr>ll_failures := (ll_failures l)(key := None)\<rparr>
          else l\<lparr>ll_failures := (ll_failures l)(key \<mapsto> out)\<rparr>))"

text \<open>
  \<open>Allowed\<close> reads \<open>times[0]\<close> when the limit is reached; with a limit of 0 or less and no failure
  that index is out of range, and the result is \<open>None\<close> for the panic.
\<close>

definition login_allowed :: "int \<Rightarrow> string \<Rightarrow> login_limiter \<Rightarrow> (bool \<times> int) option \<times> login_limiter" where
  "login_allowed now key l =
     (case prune_failures now key l of (ts, l') \<Rightarrow>
        if int (length ts) \<ge> ll_max l' then
          (case ts of
             [] \<Rightarrow> (None, l')
           | t0 # _ \<Rightarrow> (Some (False, retry_secs (ll_window l' - (now - t0))), l'))
        else (Some (True, 0), l'))"

definition record_failure :: "int \<Rightarrow> string \<Rightarrow> login_limiter \<Rightarrow> login_limiter" where
  "record_failure now key l =
     (case prune_failures now key l of (ts, l') \<Rightarrow>
        l'\<lparr>ll_failures := (ll_failures l')(key \<mapsto> ts @ [now])\<rparr>)"

definition reset_failures :: "string \<Rightarrow> login_limiter \<Rightarrow> login_limiter" where
  "reset_failures key l = l\<lparr>ll_failures := (ll_failures l)(key := None)\<rparr>"

text \<open>
  How both login handlers use the limiter: ask first, then record a failure or reset. \<open>good\<close> says
  whether the credentials of the attempt are right.
\<close>

definition login_attempt :: "int \<Rightarrow> string \<Rightarrow> bool \<Rightarrow> login_limiter \<Rightarrow> bool \<times> login_limiter" where
  "login_attempt now key good l =
     (case login_allowed now key l of
        (Some (True, _), l') \<Rightarrow> (True, if good then reset_failures key l' else record_failure now key l')
      | (_, l') \<Rightarrow> (False, l'))"

section \<open>Facts about single operations\<close>

lemma retry_secs_pos: "1 \<le> retry_secs r"
  by (simp add: retry_secs_def Let_def)

lemma retry_secs_enough: "0 < r \<Longrightarrow> r < retry_secs r * second_ns"
  by (auto simp: retry_secs_def Let_def second_ns_def)

lemma prune_fields [simp]:
  "ll_max (snd (prune_failures now key l)) = ll_max l"
  "ll_window (snd (prune_failures now key l)) = ll_window l"
  by (simp_all add: prune_failures_def Let_def)

lemma failures_of_prune:
  "failures_of (snd (prune_failures now key l)) k =
     (if k = key then filter (\<lambda>t. t > now - ll_window l) (failures_of l key) else failures_of l k)"
  by (auto simp: prune_failures_def failures_of_def Let_def)

lemma fst_prune [simp]:
  "fst (prune_failures now key l) = filter (\<lambda>t. t > now - ll_window l) (failures_of l key)"
  by (simp add: prune_failures_def Let_def)

lemma prune_eq:
  "prune_failures now key l =
     (filter (\<lambda>t. t > now - ll_window l) (failures_of l key), snd (prune_failures now key l))"
  by (simp add: prod_eq_iff)

lemma allowed_state: "snd (login_allowed now key l) = snd (prune_failures now key l)"
  by (simp add: login_allowed_def split: prod.split list.split)

lemma allowed_iff:
  "fst (login_allowed now key l) = Some (True, r) \<Longrightarrow>
     int (length (filter (\<lambda>t. t > now - ll_window l) (failures_of l key))) < ll_max l"
  unfolding login_allowed_def
  by (subst (asm) prune_eq) (simp split: if_splits list.splits)

lemma failures_of_record:
  "failures_of (record_failure now key l) k =
     (if k = key then filter (\<lambda>t. t > now - ll_window l) (failures_of l key) @ [now] else failures_of l k)"
  unfolding record_failure_def
  by (subst prune_eq) (use failures_of_prune [of now key l k] in \<open>auto simp: failures_of_def\<close>)

lemma record_fields [simp]:
  "ll_max (record_failure now key l) = ll_max l"
  "ll_window (record_failure now key l) = ll_window l"
  unfolding record_failure_def by (subst prune_eq, simp)+

lemma failures_of_reset:
  "failures_of (reset_failures key l) k = (if k = key then [] else failures_of l k)"
  by (simp add: reset_failures_def failures_of_def)

lemma reset_fields [simp]:
  "ll_max (reset_failures key l) = ll_max l" "ll_window (reset_failures key l) = ll_window l"
  by (simp_all add: reset_failures_def)

text \<open>The three outcomes of an attempt.\<close>

lemma login_attempt_cases:
  obtains (blocked) "login_attempt now key good l = (False, snd (prune_failures now key l))"
  | (good) "good" "login_attempt now key good l = (True, reset_failures key (snd (prune_failures now key l)))"
  | (bad) "\<not> good"
      "login_attempt now key good l = (True, record_failure now key (snd (prune_failures now key l)))"
      "int (length (filter (\<lambda>t. t > now - ll_window l) (failures_of l key))) < ll_max l"
proof -
  obtain res l' where a: "login_allowed now key l = (res, l')" by (cases "login_allowed now key l")
  then have l': "l' = snd (prune_failures now key l)" using allowed_state [of now key l] by simp
  show thesis
  proof (cases "\<exists>r. res = Some (True, r)")
    case True
    then obtain r where r: "res = Some (True, r)" by blast
    have n: "int (length (filter (\<lambda>t. t > now - ll_window l) (failures_of l key))) < ll_max l"
      by (rule allowed_iff [of _ _ _ r]) (simp add: a r)
    show thesis
    proof (cases good)
      case True
      with a r l' show thesis by (intro that(2)) (simp_all add: login_attempt_def)
    next
      case False
      with a r l' n show thesis by (intro that(3)) (simp_all add: login_attempt_def)
    qed
  next
    case False
    then have "login_attempt now key good l = (False, l')"
      by (auto simp: login_attempt_def a split: option.split bool.split)
    with l' show thesis by (intro that(1)) simp
  qed
qed

section \<open>Runs\<close>

text \<open>
  A run of attempts with the failures they recorded, per client, since the client's last success.
  \<open>hist\<close> is a ghost: the limiter itself forgets failures outside its window.
\<close>

definition attempt_step ::
  "int \<Rightarrow> string \<times> bool \<Rightarrow> login_limiter \<times> (string \<Rightarrow> int list) \<Rightarrow> login_limiter \<times> (string \<Rightarrow> int list)" where
  "attempt_step now e s =
     (case e of (key, good) \<Rightarrow> case s of (l, hist) \<Rightarrow>
        case login_attempt now key good l of (allowed, l') \<Rightarrow>
          (l', if \<not> allowed then hist
               else if good then hist(key := [])
               else hist(key := hist key @ [now])))"

definition attempts ::
  "(int \<times> string \<times> bool) list \<Rightarrow> login_limiter \<times> (string \<Rightarrow> int list) \<Rightarrow> login_limiter \<times> (string \<Rightarrow> int list)" where
  "attempts = trun attempt_step"

abbreviation in_window :: "int \<Rightarrow> int \<Rightarrow> int list \<Rightarrow> int list" where
  "in_window w u ts \<equiv> filter (\<lambda>x. u - w < x \<and> x \<le> u) ts"

definition login_inv :: "int \<Rightarrow> int \<Rightarrow> int \<Rightarrow> login_limiter \<times> (string \<Rightarrow> int list) \<Rightarrow> bool" where
  "login_inv m w now s \<longleftrightarrow>
     (case s of (l, hist) \<Rightarrow> ll_max l = m \<and> ll_window l = w \<and>
        (\<forall>key. (\<forall>x \<in> set (hist key). x \<le> now) \<and>
           filter (\<lambda>x. now - w < x) (failures_of l key) = filter (\<lambda>x. now - w < x) (hist key) \<and>
           (\<forall>u. int (length (in_window w u (hist key))) \<le> m)))"

lemma filter_later: "now \<le> t \<Longrightarrow> filter (\<lambda>x. now - w < x) xs = filter (\<lambda>x. now - w < x) ys \<Longrightarrow>
    filter (\<lambda>x. t - w < x) xs = filter (\<lambda>x::int. t - w < x) ys"
proof -
  assume "now \<le> t" and eq: "filter (\<lambda>x. now - w < x) xs = filter (\<lambda>x. now - w < x) ys"
  then have "filter (\<lambda>x. t - w < x) zs = filter (\<lambda>x. t - w < x) (filter (\<lambda>x. now - w < x) zs)" for zs
    by (auto intro: filter_cong)
  then show ?thesis using eq by metis
qed

lemma length_filter_sub: "(\<And>x. P x \<Longrightarrow> Q x) \<Longrightarrow> length (filter P xs) \<le> length (filter Q xs)"
  by (induction xs) auto

lemma login_invD:
  assumes "login_inv m w t0 (l, hist)" "t0 \<le> t"
  shows "ll_max l = m" "ll_window l = w" "x \<in> set (hist key) \<Longrightarrow> x \<le> t"
    "filter (\<lambda>x. t - w < x) (failures_of l key) = filter (\<lambda>x. t - w < x) (hist key)"
    "int (length (in_window w u (hist key))) \<le> m"
  using assms filter_later [OF assms(2), of w "failures_of l key" "hist key"]
  by (auto simp: login_inv_def intro: order_trans)

lemma login_inv_prune:
  assumes "login_inv m w t0 (l, hist)" "t0 \<le> t"
  shows "login_inv m w t (snd (prune_failures t key l), hist)"
  using login_invD [OF assms] by (auto simp: login_inv_def failures_of_prune)

lemma login_inv_reset:
  assumes "login_inv m w t (l, hist)" "0 \<le> m"
  shows "login_inv m w t (reset_failures key l, hist(key := []))"
  using assms by (auto simp: login_inv_def failures_of_reset)

lemma window_snoc:
  assumes le: "\<forall>x \<in> set h. x \<le> t" and n: "int (length (filter (\<lambda>x. t - w < x) h)) < m"
    and old: "int (length (in_window w u h)) \<le> m"
  shows "int (length (in_window w u (h @ [t]))) \<le> m"
proof (cases "u - w < t \<and> t \<le> u")
  case True
  then have "length (in_window w u h) \<le> length (filter (\<lambda>x. t - w < x) h)"
    by (intro length_filter_sub) auto
  with True n show ?thesis by simp
next
  case False
  then have "in_window w u (h @ [t]) = in_window w u h" by auto
  with old show ?thesis by simp
qed

lemma login_inv_record:
  assumes inv: "login_inv m w t (l, hist)" and w: "0 < w"
    and n: "int (length (filter (\<lambda>x. t - w < x) (failures_of l key))) < m"
  shows "login_inv m w t (record_failure t key l, hist(key := hist key @ [t]))"
proof -
  note D = login_invD [OF inv order_refl]
  have "int (length (filter (\<lambda>x. t - w < x) (hist key))) < m" using n D(4) [of key] by simp
  then have "int (length (in_window w u (hist key @ [t]))) \<le> m" for u
    using D(3) D(5) by (intro window_snoc) auto
  then show ?thesis
    using D(1-4) w by (auto simp: login_inv_def failures_of_record D(5))
qed

lemma attempt_step_inv:
  assumes "login_inv m w t0 s" "t0 \<le> t" "0 \<le> m" "0 < w"
  shows "login_inv m w t (attempt_step t e s)"
proof -
  obtain key good where e: "e = (key, good)" by (cases e)
  obtain l hist where s: "s = (l, hist)" by (cases s)
  have inv: "login_inv m w t0 (l, hist)" using assms(1) s by simp
  let ?l = "snd (prune_failures t key l)"
  have p: "login_inv m w t (?l, hist)" by (rule login_inv_prune [OF inv assms(2)])
  show ?thesis
  proof (cases rule: login_attempt_cases [of t key good l])
    case blocked
    with p show ?thesis by (simp add: attempt_step_def e s)
  next
    case good
    with login_inv_reset [OF p assms(3)] show ?thesis by (simp add: attempt_step_def e s)
  next
    case bad
    then have "int (length (filter (\<lambda>x. t - w < x) (failures_of ?l key))) < m"
      using login_invD(1,2) [OF inv assms(2)] by (simp add: failures_of_prune)
    from login_inv_record [OF p assms(4) this] bad show ?thesis by (simp add: attempt_step_def e s)
  qed
qed

interpretation login: timed_machine attempt_step
  "\<lambda>now s. 0 \<le> m \<and> 0 < w \<longrightarrow> login_inv m w now s" for m w
  by unfold_locales (auto intro: attempt_step_inv)

lemma login_inv_init: "0 \<le> m \<Longrightarrow> login_inv m w t (new_login_limiter m w, \<lambda>_. [])"
  by (simp add: login_inv_def new_login_limiter_def failures_of_def)

section \<open>The host cooldown over runs\<close>

text \<open>The times at which host \<open>h\<close> was granted an operation, the latest first.\<close>

fun grants :: "string \<Rightarrow> (int \<times> string) list \<Rightarrow> host_limiter \<Rightarrow> int list \<Rightarrow> int list" where
  "grants h [] l acc = acc"
| "grants h ((t, k) # es) l acc =
     (case host_allow t k l of ((ok, _), l') \<Rightarrow>
        grants h es l' (if ok \<and> k = h then t # acc else acc))"

fun spaced :: "int \<Rightarrow> int list \<Rightarrow> bool" where
  "spaced d (x # y # ys) \<longleftrightarrow> y + d \<le> x \<and> spaced d (y # ys)"
| "spaced d _ \<longleftrightarrow> True"

lemma host_allow_cooldown [simp]: "hl_cooldown (snd (host_allow now h l)) = hl_cooldown l"
  by (simp add: host_allow_def Let_def split: option.split)

lemma host_allow_last:
  "hl_last (snd (host_allow now h l)) k =
     (if fst (fst (host_allow now h l)) \<and> k = h then Some now else hl_last l k)"
  by (auto simp: host_allow_def Let_def split: option.split)

lemma host_allow_spaced:
  "fst (fst (host_allow now h l)) \<Longrightarrow> hl_last l h = Some t \<Longrightarrow> t + hl_cooldown l \<le> now"
  by (auto simp: host_allow_def Let_def split: if_splits)

lemma grants_spaced:
  "spaced (hl_cooldown l) acc \<Longrightarrow> (acc \<noteq> [] \<Longrightarrow> hl_last l h = Some (hd acc)) \<Longrightarrow>
     spaced (hl_cooldown l) (grants h es l acc)"
proof (induction h es l acc rule: grants.induct)
  case (2 h t k es l acc)
  obtain ok r l' where a: "host_allow t k l = ((ok, r), l')" by (metis prod.exhaust)
  have l': "hl_cooldown l' = hl_cooldown l" using host_allow_cooldown [of t k l] a by simp
  have last: "hl_last l' h = (if ok \<and> h = k then Some t else hl_last l h)"
    using host_allow_last [of t k l h] a by simp
  show ?case
  proof (cases "ok \<and> k = h")
    case True
    have "spaced (hl_cooldown l) (t # acc)"
      using 2(2,3) True host_allow_spaced [of t k l] a by (cases acc) auto
    with True 2(1) [OF a [symmetric] refl] last l' a show ?thesis by simp
  next
    case False
    with 2 last l' a show ?thesis by auto
  qed
qed simp

section \<open>Properties\<close>

text \<open>
  The login lockout: over any time-ordered run of attempts against a fresh limiter, a client has at
  most \<open>m\<close> recorded failures in any window of length \<open>w\<close> since its last success.\<close>

theorem login_lockout:
  assumes "0 \<le> m" "0 < w" "sorted (t0 # map fst es)"
  shows "int (length (in_window w u (snd (attempts es (new_login_limiter m w, \<lambda>_. [])) key))) \<le> m"
proof -
  let ?s = "attempts es (new_login_limiter m w, \<lambda>_. [])"
  have "login_inv m w (last (t0 # map fst es)) ?s"
    using login.trun_inv [of m w t0 "(new_login_limiter m w, \<lambda>_. [])" es] login_inv_init assms
    by (simp add: attempts_def)
  then have "login_inv m w (last (t0 # map fst es)) (fst ?s, snd ?s)" by simp
  from login_invD(5) [OF this order_refl] show ?thesis .
qed

theorem login_lockout_witness:
  "int (length (in_window 100 30 (snd (attempts
     [(10, ''a'', False), (20, ''a'', False), (30, ''a'', False)] (new_login_limiter 2 100, \<lambda>_. [])) ''a''))) \<le> 2
   \<and> snd (attempts [(10, ''a'', False), (20, ''a'', False), (30, ''a'', False)]
       (new_login_limiter 2 100, \<lambda>_. [])) ''a'' = [10, 20]"
proof
  show "snd (attempts [(10, ''a'', False), (20, ''a'', False), (30, ''a'', False)]
       (new_login_limiter 2 100, \<lambda>_. [])) ''a'' = [10, 20]"
    by code_simp
qed (rule login_lockout [of _ _ 0], simp_all)

text \<open>
  The SSH cooldown: any two operations the limiter grants to one host are at least the cooldown
  apart, whatever is asked in between and for whichever hosts.\<close>

theorem host_grants_spaced:
  "spaced cooldown (grants h es (new_host_limiter cooldown) [])"
  using grants_spaced [of "new_host_limiter cooldown" "[]" h es] by (simp add: new_host_limiter_def)

end
