(* ===== verification/Models.thy ===== *)
theory Models
  imports GoStrings
begin

text \<open>
  \<open>internal/models/models.go\<close>: the structs the components exchange, as records with the fields of
  the source, and the package's functions. A nil slice and an empty one are both \<open>[]\<close>; an optional
  time is an \<open>option\<close>; times are nanoseconds.
\<close>

section \<open>Structs\<close>

record user =
  u_id :: string
  u_name :: string
  u_role :: string
  u_hash :: string
  u_totp :: string
  u_created :: int

record host_prefs =
  hp_updates :: bool
  hp_apply_ok :: bool
  hp_apply_fail :: bool
  hp_scan_fail :: bool

record host =
  h_id :: string
  h_name :: string
  h_address :: string
  h_port :: int
  h_ssh_user :: string
  h_auth_type :: string
  h_secret :: string
  h_created :: int
  h_prefs :: host_prefs
  h_checks :: bool
  h_policy :: string
  h_key_required :: bool
  h_trust_mode :: string
  h_pinned :: string
  h_trusted :: string
  h_pending :: string
  h_verified_at :: "int option"
  h_tags :: "string list"
  h_exclude_bulk :: bool

record package_info =
  p_name :: string
  p_current :: string
  p_new :: string
  p_arch :: string
  p_source :: string
  p_defer :: string

record scan_history_entry =
  e_id :: string
  e_host :: string
  e_packages :: "package_info list"
  e_needs_reboot :: bool
  e_reboot_reason :: string
  e_needs_restart :: "string list"
  e_needrestart_found :: bool
  e_raw :: string
  e_created :: int

record scan_result =
  sr_packages :: "package_info list"
  sr_deferred :: "package_info list"
  sr_needs_reboot :: bool
  sr_reboot_reason :: string
  sr_needs_restart :: "string list"
  sr_needrestart_found :: bool
  sr_apt_failed :: bool
  sr_raw :: string
  sr_os_name :: string
  sr_os_version :: string
  sr_uptime :: string
  sr_kernel :: string
  sr_boot_id :: string
  sr_handlers :: "string \<Rightarrow> bool"

record scan_snapshot =
  sn_host :: string
  sn_packages :: "package_info list"
  sn_deferred :: "package_info list"
  sn_needs_reboot :: bool
  sn_reboot_reason :: string
  sn_needs_restart :: "string list"
  sn_needrestart_found :: bool
  sn_raw :: string
  sn_os_name :: string
  sn_os_version :: string
  sn_uptime :: string
  sn_kernel :: string
  sn_boot_id :: string
  sn_restart :: "string list"
  sn_reboot :: "string list"
  sn_updated :: int

record apply_result =
  ar_changed :: int
  ar_raw :: string
  ar_needs_reboot :: bool

record restart_result =
  rr_services :: "string list"
  rr_success :: bool
  rr_output :: string
  rr_reboot_required :: "string list"
  rr_dispatched :: "string list"
  rr_failed :: "string list"

record job =
  j_id :: string
  j_host :: string
  j_hosts :: "string list"
  j_tag :: string
  j_name :: string
  j_cron :: string
  j_mode :: string
  j_enabled :: bool

record job_run =
  jr_id :: string
  jr_job :: string
  jr_mode :: string
  jr_status :: string
  jr_started :: int
  jr_finished :: "int option"
  jr_total :: int
  jr_ok :: int
  jr_failed :: int
  jr_detail :: string

record notification_settings =
  ns_url :: string
  ns_updates :: bool
  ns_apply_ok :: bool
  ns_apply_fail :: bool
  ns_scan_fail :: bool
  ns_delivery :: string
  ns_always :: bool

record app_key_state =
  ak_current :: string
  ak_current_created :: string
  ak_next :: string
  ak_next_created :: string

record oidc_config =
  oc_enabled :: bool
  oc_issuer :: string
  oc_client_id :: string
  oc_secret_enc :: string
  oc_base_url :: string
  oc_allowed :: string
  oc_label :: string

record host_key_audit_event =
  ke_id :: string
  ke_host :: string
  ke_event :: string
  ke_prev :: string
  ke_new :: string
  ke_note :: string
  ke_created :: int

record api_token =
  at_id :: string
  at_name :: string
  at_hash :: string
  at_created :: int
  at_last_used :: "int option"
  at_revoked :: bool

record activity_entry =
  ac_id :: int
  ac_host :: string
  ac_host_name :: string
  ac_event :: string
  ac_summary :: string
  ac_created :: int

record recovery_code =
  rc_id :: string
  rc_user :: string
  rc_hash :: string
  rc_used :: bool
  rc_created :: int

record session =
  se_hash :: string
  se_user :: string
  se_username :: string
  se_role :: string
  se_created :: int
  se_expires :: int
  se_last_seen :: int

section \<open>Functions\<close>

definition update_key :: "package_info \<Rightarrow> string" where
  "update_key p = p_name p @ [CHR 0x00] @ p_new p"

fun any_unseen :: "string set \<Rightarrow> package_info list \<Rightarrow> bool" where
  "any_unseen seen [] = False"
| "any_unseen seen (p # ps) = (if update_key p \<notin> seen then True else any_unseen seen ps)"

definition has_new_updates :: "package_info list \<Rightarrow> package_info list \<Rightarrow> bool" where
  "has_new_updates prev fresh = any_unseen (set (map update_key prev)) fresh"

definition delivery_digest :: string where
  "delivery_digest = ''digest''"

definition delivery_per_host :: string where
  "delivery_per_host = ''per_host''"

definition auth_app_key :: string where
  "auth_app_key = ''app_key''"

definition normalize_delivery :: "string \<Rightarrow> string" where
  "normalize_delivery v =
     (if to_lower (trim_space v) = delivery_per_host then delivery_per_host else delivery_digest)"

definition is_security_source :: "string \<Rightarrow> bool" where
  "is_security_source source \<longleftrightarrow> contains (to_lower source) ''security''"

definition security_count :: "package_info list \<Rightarrow> int" where
  "security_count pkgs = foldl (\<lambda>n p. if is_security_source (p_source p) then n + 1 else n) 0 pkgs"

section \<open>Facts\<close>

lemma any_unseen_iff: "any_unseen seen ps \<longleftrightarrow> \<not> update_key ` set ps \<subseteq> seen"
  by (induction ps) auto

lemma has_new_updates_iff:
  "has_new_updates prev fresh \<longleftrightarrow> (\<exists>p \<in> set fresh. update_key p \<notin> update_key ` set prev)"
  by (auto simp: has_new_updates_def any_unseen_iff)

lemma no_new_updates_refl: "\<not> has_new_updates ps ps"
  by (simp add: has_new_updates_iff)

lemma no_new_updates_shrunk: "set fresh \<subseteq> set prev \<Longrightarrow> \<not> has_new_updates prev fresh"
  by (auto simp: has_new_updates_iff)

lemma normalize_delivery_idem [simp]: "normalize_delivery (normalize_delivery v) = normalize_delivery v"
proof -
  have "normalize_delivery delivery_digest = delivery_digest" by code_simp
  moreover have "normalize_delivery delivery_per_host = delivery_per_host" by code_simp
  ultimately show ?thesis by (simp add: normalize_delivery_def [of v])
qed

lemma normalize_delivery_cases:
  "normalize_delivery v = delivery_digest \<or> normalize_delivery v = delivery_per_host"
  by (simp add: normalize_delivery_def)

lemma security_count_filter:
  "security_count ps = int (length (filter (\<lambda>p. is_security_source (p_source p)) ps))"
proof -
  have "foldl (\<lambda>n p. if is_security_source (p_source p) then n + 1 else n) k ps =
      k + int (length (filter (\<lambda>p. is_security_source (p_source p)) ps))" for k
    by (induction ps arbitrary: k) auto
  then show ?thesis by (simp add: security_count_def)
qed

end
