(* ===== verification/Store.thy ===== *)
theory Store
  imports Models "HOL-Library.List_Lexorder"
begin

text \<open>
  The SQLite database of \<open>internal/db/db.go\<close> as one record of tables. A table is the list of its
  rows in insertion order; \<open>app_settings\<close> and \<open>host_notification_prefs\<close>, which are only read and
  written by key, are maps. A column that holds a JSON array is the list it encodes. A statement
  either succeeds or fails by a constraint the schema declares; I/O failure of SQLite is not
  modelled. Identifiers made by \<open>uuid.NewString\<close> and the current time are arguments.
\<close>

datatype db_err = HostExists | NoRows | ErrMsg string

type_synonym 'a res = "db_err + 'a"

record restart_mark =
  m_host :: string
  m_service :: string
  m_boot :: string
  m_created :: int

record db =
  d_users :: "user list"
  d_hosts :: "host list"
  d_scans :: "scan_snapshot list"
  d_history :: "scan_history_entry list"
  d_jobs :: "job list"
  d_runs :: "job_run list"
  d_settings :: "string \<rightharpoonup> string"
  d_prefs :: "string \<rightharpoonup> host_prefs"
  d_key_audit :: "host_key_audit_event list"
  d_recovery :: "recovery_code list"
  d_sessions :: "session list"
  d_tokens :: "api_token list"
  d_activity :: "activity_entry list"
  d_next_activity :: int
  d_marks :: "restart_mark list"

definition empty_db :: db where
  "empty_db = \<lparr>d_users = [], d_hosts = [], d_scans = [], d_history = [], d_jobs = [], d_runs = [],
     d_settings = Map.empty, d_prefs = Map.empty, d_key_audit = [], d_recovery = [], d_sessions = [],
     d_tokens = [], d_activity = [], d_next_activity = 1, d_marks = []\<rparr>"

section \<open>Statements\<close>

text \<open>\<open>UPDATE t SET f WHERE p\<close>, \<open>DELETE FROM t WHERE p\<close> and \<open>SELECT ... WHERE p LIMIT 1\<close>.\<close>

definition update_rows :: "('a \<Rightarrow> bool) \<Rightarrow> ('a \<Rightarrow> 'a) \<Rightarrow> 'a list \<Rightarrow> 'a list" where
  "update_rows p f rows = map (\<lambda>r. if p r then f r else r) rows"

definition delete_rows :: "('a \<Rightarrow> bool) \<Rightarrow> 'a list \<Rightarrow> 'a list" where
  "delete_rows p rows = filter (\<lambda>r. \<not> p r) rows"

definition rows_affected :: "('a \<Rightarrow> bool) \<Rightarrow> 'a list \<Rightarrow> nat" where
  "rows_affected p rows = length (filter p rows)"

text \<open>\<open>ORDER BY k DESC\<close>; rows with equal keys come in the order of their insertion, as in SQLite's sorter.\<close>

definition order_desc :: "('a \<Rightarrow> 'b::linorder) \<Rightarrow> 'a list \<Rightarrow> 'a list" where
  "order_desc k rows = rev (sort_key k (rev rows))"

lemma rows_affected_0: "rows_affected p rows = 0 \<longleftrightarrow> (\<forall>r \<in> set rows. \<not> p r)"
  by (simp add: rows_affected_def filter_empty_conv)

lemma set_update_rows [simp]:
  "set (update_rows p f rows) = (\<lambda>r. if p r then f r else r) ` set rows"
  by (simp add: update_rows_def)

lemma ball_update_rows:
  "(\<forall>r \<in> set (update_rows p f rows). Q r) \<longleftrightarrow> (\<forall>r \<in> set rows. Q (if p r then f r else r))"
  unfolding update_rows_def set_map by blast

lemma set_delete_rows [simp]: "set (delete_rows p rows) = {r \<in> set rows. \<not> p r}"
  by (simp add: delete_rows_def)

lemma length_update_rows [simp]: "length (update_rows p f rows) = length rows"
  by (simp add: update_rows_def)

lemma map_update_rows_same:
  "(\<And>r. p r \<Longrightarrow> k (f r) = k r) \<Longrightarrow> map k (update_rows p f rows) = map k rows"
  by (simp add: update_rows_def comp_def if_distrib [of k] cong: if_cong)

lemma distinct_delete_rows: "distinct (map k rows) \<Longrightarrow> distinct (map k (delete_rows p rows))"
  by (simp add: delete_rows_def distinct_map_filter)

lemma set_order_desc [simp]: "set (order_desc k rows) = set rows"
  by (simp add: order_desc_def)

lemma length_order_desc [simp]: "length (order_desc k rows) = length rows"
  by (simp add: order_desc_def)

lemma filter_sort_key: "filter p (sort_key k rows) = sort_key k (filter p rows)"
  by (rule filter_sort)

text \<open>
  A table keyed by \<open>k\<close>: looking a key up, with the law every single-row query of the program
  relies on.
\<close>

definition lookup_row :: "('a \<Rightarrow> 'b) \<Rightarrow> 'b \<Rightarrow> 'a list \<Rightarrow> 'a option" where
  "lookup_row k x rows = find (\<lambda>r. k r = x) rows"

lemma lookup_row_Some: "lookup_row k x rows = Some r \<Longrightarrow> r \<in> set rows \<and> k r = x"
  by (auto simp: lookup_row_def find_Some_iff)

lemma lookup_row_None: "lookup_row k x rows = None \<longleftrightarrow> x \<notin> k ` set rows"
  by (auto simp: lookup_row_def find_None_iff)

lemma lookup_row_unique:
  "distinct (map k rows) \<Longrightarrow> r \<in> set rows \<Longrightarrow> lookup_row k (k r) rows = Some r"
  by (induction rows) (auto simp: lookup_row_def image_iff)

lemma lookup_update_rows:
  "(\<And>r. k (f r) = k r) \<Longrightarrow>
     lookup_row k x (update_rows (\<lambda>r. k r = y) f rows) =
     (if x = y then map_option f (lookup_row k x rows) else lookup_row k x rows)"
  by (induction rows) (auto simp: lookup_row_def update_rows_def)

section \<open>A key-value store\<close>

text \<open>
  The interface of \<open>app_settings\<close>: what the settings, the OIDC configuration and the keypair state
  need of it is that a key reads back what was last written to it and no write disturbs another.
\<close>

locale kv_store =
  fixes get :: "'s \<Rightarrow> string \<Rightarrow> string option"
    and put :: "string \<Rightarrow> string option \<Rightarrow> 's \<Rightarrow> 's"
  assumes get_put: "get (put k v s) k' = (if k' = k then v else get s k')"
begin

lemma get_put_all_other:
  "k \<notin> fst ` set kvs \<Longrightarrow> get (fold (\<lambda>(k, v). put k v) kvs s) k = get s k"
  by (induction kvs arbitrary: s) (auto simp: get_put)

lemma get_put_all:
  "distinct (map fst kvs) \<Longrightarrow> (k, v) \<in> set kvs \<Longrightarrow> get (fold (\<lambda>(k, v). put k v) kvs s) k = v"
proof (induction kvs arbitrary: s)
  case (Cons e kvs)
  show ?case
  proof (cases "e = (k, v)")
    case True
    with Cons.prems have "k \<notin> fst ` set kvs" by auto
    with True show ?thesis by (simp add: get_put_all_other get_put)
  next
    case False
    with Cons show ?thesis by (cases e) auto
  qed
qed simp

end

definition setting_get :: "db \<Rightarrow> string \<Rightarrow> string option" where
  "setting_get d k = d_settings d k"

definition setting_put :: "string \<Rightarrow> string option \<Rightarrow> db \<Rightarrow> db" where
  "setting_put k v d = d\<lparr>d_settings := (d_settings d)(k := v)\<rparr>"

interpretation kv: kv_store setting_get setting_put
  by unfold_locales (simp add: setting_get_def setting_put_def)

end
