(* ===== verification/DbHosts.thy ===== *)
theory DbHosts
  imports Store Machine "HOL-Library.Product_Lexorder"
begin

text \<open>
  The host table of \<open>internal/db/db.go\<close> and the cascade of \<open>DeleteHost\<close> over everything that
  refers to a host: scans, history, preferences, host-key audit, restart marks, and the targets of
  the jobs. Also the job table itself and the run history of jobs.
\<close>

section \<open>Reading hosts\<close>

definition default_prefs :: host_prefs where
  "default_prefs = \<lparr>hp_updates = True, hp_apply_ok = True, hp_apply_fail = True, hp_scan_fail = True\<rparr>"

definition get_host_notification_prefs :: "db \<Rightarrow> string \<Rightarrow> host_prefs" where
  "get_host_notification_prefs d host =
     (case d_prefs d host of None \<Rightarrow> default_prefs | Some p \<Rightarrow> p)"

definition upsert_host_notification_prefs :: "string \<Rightarrow> host_prefs \<Rightarrow> db \<Rightarrow> db" where
  "upsert_host_notification_prefs host p d = d\<lparr>d_prefs := (d_prefs d)(host \<mapsto> p)\<rparr>"

text \<open>What \<open>ListHosts\<close> and \<open>GetHost\<close> make of a row.\<close>

definition read_host :: "db \<Rightarrow> host \<Rightarrow> host" where
  "read_host d h = h\<lparr>
     h_policy := (if h_policy h = [] then ''manual'' else h_policy h),
     h_trust_mode := (if trim_space (h_trust_mode h) = [] then ''tofu'' else h_trust_mode h),
     h_prefs := get_host_notification_prefs d (h_id h)\<rparr>"

definition list_hosts :: "db \<Rightarrow> host list" where
  "list_hosts d = map (\<lambda>h. (read_host d h)\<lparr>h_secret := []\<rparr>) (sort_key h_name (d_hosts d))"

definition get_host :: "db \<Rightarrow> string \<Rightarrow> host res" where
  "get_host d i =
     (case lookup_row h_id i (d_hosts d) of None \<Rightarrow> Inl NoRows | Some h \<Rightarrow> Inr (read_host d h))"

definition count_hosts :: "db \<Rightarrow> int" where
  "count_hosts d = int (length (d_hosts d))"

definition list_hosts_by_tag :: "db \<Rightarrow> string \<Rightarrow> host list" where
  "list_hosts_by_tag d tag =
     (let t = trim_space (to_lower tag) in
      if t = [] then []
      else filter (\<lambda>h. list_ex (\<lambda>x. trim_space (to_lower x) = t) (h_tags h)) (list_hosts d))"

definition list_hosts_by_ids :: "db \<Rightarrow> string list \<Rightarrow> host list" where
  "list_hosts_by_ids d ids =
     (if ids = [] then [] else filter (\<lambda>h. h_id h \<in> set (map trim_space ids)) (list_hosts d))"

text \<open>\<open>ListAllTags\<close>; the order of the result is the iteration order of a Go map, so it is a set.\<close>

definition list_all_tags :: "db \<Rightarrow> string set" where
  "list_all_tags d = set (filter (\<lambda>t. t \<noteq> []) (map trim_space (concat (map h_tags (d_hosts d)))))"

section \<open>Writing hosts\<close>

definition host_target :: "host \<Rightarrow> string \<times> int \<times> string" where
  "host_target h = (h_address h, h_port h, h_ssh_user h)"

definition create_host :: "string \<Rightarrow> int \<Rightarrow> host \<Rightarrow> db \<Rightarrow> (string \<times> db) res" where
  "create_host uid now h d =
     (let policy = (if trim_space (h_policy h) = [] then ''manual'' else trim_space (h_policy h));
          mode = (if to_lower (trim_space (h_trust_mode h)) = [] then ''tofu''
                  else to_lower (trim_space (h_trust_mode h)));
          row = h\<lparr>h_id := uid, h_checks := True, h_policy := policy, h_trust_mode := mode,
                   h_pinned := trim_space (h_pinned h), h_trusted := trim_space (h_trusted h),
                   h_pending := trim_space (h_pending h), h_verified_at := None, h_tags := [],
                   h_exclude_bulk := False, h_created := now\<rparr>
      in if \<exists>r \<in> set (d_hosts d). h_id r = uid \<or> host_target r = host_target row then Inl HostExists
         else Inr (uid, d\<lparr>d_hosts := d_hosts d @ [row]\<rparr>))"

text \<open>An update of the row of one host; no row is \<open>sql.ErrNoRows\<close>.\<close>

definition update_host_row :: "string \<Rightarrow> (host \<Rightarrow> host) \<Rightarrow> db \<Rightarrow> db" where
  "update_host_row i f d = d\<lparr>d_hosts := update_rows (\<lambda>r. h_id r = i) f (d_hosts d)\<rparr>"

definition update_one_host :: "string \<Rightarrow> (host \<Rightarrow> host) \<Rightarrow> db \<Rightarrow> db res" where
  "update_one_host i f d =
     (if rows_affected (\<lambda>r. h_id r = i) (d_hosts d) = 0 then Inl NoRows else Inr (update_host_row i f d))"

definition update_host :: "host \<Rightarrow> db \<Rightarrow> db res" where
  "update_host h d =
     (if (\<exists>r \<in> set (d_hosts d). h_id r = h_id h) \<and>
         (\<exists>r \<in> set (d_hosts d). h_id r \<noteq> h_id h \<and> host_target r = host_target h)
      then Inl HostExists
      else update_one_host (h_id h)
        (\<lambda>r. r\<lparr>h_name := h_name h, h_address := h_address h, h_port := h_port h,
               h_ssh_user := h_ssh_user h, h_auth_type := h_auth_type h, h_secret := h_secret h\<rparr>) d)"

definition set_host_exclude_from_bulk :: "string \<Rightarrow> bool \<Rightarrow> db \<Rightarrow> db" where
  "set_host_exclude_from_bulk i exclude d = update_host_row i (h_exclude_bulk_update (\<lambda>_. exclude)) d"

definition update_host_operational_controls :: "string \<Rightarrow> bool \<Rightarrow> string \<Rightarrow> db \<Rightarrow> db res" where
  "update_host_operational_controls i checks policy d =
     (let p = (if trim_space (to_lower policy) = [] then ''manual'' else trim_space (to_lower policy))
      in update_one_host i (\<lambda>r. r\<lparr>h_checks := checks, h_policy := p\<rparr>) d)"

definition update_host_tags :: "string \<Rightarrow> string list \<Rightarrow> db \<Rightarrow> db res" where
  "update_host_tags i tags d = update_one_host i (h_tags_update (\<lambda>_. tags)) d"

section \<open>Host keys in the database\<close>

definition update_host_key_policy :: "string \<Rightarrow> bool \<Rightarrow> string \<Rightarrow> string \<Rightarrow> db \<Rightarrow> db res" where
  "update_host_key_policy i required trust_mode pinned d =
     (let mode = (if to_lower (trim_space trust_mode) = [] then ''tofu'' else to_lower (trim_space trust_mode))
      in update_one_host i
           (\<lambda>r. r\<lparr>h_key_required := required, h_trust_mode := mode, h_pinned := trim_space pinned\<rparr>) d)"

definition record_host_key_audit ::
  "string \<Rightarrow> int \<Rightarrow> string \<Rightarrow> string \<Rightarrow> string \<Rightarrow> string \<Rightarrow> string \<Rightarrow> db \<Rightarrow> db" where
  "record_host_key_audit uid now i event prev_fp new_fp note_text d =
     d\<lparr>d_key_audit := d_key_audit d @
        [\<lparr>ke_id = uid, ke_host = i, ke_event = trim_space event, ke_prev = trim_space prev_fp,
          ke_new = trim_space new_fp, ke_note = trim_space note_text, ke_created = now\<rparr>]\<rparr>"

definition list_host_key_audit_events :: "db \<Rightarrow> string \<Rightarrow> int \<Rightarrow> host_key_audit_event list" where
  "list_host_key_audit_events d i limit =
     (let l = (if limit \<le> 0 then 20 else limit);
          l = (if l > 100 then 100 else l)
      in take (nat l) (order_desc ke_created (filter (\<lambda>e. ke_host e = i) (d_key_audit d))))"

text \<open>SQL's \<open>TRIM\<close> removes spaces only.\<close>

definition sql_trim :: "string \<Rightarrow> string" where
  "sql_trim s = trim_of s '' ''"

definition accept_host_key_pending_fingerprint :: "int \<Rightarrow> string \<Rightarrow> db \<Rightarrow> db res" where
  "accept_host_key_pending_fingerprint now i d =
     (let p = (\<lambda>r. h_id r = i \<and> sql_trim (h_pending r) \<noteq> []) in
      if rows_affected p (d_hosts d) = 0 then Inl NoRows
      else Inr (d\<lparr>d_hosts := update_rows p
        (\<lambda>r. r\<lparr>h_trusted := h_pending r,
               h_pinned := (if h_trust_mode r = ''pinned'' then h_pending r else h_pinned r),
               h_pending := [], h_verified_at := Some now\<rparr>) (d_hosts d)\<rparr>))"

definition clear_host_key_pending_fingerprint :: "string \<Rightarrow> db \<Rightarrow> db res" where
  "clear_host_key_pending_fingerprint i d = update_one_host i (h_pending_update (\<lambda>_. [])) d"

definition trust_host_key_first_use :: "int \<Rightarrow> string \<Rightarrow> string \<Rightarrow> db \<Rightarrow> db" where
  "trust_host_key_first_use now i fp d =
     update_host_row i (\<lambda>r. r\<lparr>h_trusted := trim_space fp, h_pending := [], h_verified_at := Some now\<rparr>) d"

definition set_host_key_pending_fingerprint :: "string \<Rightarrow> string \<Rightarrow> db \<Rightarrow> db" where
  "set_host_key_pending_fingerprint i fp d = update_host_row i (h_pending_update (\<lambda>_. trim_space fp)) d"

definition mark_host_key_verified :: "int \<Rightarrow> string \<Rightarrow> db \<Rightarrow> db" where
  "mark_host_key_verified now i d = update_host_row i (h_verified_at_update (\<lambda>_. Some now)) d"

section \<open>Jobs\<close>

definition create_job :: "string \<Rightarrow> job \<Rightarrow> db \<Rightarrow> db" where
  "create_job uid j d =
     (let mode = (if j_mode j = [] then ''scan'' else j_mode j);
          tag = trim_space (j_tag j);
          host = trim_space (j_host j);
          host = (if host = [] \<and> j_hosts j \<noteq> [] then hd (j_hosts j) else host)
      in d\<lparr>d_jobs := d_jobs d @ [j\<lparr>j_id := uid, j_host := host, j_mode := mode, j_tag := tag\<rparr>]\<rparr>)"

definition update_job_enabled :: "string \<Rightarrow> bool \<Rightarrow> db \<Rightarrow> db res" where
  "update_job_enabled i enabled d =
     (if rows_affected (\<lambda>j. j_id j = i) (d_jobs d) = 0 then Inl NoRows
      else Inr (d\<lparr>d_jobs := update_rows (\<lambda>j. j_id j = i) (j_enabled_update (\<lambda>_. enabled)) (d_jobs d)\<rparr>))"

definition delete_job :: "string \<Rightarrow> db \<Rightarrow> db res" where
  "delete_job i d =
     (if rows_affected (\<lambda>j. j_id j = i) (d_jobs d) = 0 then Inl NoRows
      else Inr (d\<lparr>d_jobs := delete_rows (\<lambda>j. j_id j = i) (d_jobs d),
                  d_runs := delete_rows (\<lambda>r. jr_job r = i) (d_runs d)\<rparr>))"

text \<open>\<open>ListJobs\<close> adds the name of the job's primary host, blank when there is none.\<close>

definition list_jobs :: "db \<Rightarrow> (job \<times> string) list" where
  "list_jobs d = map (\<lambda>j. (j\<lparr>j_tag := trim_space (j_tag j)\<rparr>,
       case lookup_row h_id (j_host j) (d_hosts d) of None \<Rightarrow> [] | Some h \<Rightarrow> h_name h))
     (order_desc j_id (d_jobs d))"

definition create_job_run :: "string \<Rightarrow> int \<Rightarrow> string \<Rightarrow> string \<Rightarrow> db \<Rightarrow> db" where
  "create_job_run uid now job_id mode d = d\<lparr>d_runs := d_runs d @
     [\<lparr>jr_id = uid, jr_job = job_id, jr_mode = mode, jr_status = ''running'', jr_started = now,
       jr_finished = None, jr_total = 0, jr_ok = 0, jr_failed = 0, jr_detail = []\<rparr>]\<rparr>"

definition finish_job_run ::
  "int \<Rightarrow> string \<Rightarrow> string \<Rightarrow> int \<Rightarrow> int \<Rightarrow> int \<Rightarrow> string \<Rightarrow> db \<Rightarrow> db" where
  "finish_job_run now run status n_total ok failed detail d =
     d\<lparr>d_runs := update_rows (\<lambda>r. jr_id r = run)
        (\<lambda>r. r\<lparr>jr_status := status, jr_finished := Some now, jr_total := n_total, jr_ok := ok,
               jr_failed := failed, jr_detail := detail\<rparr>) (d_runs d)\<rparr>"

definition newest_runs :: "db \<Rightarrow> string \<Rightarrow> job_run list" where
  "newest_runs d job_id = order_desc (\<lambda>r. (jr_started r, jr_id r)) (filter (\<lambda>r. jr_job r = job_id) (d_runs d))"

definition list_job_runs :: "db \<Rightarrow> string \<Rightarrow> int \<Rightarrow> job_run list" where
  "list_job_runs d job_id limit =
     take (nat (if limit \<le> 0 \<or> limit > 200 then 20 else limit)) (newest_runs d job_id)"

definition get_last_job_run :: "db \<Rightarrow> string \<Rightarrow> job_run option" where
  "get_last_job_run d job_id = (case newest_runs d job_id of [] \<Rightarrow> None | r # _ \<Rightarrow> Some r)"

definition prune_job_runs :: "string \<Rightarrow> nat \<Rightarrow> db \<Rightarrow> db" where
  "prune_job_runs job_id keep d =
     d\<lparr>d_runs := delete_rows
        (\<lambda>r. jr_job r = job_id \<and> jr_id r \<notin> set (map jr_id (take keep (newest_runs d job_id)))) (d_runs d)\<rparr>"

section \<open>DeleteHost\<close>

text \<open>
  One job of \<open>reconcileJobsAfterHostDelete\<close>: kept as it is, kept with the host removed from its
  targets, or \<open>None\<close> when no target is left.
\<close>

definition reconcile_job :: "string \<Rightarrow> job \<Rightarrow> job option" where
  "reconcile_job host j =
     (if trim_space (j_tag j) \<noteq> [] then Some j
      else
        (let remaining = filter (\<lambda>x. x \<noteq> host) (j_hosts j);
             in_list = (length remaining \<noteq> length (j_hosts j));
             primary = (j_host j = host)
         in if \<not> in_list \<and> \<not> primary then Some j
            else
              (let new_primary =
                     (if primary then (if length remaining > 0 then hd remaining else []) else j_host j)
               in if length remaining = 0 \<and> new_primary = [] then None
                  else Some (j\<lparr>j_host := new_primary, j_hosts := remaining\<rparr>))))"

definition reconcile_jobs_after_host_delete :: "string \<Rightarrow> db \<Rightarrow> db" where
  "reconcile_jobs_after_host_delete host d =
     (let gone = map j_id (filter (\<lambda>j. reconcile_job host j = None) (d_jobs d)) in
      d\<lparr>d_jobs := List.map_filter (reconcile_job host) (d_jobs d),
        d_runs := delete_rows (\<lambda>r. jr_job r \<in> set gone) (d_runs d)\<rparr>)"

definition delete_host :: "string \<Rightarrow> db \<Rightarrow> db res" where
  "delete_host i d =
     (if rows_affected (\<lambda>r. h_id r = i) (d_hosts d) = 0 then Inl NoRows
      else
        (let d1 = d\<lparr>d_hosts := delete_rows (\<lambda>r. h_id r = i) (d_hosts d)\<rparr>;
             d2 = d1\<lparr>d_scans := delete_rows (\<lambda>r. sn_host r = i) (d_scans d1)\<rparr>;
             d3 = d2\<lparr>d_history := delete_rows (\<lambda>r. e_host r = i) (d_history d2)\<rparr>;
             d4 = reconcile_jobs_after_host_delete i d3;
             d5 = d4\<lparr>d_prefs := (d_prefs d4)(i := None)\<rparr>;
             d6 = d5\<lparr>d_key_audit := delete_rows (\<lambda>r. ke_host r = i) (d_key_audit d5)\<rparr>
         in Inr (d6\<lparr>d_marks := delete_rows (\<lambda>r. m_host r = i) (d_marks d6)\<rparr>)))"

section \<open>Facts about jobs under a host deletion\<close>

lemma filter_ne_length: "length (filter (\<lambda>x. x \<noteq> a) xs) \<noteq> length xs \<longleftrightarrow> a \<in> set xs"
  using length_filter_less [of a xs "\<lambda>x. x \<noteq> a"] filter_True [of xs "\<lambda>x. x \<noteq> a"]
  by (cases "a \<in> set xs") fastforce+

definition is_tag_job :: "job \<Rightarrow> bool" where
  "is_tag_job j \<longleftrightarrow> trim_space (j_tag j) \<noteq> []"

definition job_targets :: "job \<Rightarrow> string set" where
  "job_targets j = insert (j_host j) (set (j_hosts j)) - {[]}"

lemma reconcile_job_tag: "is_tag_job j \<Longrightarrow> reconcile_job i j = Some j"
  by (simp add: reconcile_job_def is_tag_job_def)

lemma reconcile_job_other:
  "j_host j \<noteq> i \<Longrightarrow> i \<notin> set (j_hosts j) \<Longrightarrow> reconcile_job i j = Some j"
  using filter_ne_length [of i "j_hosts j"] by (simp add: reconcile_job_def Let_def)

lemma reconcile_job_fields:
  "reconcile_job i j = Some j' \<Longrightarrow> j_id j' = j_id j \<and> j_tag j' = j_tag j \<and> j_cron j' = j_cron j \<and>
     j_mode j' = j_mode j \<and> j_enabled j' = j_enabled j \<and> set (j_hosts j') \<subseteq> set (j_hosts j)"
  by (auto simp: reconcile_job_def Let_def split: if_splits)

lemma reconcile_job_clean:
  assumes "reconcile_job i j = Some j'" "\<not> is_tag_job j" "i \<noteq> []"
  shows "j_host j' \<noteq> i \<and> i \<notin> set (j_hosts j')"
proof -
  let ?rem = "filter (\<lambda>x. x \<noteq> i) (j_hosts j)"
  have hd: "?rem \<noteq> [] \<Longrightarrow> hd ?rem \<noteq> i" using hd_in_set [of ?rem] by auto
  show ?thesis
    using assms filter_ne_length [of i "j_hosts j"] hd
    by (auto simp: reconcile_job_def is_tag_job_def Let_def split: if_splits)
qed

lemma reconcile_job_gone:
  assumes "reconcile_job i j = None" "i \<noteq> []"
  shows "\<not> is_tag_job j \<and> job_targets j = {i}"
proof -
  have ref: "j_host j = i \<or> i \<in> set (j_hosts j)" "\<not> is_tag_job j"
    using assms(1) reconcile_job_tag [of j i] reconcile_job_other [of j i] by fastforce+
  have "filter (\<lambda>x. x \<noteq> i) (j_hosts j) = [] \<and> (j_host j = i \<or> j_host j = [])"
    using assms(1) by (auto simp: reconcile_job_def Let_def split: if_splits)
  then have "set (j_hosts j) \<subseteq> {i}" "j_host j = i \<or> j_host j = []"
    by (auto simp: filter_empty_conv)
  with ref assms(2) show ?thesis by (auto simp: job_targets_def)
qed

lemma reconcile_job_targets:
  assumes "reconcile_job i j = Some j'" "\<not> is_tag_job j" "job_targets j \<noteq> {}" "i \<noteq> []" "[] \<notin> set (j_hosts j)"
  shows "job_targets j' \<noteq> {} \<and> job_targets j' \<subseteq> job_targets j - {i}"
proof -
  let ?rem = "filter (\<lambda>x. x \<noteq> i) (j_hosts j)"
  have hd: "?rem \<noteq> [] \<Longrightarrow> hd ?rem \<in> set (j_hosts j) \<and> hd ?rem \<noteq> i \<and> hd ?rem \<noteq> []"
    using hd_in_set [of ?rem] assms(5) by auto
  have f: "filter (\<lambda>x. x \<noteq> i) xs = [] \<longleftrightarrow> set xs \<subseteq> {i}" for xs :: "string list"
    by (auto simp: filter_empty_conv)
  show ?thesis
    using assms filter_ne_length [of i "j_hosts j"] hd
    by (auto simp: reconcile_job_def is_tag_job_def job_targets_def Let_def f split: if_splits)
qed

text \<open>What a deletion that succeeds leaves, table by table.\<close>

lemma delete_host_tables:
  assumes "delete_host i d = Inr d'"
  shows "d_hosts d' = delete_rows (\<lambda>r. h_id r = i) (d_hosts d)"
    "d_scans d' = delete_rows (\<lambda>r. sn_host r = i) (d_scans d)"
    "d_history d' = delete_rows (\<lambda>r. e_host r = i) (d_history d)"
    "d_jobs d' = List.map_filter (reconcile_job i) (d_jobs d)"
    "d_runs d' = delete_rows (\<lambda>r. jr_job r \<in> j_id ` {j \<in> set (d_jobs d). reconcile_job i j = None}) (d_runs d)"
    "d_prefs d' = (d_prefs d)(i := None)"
    "d_key_audit d' = delete_rows (\<lambda>r. ke_host r = i) (d_key_audit d)"
    "d_marks d' = delete_rows (\<lambda>r. m_host r = i) (d_marks d)"
    "d_users d' = d_users d" "d_settings d' = d_settings d" "d_sessions d' = d_sessions d"
    "d_tokens d' = d_tokens d" "d_activity d' = d_activity d"
  using assms
  by (auto simp: delete_host_def reconcile_jobs_after_host_delete_def Let_def split: if_splits)

lemma set_map_filter: "set (List.map_filter f xs) = {y. \<exists>x \<in> set xs. f x = Some y}"
  by (induction xs) (auto simp: List.map_filter_simps split: option.splits)

section \<open>The host table as a state machine\<close>

text \<open>Every operation of the program that writes the host table; a failed one changes nothing.\<close>

datatype host_op =
    CreateHost string int host
  | UpdateHost host
  | DeleteHost string
  | ExcludeHost string bool
  | ControlsHost string bool string
  | TagsHost string "string list"
  | KeyPolicyHost string bool string string
  | AcceptKey int string
  | ClearPending string
  | TrustFirstUse int string string
  | SetPending string string
  | MarkVerified int string

definition commit :: "db res \<Rightarrow> db \<Rightarrow> db" where
  "commit r d = (case r of Inl _ \<Rightarrow> d | Inr d' \<Rightarrow> d')"

fun host_step :: "host_op \<Rightarrow> db \<Rightarrow> db" where
  "host_step (CreateHost u t h) d = (case create_host u t h d of Inl _ \<Rightarrow> d | Inr (_, d') \<Rightarrow> d')"
| "host_step (UpdateHost h) d = commit (update_host h d) d"
| "host_step (DeleteHost i) d = commit (delete_host i d) d"
| "host_step (ExcludeHost i b) d = set_host_exclude_from_bulk i b d"
| "host_step (ControlsHost i b p) d = commit (update_host_operational_controls i b p d) d"
| "host_step (TagsHost i ts) d = commit (update_host_tags i ts d) d"
| "host_step (KeyPolicyHost i b m p) d = commit (update_host_key_policy i b m p d) d"
| "host_step (AcceptKey t i) d = commit (accept_host_key_pending_fingerprint t i d) d"
| "host_step (ClearPending i) d = commit (clear_host_key_pending_fingerprint i d) d"
| "host_step (TrustFirstUse t i fp) d = trust_host_key_first_use t i fp d"
| "host_step (SetPending i fp) d = set_host_key_pending_fingerprint i fp d"
| "host_step (MarkVerified t i) d = mark_host_key_verified t i d"

text \<open>The schema's constraints: the primary key and the unique target index.\<close>

definition hosts_unique :: "db \<Rightarrow> bool" where
  "hosts_unique d \<longleftrightarrow> distinct (map h_id (d_hosts d)) \<and> distinct (map host_target (d_hosts d))"

lemma hosts_unique_rows:
  assumes "hosts_unique d" "d_hosts d' = update_rows p f (d_hosts d)"
    and "\<And>r. h_id (f r) = h_id r" "\<And>r. host_target (f r) = host_target r"
  shows "hosts_unique d'"
  using assms by (simp add: hosts_unique_def map_update_rows_same)

lemma hosts_unique_update_row:
  assumes "hosts_unique d" "\<And>r. h_id (f r) = h_id r" "\<And>r. host_target (f r) = host_target r"
  shows "hosts_unique (update_host_row i f d)" "hosts_unique (commit (update_one_host i f d) d)"
proof -
  show "hosts_unique (update_host_row i f d)"
    by (rule hosts_unique_rows [OF assms(1) _ assms(2,3)]) (simp add: update_host_row_def)
  then show "hosts_unique (commit (update_one_host i f d) d)"
    using assms(1) by (simp add: update_one_host_def commit_def)
qed

lemma distinct_update_one:
  assumes "distinct (map h_id hs)" "distinct (map host_target hs)"
    and "\<forall>r \<in> set hs. h_id r \<noteq> i \<longrightarrow> host_target r \<noteq> t"
    and "\<And>r. host_target (f r) = t"
  shows "distinct (map host_target (update_rows (\<lambda>r. h_id r = i) f hs))"
  using assms
proof (induction hs)
  case (Cons h hs)
  show ?case
  proof (cases "h_id h = i")
    case True
    then have "\<forall>r \<in> set hs. h_id r \<noteq> i" using Cons.prems(1) by (metis distinct.simps(2) imageI list.set_map list.simps(9))
    then have "update_rows (\<lambda>r. h_id r = i) f hs = hs"
      by (simp add: update_rows_def map_idI)
    moreover have "t \<notin> host_target ` set hs" using Cons.prems(3) \<open>\<forall>r \<in> set hs. h_id r \<noteq> i\<close> by auto
    ultimately show ?thesis using True Cons.prems by (simp add: update_rows_def)
  next
    case False
    then have "host_target h \<noteq> t" using Cons.prems(3) by simp
    with False Cons show ?thesis by (auto simp: update_rows_def split: if_splits)
  qed
qed (simp add: update_rows_def)

lemma hosts_unique_update_host:
  assumes "hosts_unique d"
  shows "hosts_unique (commit (update_host h d) d)"
proof (cases "\<exists>r \<in> set (d_hosts d). h_id r \<noteq> h_id h \<and> host_target r = host_target h")
  case False
  let ?f = "\<lambda>r. r\<lparr>h_name := h_name h, h_address := h_address h, h_port := h_port h,
               h_ssh_user := h_ssh_user h, h_auth_type := h_auth_type h, h_secret := h_secret h\<rparr>"
  have "distinct (map host_target (update_rows (\<lambda>r. h_id r = h_id h) ?f (d_hosts d)))"
    using assms False
    by (intro distinct_update_one [where t = "host_target h"]) (auto simp: hosts_unique_def host_target_def)
  then have "hosts_unique (update_host_row (h_id h) ?f d)"
    using assms by (simp add: hosts_unique_def update_host_row_def map_update_rows_same)
  then show ?thesis
    using assms False by (simp add: update_host_def update_one_host_def commit_def)
next
  case True
  show ?thesis
  proof (cases "\<exists>r \<in> set (d_hosts d). h_id r = h_id h")
    case True
    with \<open>\<exists>r \<in> set (d_hosts d). h_id r \<noteq> h_id h \<and> host_target r = host_target h\<close> assms
    show ?thesis by (simp add: update_host_def commit_def)
  next
    case False
    then have "rows_affected (\<lambda>r. h_id r = h_id h) (d_hosts d) = 0" by (auto simp: rows_affected_0)
    with False assms show ?thesis by (simp add: update_host_def update_one_host_def commit_def)
  qed
qed

lemma hosts_unique_create:
  assumes "hosts_unique d" "create_host u t h d = Inr (i, d')"
  shows "hosts_unique d'"
  using assms by (auto simp: create_host_def hosts_unique_def Let_def split: if_splits) (auto simp: host_target_def)

lemma hosts_unique_delete:
  assumes "hosts_unique d" "delete_host i d = Inr d'"
  shows "hosts_unique d'"
  using assms(1) delete_host_tables(1) [OF assms(2)] by (simp add: hosts_unique_def distinct_delete_rows)

lemma host_step_unique: "hosts_unique d \<Longrightarrow> hosts_unique (host_step e d)"
proof (cases e)
  case (CreateHost u t h)
  then show "hosts_unique d \<Longrightarrow> ?thesis" by (auto split: sum.split intro: hosts_unique_create)
next
  case (DeleteHost i)
  then show "hosts_unique d \<Longrightarrow> ?thesis" by (auto simp: commit_def split: sum.split intro: hosts_unique_delete)
next
  case (AcceptKey t i)
  then show "hosts_unique d \<Longrightarrow> ?thesis"
    by (auto simp: commit_def accept_host_key_pending_fingerprint_def Let_def host_target_def
        intro: hosts_unique_rows)
qed (auto intro!: hosts_unique_update_row hosts_unique_update_host simp: host_target_def
      set_host_exclude_from_bulk_def update_host_operational_controls_def update_host_tags_def
      update_host_key_policy_def clear_host_key_pending_fingerprint_def trust_host_key_first_use_def
      set_host_key_pending_fingerprint_def mark_host_key_verified_def Let_def)

interpretation hostdb: machine host_step "\<lambda>_. True" hosts_unique
  by unfold_locales (rule host_step_unique)

section \<open>Properties\<close>

text \<open>C17
  Deleting a host removes its row and its scans, scan history, key audit, restart marks and preferences,
  and no job with explicit targets still names it, as primary host or in its list. The activity log
  keeps all its entries, those of the host too.\<close>

theorem delete_host_cascade:
  assumes "delete_host i d = Inr d'" "i \<noteq> []"
  shows "i \<notin> h_id ` set (d_hosts d') \<and> i \<notin> sn_host ` set (d_scans d') \<and> i \<notin> e_host ` set (d_history d') \<and>
     i \<notin> ke_host ` set (d_key_audit d') \<and> i \<notin> m_host ` set (d_marks d') \<and> d_prefs d' i = None \<and>
     (\<forall>j \<in> set (d_jobs d'). is_tag_job j \<or> i \<notin> job_targets j) \<and> d_activity d' = d_activity d"
proof -
  have "is_tag_job j' \<or> i \<notin> job_targets j'" if j': "j' \<in> set (d_jobs d')" for j'
  proof -
    obtain j where j: "j \<in> set (d_jobs d)" "reconcile_job i j = Some j'"
      using j' delete_host_tables(4) [OF assms(1)] by (auto simp: set_map_filter)
    have "is_tag_job j' = is_tag_job j"
      using reconcile_job_fields [OF j(2)] by (simp add: is_tag_job_def)
    then show ?thesis
      using reconcile_job_clean [OF j(2) _ assms(2)] by (auto simp: job_targets_def)
  qed
  then show ?thesis
    using delete_host_tables [OF assms(1)] by auto
qed

definition sample_host :: "string \<Rightarrow> string \<Rightarrow> host" where
  "sample_host i addr = \<lparr>h_id = i, h_name = addr, h_address = addr, h_port = 22, h_ssh_user = ''root'',
     h_auth_type = ''key'', h_secret = ''s'', h_created = 0, h_prefs = default_prefs, h_checks = True,
     h_policy = ''manual'', h_key_required = True, h_trust_mode = ''tofu'', h_pinned = [],
     h_trusted = [], h_pending = [], h_verified_at = None, h_tags = [], h_exclude_bulk = False\<rparr>"

definition sample_job :: "string \<Rightarrow> string \<Rightarrow> string list \<Rightarrow> job" where
  "sample_job i host hosts = \<lparr>j_id = i, j_host = host, j_hosts = hosts, j_tag = [], j_name = ''nightly'',
     j_cron = ''@daily'', j_mode = ''scan'', j_enabled = True\<rparr>"

definition sample_db :: db where
  "sample_db = empty_db\<lparr>d_hosts := [sample_host ''a'' ''alpha'', sample_host ''b'' ''beta''],
     d_jobs := [sample_job ''j1'' ''a'' [''a'', ''b''], sample_job ''j2'' ''a'' []]\<rparr>"

lemma sample_delete: "\<exists>d'. delete_host ''a'' sample_db = Inr d' \<and> d_jobs d' = [sample_job ''j1'' ''b'' [''b'']]"
  by (simp add: delete_host_def sample_db_def sample_host_def sample_job_def empty_db_def rows_affected_def
      reconcile_jobs_after_host_delete_def reconcile_job_def Let_def delete_rows_def List.map_filter_simps)

theorem delete_host_cascade_witness:
  "\<exists>d'. delete_host ''a'' sample_db = Inr d' \<and> ''a'' \<notin> h_id ` set (d_hosts d') \<and> d_prefs d' ''a'' = None"
proof -
  obtain d' where d': "delete_host ''a'' sample_db = Inr d'" using sample_delete by blast
  from delete_host_cascade [OF d'] d' show ?thesis by auto
qed

text \<open>
  Deleting a host takes nothing else with it: the other hosts keep their rows, a job that selects by
  tag or does not target the host is untouched, a job is removed only if the host was its only
  target, a surviving job keeps its schedule, and only the history of removed jobs goes.\<close>

theorem delete_host_frame:
  assumes "delete_host i d = Inr d'" "i \<noteq> []"
  shows "filter (\<lambda>h. h_id h \<noteq> i) (d_hosts d) = d_hosts d' \<and>
     filter (\<lambda>s. sn_host s \<noteq> i) (d_scans d) = d_scans d' \<and>
     (\<forall>j \<in> set (d_jobs d).
        (if is_tag_job j \<or> i \<notin> job_targets j then j \<in> set (d_jobs d')
         else if job_targets j = {i} then True
         else (\<exists>j' \<in> set (d_jobs d'). j_id j' = j_id j \<and> j_cron j' = j_cron j \<and> j_enabled j' = j_enabled j))) \<and>
     (\<forall>r \<in> set (d_runs d). r \<in> set (d_runs d') \<or>
        (\<exists>j \<in> set (d_jobs d). j_id j = jr_job r \<and> \<not> is_tag_job j \<and> job_targets j = {i}))"
proof -
  note T = delete_host_tables [OF assms(1)]
  have jobs: "if is_tag_job j \<or> i \<notin> job_targets j then j \<in> set (d_jobs d')
      else if job_targets j = {i} then True
      else (\<exists>j' \<in> set (d_jobs d'). j_id j' = j_id j \<and> j_cron j' = j_cron j \<and> j_enabled j' = j_enabled j)"
    if j: "j \<in> set (d_jobs d)" for j
  proof -
    have "is_tag_job j \<or> i \<notin> job_targets j \<Longrightarrow> reconcile_job i j = Some j"
      using reconcile_job_tag reconcile_job_other assms(2) by (auto simp: job_targets_def)
    moreover have "job_targets j \<noteq> {i} \<Longrightarrow> \<exists>j'. reconcile_job i j = Some j'"
      using reconcile_job_gone [OF _ assms(2), of j] by (cases "reconcile_job i j") auto
    ultimately show ?thesis
      using j reconcile_job_fields unfolding T(4) set_map_filter by (auto; metis)
  qed
  have runs: "r \<in> set (d_runs d') \<or>
      (\<exists>j \<in> set (d_jobs d). j_id j = jr_job r \<and> \<not> is_tag_job j \<and> job_targets j = {i})"
    if "r \<in> set (d_runs d)" for r
    using that reconcile_job_gone [OF _ assms(2)] unfolding T(5) set_delete_rows by auto
  show ?thesis using jobs runs T(1,2) by (simp add: delete_rows_def)
qed

theorem delete_host_frame_witness:
  "\<exists>d'. delete_host ''a'' sample_db = Inr d' \<and> (\<exists>j' \<in> set (d_jobs d'). j_id j' = ''j1'')"
proof -
  obtain d' where d': "delete_host ''a'' sample_db = Inr d'" using sample_delete by blast
  have j: "sample_job ''j1'' ''a'' [''a'', ''b''] \<in> set (d_jobs sample_db)" by (simp add: sample_db_def)
  have t: "\<not> is_tag_job (sample_job ''j1'' ''a'' [''a'', ''b''])"
    "job_targets (sample_job ''j1'' ''a'' [''a'', ''b'']) = {''a'', ''b''}"
    by (auto simp: is_tag_job_def job_targets_def sample_job_def)
  then have "job_targets (sample_job ''j1'' ''a'' [''a'', ''b'']) \<noteq> {''a''}" by auto
  with delete_host_frame [OF d'] j t have "\<exists>j' \<in> set (d_jobs d'). j_id j' = j_id (sample_job ''j1'' ''a'' [''a'', ''b''])"
    by (auto split: if_splits)
  with d' show ?thesis by (auto simp: sample_job_def)
qed

text \<open>
  No sequence of database operations on an empty database ever gives two hosts the same id or the
  same address, port and user.\<close>

theorem host_targets_unique:
  "hosts_unique (fold host_step ops empty_db)"
  by (rule hostdb.run_inv) (simp_all add: hosts_unique_def empty_db_def list_all_iff)

end
