(* ===== verification/DbScans.thy ===== *)
theory DbScans
  imports DbHosts RestartPolicy
begin

text \<open>
  Scan results in \<open>internal/db/db.go\<close>: the snapshot of a host, its bounded history, and the restart
  marks by which the program learns that a service only a reboot can clear. \<open>UpsertScanResult\<close>
  splits the flagged services with \<open>restartpolicy.Classify\<close>; what it relies on is the contract
  \<open>bucketing\<close>.
\<close>

section \<open>Restart marks\<close>

definition set_restart_mark :: "int \<Rightarrow> string \<Rightarrow> string \<Rightarrow> string \<Rightarrow> db \<Rightarrow> db" where
  "set_restart_mark now i service boot d =
     (let p = (\<lambda>m. m_host m = i \<and> m_service m = service) in
      if rows_affected p (d_marks d) = 0 then
        d\<lparr>d_marks := d_marks d @ [\<lparr>m_host = i, m_service = service, m_boot = trim_space boot, m_created = now\<rparr>]\<rparr>
      else
        d\<lparr>d_marks := update_rows p (\<lambda>m. m\<lparr>m_boot := trim_space boot, m_created := now\<rparr>) (d_marks d)\<rparr>)"

fun reconcile_loop ::
  "string \<Rightarrow> string list \<Rightarrow> string \<Rightarrow> restart_mark list \<Rightarrow> string list \<Rightarrow> restart_mark list \<Rightarrow>
     string list \<times> restart_mark list" where
  "reconcile_loop i flagged cur [] resistant tbl = (resistant, tbl)"
| "reconcile_loop i flagged cur (m # ms) resistant tbl =
     (if m_service m \<notin> set flagged \<or> trim_space (m_boot m) \<noteq> cur \<or> cur = [] then
        reconcile_loop i flagged cur ms resistant
          (delete_rows (\<lambda>r. m_host r = i \<and> m_service r = m_service m) tbl)
      else reconcile_loop i flagged cur ms (m_service m # resistant) tbl)"

definition reconcile_restart_marks :: "string \<Rightarrow> string list \<Rightarrow> string \<Rightarrow> db \<Rightarrow> string list \<times> db" where
  "reconcile_restart_marks i needs_restart boot d =
     (case reconcile_loop i needs_restart (trim_space boot)
             (filter (\<lambda>m. m_host m = i) (d_marks d)) [] (d_marks d) of
        (resistant, tbl) \<Rightarrow> (resistant, d\<lparr>d_marks := tbl\<rparr>))"

section \<open>Scan results\<close>

definition snapshot_row :: "int \<Rightarrow> string \<Rightarrow> scan_result \<Rightarrow> string list \<Rightarrow> string list \<Rightarrow> scan_snapshot" where
  "snapshot_row now i sr restartable reboot_only =
     \<lparr>sn_host = i, sn_packages = sr_packages sr, sn_deferred = sr_deferred sr,
      sn_needs_reboot = sr_needs_reboot sr, sn_reboot_reason = sr_reboot_reason sr,
      sn_needs_restart = sr_needs_restart sr, sn_needrestart_found = sr_needrestart_found sr,
      sn_raw = sr_raw sr, sn_os_name = sr_os_name sr, sn_os_version = sr_os_version sr,
      sn_uptime = sr_uptime sr, sn_kernel = sr_kernel sr, sn_boot_id = sr_boot_id sr,
      sn_restart = restartable, sn_reboot = reboot_only, sn_updated = now\<rparr>"

definition upsert_row :: "('a \<Rightarrow> 'b) \<Rightarrow> 'a \<Rightarrow> 'a list \<Rightarrow> 'a list" where
  "upsert_row k r rows =
     (if rows_affected (\<lambda>x. k x = k r) rows = 0 then rows @ [r]
      else update_rows (\<lambda>x. k x = k r) (\<lambda>_. r) rows)"

definition history_row :: "string \<Rightarrow> int \<Rightarrow> string \<Rightarrow> scan_result \<Rightarrow> scan_history_entry" where
  "history_row uid now i sr =
     \<lparr>e_id = uid, e_host = i, e_packages = sr_packages sr, e_needs_reboot = sr_needs_reboot sr,
      e_reboot_reason = sr_reboot_reason sr, e_needs_restart = sr_needs_restart sr,
      e_needrestart_found = sr_needrestart_found sr, e_raw = sr_raw sr, e_created = now\<rparr>"

definition newest_scans :: "string \<Rightarrow> scan_history_entry list \<Rightarrow> scan_history_entry list" where
  "newest_scans i rows = order_desc e_created (filter (\<lambda>e. e_host e = i) rows)"

definition prune_history :: "string \<Rightarrow> scan_history_entry list \<Rightarrow> scan_history_entry list" where
  "prune_history i rows =
     delete_rows (\<lambda>e. e_host e = i \<and> e_id e \<notin> set (map e_id (take 10 (newest_scans i rows)))) rows"

text \<open>The statements run one by one, so a failing insert leaves what came before it.\<close>

definition upsert_scan_result ::
  "string \<Rightarrow> int \<Rightarrow> string \<Rightarrow> scan_result \<Rightarrow> db \<Rightarrow> db_err option \<times> db" where
  "upsert_scan_result uid now i sr d =
     (case reconcile_restart_marks i (sr_needs_restart sr) (sr_boot_id sr) d of (resistant, d1) \<Rightarrow>
      case classify (sr_needs_restart sr) (sr_handlers sr) (\<lambda>s. s \<in> set resistant) of (restartable, reboot_only) \<Rightarrow>
        (let d2 = d1\<lparr>d_scans := upsert_row sn_host (snapshot_row now i sr restartable reboot_only) (d_scans d1)\<rparr>
         in if \<exists>e \<in> set (d_history d2). e_id e = uid
            then (Some (ErrMsg ''UNIQUE constraint failed: scan_history.id''), d2)
            else (None, d2\<lparr>d_history := prune_history i (d_history d2 @ [history_row uid now i sr])\<rparr>)))"

text \<open>The getters join the host table, for the name of the host.\<close>

definition list_scan_snapshots :: "db \<Rightarrow> (string \<times> scan_snapshot) list" where
  "list_scan_snapshots d =
     sort_key (\<lambda>(n, s). (- sn_updated s, n))
       (List.map_filter
          (\<lambda>s. map_option (\<lambda>h. (h_name h, s)) (lookup_row h_id (sn_host s) (d_hosts d))) (d_scans d))"

definition get_scan_snapshot :: "db \<Rightarrow> string \<Rightarrow> (string \<times> scan_snapshot) option" where
  "get_scan_snapshot d i =
     (case lookup_row sn_host i (d_scans d) of
        None \<Rightarrow> None
      | Some s \<Rightarrow> map_option (\<lambda>h. (h_name h, s)) (lookup_row h_id i (d_hosts d)))"

definition list_scan_history :: "db \<Rightarrow> string \<Rightarrow> scan_history_entry list" where
  "list_scan_history d i = take 10 (newest_scans i (d_history d))"

section \<open>Facts about marks\<close>

definition mark_stays :: "string list \<Rightarrow> string \<Rightarrow> restart_mark \<Rightarrow> bool" where
  "mark_stays flagged cur m \<longleftrightarrow> m_service m \<in> set flagged \<and> trim_space (m_boot m) = cur \<and> cur \<noteq> []"

lemma reconcile_loop_fst:
  "set (fst (reconcile_loop i flagged cur ms res tbl)) =
     set res \<union> m_service ` {m \<in> set ms. mark_stays flagged cur m}"
  by (induction ms arbitrary: res tbl) (auto simp: mark_stays_def)

lemma reconcile_loop_snd:
  "snd (reconcile_loop i flagged cur ms res tbl) =
     delete_rows (\<lambda>r. m_host r = i \<and> m_service r \<in> m_service ` {m \<in> set ms. \<not> mark_stays flagged cur m}) tbl"
proof (induction ms arbitrary: res tbl)
  case Nil
  then show ?case by (simp add: delete_rows_def)
next
  case (Cons m ms)
  show ?case
  proof (cases "mark_stays flagged cur m")
    case True
    then have "{x \<in> set (m # ms). \<not> mark_stays flagged cur x} = {x \<in> set ms. \<not> mark_stays flagged cur x}"
      by auto
    with True Cons show ?thesis by (simp add: mark_stays_def)
  next
    case False
    then have "{x \<in> set (m # ms). \<not> mark_stays flagged cur x} =
        insert m {x \<in> set ms. \<not> mark_stays flagged cur x}" by auto
    with False Cons show ?thesis
      by (auto simp: mark_stays_def delete_rows_def intro!: filter_cong)
  qed
qed

definition resistant_services :: "string \<Rightarrow> string list \<Rightarrow> string \<Rightarrow> db \<Rightarrow> string set" where
  "resistant_services i flagged boot d =
     m_service ` {m \<in> set (d_marks d). m_host m = i \<and> mark_stays flagged (trim_space boot) m}"

lemma reconcile_restart_marks_fst:
  "set (fst (reconcile_restart_marks i flagged boot d)) = resistant_services i flagged boot d"
  using reconcile_loop_fst [of i flagged "trim_space boot" "filter (\<lambda>m. m_host m = i) (d_marks d)" "[]" "d_marks d"]
  by (auto simp: reconcile_restart_marks_def resistant_services_def split: prod.splits)

lemma reconcile_restart_marks_snd:
  "snd (reconcile_restart_marks i flagged boot d) =
     d\<lparr>d_marks := delete_rows (\<lambda>r. m_host r = i \<and> m_service r \<in>
        m_service ` {m \<in> set (d_marks d). m_host m = i \<and> \<not> mark_stays flagged (trim_space boot) m}) (d_marks d)\<rparr>"
proof -
  let ?ms = "filter (\<lambda>m. m_host m = i) (d_marks d)"
  have s: "{m \<in> set ?ms. \<not> mark_stays flagged (trim_space boot) m} =
      {m \<in> set (d_marks d). m_host m = i \<and> \<not> mark_stays flagged (trim_space boot) m}" by auto
  obtain res tbl where l: "reconcile_loop i flagged (trim_space boot) ?ms [] (d_marks d) = (res, tbl)"
    by (cases "reconcile_loop i flagged (trim_space boot) ?ms [] (d_marks d)")
  have "tbl = delete_rows (\<lambda>r. m_host r = i \<and> m_service r \<in>
        m_service ` {m \<in> set (d_marks d). m_host m = i \<and> \<not> mark_stays flagged (trim_space boot) m}) (d_marks d)"
    using reconcile_loop_snd [of i flagged "trim_space boot" ?ms "[]" "d_marks d"] unfolding l s snd_conv .
  moreover have "snd (reconcile_restart_marks i flagged boot d) = d\<lparr>d_marks := tbl\<rparr>"
    by (simp only: reconcile_restart_marks_def l prod.case snd_conv)
  ultimately show ?thesis by (simp only:)
qed

text \<open>The two intermediate results of the operation by name.\<close>

lemma upsert_scan_eq:
  assumes "reconcile_restart_marks i (sr_needs_restart sr) (sr_boot_id sr) d = (res, d1)"
    and "classify (sr_needs_restart sr) (sr_handlers sr) (\<lambda>s. s \<in> set res) = (rs, rb)"
  shows "upsert_scan_result uid now i sr d =
     (let d2 = d1\<lparr>d_scans := upsert_row sn_host (snapshot_row now i sr rs rb) (d_scans d1)\<rparr>
      in if \<exists>e \<in> set (d_history d2). e_id e = uid
         then (Some (ErrMsg ''UNIQUE constraint failed: scan_history.id''), d2)
         else (None, d2\<lparr>d_history := prune_history i (d_history d2 @ [history_row uid now i sr])\<rparr>))"
  using assms by (simp only: upsert_scan_result_def prod.case)

lemma upsert_tables:
  "d_scans (snd (upsert_scan_result uid now i sr d)) =
     upsert_row sn_host
       (snapshot_row now i sr
          (fst (classify (sr_needs_restart sr) (sr_handlers sr)
             (\<lambda>s. s \<in> resistant_services i (sr_needs_restart sr) (sr_boot_id sr) d)))
          (snd (classify (sr_needs_restart sr) (sr_handlers sr)
             (\<lambda>s. s \<in> resistant_services i (sr_needs_restart sr) (sr_boot_id sr) d)))) (d_scans d)"
    (is "?A = upsert_row sn_host (?S ?c) _")
  "d_marks (snd (upsert_scan_result uid now i sr d)) =
     d_marks (snd (reconcile_restart_marks i (sr_needs_restart sr) (sr_boot_id sr) d))"
  "d_hosts (snd (upsert_scan_result uid now i sr d)) = d_hosts d"
  "d_history (snd (upsert_scan_result uid now i sr d)) =
     (if \<exists>e \<in> set (d_history d). e_id e = uid then d_history d
      else prune_history i (d_history d @ [history_row uid now i sr]))"
  "fst (upsert_scan_result uid now i sr d) = None \<longleftrightarrow> (\<forall>e \<in> set (d_history d). e_id e \<noteq> uid)"
proof -
  obtain res d1 where r: "reconcile_restart_marks i (sr_needs_restart sr) (sr_boot_id sr) d = (res, d1)"
    by (cases "reconcile_restart_marks i (sr_needs_restart sr) (sr_boot_id sr) d")
  obtain rs rb where c: "classify (sr_needs_restart sr) (sr_handlers sr) (\<lambda>s. s \<in> set res) = (rs, rb)"
    by (cases "classify (sr_needs_restart sr) (sr_handlers sr) (\<lambda>s. s \<in> set res)")
  have res: "set res = resistant_services i (sr_needs_restart sr) (sr_boot_id sr) d"
    using reconcile_restart_marks_fst [of i "sr_needs_restart sr" "sr_boot_id sr" d] r by simp
  have d1: "d_scans d1 = d_scans d" "d_hosts d1 = d_hosts d" "d_history d1 = d_history d"
    using reconcile_restart_marks_snd [of i "sr_needs_restart sr" "sr_boot_id sr" d] r by simp_all
  note eq = upsert_scan_eq [OF r c, of uid now]
  have f: "fst (classify (sr_needs_restart sr) (sr_handlers sr)
             (\<lambda>s. s \<in> resistant_services i (sr_needs_restart sr) (sr_boot_id sr) d)) = rs"
    "snd (classify (sr_needs_restart sr) (sr_handlers sr)
             (\<lambda>s. s \<in> resistant_services i (sr_needs_restart sr) (sr_boot_id sr) d)) = rb"
    using c res by simp_all
  show "?A = upsert_row sn_host (?S ?c) (d_scans d)"
    unfolding f by (simp add: eq Let_def d1)
  show "d_marks (snd (upsert_scan_result uid now i sr d)) =
     d_marks (snd (reconcile_restart_marks i (sr_needs_restart sr) (sr_boot_id sr) d))"
    by (simp add: eq Let_def r)
  show "d_hosts (snd (upsert_scan_result uid now i sr d)) = d_hosts d"
    by (simp add: eq Let_def d1)
  show "d_history (snd (upsert_scan_result uid now i sr d)) =
     (if \<exists>e \<in> set (d_history d). e_id e = uid then d_history d
      else prune_history i (d_history d @ [history_row uid now i sr]))"
    by (simp add: eq Let_def d1)
  show "fst (upsert_scan_result uid now i sr d) = None \<longleftrightarrow> (\<forall>e \<in> set (d_history d). e_id e \<noteq> uid)"
    by (auto simp: eq Let_def d1)
qed

lemma lookup_upsert_row:
  "lookup_row k x (upsert_row k r rows) = (if x = k r then Some r else lookup_row k x rows)"
proof (cases "\<exists>y \<in> set rows. k y = k r")
  case True
  then have "upsert_row k r rows = update_rows (\<lambda>x. k x = k r) (\<lambda>_. r) rows"
    by (auto simp: upsert_row_def rows_affected_0)
  moreover have "lookup_row k x (update_rows (\<lambda>x. k x = k r) (\<lambda>_. r) rows) =
      (if x = k r then (if \<exists>y \<in> set rows. k y = k r then Some r else None) else lookup_row k x rows)"
    by (induction rows) (auto simp: lookup_row_def update_rows_def)
  ultimately show ?thesis using True by simp
next
  case False
  then have "upsert_row k r rows = rows @ [r]" by (auto simp: upsert_row_def rows_affected_0)
  moreover have "lookup_row k x (rows @ [r]) = (if x = k r \<and> lookup_row k x rows = None then Some r
      else lookup_row k x rows)"
    by (induction rows) (auto simp: lookup_row_def)
  moreover have "x = k r \<Longrightarrow> lookup_row k x rows = None"
    using False by (auto simp: lookup_row_None)
  ultimately show ?thesis by auto
qed

lemma snapshot_after_upsert:
  "\<exists>rs rb. classify (sr_needs_restart sr) (sr_handlers sr)
       (\<lambda>s. s \<in> resistant_services i (sr_needs_restart sr) (sr_boot_id sr) d) = (rs, rb) \<and>
     lookup_row sn_host i (d_scans (snd (upsert_scan_result uid now i sr d))) =
       Some (snapshot_row now i sr rs rb)"
  by (simp add: upsert_tables(1) lookup_upsert_row snapshot_row_def)

lemma set_restart_mark_marks:
  "m \<in> set (d_marks (set_restart_mark t i s b d)) \<Longrightarrow> m_host m = i \<Longrightarrow> m_service m = s \<Longrightarrow>
     m_boot m = trim_space b"
  "\<exists>m \<in> set (d_marks (set_restart_mark t i s b d)). m_host m = i \<and> m_service m = s"
proof -
  let ?p = "\<lambda>m. m_host m = i \<and> m_service m = s"
  show "m_boot m = trim_space b"
    if m: "m \<in> set (d_marks (set_restart_mark t i s b d))" and h: "m_host m = i" and v: "m_service m = s"
  proof (cases "rows_affected ?p (d_marks d) = 0")
    case True
    then have "m \<notin> set (d_marks d)" using h v by (auto simp: rows_affected_0)
    with m True show ?thesis by (simp add: set_restart_mark_def)
  next
    case False
    then have "m \<in> (\<lambda>r. if ?p r then r\<lparr>m_boot := trim_space b, m_created := t\<rparr> else r) ` set (d_marks d)"
      using m by (simp add: set_restart_mark_def)
    then obtain r where "m = (if ?p r then r\<lparr>m_boot := trim_space b, m_created := t\<rparr> else r)"
      by (rule imageE)
    with h v show ?thesis by (cases "?p r") simp_all
  qed
  show "\<exists>m \<in> set (d_marks (set_restart_mark t i s b d)). ?p m"
  proof (cases "rows_affected ?p (d_marks d) = 0")
    case True
    then show ?thesis by (simp add: set_restart_mark_def)
  next
    case False
    then obtain m where "m \<in> set (d_marks d)" "?p m" by (auto simp: rows_affected_0)
    let ?n = "m\<lparr>m_boot := trim_space b, m_created := t\<rparr>"
    have "?n \<in> (\<lambda>r. if ?p r then r\<lparr>m_boot := trim_space b, m_created := t\<rparr> else r) ` set (d_marks d)"
      using \<open>m \<in> set (d_marks d)\<close> \<open>?p m\<close> by (intro image_eqI [of _ _ m]) simp_all
    then have "?n \<in> set (d_marks (set_restart_mark t i s b d))"
      using False by (simp add: set_restart_mark_def)
    then show ?thesis using \<open>?p m\<close> by (intro bexI [of _ ?n]) simp_all
  qed
qed

lemma marked_resistant:
  "s \<in> resistant_services i flagged boot (set_restart_mark t i s b d) \<longleftrightarrow>
     s \<in> set flagged \<and> trim_space boot = trim_space b \<and> trim_space b \<noteq> []"
proof
  assume "s \<in> resistant_services i flagged boot (set_restart_mark t i s b d)"
  then obtain m where m: "m \<in> set (d_marks (set_restart_mark t i s b d))" "m_host m = i" "m_service m = s"
    "mark_stays flagged (trim_space boot) m"
    by (auto simp: resistant_services_def)
  from set_restart_mark_marks(1) [OF m(1-3)] m(3,4)
  show "s \<in> set flagged \<and> trim_space boot = trim_space b \<and> trim_space b \<noteq> []"
    by (auto simp: mark_stays_def)
next
  assume a: "s \<in> set flagged \<and> trim_space boot = trim_space b \<and> trim_space b \<noteq> []"
  obtain m where m: "m \<in> set (d_marks (set_restart_mark t i s b d))" "m_host m = i" "m_service m = s"
    using set_restart_mark_marks(2) [of t i s b d] by blast
  have "mark_stays flagged (trim_space boot) m"
    using a m set_restart_mark_marks(1) [OF m] by (simp add: mark_stays_def)
  with m show "s \<in> resistant_services i flagged boot (set_restart_mark t i s b d)"
    unfolding resistant_services_def by blast
qed

lemma unmarked_pruned:
  assumes "\<not> (s \<in> set flagged \<and> trim_space boot = trim_space b \<and> trim_space b \<noteq> [])"
    and "m \<in> set (d_marks (snd (reconcile_restart_marks i flagged boot (set_restart_mark t i s b d))))"
  shows "\<not> (m_host m = i \<and> m_service m = s)"
proof
  assume hs: "m_host m = i \<and> m_service m = s"
  have mem: "m \<in> set (d_marks (set_restart_mark t i s b d))"
    and k: "s \<notin> m_service ` {m \<in> set (d_marks (set_restart_mark t i s b d)). m_host m = i \<and>
        \<not> mark_stays flagged (trim_space boot) m}"
    using assms(2) hs by (auto simp: reconcile_restart_marks_snd)
  have "m_boot m = trim_space b" using set_restart_mark_marks(1) [OF mem] hs by blast
  then have "\<not> mark_stays flagged (trim_space boot) m" using assms(1) hs by (auto simp: mark_stays_def)
  with mem hs k show False by blast
qed

section \<open>Facts about the history\<close>

lemma card_ids_le: "card (e_id ` set (take n xs)) \<le> n"
  by (rule le_trans [OF card_image_le]) (simp_all add: card_length [THEN le_trans])

lemma count_pruned:
  assumes "distinct (map e_id rows)"
  shows "length (filter (\<lambda>e. e_host e = i) (prune_history i rows)) \<le> 10"
proof -
  let ?k = "filter (\<lambda>e. e_host e = i) (prune_history i rows)"
  have "distinct (map e_id ?k)"
    using assms by (simp add: prune_history_def delete_rows_def distinct_map_filter)
  then have "length ?k = card (e_id ` set ?k)"
    by (metis distinct_card length_map list.set_map)
  also have "\<dots> \<le> card (e_id ` set (take 10 (newest_scans i rows)))"
    by (rule card_mono) (auto simp: prune_history_def)
  also have "\<dots> \<le> 10" by (rule card_ids_le)
  finally show ?thesis .
qed

lemma prune_history_other: "e_host e \<noteq> i \<Longrightarrow> e \<in> set rows \<Longrightarrow> e \<in> set (prune_history i rows)"
  by (simp add: prune_history_def)

lemma filter_prune_other:
  "k \<noteq> i \<Longrightarrow> filter (\<lambda>e. e_host e = k) (prune_history i rows) = filter (\<lambda>e. e_host e = k) rows"
  by (auto simp: prune_history_def delete_rows_def intro!: filter_cong)

definition history_ok :: "db \<Rightarrow> bool" where
  "history_ok d \<longleftrightarrow> distinct (map e_id (d_history d)) \<and>
     (\<forall>i. length (filter (\<lambda>e. e_host e = i) (d_history d)) \<le> 10)"

lemma history_ok_upsert:
  assumes "history_ok d"
  shows "history_ok (snd (upsert_scan_result uid now i sr d))"
proof (cases "\<exists>e \<in> set (d_history d). e_id e = uid")
  case True
  with assms show ?thesis by (simp add: history_ok_def upsert_tables)
next
  case False
  let ?rows = "d_history d @ [history_row uid now i sr]"
  have d: "distinct (map e_id ?rows)"
    using assms False by (auto simp: history_ok_def history_row_def)
  have h: "d_history (snd (upsert_scan_result uid now i sr d)) = prune_history i ?rows"
    using False by (simp add: upsert_tables)
  have "length (filter (\<lambda>e. e_host e = k) (prune_history i ?rows)) \<le> 10" for k
  proof (cases "k = i")
    case True
    then show ?thesis using count_pruned [OF d] by simp
  next
    case False
    then show ?thesis using assms by (simp add: filter_prune_other history_ok_def history_row_def)
  qed
  moreover have "distinct (map e_id (prune_history i ?rows))"
    unfolding prune_history_def by (rule distinct_delete_rows [OF d])
  ultimately show ?thesis by (simp add: history_ok_def h)
qed

lemma history_ok_sub:
  assumes "history_ok d" "d_history d' = delete_rows p (d_history d)"
  shows "history_ok d'"
proof -
  have "length (filter q (delete_rows p xs)) \<le> length (filter q xs)" for q xs
    by (induction xs) (auto simp: delete_rows_def)
  then show ?thesis
    using assms by (auto simp: history_ok_def distinct_delete_rows intro: le_trans)
qed

datatype scan_op =
    UpsertScan string int string scan_result
  | MarkRestarted int string string string
  | RemoveHost string

fun scan_step :: "scan_op \<Rightarrow> db \<Rightarrow> db" where
  "scan_step (UpsertScan u t i sr) d = snd (upsert_scan_result u t i sr d)"
| "scan_step (MarkRestarted t i s b) d = set_restart_mark t i s b d"
| "scan_step (RemoveHost i) d = commit (delete_host i d) d"

lemma scan_step_ok: "history_ok d \<Longrightarrow> history_ok (scan_step e d)"
proof (cases e)
  case (MarkRestarted t i s b)
  then show "history_ok d \<Longrightarrow> ?thesis" by (simp add: set_restart_mark_def Let_def history_ok_def)
next
  case (RemoveHost i)
  then show "history_ok d \<Longrightarrow> ?thesis"
    by (auto simp: commit_def split: sum.split intro: history_ok_sub delete_host_tables(3))
qed (simp add: history_ok_upsert)

interpretation scandb: machine scan_step "\<lambda>_. True" history_ok
  by unfold_locales (rule scan_step_ok)

section \<open>Properties\<close>

text \<open>
  What a scan stores is what is read back, and the two service lists of the snapshot partition the
  services that were flagged.\<close>

theorem upsert_snapshot_partition:
  assumes "lookup_row h_id i (d_hosts d) = Some h"
  shows "\<exists>snap. get_scan_snapshot (snd (upsert_scan_result uid now i sr d)) i = Some (h_name h, snap) \<and>
     sn_packages snap = sr_packages sr \<and> sn_boot_id snap = sr_boot_id sr \<and> sn_updated snap = now \<and>
     mset (sn_restart snap) + mset (sn_reboot snap) = mset (sr_needs_restart sr) \<and>
     set (sn_restart snap) \<inter> set (sn_reboot snap) = {}"
proof -
  obtain rs rb where c: "classify (sr_needs_restart sr) (sr_handlers sr)
       (\<lambda>s. s \<in> resistant_services i (sr_needs_restart sr) (sr_boot_id sr) d) = (rs, rb)"
    and l: "lookup_row sn_host i (d_scans (snd (upsert_scan_result uid now i sr d))) =
       Some (snapshot_row now i sr rs rb)"
    using snapshot_after_upsert by blast
  show ?thesis
    using c l assms cls.bucket_mset [of "sr_needs_restart sr" "sr_handlers sr"
        "\<lambda>s. s \<in> resistant_services i (sr_needs_restart sr) (sr_boot_id sr) d"]
      cls.bucket_disjoint [of "sr_needs_restart sr" "sr_handlers sr"
        "\<lambda>s. s \<in> resistant_services i (sr_needs_restart sr) (sr_boot_id sr) d"]
    by (simp add: get_scan_snapshot_def upsert_tables(3)) (simp add: snapshot_row_def)
qed

definition sample_scan :: "string list \<Rightarrow> string \<Rightarrow> scan_result" where
  "sample_scan flagged boot = \<lparr>sr_packages = [], sr_deferred = [], sr_needs_reboot = False, sr_reboot_reason = [],
     sr_needs_restart = flagged, sr_needrestart_found = True, sr_apt_failed = False, sr_raw = [],
     sr_os_name = [], sr_os_version = [], sr_uptime = [], sr_kernel = [], sr_boot_id = boot,
     sr_handlers = (\<lambda>_. False)\<rparr>"

theorem upsert_snapshot_partition_witness:
  "\<exists>snap. get_scan_snapshot (snd (upsert_scan_result ''u'' 5 ''a'' (sample_scan [''ssh'', ''dbus''] ''b'') sample_db)) ''a'' =
     Some (''alpha'', snap) \<and> mset (sn_restart snap) + mset (sn_reboot snap) = mset [''ssh'', ''dbus'']"
proof -
  have "lookup_row h_id ''a'' (d_hosts sample_db) = Some (sample_host ''a'' ''alpha'')"
    by (simp add: lookup_row_def sample_db_def sample_host_def)
  from upsert_snapshot_partition [OF this, of "''u''" 5 "sample_scan [''ssh'', ''dbus''] ''b''"]
  show ?thesis by (auto simp: sample_host_def sample_scan_def)
qed

text \<open>
  Learning: a service that was restarted and is still flagged on the same boot is reboot-only in the
  next snapshot; a reboot, or the service dropping off the list, forgets the mark.\<close>

theorem restart_mark_learning:
  assumes "d1 = set_restart_mark t i s b d" "d2 = snd (upsert_scan_result uid now i sr d1)"
  shows "if s \<in> set (sr_needs_restart sr) \<and> trim_space (sr_boot_id sr) = trim_space b \<and> trim_space b \<noteq> []
     then (\<exists>snap. lookup_row sn_host i (d_scans d2) = Some snap \<and>
        s \<in> set (sn_reboot snap) \<and> s \<notin> set (sn_restart snap))
     else (\<forall>m \<in> set (d_marks d2). m_host m \<noteq> i \<or> m_service m \<noteq> s)"
proof (cases "s \<in> set (sr_needs_restart sr) \<and> trim_space (sr_boot_id sr) = trim_space b \<and> trim_space b \<noteq> []")
  case True
  let ?r = "\<lambda>x. x \<in> resistant_services i (sr_needs_restart sr) (sr_boot_id sr) d1"
  obtain rs rb where c: "classify (sr_needs_restart sr) (sr_handlers sr) ?r = (rs, rb)"
    and l: "lookup_row sn_host i (d_scans d2) = Some (snapshot_row now i sr rs rb)"
    using snapshot_after_upsert assms(2) by blast
  have "?r s" using True marked_resistant assms(1) by blast
  then have "s \<notin> set rs" using cls.bucket_resistant [of ?r s] c by (metis fst_conv)
  moreover have "set rs \<union> set rb = set (sr_needs_restart sr)"
    using cls.bucket_union [of "sr_needs_restart sr" "sr_handlers sr" ?r] c by simp
  ultimately show ?thesis using True l by (auto simp: snapshot_row_def)
next
  case False
  then show ?thesis
    using unmarked_pruned [OF False, of _ i t d] assms by (auto simp: upsert_tables(2))
qed

theorem restart_mark_learning_witness:
  "\<exists>snap. lookup_row sn_host ''a'' (d_scans (snd (upsert_scan_result ''u'' 5 ''a'' (sample_scan [''ssh''] ''boot1'')
     (set_restart_mark 1 ''a'' ''ssh'' ''boot1'' empty_db)))) = Some snap \<and> ''ssh'' \<in> set (sn_reboot snap)"
proof -
  have "''ssh'' \<in> set (sr_needs_restart (sample_scan [''ssh''] ''boot1'')) \<and>
      trim_space (sr_boot_id (sample_scan [''ssh''] ''boot1'')) = trim_space ''boot1'' \<and> trim_space ''boot1'' \<noteq> []"
    by code_simp
  then show ?thesis
    using restart_mark_learning [of _ 1 "''a''" "''ssh''" "''boot1''" empty_db _ "''u''" 5 "sample_scan [''ssh''] ''boot1''"]
    by auto
qed

text \<open>
  The history of a host never exceeds ten scans, whatever sequence of scans, restarts and deletions
  the database goes through from empty.\<close>

theorem history_bounded:
  "length (filter (\<lambda>e. e_host e = i) (d_history (fold scan_step ops empty_db))) \<le> 10"
proof -
  have "history_ok (fold scan_step ops empty_db)"
    by (rule scandb.run_inv) (simp_all add: history_ok_def empty_db_def list_all_iff)
  then show ?thesis by (simp add: history_ok_def)
qed

end
