(* ===== verification/DbAccounts.thy ===== *)
theory DbAccounts
  imports Store Machine "HOL-Library.Product_Lexorder"
begin

text \<open>
  Accounts in \<open>internal/db/db.go\<close>: users, recovery codes, API tokens and web sessions. The hash of a
  token (hex SHA-256, \<open>hashSessionToken\<close>) is the parameter \<open>hs\<close>; a random token is an argument.
\<close>

section \<open>Users\<close>

definition has_users :: "db \<Rightarrow> bool" where
  "has_users d \<longleftrightarrow> length (d_users d) > 0"

definition create_initial_user ::
  "string \<Rightarrow> int \<Rightarrow> string \<Rightarrow> string \<Rightarrow> string \<Rightarrow> string \<Rightarrow> db \<Rightarrow> db res" where
  "create_initial_user uid now username role hash totp d =
     (let r = trim_space (to_lower role);
          r = (if r = [] then ''admin'' else r)
      in if \<exists>u \<in> set (d_users d). u_id u = uid \<or> u_name u = username
         then Inl (ErrMsg ''UNIQUE constraint failed: users.username'')
         else Inr (d\<lparr>d_users := d_users d @
           [\<lparr>u_id = uid, u_name = username, u_role = r, u_hash = hash, u_totp = totp, u_created = now\<rparr>]\<rparr>))"

definition read_user :: "user \<Rightarrow> user" where
  "read_user u = (if u_role u = [] then u\<lparr>u_role := ''admin''\<rparr> else u)"

definition get_user_by_username :: "db \<Rightarrow> string \<Rightarrow> user res" where
  "get_user_by_username d username =
     (case lookup_row u_name username (d_users d) of None \<Rightarrow> Inl NoRows | Some u \<Rightarrow> Inr (read_user u))"

text \<open>SQL's \<open>lower\<close> maps ASCII letters only.\<close>

definition sql_lower :: "string \<Rightarrow> string" where
  "sql_lower s = map lower_char s"

definition get_primary_admin :: "db \<Rightarrow> user res" where
  "get_primary_admin d =
     (case sort_key u_created (filter (\<lambda>u. sql_lower (u_role u) = ''admin'') (d_users d)) of
        u # _ \<Rightarrow> Inr (read_user u)
      | [] \<Rightarrow>
          (case sort_key u_created (d_users d) of
             u # _ \<Rightarrow> Inr (read_user u)
           | [] \<Rightarrow> Inl NoRows))"

definition clear_user_totp :: "string \<Rightarrow> db \<Rightarrow> db" where
  "clear_user_totp i d = d\<lparr>d_users := update_rows (\<lambda>u. u_id u = i) (u_totp_update (\<lambda>_. [])) (d_users d)\<rparr>"

definition set_user_totp :: "string \<Rightarrow> string \<Rightarrow> db \<Rightarrow> db" where
  "set_user_totp i secret d =
     d\<lparr>d_users := update_rows (\<lambda>u. u_id u = i) (u_totp_update (\<lambda>_. trim_space secret)) (d_users d)\<rparr>"

section \<open>Recovery codes\<close>

text \<open>The transaction of \<open>SaveRecoveryCodes\<close>: one fresh id per hash; blank hashes are skipped.\<close>

fun save_recovery_codes :: "int \<Rightarrow> string \<Rightarrow> (string \<times> string) list \<Rightarrow> db \<Rightarrow> db" where
  "save_recovery_codes now user [] d = d"
| "save_recovery_codes now user ((uid, hash) # hashes) d =
     (if trim_space hash = [] then save_recovery_codes now user hashes d
      else save_recovery_codes now user hashes
        (d\<lparr>d_recovery := d_recovery d @
           [\<lparr>rc_id = uid, rc_user = user, rc_hash = trim_space hash, rc_used = False, rc_created = now\<rparr>]\<rparr>))"

definition get_unused_recovery_codes :: "db \<Rightarrow> string \<Rightarrow> recovery_code list" where
  "get_unused_recovery_codes d user = filter (\<lambda>c. rc_user c = user \<and> \<not> rc_used c) (d_recovery d)"

definition use_recovery_code :: "string \<Rightarrow> db \<Rightarrow> db" where
  "use_recovery_code i d =
     d\<lparr>d_recovery := update_rows (\<lambda>c. rc_id c = i) (rc_used_update (\<lambda>_. True)) (d_recovery d)\<rparr>"

definition delete_recovery_codes :: "string \<Rightarrow> db \<Rightarrow> db" where
  "delete_recovery_codes user d = d\<lparr>d_recovery := delete_rows (\<lambda>c. rc_user c = user) (d_recovery d)\<rparr>"

section \<open>API tokens\<close>

definition create_api_token :: "(string \<Rightarrow> string) \<Rightarrow> string \<Rightarrow> string \<Rightarrow> int \<Rightarrow> string \<Rightarrow> db \<Rightarrow> (string \<times> string) \<times> db" where
  "create_api_token hs uid random_hex now name d =
     (let plaintext = ''pd_'' @ random_hex in
      ((plaintext, uid), d\<lparr>d_tokens := d_tokens d @
         [\<lparr>at_id = uid, at_name = trim_space name, at_hash = hs plaintext, at_created = now,
           at_last_used = None, at_revoked = False\<rparr>]\<rparr>))"

definition list_api_tokens :: "db \<Rightarrow> api_token list" where
  "list_api_tokens d = order_desc at_created (d_tokens d)"

definition revoke_api_token :: "string \<Rightarrow> db \<Rightarrow> db res" where
  "revoke_api_token i d =
     (if rows_affected (\<lambda>t. at_id t = i) (d_tokens d) = 0 then Inl NoRows
      else Inr (d\<lparr>d_tokens := update_rows (\<lambda>t. at_id t = i) (at_revoked_update (\<lambda>_. True)) (d_tokens d)\<rparr>))"

definition delete_api_token :: "string \<Rightarrow> db \<Rightarrow> db res" where
  "delete_api_token i d =
     (if rows_affected (\<lambda>t. at_id t = i) (d_tokens d) = 0 then Inl NoRows
      else Inr (d\<lparr>d_tokens := delete_rows (\<lambda>t. at_id t = i) (d_tokens d)\<rparr>))"

definition sec :: int where
  "sec = 1000000000"

definition validate_api_token :: "(string \<Rightarrow> string) \<Rightarrow> int \<Rightarrow> string \<Rightarrow> db \<Rightarrow> (bool \<times> string) \<times> db" where
  "validate_api_token hs now token d =
     (case find (\<lambda>t. at_hash t = hs token \<and> \<not> at_revoked t) (d_tokens d) of
        None \<Rightarrow> ((False, []), d)
      | Some t \<Rightarrow>
          ((True, at_id t),
           d\<lparr>d_tokens := update_rows
               (\<lambda>r. at_id r = at_id t \<and>
                    (case at_last_used r of None \<Rightarrow> True | Some u \<Rightarrow> u < now - 60 * sec))
               (at_last_used_update (\<lambda>_. Some now)) (d_tokens d)\<rparr>))"

section \<open>Sessions\<close>

definition create_session ::
  "(string \<Rightarrow> string) \<Rightarrow> string \<Rightarrow> int \<Rightarrow> string \<Rightarrow> string \<Rightarrow> string \<Rightarrow> int \<Rightarrow> db \<Rightarrow> (string \<times> db) res" where
  "create_session hs token now user username role ttl d =
     (if \<exists>s \<in> set (d_sessions d). se_hash s = hs token
      then Inl (ErrMsg ''UNIQUE constraint failed: sessions.token_hash'')
      else Inr (token, d\<lparr>d_sessions := d_sessions d @
        [\<lparr>se_hash = hs token, se_user = user, se_username = username, se_role = role,
          se_created = now, se_expires = now + ttl, se_last_seen = now\<rparr>]\<rparr>))"

definition half_ttl :: "int \<Rightarrow> int" where
  "half_ttl ttl = (if ttl \<ge> 0 then ttl div 2 else - ((- ttl) div 2))"

definition validate_session ::
  "(string \<Rightarrow> string) \<Rightarrow> int \<Rightarrow> string \<Rightarrow> int \<Rightarrow> db \<Rightarrow> (string \<times> string \<times> string) option \<times> db" where
  "validate_session hs now token ttl d =
     (if token = [] then (None, d)
      else
        (case lookup_row se_hash (hs token) (d_sessions d) of
           None \<Rightarrow> (None, d)
         | Some s \<Rightarrow>
             if now > se_expires s
             then (None, d\<lparr>d_sessions := delete_rows (\<lambda>r. se_hash r = hs token) (d_sessions d)\<rparr>)
             else
               (Some (se_user s, se_username s, se_role s),
                if se_expires s - now < half_ttl ttl
                then d\<lparr>d_sessions := update_rows (\<lambda>r. se_hash r = hs token)
                         (\<lambda>r. r\<lparr>se_last_seen := now, se_expires := now + ttl\<rparr>) (d_sessions d)\<rparr>
                else d)))"

definition delete_session :: "(string \<Rightarrow> string) \<Rightarrow> string \<Rightarrow> db \<Rightarrow> db" where
  "delete_session hs token d =
     (if token = [] then d
      else d\<lparr>d_sessions := delete_rows (\<lambda>s. se_hash s = hs token) (d_sessions d)\<rparr>)"

definition delete_expired_sessions :: "int \<Rightarrow> db \<Rightarrow> db" where
  "delete_expired_sessions now d = d\<lparr>d_sessions := delete_rows (\<lambda>s. se_expires s < now) (d_sessions d)\<rparr>"

section \<open>Sessions over time\<close>

datatype session_op =
    Login string string string string
  | Use string
  | Logout string
  | Sweep

text \<open>
  One event at one time. The ghost \<open>seen\<close> is, for the hash of a token, the time of its login or of
  its last accepted use.
\<close>

definition session_step ::
  "(string \<Rightarrow> string) \<Rightarrow> int \<Rightarrow> int \<Rightarrow> session_op \<Rightarrow> db \<times> (string \<Rightarrow> int) \<Rightarrow> db \<times> (string \<Rightarrow> int)" where
  "session_step hs ttl now e s =
     (case s of (d, seen) \<Rightarrow>
       (case e of
          Login token user username role \<Rightarrow>
            (case create_session hs token now user username role ttl d of
               Inl _ \<Rightarrow> (d, seen)
             | Inr (_, d') \<Rightarrow> (d', seen(hs token := now)))
        | Use token \<Rightarrow>
            (case validate_session hs now token ttl d of
               (None, d') \<Rightarrow> (d', seen)
             | (Some _, d') \<Rightarrow> (d', seen(hs token := now)))
        | Logout token \<Rightarrow> (delete_session hs token d, seen)
        | Sweep \<Rightarrow> (delete_expired_sessions now d, seen)))"

definition session_inv :: "int \<Rightarrow> int \<Rightarrow> db \<times> (string \<Rightarrow> int) \<Rightarrow> bool" where
  "session_inv ttl now s \<longleftrightarrow>
     (case s of (d, seen) \<Rightarrow> distinct (map se_hash (d_sessions d)) \<and>
        (\<forall>r \<in> set (d_sessions d). seen (se_hash r) \<le> now \<and> se_expires r \<le> seen (se_hash r) + ttl))"

lemma session_inv_delete:
  assumes "session_inv ttl t0 (d, seen)" "t0 \<le> t" "d_sessions d' = delete_rows p (d_sessions d)"
  shows "session_inv ttl t (d', seen)"
  using assms by (auto simp: session_inv_def distinct_delete_rows)

lemma validate_session_None:
  "validate_session hs now token ttl d = (None, d') \<Longrightarrow>
     d' = d \<or> d' = d\<lparr>d_sessions := delete_rows (\<lambda>r. se_hash r = hs token) (d_sessions d)\<rparr>"
  by (auto simp: validate_session_def split: if_splits option.splits)

lemma validate_session_Some:
  assumes "validate_session hs now token ttl d = (Some u, d')"
  obtains s where "lookup_row se_hash (hs token) (d_sessions d) = Some s" "now \<le> se_expires s"
    "token \<noteq> []" "u = (se_user s, se_username s, se_role s)"
    "d' = (if se_expires s - now < half_ttl ttl
       then d\<lparr>d_sessions := update_rows (\<lambda>r. se_hash r = hs token)
                (\<lambda>r. r\<lparr>se_last_seen := now, se_expires := now + ttl\<rparr>) (d_sessions d)\<rparr>
       else d)"
  using assms by (auto simp: validate_session_def not_less split: if_splits option.splits)

lemma session_inv_use:
  assumes inv: "session_inv ttl t0 (d, seen)" and t: "t0 \<le> t"
    and v: "validate_session hs t token ttl d = (Some u, d')"
  shows "session_inv ttl t (d', seen(hs token := t))"
proof -
  obtain s where s: "lookup_row se_hash (hs token) (d_sessions d) = Some s"
    and d': "d' = (if se_expires s - t < half_ttl ttl
       then d\<lparr>d_sessions := update_rows (\<lambda>r. se_hash r = hs token)
                (\<lambda>r. r\<lparr>se_last_seen := t, se_expires := t + ttl\<rparr>) (d_sessions d)\<rparr>
       else d)"
    using validate_session_Some [OF v] by metis
  have sm: "s \<in> set (d_sessions d)" "se_hash s = hs token" using lookup_row_Some [OF s] by auto
  show ?thesis
  proof (cases "se_expires s - t < half_ttl ttl")
    case True
    then show ?thesis
      using inv t d' by (auto simp: session_inv_def map_update_rows_same)
  next
    case False
    have "r = s" if "r \<in> set (d_sessions d)" "se_hash r = hs token" for r
      using that sm inv by (auto simp: session_inv_def distinct_map inj_on_def)
    moreover have "seen (hs token) \<le> t0" "se_expires s \<le> seen (hs token) + ttl"
      using inv sm by (auto simp: session_inv_def)
    ultimately have e: "se_expires r \<le> t + ttl" if "r \<in> set (d_sessions d)" "se_hash r = hs token" for r
      using that t by fastforce
    show ?thesis
      using False inv t d' e by (auto simp: session_inv_def)
  qed
qed

lemma session_inv_login:
  assumes "session_inv ttl t (d, seen)" "create_session hs token t user username role ttl d = Inr (tok, d')"
  shows "session_inv ttl t (d', seen(hs token := t))"
proof -
  have n: "\<forall>s \<in> set (d_sessions d). se_hash s \<noteq> hs token"
    and d': "d_sessions d' = d_sessions d @ [\<lparr>se_hash = hs token, se_user = user, se_username = username,
        se_role = role, se_created = t, se_expires = t + ttl, se_last_seen = t\<rparr>]"
    using assms(2) by (auto simp: create_session_def split: if_splits)
  have "hs token \<notin> se_hash ` set (d_sessions d)" using n by fastforce
  with assms(1) n show ?thesis by (simp add: session_inv_def d')
qed

lemma session_step_inv:
  assumes "session_inv ttl t0 s" "t0 \<le> t"
  shows "session_inv ttl t (session_step hs ttl t e s)"
proof -
  obtain d seen where s: "s = (d, seen)" by (cases s)
  have inv: "session_inv ttl t0 (d, seen)" using assms(1) s by simp
  have same: "session_inv ttl t (d, seen)" using inv assms(2) by (auto simp: session_inv_def)
  show ?thesis
  proof (cases e)
    case (Login token user username role)
    have "session_inv ttl t (d', seen(hs token := t))"
      if "create_session hs token t user username role ttl d = Inr (tok, d')" for tok d'
      using session_inv_login [OF same] that .
    then show ?thesis using same by (auto simp: session_step_def s Login split: sum.split)
  next
    case (Use token)
    obtain r d' where v: "validate_session hs t token ttl d = (r, d')"
      by (cases "validate_session hs t token ttl d")
    show ?thesis
    proof (cases r)
      case None
      have "session_inv ttl t (d', seen)"
        using validate_session_None [OF v [unfolded None]] same
          session_inv_delete [OF inv assms(2)] by auto
      then show ?thesis by (simp add: session_step_def s Use v None)
    next
      case (Some u)
      from session_inv_use [OF inv assms(2) v [unfolded Some]] Some show ?thesis
        by (simp add: session_step_def s Use v)
    qed
  next
    case (Logout token)
    then show ?thesis
      using same session_inv_delete [OF inv assms(2)] by (simp add: session_step_def s delete_session_def)
  next
    case Sweep
    then show ?thesis
      using session_inv_delete [OF inv assms(2)] by (simp add: session_step_def s delete_expired_sessions_def)
  qed
qed

interpretation sessions: timed_machine "session_step hs ttl" "session_inv ttl" for hs ttl
  by unfold_locales (rule session_step_inv)

section \<open>Revocation over time\<close>

datatype token_op =
    NewToken string string int string
  | RevokeToken string
  | DropToken string
  | CheckToken int string

fun token_step :: "(string \<Rightarrow> string) \<Rightarrow> token_op \<Rightarrow> db \<Rightarrow> db" where
  "token_step hs (NewToken uid random now name) d = snd (create_api_token hs uid random now name d)"
| "token_step hs (RevokeToken i) d = (case revoke_api_token i d of Inl _ \<Rightarrow> d | Inr d' \<Rightarrow> d')"
| "token_step hs (DropToken i) d = (case delete_api_token i d of Inl _ \<Rightarrow> d | Inr d' \<Rightarrow> d')"
| "token_step hs (CheckToken now token) d = snd (validate_api_token hs now token d)"

definition token_dead :: "string \<Rightarrow> db \<Rightarrow> bool" where
  "token_dead i d \<longleftrightarrow> (\<forall>t \<in> set (d_tokens d). at_id t = i \<longrightarrow> at_revoked t)"

definition other_token :: "string \<Rightarrow> token_op \<Rightarrow> bool" where
  "other_token i e \<longleftrightarrow> (case e of NewToken uid _ _ _ \<Rightarrow> uid \<noteq> i | _ \<Rightarrow> True)"

lemma validate_api_token_tokens:
  "\<exists>p. d_tokens (snd (validate_api_token hs now token d)) = update_rows p (at_last_used_update (\<lambda>_. Some now)) (d_tokens d)"
proof (cases "find (\<lambda>t. at_hash t = hs token \<and> \<not> at_revoked t) (d_tokens d)")
  case None
  then show ?thesis
    by (intro exI [of _ "\<lambda>_. False"]) (simp add: validate_api_token_def update_rows_def)
next
  case (Some t)
  then show ?thesis by (simp add: validate_api_token_def) blast
qed

lemma token_step_dead: "token_dead i d \<Longrightarrow> other_token i e \<Longrightarrow> token_dead i (token_step hs e d)"
proof (cases e)
  case (CheckToken now token)
  assume "token_dead i d"
  moreover obtain p where "d_tokens (snd (validate_api_token hs now token d)) =
      update_rows p (at_last_used_update (\<lambda>_. Some now)) (d_tokens d)"
    using validate_api_token_tokens by blast
  ultimately show ?thesis using CheckToken by (auto simp: token_dead_def)
qed (auto simp: token_dead_def other_token_def create_api_token_def revoke_api_token_def
      delete_api_token_def Let_def split: sum.split)

interpretation tokens: machine "token_step hs" "other_token i" "token_dead i" for hs i
  by unfold_locales (rule token_step_dead)

lemma revoke_dead:
  assumes "revoke_api_token i d = Inr d'"
  shows "token_dead i d'"
proof -
  have "d_tokens d' = update_rows (\<lambda>t. at_id t = i) (at_revoked_update (\<lambda>_. True)) (d_tokens d)"
    using assms by (simp add: revoke_api_token_def split: if_splits) (auto simp del: set_update_rows)
  then show ?thesis by (simp add: token_dead_def ball_update_rows del: set_update_rows)
qed

lemma delete_dead:
  "delete_api_token i d = Inr d' \<Longrightarrow> token_dead i d'"
  by (auto simp: delete_api_token_def token_dead_def split: if_splits)

lemma dead_not_valid: "token_dead i d \<Longrightarrow> fst (validate_api_token hs now token d) \<noteq> (True, i)"
  by (auto simp: validate_api_token_def token_dead_def find_Some_iff split: option.split)

section \<open>Properties\<close>

text \<open>
  Session expiry: over any time-ordered run of logins, uses, logouts and sweeps from an empty
  database, a session is only accepted within the lifetime after its login or last accepted use.\<close>

theorem session_expires:
  assumes "sorted (t0 # map fst es)" "last (t0 # map fst es) \<le> t"
    and "trun (session_step hs ttl) es (empty_db, \<lambda>_. t0) = (d, seen)"
    and "validate_session hs t token ttl d = (Some u, d')"
  shows "t \<le> seen (hs token) + ttl"
proof -
  have "session_inv ttl t0 (empty_db, \<lambda>_. t0)" by (simp add: session_inv_def empty_db_def)
  from sessions.trun_inv [OF this assms(1), of hs] assms(3)
  have inv: "session_inv ttl (last (t0 # map fst es)) (d, seen)" by simp
  obtain s where s: "lookup_row se_hash (hs token) (d_sessions d) = Some s" "t \<le> se_expires s"
    using validate_session_Some [OF assms(4)] by metis
  from lookup_row_Some [OF s(1)] have "s \<in> set (d_sessions d)" "se_hash s = hs token" by auto
  then have "se_expires s \<le> seen (hs token) + ttl" using inv by (auto simp: session_inv_def)
  with s(2) show ?thesis by simp
qed

theorem session_expires_witness:
  "(130::int) \<le> snd (trun (session_step id 100) [(10, Login ''tok'' ''u'' ''root'' ''admin''), (70, Use ''tok'')]
     (empty_db, \<lambda>_. 0)) ''tok'' + 100"
proof -
  let ?s = "trun (session_step id 100) [(10, Login ''tok'' ''u'' ''root'' ''admin''), (70, Use ''tok'')]
     (empty_db, \<lambda>_. 0)"
  have "fst (validate_session id 130 ''tok'' 100 (fst ?s)) = Some (''u'', ''root'', ''admin'')" by code_simp
  then have v: "validate_session id 130 ''tok'' 100 (fst ?s) =
      (Some (''u'', ''root'', ''admin''), snd (validate_session id 130 ''tok'' 100 (fst ?s)))"
    by (simp add: prod_eq_iff)
  show ?thesis
    using session_expires [of 0 "[(10, Login ''tok'' ''u'' ''root'' ''admin''), (70, Use ''tok'')]" 130 id 100
        "fst ?s" "snd ?s" "''tok''" "(''u'', ''root'', ''admin'')" "snd (validate_session id 130 ''tok'' 100 (fst ?s))"] v
    by (simp del: trun.simps)
qed

text \<open>
  A session in use stays alive: once accepted at some time it is accepted again, as the same user,
  at any time within half the lifetime afterwards, the expiry having been slid forward if needed.\<close>

theorem session_slides:
  assumes "validate_session hs t token ttl d = (Some u, d')" "0 \<le> ttl" "t \<le> t'" "t' \<le> t + ttl div 2"
  shows "fst (validate_session hs t' token ttl d') = Some u"
proof -
  obtain s where s: "lookup_row se_hash (hs token) (d_sessions d) = Some s" "t \<le> se_expires s" "token \<noteq> []"
    and u: "u = (se_user s, se_username s, se_role s)"
    and d': "d' = (if se_expires s - t < half_ttl ttl
       then d\<lparr>d_sessions := update_rows (\<lambda>r. se_hash r = hs token)
                (\<lambda>r. r\<lparr>se_last_seen := t, se_expires := t + ttl\<rparr>) (d_sessions d)\<rparr>
       else d)"
    using validate_session_Some [OF assms(1)] by metis
  have l: "lookup_row se_hash (hs token) (update_rows (\<lambda>r. se_hash r = hs token)
      (\<lambda>r. r\<lparr>se_last_seen := t, se_expires := t + ttl\<rparr>) (d_sessions d)) =
      Some (s\<lparr>se_last_seen := t, se_expires := t + ttl\<rparr>)"
    by (subst lookup_update_rows) (simp_all add: s(1))
  show ?thesis
  proof (cases "se_expires s - t < half_ttl ttl")
    case True
    have "ttl div 2 \<le> ttl" using assms(2) by simp
    with True assms(4) s(3) l u d' show ?thesis by (simp add: validate_session_def)
  next
    case False
    with assms s u d' show ?thesis by (simp add: validate_session_def half_ttl_def)
  qed
qed

theorem session_slides_witness:
  "fst (validate_session id 120 ''tok'' 100
     (snd (validate_session id 70 ''tok'' 100
       (fst (trun (session_step id 100) [(10, Login ''tok'' ''u'' ''root'' ''admin'')] (empty_db, \<lambda>_. 0)))))) =
   Some (''u'', ''root'', ''admin'')"
proof -
  let ?d = "fst (trun (session_step id 100) [(10, Login ''tok'' ''u'' ''root'' ''admin'')] (empty_db, \<lambda>_. 0))"
  have "fst (validate_session id 70 ''tok'' 100 ?d) = Some (''u'', ''root'', ''admin'')" by code_simp
  then have "validate_session id 70 ''tok'' 100 ?d =
      (Some (''u'', ''root'', ''admin''), snd (validate_session id 70 ''tok'' 100 ?d))"
    by (simp add: prod_eq_iff)
  from session_slides [OF this, of 120] show ?thesis by simp
qed

text \<open>
  A revoked API token never authenticates again: after a successful revocation no sequence of token
  operations that does not reuse its id makes any bearer value validate as it.\<close>

theorem revoked_token_dead:
  assumes "revoke_api_token i d = Inr d'" "list_all (other_token i) ops"
  shows "fst (validate_api_token hs now token (fold (token_step hs) ops d')) \<noteq> (True, i)"
  by (rule dead_not_valid [OF tokens.run_inv [OF revoke_dead [OF assms(1)] assms(2)]])

theorem revoked_token_dead_witness:
  "\<exists>d'. revoke_api_token ''i'' (snd (create_api_token id ''i'' ''ff'' 0 ''ci'' empty_db)) = Inr d' \<and>
     fst (validate_api_token id 9 ''pd_ff'' (fold (token_step id) [CheckToken 3 ''pd_ff'', NewToken ''j'' ''aa'' 4 ''x''] d'))
       \<noteq> (True, ''i'')"
proof -
  obtain d' where d': "revoke_api_token ''i'' (snd (create_api_token id ''i'' ''ff'' 0 ''ci'' empty_db)) = Inr d'"
    by (simp add: revoke_api_token_def create_api_token_def rows_affected_def empty_db_def Let_def)
  from revoked_token_dead [OF d', of "[CheckToken 3 ''pd_ff'', NewToken ''j'' ''aa'' 4 ''x'']" id 9 "''pd_ff''"] d'
  show ?thesis by (auto simp: other_token_def)
qed

end
