(* ===== verification/DbSettings.thy ===== *)
theory DbSettings
  imports Store Machine "HOL-Library.Product_Lexorder"
begin

text \<open>
  Settings and the audit log in \<open>internal/db/db.go\<close>: the notification settings, the retention
  policy, the OIDC configuration and the state of the program's own keypair, all in the
  key-value table \<open>app_settings\<close>, and the activity log with its retention floor.
\<close>

section \<open>Values\<close>

definition bool_string :: "bool \<Rightarrow> string" where
  "bool_string v = (if v then ''1'' else ''0'')"

definition get_setting_bool :: "db \<Rightarrow> string \<Rightarrow> bool \<Rightarrow> bool" where
  "get_setting_bool d key fallback =
     (case setting_get d key of
        None \<Rightarrow> fallback
      | Some raw \<Rightarrow>
          (let v = to_lower (trim_space raw) in
           if v \<in> set [''1'', ''true'', ''yes'', ''on''] then True
           else if v \<in> set [''0'', ''false'', ''no'', ''off''] then False
           else fallback))"

definition get_app_setting :: "db \<Rightarrow> string \<Rightarrow> string" where
  "get_app_setting d key = (case setting_get d key of None \<Rightarrow> [] | Some v \<Rightarrow> v)"

definition set_app_setting :: "string \<Rightarrow> string \<Rightarrow> db \<Rightarrow> db" where
  "set_app_setting key v d = setting_put key (Some v) d"

text \<open>The statements of a group of settings, in order.\<close>

definition put_settings :: "(string \<times> string option) list \<Rightarrow> db \<Rightarrow> db" where
  "put_settings kvs d = fold (\<lambda>(k, v). setting_put k v) kvs d"

section \<open>Notification settings\<close>

definition get_notification_settings :: "db \<Rightarrow> notification_settings" where
  "get_notification_settings d =
     \<lparr>ns_url = get_app_setting d ''apprise_url'',
      ns_updates = get_setting_bool d ''notif_updates_available'' True,
      ns_apply_ok = get_setting_bool d ''notif_auto_apply_success'' True,
      ns_apply_fail = get_setting_bool d ''notif_auto_apply_failure'' True,
      ns_scan_fail = get_setting_bool d ''notif_scan_failure'' True,
      ns_delivery = normalize_delivery (get_app_setting d ''notif_delivery''),
      ns_always = get_setting_bool d ''notif_digest_always'' False\<rparr>"

definition notification_pairs :: "notification_settings \<Rightarrow> (string \<times> string option) list" where
  "notification_pairs s =
     [(''apprise_url'', Some (trim_space (ns_url s))),
      (''notif_updates_available'', Some (bool_string (ns_updates s))),
      (''notif_auto_apply_success'', Some (bool_string (ns_apply_ok s))),
      (''notif_auto_apply_failure'', Some (bool_string (ns_apply_fail s))),
      (''notif_scan_failure'', Some (bool_string (ns_scan_fail s))),
      (''notif_delivery'', Some (normalize_delivery (ns_delivery s))),
      (''notif_digest_always'', Some (bool_string (ns_always s)))]"

definition upsert_notification_settings :: "notification_settings \<Rightarrow> db \<Rightarrow> db" where
  "upsert_notification_settings s d = put_settings (notification_pairs s) d"

section \<open>The keypair state\<close>

text \<open>One transaction; an empty value deletes its row.\<close>

definition get_app_key_state :: "db \<Rightarrow> app_key_state" where
  "get_app_key_state d =
     \<lparr>ak_current = get_app_setting d ''ssh_key_current'',
      ak_current_created = get_app_setting d ''ssh_key_current_created'',
      ak_next = get_app_setting d ''ssh_key_next'',
      ak_next_created = get_app_setting d ''ssh_key_next_created''\<rparr>"

definition non_empty :: "string \<Rightarrow> string option" where
  "non_empty v = (if v = [] then None else Some v)"

definition app_key_pairs :: "app_key_state \<Rightarrow> (string \<times> string option) list" where
  "app_key_pairs s =
     [(''ssh_key_current'', non_empty (ak_current s)),
      (''ssh_key_current_created'', non_empty (ak_current_created s)),
      (''ssh_key_next'', non_empty (ak_next s)),
      (''ssh_key_next_created'', non_empty (ak_next_created s))]"

definition put_app_key_state :: "app_key_state \<Rightarrow> db \<Rightarrow> db" where
  "put_app_key_state s d = put_settings (app_key_pairs s) d"

section \<open>The OIDC configuration\<close>

definition get_oidc_config :: "db \<Rightarrow> oidc_config" where
  "get_oidc_config d =
     \<lparr>oc_enabled = (get_app_setting d ''oidc_enabled'' = ''true''),
      oc_issuer = get_app_setting d ''oidc_issuer'',
      oc_client_id = get_app_setting d ''oidc_client_id'',
      oc_secret_enc = get_app_setting d ''oidc_client_secret'',
      oc_base_url = get_app_setting d ''oidc_base_url'',
      oc_allowed = get_app_setting d ''oidc_allowed'',
      oc_label = get_app_setting d ''oidc_button_label''\<rparr>"

definition oidc_pairs :: "oidc_config \<Rightarrow> (string \<times> string option) list" where
  "oidc_pairs c =
     [(''oidc_enabled'', Some (if oc_enabled c then ''true'' else ''false'')),
      (''oidc_issuer'', Some (trim_space (oc_issuer c))),
      (''oidc_client_id'', Some (trim_space (oc_client_id c))),
      (''oidc_client_secret'', Some (oc_secret_enc c)),
      (''oidc_base_url'', Some (trim_space (oc_base_url c))),
      (''oidc_allowed'', Some (trim_space (oc_allowed c))),
      (''oidc_button_label'', Some (trim_space (oc_label c)))]"

definition set_oidc_config :: "oidc_config \<Rightarrow> db \<Rightarrow> db" where
  "set_oidc_config c d = put_settings (oidc_pairs c) d"

section \<open>The activity log\<close>

definition record_activity :: "int \<Rightarrow> string \<Rightarrow> string \<Rightarrow> string \<Rightarrow> string \<Rightarrow> db \<Rightarrow> db" where
  "record_activity now host host_name event summary d =
     d\<lparr>d_activity := d_activity d @
         [\<lparr>ac_id = d_next_activity d, ac_host = trim_space host, ac_host_name = trim_space host_name,
           ac_event = trim_space event, ac_summary = trim_space summary, ac_created = now\<rparr>],
       d_next_activity := d_next_activity d + 1\<rparr>"

definition get_audit_retention_days :: "db \<Rightarrow> int" where
  "get_audit_retention_days d =
     (case setting_get d ''audit_retention_days'' of
        None \<Rightarrow> 30
      | Some raw \<Rightarrow> (case atoi raw of None \<Rightarrow> 30 | Some v \<Rightarrow> v))"

definition set_audit_retention_days :: "int \<Rightarrow> db \<Rightarrow> db res" where
  "set_audit_retention_days days d =
     (if days \<noteq> 0 \<and> days < 30
      then Inl (ErrMsg ''minimum retention is 30 days (or 0 for unlimited)'')
      else Inr (setting_put ''audit_retention_days'' (Some (itoa days)) d))"

definition day_ns :: int where
  "day_ns = 24 * 60 * 60 * 1000000000"

text \<open>\<open>AddDate\<close> is exact as long as the seconds of the cut-off fit 64 bits, that is for less than 10^14 days.\<close>

definition purge_old_activity :: "int \<Rightarrow> int \<Rightarrow> db \<Rightarrow> int \<times> db" where
  "purge_old_activity now retention_days d =
     (if retention_days = 0 then (0, d)
      else
        (let days = (if retention_days < 30 then 30 else retention_days);
             cutoff = now - days * day_ns;
             old = (\<lambda>e. ac_created e < cutoff)
         in (int (rows_affected old (d_activity d)), d\<lparr>d_activity := delete_rows old (d_activity d)\<rparr>)))"

definition export_activity :: "db \<Rightarrow> string \<Rightarrow> string \<Rightarrow> int option \<Rightarrow> int option \<Rightarrow> activity_entry list" where
  "export_activity d host event from until =
     sort_key (\<lambda>e. (ac_created e, ac_id e))
       (filter (\<lambda>e. (trim_space host = [] \<or> ac_host e = trim_space host) \<and>
                    (trim_space event = [] \<or> ac_event e = trim_space event) \<and>
                    (case from of None \<Rightarrow> True | Some t \<Rightarrow> ac_created e \<ge> t) \<and>
                    (case until of None \<Rightarrow> True | Some t \<Rightarrow> ac_created e \<le> t)) (d_activity d))"

definition list_activity :: "db \<Rightarrow> int \<Rightarrow> int \<Rightarrow> string \<Rightarrow> activity_entry list" where
  "list_activity d limit offset host =
     (let l = (if limit \<le> 0 then 50 else limit);
          l = (if l > 200 then 200 else l);
          off = (if offset < 0 then 0 else offset);
          rows = (if trim_space host \<noteq> [] then filter (\<lambda>e. ac_host e = trim_space host) (d_activity d)
                  else d_activity d)
      in take (nat l) (drop (nat off) (order_desc (\<lambda>e. (ac_created e, ac_id e)) rows)))"

section \<open>Reading back what was written\<close>

lemma get_put_settings:
  "distinct (map fst kvs) \<Longrightarrow> (k, v) \<in> set kvs \<Longrightarrow> setting_get (put_settings kvs d) k = v"
  unfolding put_settings_def by (rule kv.get_put_all)

lemma get_put_settings_other:
  "k \<notin> fst ` set kvs \<Longrightarrow> setting_get (put_settings kvs d) k = setting_get d k"
  unfolding put_settings_def by (rule kv.get_put_all_other)

lemma app_setting_put:
  "distinct (map fst kvs) \<Longrightarrow> (k, v) \<in> set kvs \<Longrightarrow>
     get_app_setting (put_settings kvs d) k = (case v of None \<Rightarrow> [] | Some x \<Rightarrow> x)"
  by (simp add: get_app_setting_def get_put_settings)

lemma app_setting_non_empty [simp]: "(case non_empty v of None \<Rightarrow> [] | Some x \<Rightarrow> x) = v"
  by (simp add: non_empty_def)

lemma bool_string_values:
  "to_lower (trim_space (bool_string True)) = ''1''" "to_lower (trim_space (bool_string False)) = ''0''"
  by code_simp+

lemma setting_bool_put:
  assumes "distinct (map fst kvs)" "(k, Some (bool_string b)) \<in> set kvs"
  shows "get_setting_bool (put_settings kvs d) k fallback = b"
  using bool_string_values
  by (cases b) (simp_all add: get_setting_bool_def get_put_settings [OF assms])

lemma pairs_distinct:
  "distinct (map fst (notification_pairs s))" "distinct (map fst (app_key_pairs a))"
  "distinct (map fst (oidc_pairs c))"
  by (simp_all add: notification_pairs_def app_key_pairs_def oidc_pairs_def)

lemma get_put_notifications:
  "get_notification_settings (upsert_notification_settings s d) =
     s\<lparr>ns_url := trim_space (ns_url s), ns_delivery := normalize_delivery (ns_delivery s)\<rparr>"
proof -
  note n = pairs_distinct(1) [of s]
  show ?thesis
    unfolding get_notification_settings_def upsert_notification_settings_def
    by (subst app_setting_put [OF n, of _ "Some (trim_space (ns_url s))"], simp add: notification_pairs_def,
        subst app_setting_put [OF n, of _ "Some (normalize_delivery (ns_delivery s))"], simp add: notification_pairs_def,
        subst setting_bool_put [OF n, of _ "ns_updates s"], simp add: notification_pairs_def,
        subst setting_bool_put [OF n, of _ "ns_apply_ok s"], simp add: notification_pairs_def,
        subst setting_bool_put [OF n, of _ "ns_apply_fail s"], simp add: notification_pairs_def,
        subst setting_bool_put [OF n, of _ "ns_scan_fail s"], simp add: notification_pairs_def,
        subst setting_bool_put [OF n, of _ "ns_always s"], simp add: notification_pairs_def, simp)
qed

lemma get_put_app_key [simp]: "get_app_key_state (put_app_key_state a d) = a"
proof -
  note k = pairs_distinct(2) [of a]
  show ?thesis
    unfolding get_app_key_state_def put_app_key_state_def
    by (subst app_setting_put [OF k, of _ "non_empty (ak_current a)"], simp add: app_key_pairs_def,
        subst app_setting_put [OF k, of _ "non_empty (ak_current_created a)"], simp add: app_key_pairs_def,
        subst app_setting_put [OF k, of _ "non_empty (ak_next a)"], simp add: app_key_pairs_def,
        subst app_setting_put [OF k, of _ "non_empty (ak_next_created a)"], simp add: app_key_pairs_def, simp)
qed

lemma get_set_oidc:
  "get_oidc_config (set_oidc_config c d) =
     c\<lparr>oc_issuer := trim_space (oc_issuer c), oc_client_id := trim_space (oc_client_id c),
        oc_base_url := trim_space (oc_base_url c), oc_allowed := trim_space (oc_allowed c),
        oc_label := trim_space (oc_label c)\<rparr>"
proof -
  note o = pairs_distinct(3) [of c]
  show ?thesis
    unfolding get_oidc_config_def set_oidc_config_def
    by (subst app_setting_put [OF o, of _ "Some (if oc_enabled c then ''true'' else ''false'')"], simp add: oidc_pairs_def,
        subst app_setting_put [OF o, of _ "Some (trim_space (oc_issuer c))"], simp add: oidc_pairs_def,
        subst app_setting_put [OF o, of _ "Some (trim_space (oc_client_id c))"], simp add: oidc_pairs_def,
        subst app_setting_put [OF o, of _ "Some (oc_secret_enc c)"], simp add: oidc_pairs_def,
        subst app_setting_put [OF o, of _ "Some (trim_space (oc_base_url c))"], simp add: oidc_pairs_def,
        subst app_setting_put [OF o, of _ "Some (trim_space (oc_allowed c))"], simp add: oidc_pairs_def,
        subst app_setting_put [OF o, of _ "Some (trim_space (oc_label c))"], simp add: oidc_pairs_def, simp)
qed

lemma purge_activity_rows:
  "d_activity (snd (purge_old_activity now days d)) =
     (if days = 0 then d_activity d
      else filter (\<lambda>e. now - max 30 days * day_ns \<le> ac_created e) (d_activity d))"
  by (auto simp: purge_old_activity_def Let_def delete_rows_def max_def intro!: filter_cong)

section \<open>Properties\<close>

text \<open>
  The notification settings, the OIDC configuration and the keypair state round-trip through the
  database: what is read after a write is what was written, with the strings trimmed and the
  delivery mode normalised as the writer does it.\<close>

theorem settings_round_trip:
  "get_notification_settings (upsert_notification_settings s d) =
     s\<lparr>ns_url := trim_space (ns_url s), ns_delivery := normalize_delivery (ns_delivery s)\<rparr> \<and>
   get_app_key_state (put_app_key_state a d) = a \<and>
   get_oidc_config (set_oidc_config c d) =
     c\<lparr>oc_issuer := trim_space (oc_issuer c), oc_client_id := trim_space (oc_client_id c),
        oc_base_url := trim_space (oc_base_url c), oc_allowed := trim_space (oc_allowed c),
        oc_label := trim_space (oc_label c)\<rparr>"
  by (simp only: get_put_notifications get_put_app_key get_set_oidc simp_thms)

text \<open>
  The audit floor: no purge, whatever retention up to 10^12 days is asked for, deletes an entry of the last
  thirty days, and a purge with the retention that was set deletes exactly what is older than it.\<close>

theorem audit_floor:
  assumes "days \<le> 10 ^ 12" "set_audit_retention_days days d = Inr d'"
  shows "get_audit_retention_days d' = days \<and>
     d_activity (snd (purge_old_activity now days d')) =
       filter (\<lambda>e. days = 0 \<or> now - days * day_ns \<le> ac_created e) (d_activity d) \<and>
     (\<forall>e \<in> set (d_activity d). \<forall>n \<le> 10 ^ 12. now - 30 * day_ns \<le> ac_created e \<longrightarrow>
        e \<in> set (d_activity (snd (purge_old_activity now n d))))"
proof -
  have ok: "days = 0 \<or> 30 \<le> days"
    and d': "d' = setting_put ''audit_retention_days'' (Some (itoa days)) d"
    using assms(2) by (auto simp: set_audit_retention_days_def split: if_splits)
  have same: "d_activity d' = d_activity d" by (simp add: d' setting_put_def)
  have "int64_range days" using ok assms(1) by (auto simp: int64_range_def)
  then have get: "get_audit_retention_days d' = days"
    by (simp add: d' get_audit_retention_days_def kv.get_put atoi_itoa)
  have floor: "e \<in> set (d_activity (snd (purge_old_activity now n d)))"
    if "e \<in> set (d_activity d)" "now - 30 * day_ns \<le> ac_created e" for e n
  proof -
    have "30 * day_ns \<le> max 30 n * day_ns" by (simp add: day_ns_def)
    with that show ?thesis by (auto simp: purge_activity_rows)
  qed
  have "d_activity (snd (purge_old_activity now days d')) =
       filter (\<lambda>e. days = 0 \<or> now - days * day_ns \<le> ac_created e) (d_activity d)"
    using ok by (auto simp: purge_activity_rows same max_def)
  with get floor show ?thesis by blast
qed

theorem audit_floor_witness:
  "\<exists>d'. set_audit_retention_days 90 empty_db = Inr d' \<and> get_audit_retention_days d' = 90"
proof -
  obtain d' where d': "set_audit_retention_days 90 empty_db = Inr d'"
    by (simp add: set_audit_retention_days_def)
  from audit_floor [OF _ d'] d' show ?thesis by auto
qed

end
