(* ===== verification/HostKey.thy ===== *)
theory HostKey
  imports DbHosts
begin

text \<open>
  Host key verification: the policy of \<open>cmd/server/main.go\<close> (\<open>verifyHostKey\<close>), the SSH client's
  fail-closed callback in \<open>internal/sshx/client.go\<close>, and the operator's handlers that set the
  policy and accept or deny a pending fingerprint. Handlers of the JSON interface return the status
  and the message they write; the web handlers of \<open>spike_hosts.go\<close> return the database only, their
  response being a redirect.
\<close>

type_synonym response = "nat \<times> string"

record host_key_decision =
  hk_allow :: bool
  hk_reason :: string
  hk_expected :: string
  hk_presented :: string

section \<open>The policy\<close>

definition mismatch_reason :: string where
  "mismatch_reason = ''Host key mismatch detected (possible MITM). Connection blocked until operator accepts or denies new fingerprint.''"

definition pinned_reason :: string where
  "pinned_reason = ''Host key verification blocked connection: pinned mode requires a fingerprint. Set or accept fingerprint explicitly.''"

text \<open>Block: remember the presented key as pending, and audit it.\<close>

definition block_key :: "string \<Rightarrow> int \<Rightarrow> string \<Rightarrow> string \<Rightarrow> string \<Rightarrow> string \<Rightarrow> db \<Rightarrow> db" where
  "block_key uid now i prev_fp fp note_text d =
     record_host_key_audit uid now i ''host_key_mismatch_blocked'' prev_fp fp note_text
       (set_host_key_pending_fingerprint i fp d)"

definition verify_host_key :: "string \<Rightarrow> int \<Rightarrow> host \<Rightarrow> string \<Rightarrow> db \<Rightarrow> host_key_decision \<times> db" where
  "verify_host_key uid now h presented d =
     (let fp = trim_space presented;
          i = h_id h;
          blocked = (\<lambda>reason expected. \<lparr>hk_allow = False, hk_reason = reason, hk_expected = expected, hk_presented = fp\<rparr>);
          allowed = \<lparr>hk_allow = True, hk_reason = [], hk_expected = [], hk_presented = fp\<rparr>
      in
      if fp = [] then (blocked ''empty host key fingerprint from server'' [], d)
      else
        (let mode = to_lower (trim_space (h_trust_mode h));
             mode = (if mode = [] then ''tofu'' else mode);
             trusted = trim_space (h_trusted h);
             pinned = trim_space (h_pinned h)
         in
         if mode = ''pinned'' then
           (if pinned = [] then
              (blocked pinned_reason [],
               block_key uid now i trusted fp ''pinned mode configured without fingerprint'' d)
            else if pinned \<noteq> fp then
              (blocked mismatch_reason pinned,
               block_key uid now i pinned fp ''presented fingerprint does not match pinned fingerprint'' d)
            else (allowed, mark_host_key_verified now i (trust_host_key_first_use now i fp d)))
         else if trusted = [] then
           (allowed, record_host_key_audit uid now i ''host_key_first_trust'' [] fp ''tofu first successful trust''
              (trust_host_key_first_use now i fp d))
         else if trusted \<noteq> fp then
           (blocked mismatch_reason trusted,
            block_key uid now i trusted fp ''tofu mismatch blocked pending operator decision'' d)
         else (allowed, mark_host_key_verified now i d)))"

text \<open>
  The client's callback. The verifier is optional in the client; without one every connection is
  refused. The error of a refused key carries the host and both fingerprints.
\<close>

datatype key_error =
    NoVerifier
  | HostKeyError (hke_id: string) (hke_name: string) (hke_message: string)
      (hke_expected: string) (hke_presented: string)

definition verifying_host_key_callback ::
  "(host \<Rightarrow> string \<Rightarrow> 's \<Rightarrow> host_key_decision \<times> 's) option \<Rightarrow> host \<Rightarrow> string \<Rightarrow> 's \<Rightarrow> key_error option \<times> 's" where
  "verifying_host_key_callback verifier h fingerprint s =
     (case verifier of
        None \<Rightarrow> (Some NoVerifier, s)
      | Some v \<Rightarrow>
          (case v h fingerprint s of (decision, s') \<Rightarrow>
             if hk_allow decision then (None, s')
             else
               (let message = trim_space (hk_reason decision);
                    message = (if message = [] then ''host key verification failed'' else message)
                in (Some (HostKeyError (h_id h) (h_name h) message (hk_expected decision) (hk_presented decision)), s'))))"

section \<open>The operator's handlers\<close>

record key_policy_request =
  kp_required :: "bool option"
  kp_mode :: string
  kp_pinned :: string

definition put_host_key_policy :: "string \<Rightarrow> int \<Rightarrow> string \<Rightarrow> key_policy_request option \<Rightarrow> db \<Rightarrow> response \<times> db" where
  "put_host_key_policy uid now i body d =
     (case get_host d i of
        Inl _ \<Rightarrow> ((404, ''host not found''), d)
      | Inr h \<Rightarrow>
          (case body of
             None \<Rightarrow> ((400, ''invalid json''), d)
           | Some req \<Rightarrow>
               if kp_required req = Some False then
                 ((400, ''host_key_required cannot be false in alpha; host key verification is mandatory''), d)
               else
                 (let mode = to_lower (trim_space (kp_mode req));
                      mode = (if mode = [] then h_trust_mode h else mode);
                      mode = (if mode = [] then ''tofu'' else mode);
                      pinned = trim_space (kp_pinned req);
                      pinned = (if pinned = [] then h_pinned h else pinned)
                  in
                  if mode \<noteq> ''tofu'' \<and> mode \<noteq> ''pinned'' then
                    ((400, ''host_key_trust_mode must be tofu|pinned''), d)
                  else if mode = ''pinned'' \<and> pinned = [] then
                    ((400, ''host_key_pinned_fingerprint required when host_key_trust_mode=pinned''), d)
                  else
                    (case update_host_key_policy i True mode pinned d of
                       Inl _ \<Rightarrow> ((500, ''Failed to update host key policy''), d)
                     | Inr d' \<Rightarrow>
                         ((200, ''host key policy updated''),
                          if mode = ''pinned''
                          then record_host_key_audit uid now i ''host_key_policy_pinned'' (h_pinned h) pinned
                                 ''operator updated host key policy'' d'
                          else d')))))"

definition list_host_key_audit :: "db \<Rightarrow> string \<Rightarrow> string \<Rightarrow> response + host_key_audit_event list" where
  "list_host_key_audit d i raw_limit =
     (case get_host d i of
        Inl _ \<Rightarrow> Inl (404, ''host not found'')
      | Inr _ \<Rightarrow>
          (let raw = trim_space raw_limit;
               limit = (if raw = [] then 20 else (case atoi raw of None \<Rightarrow> 20 | Some n \<Rightarrow> n))
           in Inr (list_host_key_audit_events d i limit)))"

text \<open>\<open>None\<close> is a body that is present and does not decode.\<close>

definition accept_host_key_fingerprint :: "string \<Rightarrow> int \<Rightarrow> string \<Rightarrow> string option \<Rightarrow> db \<Rightarrow> response \<times> db" where
  "accept_host_key_fingerprint uid now i body d =
     (case get_host d i of
        Inl _ \<Rightarrow> ((404, ''host not found''), d)
      | Inr h \<Rightarrow>
          (case body of
             None \<Rightarrow> ((400, ''invalid json''), d)
           | Some note_raw \<Rightarrow>
               (let note_text = trim_space note_raw; pending = trim_space (h_pending h) in
                if length note_text > 240 then ((400, ''note must be 240 characters or fewer''), d)
                else if pending = [] then ((409, ''no pending fingerprint to accept''), d)
                else
                  (case accept_host_key_pending_fingerprint now i d of
                     Inl _ \<Rightarrow> ((500, ''Failed to accept host key fingerprint''), d)
                   | Inr d' \<Rightarrow>
                       (let audit = ''operator accepted new host key fingerprint'';
                            audit = (if note_text \<noteq> [] then audit @ '': '' @ note_text else audit)
                        in ((200, ''host key fingerprint accepted''),
                            record_host_key_audit uid now i ''host_key_rotation_accepted'' (h_trusted h) pending audit d'))))))"

definition deny_host_key_fingerprint :: "string \<Rightarrow> int \<Rightarrow> string \<Rightarrow> string option \<Rightarrow> db \<Rightarrow> response \<times> db" where
  "deny_host_key_fingerprint uid now i body d =
     (case get_host d i of
        Inl _ \<Rightarrow> ((404, ''host not found''), d)
      | Inr h \<Rightarrow>
          (case body of
             None \<Rightarrow> ((400, ''invalid json''), d)
           | Some note_raw \<Rightarrow>
               (let note_text = trim_space note_raw; pending = trim_space (h_pending h) in
                if length note_text > 240 then ((400, ''note must be 240 characters or fewer''), d)
                else if pending = [] then ((409, ''no pending fingerprint to deny''), d)
                else
                  (case clear_host_key_pending_fingerprint i d of
                     Inl _ \<Rightarrow> ((500, ''Failed to deny host key fingerprint''), d)
                   | Inr d' \<Rightarrow>
                       (let audit = ''operator denied new host key fingerprint'';
                            audit = (if note_text \<noteq> [] then audit @ '': '' @ note_text else audit)
                        in ((200, ''pending host key fingerprint denied''),
                            record_host_key_audit uid now i ''host_key_mismatch_denied'' (h_trusted h) pending audit d'))))))"

definition next_host_key_accept :: "string \<Rightarrow> int \<Rightarrow> string \<Rightarrow> db \<Rightarrow> db" where
  "next_host_key_accept uid now i d =
     (case get_host d i of
        Inl _ \<Rightarrow> d
      | Inr h \<Rightarrow>
          (let pending = trim_space (h_pending h) in
           if pending = [] then d
           else
             (case accept_host_key_pending_fingerprint now i d of
                Inl _ \<Rightarrow> d
              | Inr d' \<Rightarrow> record_host_key_audit uid now i ''host_key_rotation_accepted'' (h_trusted h) pending
                           ''operator accepted new host key fingerprint (web UI)'' d')))"

definition next_host_key_deny :: "string \<Rightarrow> int \<Rightarrow> string \<Rightarrow> db \<Rightarrow> db" where
  "next_host_key_deny uid now i d =
     (case get_host d i of
        Inl _ \<Rightarrow> d
      | Inr h \<Rightarrow>
          (let pending = trim_space (h_pending h) in
           if pending = [] then d
           else
             (case clear_host_key_pending_fingerprint i d of
                Inl _ \<Rightarrow> d
              | Inr d' \<Rightarrow> record_host_key_audit uid now i ''host_key_mismatch_denied'' (h_trusted h) pending
                           ''operator denied new host key fingerprint (web UI)'' d')))"

section \<open>The row of one host under the operations\<close>

abbreviation host_row :: "string \<Rightarrow> db \<Rightarrow> host option" where
  "host_row i d \<equiv> lookup_row h_id i (d_hosts d)"

lemma lookup_update_rows_cond:
  "(\<And>r. k (f r) = k r) \<Longrightarrow>
     lookup_row k x (update_rows (\<lambda>r. k r = y \<and> q r) f rows) =
     (if x = y then map_option (\<lambda>r. if q r then f r else r) (lookup_row k x rows) else lookup_row k x rows)"
  by (induction rows) (auto simp: lookup_row_def update_rows_def)

lemma row_update [simp]:
  "(\<And>r. h_id (f r) = h_id r) \<Longrightarrow>
     host_row i (update_host_row j f d) = (if i = j then map_option f (host_row i d) else host_row i d)"
  by (simp add: update_host_row_def lookup_update_rows)

lemma row_audit [simp]: "host_row i (record_host_key_audit u t j e p n m d) = host_row i d"
  by (simp add: record_host_key_audit_def)

lemma row_verified [simp]:
  "host_row i (mark_host_key_verified t j d) =
     (if i = j then map_option (h_verified_at_update (\<lambda>_. Some t)) (host_row i d) else host_row i d)"
  by (simp add: mark_host_key_verified_def)

lemma row_pending [simp]:
  "host_row i (set_host_key_pending_fingerprint j fp d) =
     (if i = j then map_option (h_pending_update (\<lambda>_. trim_space fp)) (host_row i d) else host_row i d)"
  by (simp add: set_host_key_pending_fingerprint_def)

lemma row_trust [simp]:
  "host_row i (trust_host_key_first_use t j fp d) =
     (if i = j then map_option (\<lambda>r. r\<lparr>h_trusted := trim_space fp, h_pending := [], h_verified_at := Some t\<rparr>)
        (host_row i d) else host_row i d)"
  by (simp add: trust_host_key_first_use_def)

lemma row_accept:
  "accept_host_key_pending_fingerprint t j d = Inr d' \<Longrightarrow>
     host_row i d' = (if i = j then map_option (\<lambda>r. if sql_trim (h_pending r) \<noteq> [] then
        r\<lparr>h_trusted := h_pending r,
          h_pinned := (if h_trust_mode r = ''pinned'' then h_pending r else h_pinned r),
          h_pending := [], h_verified_at := Some t\<rparr> else r) (host_row i d) else host_row i d)"
  by (simp add: accept_host_key_pending_fingerprint_def Let_def split: if_splits)
    (auto simp: lookup_update_rows_cond [where q = "\<lambda>r. sql_trim (h_pending r) \<noteq> []"])

lemma row_clear:
  "clear_host_key_pending_fingerprint j d = Inr d' \<Longrightarrow>
     host_row i d' = (if i = j then map_option (h_pending_update (\<lambda>_. [])) (host_row i d) else host_row i d)"
  by (auto simp: clear_host_key_pending_fingerprint_def update_one_host_def split: if_splits)

lemma row_policy:
  "update_host_key_policy j r m p d = Inr d' \<Longrightarrow>
     host_row i d' = (if i = j then map_option (\<lambda>x. x\<lparr>h_key_required := r,
        h_trust_mode := (if to_lower (trim_space m) = [] then ''tofu'' else to_lower (trim_space m)),
        h_pinned := trim_space p\<rparr>) (host_row i d) else host_row i d)"
  by (auto simp: update_host_key_policy_def update_one_host_def Let_def split: if_splits)

lemma get_host_row: "get_host d i = Inr h \<Longrightarrow> \<exists>r. host_row i d = Some r \<and> h = read_host d r"
  by (auto simp: get_host_def split: option.splits)

lemma read_host_keys [simp]:
  "h_id (read_host d r) = h_id r" "h_trusted (read_host d r) = h_trusted r"
  "h_pinned (read_host d r) = h_pinned r" "h_pending (read_host d r) = h_pending r"
  by (simp_all add: read_host_def)

section \<open>Which keys get through\<close>

datatype key_op =
    Connect string int string string
  | SetPolicy string int string "key_policy_request option"
  | AcceptNew string int string "string option"
  | DenyNew string int string "string option"
  | WebAccept string int string
  | WebDeny string int string

fun key_step :: "key_op \<Rightarrow> db \<Rightarrow> db" where
  "key_step (Connect u t j fp) d =
     (case get_host d j of Inl _ \<Rightarrow> d | Inr h \<Rightarrow> snd (verify_host_key u t h fp d))"
| "key_step (SetPolicy u t j body) d = snd (put_host_key_policy u t j body d)"
| "key_step (AcceptNew u t j body) d = snd (accept_host_key_fingerprint u t j body d)"
| "key_step (DenyNew u t j body) d = snd (deny_host_key_fingerprint u t j body d)"
| "key_step (WebAccept u t j) d = next_host_key_accept u t j d"
| "key_step (WebDeny u t j) d = next_host_key_deny u t j d"

text \<open>The fingerprints an event makes the operator vouch for, for host \<open>i\<close>.\<close>

definition pending_of :: "string \<Rightarrow> db \<Rightarrow> string set" where
  "pending_of i d = (case host_row i d of None \<Rightarrow> {} | Some r \<Rightarrow> {trim_space (h_pending r)})"

fun vouched :: "string \<Rightarrow> key_op \<Rightarrow> db \<Rightarrow> string set" where
  "vouched i (SetPolicy u t j (Some req)) d = (if i = j then {trim_space (kp_pinned req)} else {})"
| "vouched i (AcceptNew u t j body) d = (if i = j then pending_of i d else {})"
| "vouched i (WebAccept u t j) d = (if i = j then pending_of i d else {})"
| "vouched i _ d = {}"

definition key_row_ok :: "string set \<Rightarrow> host \<Rightarrow> bool" where
  "key_row_ok known r \<longleftrightarrow> trim_space (h_trusted r) \<noteq> [] \<and> trim_space (h_trusted r) \<in> known \<and>
     (trim_space (h_pinned r) = [] \<or> trim_space (h_pinned r) \<in> known)"

lemma key_row_ok_mono: "key_row_ok known r \<Longrightarrow> key_row_ok (known \<union> extra) r"
  by (auto simp: key_row_ok_def)

lemma row_block [simp]:
  "host_row i (block_key u t j p fp n d) =
     (if i = j then map_option (h_pending_update (\<lambda>_. trim_space fp)) (host_row i d) else host_row i d)"
  by (simp add: block_key_def)

definition pinned_mode :: "host \<Rightarrow> bool" where
  "pinned_mode h \<longleftrightarrow> to_lower (trim_space (h_trust_mode h)) = ''pinned''"

lemma verify_allow_iff:
  "hk_allow (fst (verify_host_key u t h fp d)) \<longleftrightarrow> trim_space fp \<noteq> [] \<and>
     (if pinned_mode h then trim_space (h_pinned h) = trim_space fp
      else trim_space (h_trusted h) = [] \<or> trim_space (h_trusted h) = trim_space fp)"
  by (auto simp: verify_host_key_def pinned_mode_def Let_def)

lemma verify_row:
  "host_row j (snd (verify_host_key u t h fp d)) =
     (if j \<noteq> h_id h \<or> trim_space fp = [] then host_row j d
      else if \<not> hk_allow (fst (verify_host_key u t h fp d))
      then map_option (h_pending_update (\<lambda>_. trim_space fp)) (host_row j d)
      else if pinned_mode h \<or> trim_space (h_trusted h) = []
      then map_option (\<lambda>r. r\<lparr>h_trusted := trim_space fp, h_pending := [], h_verified_at := Some t\<rparr>) (host_row j d)
      else map_option (h_verified_at_update (\<lambda>_. Some t)) (host_row j d))"
  by (simp add: verify_host_key_def pinned_mode_def Let_def option.map_comp comp_def)

lemma pinned_mode_read [simp]: "pinned_mode (read_host d r) = pinned_mode r"
proof -
  have "to_lower (trim_space ''tofu'') \<noteq> ''pinned''" by code_simp
  then show ?thesis by (simp add: pinned_mode_def read_host_def)
qed

text \<open>Each operation keeps the invariant of the row.\<close>

lemma key_ok_connect:
  assumes "host_row i d = Some r" "key_row_ok known r" "get_host d j = Inr h"
  shows "\<exists>r'. host_row i (snd (verify_host_key u t h fp d)) = Some r' \<and> key_row_ok known r'"
proof (cases "i = j")
  case True
  obtain r0 where "host_row j d = Some r0" "h = read_host d r0" using get_host_row [OF assms(3)] by blast
  with True assms(1) have h: "h = read_host d r" by simp
  have id: "h_id h = i" using lookup_row_Some [OF assms(1)] by (simp add: h)
  show ?thesis
    using assms(1,2) id verify_allow_iff [of u t h fp d]
    by (auto simp: verify_row key_row_ok_def h)
next
  case False
  obtain r0 where "host_row j d = Some r0" "h = read_host d r0" using get_host_row [OF assms(3)] by blast
  then have "h_id h = j" using lookup_row_Some by fastforce
  with False assms show ?thesis by (simp add: verify_row)
qed

lemma policy_handler_cases:
  "host_row i (snd (put_host_key_policy u t j body d)) = host_row i d \<or>
   (\<exists>h req m d'. get_host d j = Inr h \<and> body = Some req \<and>
      update_host_key_policy j True m
        (if trim_space (kp_pinned req) = [] then h_pinned h else trim_space (kp_pinned req)) d = Inr d' \<and>
      host_row i (snd (put_host_key_policy u t j body d)) = host_row i d')"
proof (cases "\<exists>h req. get_host d j = Inr h \<and> body = Some req")
  case True
  then obtain h req where h: "get_host d j = Inr h" "body = Some req" by blast
  define m where "m = (let mode = to_lower (trim_space (kp_mode req));
      mode = (if mode = [] then h_trust_mode h else mode) in (if mode = [] then ''tofu'' else mode))"
  define p where "p = (if trim_space (kp_pinned req) = [] then h_pinned h else trim_space (kp_pinned req))"
  have eq: "put_host_key_policy u t j body d =
     (if kp_required req = Some False then
        ((400, ''host_key_required cannot be false in alpha; host key verification is mandatory''), d)
      else if m \<noteq> ''tofu'' \<and> m \<noteq> ''pinned'' then ((400, ''host_key_trust_mode must be tofu|pinned''), d)
      else if m = ''pinned'' \<and> p = [] then
        ((400, ''host_key_pinned_fingerprint required when host_key_trust_mode=pinned''), d)
      else
        (case update_host_key_policy j True m p d of
           Inl _ \<Rightarrow> ((500, ''Failed to update host key policy''), d)
         | Inr d' \<Rightarrow>
             ((200, ''host key policy updated''),
              if m = ''pinned''
              then record_host_key_audit u t j ''host_key_policy_pinned'' (h_pinned h) p
                     ''operator updated host key policy'' d'
              else d')))"
    unfolding m_def p_def by (simp only: put_host_key_policy_def h sum.case option.case Let_def)
  show ?thesis
  proof (cases "update_host_key_policy j True m p d")
    case (Inl e)
    show ?thesis unfolding eq Inl by simp
  next
    case (Inr d')
    have "host_row i (snd (put_host_key_policy u t j body d)) \<in> {host_row i d, host_row i d'}"
      unfolding eq Inr by simp
    then show ?thesis using h Inr p_def by blast
  qed
next
  case False
  then show ?thesis by (auto simp: put_host_key_policy_def split: sum.split option.split)
qed

lemma key_ok_policy:
  assumes "host_row i d = Some r" "key_row_ok known r"
  shows "\<exists>r'. host_row i (snd (put_host_key_policy u t j body d)) = Some r' \<and>
     key_row_ok (known \<union> vouched i (SetPolicy u t j body) d) r'"
proof -
  have stay: "\<exists>r'. host_row i d = Some r' \<and> key_row_ok (known \<union> vouched i (SetPolicy u t j body) d) r'"
    using assms by (auto intro: key_row_ok_mono)
  have upd: "\<exists>r'. host_row i d' = Some r' \<and> key_row_ok (known \<union> vouched i (SetPolicy u t j body) d) r'"
    if "get_host d j = Inr h" "body = Some req"
      "update_host_key_policy j True m (if trim_space (kp_pinned req) = [] then h_pinned h else trim_space (kp_pinned req)) d = Inr d'"
    for h req m d'
  proof (cases "i = j")
    note g = that
    case True
    obtain r0 where "host_row j d = Some r0" "h = read_host d r0" using get_host_row [OF g(1)] by blast
    with True assms(1) have h: "h = read_host d r" by simp
    show ?thesis using assms True g(2) row_policy [OF g(3), of i]
      by (auto simp: key_row_ok_def h split: if_splits)
  next
    case False
    with assms row_policy [OF that(3), of i] show ?thesis by (auto intro: key_row_ok_mono)
  qed
  show ?thesis
    using policy_handler_cases [of i u t j body d] stay upd by metis
qed

lemma key_ok_accept:
  assumes r: "host_row i d = Some r" "key_row_ok known r"
    and h: "get_host d j = Inr h" "trim_space (h_pending h) \<noteq> []"
    and acc: "accept_host_key_pending_fingerprint t j d = Inr d'"
  shows "\<exists>r'. host_row i d' = Some r' \<and> key_row_ok (known \<union> (if i = j then pending_of i d else {})) r'"
proof (cases "i = j")
  case True
  obtain r0 where "host_row j d = Some r0" "h = read_host d r0" using get_host_row [OF h(1)] by blast
  with True r(1) have "h = read_host d r" by simp
  with h(2) have "trim_space (h_pending r) \<noteq> []" by simp
  with True r row_accept [OF acc, of i] show ?thesis
    by (auto simp: key_row_ok_def pending_of_def)
next
  case False
  with r row_accept [OF acc, of i] show ?thesis by (auto intro: key_row_ok_mono)
qed

lemma key_ok_clear:
  assumes "host_row i d = Some r" "key_row_ok known r" "clear_host_key_pending_fingerprint j d = Inr d'"
  shows "\<exists>r'. host_row i d' = Some r' \<and> key_row_ok known r'"
  using assms row_clear [OF assms(3), of i] by (auto simp: key_row_ok_def)

text \<open>An accepting or denying handler does nothing, or its one update and an audit record.\<close>

lemma accept_handler_cases:
  "host_row i (snd (accept_host_key_fingerprint u t j body d)) = host_row i d \<or>
   (\<exists>h d'. get_host d j = Inr h \<and> trim_space (h_pending h) \<noteq> [] \<and>
      accept_host_key_pending_fingerprint t j d = Inr d' \<and>
      host_row i (snd (accept_host_key_fingerprint u t j body d)) = host_row i d')"
  "host_row i (next_host_key_accept u t j d) = host_row i d \<or>
   (\<exists>h d'. get_host d j = Inr h \<and> trim_space (h_pending h) \<noteq> [] \<and>
      accept_host_key_pending_fingerprint t j d = Inr d' \<and>
      host_row i (next_host_key_accept u t j d) = host_row i d')"
  by (auto simp: accept_host_key_fingerprint_def next_host_key_accept_def Let_def
      split: sum.split option.split)

lemma deny_handler_cases:
  "host_row i (snd (deny_host_key_fingerprint u t j body d)) = host_row i d \<or>
   (\<exists>d'. clear_host_key_pending_fingerprint j d = Inr d' \<and>
      host_row i (snd (deny_host_key_fingerprint u t j body d)) = host_row i d')"
  "host_row i (next_host_key_deny u t j d) = host_row i d \<or>
   (\<exists>d'. clear_host_key_pending_fingerprint j d = Inr d' \<and>
      host_row i (next_host_key_deny u t j d) = host_row i d')"
  by (auto simp: deny_host_key_fingerprint_def next_host_key_deny_def Let_def
      split: sum.split option.split)

lemma key_step_ok:
  assumes r: "host_row i d = Some r" "key_row_ok known r"
  shows "\<exists>r'. host_row i (key_step e d) = Some r' \<and> key_row_ok (known \<union> vouched i e d) r'"
proof -
  have stay: "\<exists>r'. host_row i d = Some r' \<and> key_row_ok (known \<union> extra) r'" for extra
    using r by (auto intro: key_row_ok_mono)
  show ?thesis
  proof (cases e)
    case (Connect u t j fp)
    then show ?thesis using stay [of "{}"] key_ok_connect [OF r] by (auto split: sum.split)
  next
    case (SetPolicy u t j body)
    then show ?thesis using key_ok_policy [OF r, of u t j body] by simp
  next
    case (AcceptNew u t j body)
    have v: "vouched i e d = (if i = j then pending_of i d else {})" by (simp add: AcceptNew)
    show ?thesis unfolding v
      using accept_handler_cases(1) [of i u t j body d] stay key_ok_accept [OF r, of j _ t]
      by (simp only: AcceptNew key_step.simps) metis
  next
    case (DenyNew u t j body)
    have v: "vouched i e d = {}" by (simp add: DenyNew)
    show ?thesis unfolding v
      using deny_handler_cases(1) [of i u t j body d] stay [of "{}"] key_ok_clear [OF r, of j]
      by (simp only: DenyNew key_step.simps Un_empty_right) metis
  next
    case (WebAccept u t j)
    have v: "vouched i e d = (if i = j then pending_of i d else {})" by (simp add: WebAccept)
    show ?thesis unfolding v
      using accept_handler_cases(2) [of i u t j d] stay key_ok_accept [OF r, of j _ t]
      by (simp only: WebAccept key_step.simps) metis
  next
    case (WebDeny u t j)
    have v: "vouched i e d = {}" by (simp add: WebDeny)
    show ?thesis unfolding v
      using deny_handler_cases(2) [of i u t j d] stay [of "{}"] key_ok_clear [OF r, of j]
      by (simp only: WebDeny key_step.simps Un_empty_right) metis
  qed
qed

section \<open>Properties\<close>

definition tofu_db :: "string \<Rightarrow> db" where
  "tofu_db trusted = empty_db\<lparr>d_hosts := [(sample_host ''a'' ''alpha'')\<lparr>h_trusted := trusted\<rparr>]\<rparr>"

text \<open>
  Trust on first use, for every host that is not pinned and has no trusted key, whether created in
  the web form or over the API: the first non-empty key presented is trusted without an operator,
  and afterwards exactly that key is let through.\<close>

theorem first_use_trusts:
  assumes "get_host d i = Inr h" "\<not> pinned_mode h" "trim_space (h_trusted h) = []" "trim_space fp \<noteq> []"
  shows "hk_allow (fst (verify_host_key u t h fp d)) \<and>
     (\<exists>h'. get_host (snd (verify_host_key u t h fp d)) i = Inr h' \<and>
        (\<forall>fp' u' t' d'. hk_allow (fst (verify_host_key u' t' h' fp' d')) = (trim_space fp' = trim_space fp)))"
proof -
  obtain r where r: "host_row i d = Some r" "h = read_host d r" using get_host_row [OF assms(1)] by blast
  have id: "h_id h = i" using lookup_row_Some [OF r(1)] r(2) by simp
  have allow: "hk_allow (fst (verify_host_key u t h fp d))" using assms(2-4) by (simp add: verify_allow_iff)
  let ?r = "r\<lparr>h_trusted := trim_space fp, h_pending := [], h_verified_at := Some t\<rparr>"
  let ?d = "snd (verify_host_key u t h fp d)"
  have "host_row i ?d = Some ?r" using r(1) id allow assms(3,4) by (simp add: verify_row)
  then have "get_host ?d i = Inr (read_host ?d ?r)" by (simp add: get_host_def)
  moreover have "\<not> pinned_mode (read_host ?d ?r)"
  proof -
    have "\<not> pinned_mode r" using assms(2) r(2) by simp
    then have "\<not> pinned_mode ?r" by (simp add: pinned_mode_def)
    then show ?thesis by simp
  qed
  moreover have "trim_space (h_trusted (read_host ?d ?r)) = trim_space fp" by simp
  ultimately show ?thesis using allow assms(4) by (auto simp: verify_allow_iff)
qed

theorem first_use_trusts_witness:
  "\<exists>h. get_host (tofu_db []) ''a'' = Inr h \<and> hk_allow (fst (verify_host_key ''u'' 5 h ''SHA256:x'' (tofu_db [])))"
proof -
  have "\<exists>h. get_host (tofu_db []) ''a'' = Inr h \<and> h_trust_mode h = ''tofu'' \<and> h_trusted h = []"
    by (simp add: get_host_def tofu_db_def lookup_row_def sample_host_def read_host_def)
  then obtain h where h: "get_host (tofu_db []) ''a'' = Inr h" "h_trust_mode h = ''tofu''" "h_trusted h = []" by blast
  have "to_lower (trim_space ''tofu'') \<noteq> ''pinned''" "trim_space ''SHA256:x'' \<noteq> []" by code_simp+
  with first_use_trusts [OF h(1), of "''SHA256:x''" "''u''" 5] h show ?thesis by (simp add: pinned_mode_def)
qed

text \<open>
  The client fails closed: without a verifier every connection is refused, and with one it succeeds
  exactly when the verifier allows the key; a refusal names the host and carries a message.\<close>

theorem callback_fails_closed:
  "fst (verifying_host_key_callback None h fp s) \<noteq> None \<and>
   (fst (verifying_host_key_callback (Some v) h fp s) = None) = hk_allow (fst (v h fp s)) \<and>
   (case fst (verifying_host_key_callback (Some v) h fp s) of
      None \<Rightarrow> True | Some e \<Rightarrow> e \<noteq> NoVerifier \<and> hke_id e = h_id h \<and> hke_message e \<noteq> [])"
  by (simp add: verifying_host_key_callback_def Let_def split: prod.split)

end
