(* ===== verification/Digest.thy ===== *)
theory Digest
  imports GoStrings "HOL-Library.List_Lexorder" "HOL-Library.Product_Lexorder"
begin

text \<open>
  \<open>internal/notify/digest.go\<close>, first half: what one message about several hosts says. \<open>sort.Slice\<close>
  does not fix the order of hosts that compare equal; the model sorts stably.
\<close>

section \<open>The digest\<close>

record pending_host =
  ph_name :: string
  ph_packages :: int
  ph_security :: int
  ph_new :: bool
  ph_reboot :: bool
  ph_restarts :: int

record applied_host =
  ah_name :: string
  ah_changed :: int
  ah_reboot :: bool
  ah_interrupted :: bool

record failed_host =
  fh_name :: string
  fh_phase :: string
  fh_err :: string

record digest =
  dg_pending :: "pending_host list"
  dg_applied :: "applied_host list"
  dg_failed :: "failed_host list"
  dg_up_to_date :: int
  dg_scheduled :: bool
  dg_job :: string

definition empty_digest :: digest where
  "empty_digest = \<lparr>dg_pending = [], dg_applied = [], dg_failed = [], dg_up_to_date = 0,
     dg_scheduled = False, dg_job = []\<rparr>"

definition add_applied :: "applied_host \<Rightarrow> digest \<Rightarrow> digest" where
  "add_applied h d =
     (let d1 = d\<lparr>dg_pending := filter (\<lambda>p. ph_name p \<noteq> ah_name h) (dg_pending d)\<rparr> in
      if ah_changed h = 0 \<and> \<not> ah_interrupted h then d1\<lparr>dg_up_to_date := dg_up_to_date d1 + 1\<rparr>
      else d1\<lparr>dg_applied := dg_applied d1 @ [h]\<rparr>)"

definition notable :: "digest \<Rightarrow> bool" where
  "notable d \<longleftrightarrow>
     (if length (dg_applied d) > 0 \<or> length (dg_failed d) > 0 then True
      else list_ex ph_new (dg_pending d))"

definition digest_total :: "digest \<Rightarrow> int" where
  "digest_total d =
     int (length (dg_pending d)) + int (length (dg_applied d)) + int (length (dg_failed d)) + dg_up_to_date d"

definition digest_empty :: "digest \<Rightarrow> bool" where
  "digest_empty d \<longleftrightarrow>
     int (length (dg_pending d)) + int (length (dg_applied d)) + int (length (dg_failed d)) + dg_up_to_date d = 0"

definition plural :: "int \<Rightarrow> string \<Rightarrow> string \<Rightarrow> string" where
  "plural n one many = (if n = 1 then ''1 '' @ one else itoa n @ '' '' @ many)"

section \<open>The summary\<close>

definition dot_sep :: string where
  "dot_sep = '' '' @ middle_dot @ '' ''"

definition pending_part :: "digest \<Rightarrow> string list" where
  "pending_part d =
     (let n = length (dg_pending d) in
      if n > 0 then
        (let pkgs = sum_list (map ph_packages (dg_pending d));
             sec = sum_list (map ph_security (dg_pending d));
             who = (if dg_scheduled d
                    then itoan n @ '' of '' @ itoa (digest_total d) @ '' hosts need updates''
                    else if n = 1 then ph_name (hd (dg_pending d)) @ '' needs updates''
                    else itoan n @ '' hosts need updates'');
             detail = plural pkgs ''package'' ''packages'';
             detail = (if sec > 0 then detail @ '', '' @ itoa sec @ '' security'' else detail)
         in [who @ '' ('' @ detail @ '')''])
      else [])"

definition applied_part :: "digest \<Rightarrow> string list" where
  "applied_part d =
     (let n = length (dg_applied d) in
      if n > 0 then
        (let changed = sum_list (map ah_changed (dg_applied d));
             who = (if n = 1 then ''updated '' @ ah_name (hd (dg_applied d))
                    else ''updated '' @ itoan n @ '' hosts'')
         in [who @ '' ('' @ plural changed ''package'' ''packages'' @ '')''])
      else [])"

definition reboot_count :: "digest \<Rightarrow> nat" where
  "reboot_count d = length (filter ah_reboot (dg_applied d)) + length (filter ph_reboot (dg_pending d))"

definition summary_parts :: "digest \<Rightarrow> string list" where
  "summary_parts d =
     pending_part d @ applied_part d @
     (if reboot_count d > 0
      then [plural (int (reboot_count d)) ''needs a reboot'' ''need a reboot''] else []) @
     (if length (dg_failed d) > 0 then [itoan (length (dg_failed d)) @ '' failed''] else [])"

fun capitalise :: "string list \<Rightarrow> string \<Rightarrow> string" where
  "capitalise [] s = s"
| "capitalise (w # ws) s =
     (if has_prefix s w then to_upper (take 1 s) @ drop 1 s else capitalise ws s)"

definition summary :: "digest \<Rightarrow> string" where
  "summary d =
     (let parts = summary_parts d;
          parts = (if length parts = 0 then
                     (if dg_scheduled d then
                        (if digest_total d = 1 then [''1 host up to date'']
                         else [''all '' @ itoa (digest_total d) @ '' hosts up to date''])
                      else [''nothing to report''])
                   else parts)
      in capitalise [''updated '', ''all '', ''nothing ''] (join dot_sep parts))"

definition digest_title :: "digest \<Rightarrow> string" where
  "digest_title d = ''Patchdeck: '' @ summary d"

section \<open>The body\<close>

definition max_body :: nat where
  "max_body = 3500"

definition short_err :: "string \<Rightarrow> string" where
  "short_err s =
     (let s = trim_space s;
          s = (case index_of s [NL] of None \<Rightarrow> s | Some i \<Rightarrow> trim_space (take i s));
          r = runes s
      in if length r > 140 then concat (take 139 r) @ ellipsis else s)"

definition failed_line :: "failed_host \<Rightarrow> string" where
  "failed_line h =
     (let line = ''- '' @ fh_name h @ '': '' @ fh_phase h @ '' failed'';
          e = short_err (fh_err h)
      in if e \<noteq> [] then line @ '' ('' @ e @ '')'' else line)"

definition applied_line :: "applied_host \<Rightarrow> string" where
  "applied_line h =
     ''- '' @ ah_name h @ '': '' @ plural (ah_changed h) ''package'' ''packages'' @
     (if ah_interrupted h then dot_sep @ ''connection lost mid-apply (likely restarting)'' else []) @
     (if ah_reboot h then dot_sep @ ''reboot needed'' else [])"

definition pending_line :: "bool \<Rightarrow> pending_host \<Rightarrow> string" where
  "pending_line scheduled h =
     ''- '' @ ph_name h @ '': '' @ plural (ph_packages h) ''update'' ''updates'' @
     (if ph_security h > 0 then '' ('' @ itoa (ph_security h) @ '' security)'' else []) @
     (if ph_reboot h then dot_sep @ ''reboot needed''
      else if ph_restarts h > 0 then dot_sep @ plural (ph_restarts h) ''service'' ''services'' @ '' to restart''
      else []) @
     (if ph_new h \<and> scheduled then dot_sep @ ''new'' else [])"

definition body_lines :: "digest \<Rightarrow> string list" where
  "body_lines d =
     (if length (dg_failed d) > 0
      then ''Failed:'' # map failed_line (sort_key fh_name (dg_failed d)) else []) @
     (if length (dg_applied d) > 0
      then ''Updated:'' # map applied_line (sort_key (\<lambda>h. (- ah_changed h, ah_name h)) (dg_applied d)) else []) @
     (if length (dg_pending d) > 0
      then ''Needs updates:'' # map (pending_line (dg_scheduled d))
             (sort_key (\<lambda>h. (- ph_packages h, ph_name h)) (dg_pending d)) else []) @
     (if dg_up_to_date d > 0 then [''Up to date: '' @ plural (dg_up_to_date d) ''host'' ''hosts''] else []) @
     (if dg_scheduled d \<and> trim_space (dg_job d) \<noteq> [] then [''Schedule: '' @ dg_job d] else [])"

text \<open>
  The builder loop: \<open>b\<close> is what was written, \<open>i\<close> the index of the next line, \<open>n\<close> the number of lines.
\<close>

definition more_lines :: "nat \<Rightarrow> string" where
  "more_lines k = ellipsis @ '' '' @ itoan k @ '' more lines''"

fun write_lines :: "string \<Rightarrow> nat \<Rightarrow> nat \<Rightarrow> string list \<Rightarrow> string" where
  "write_lines b i n [] = b"
| "write_lines b i n (l # ls) =
     (if length b + length l + 1 > max_body then b @ more_lines (n - i)
      else write_lines ((if i > 0 then b @ [NL] else b) @ l) (i + 1) n ls)"

definition digest_body :: "digest \<Rightarrow> string" where
  "digest_body d = write_lines [] 0 (length (body_lines d)) (body_lines d)"

section \<open>Facts\<close>

lemma add_applied_not_pending: "ah_name h \<notin> ph_name ` set (dg_pending (add_applied h d))"
  by (auto simp: add_applied_def Let_def)

lemma add_applied_total:
  "digest_total (add_applied h d) =
     digest_total d + 1 - int (length (filter (\<lambda>p. ph_name p = ah_name h) (dg_pending d)))"
proof -
  have "int (length (dg_pending d)) = int (length (filter (\<lambda>p. ph_name p \<noteq> ah_name h) (dg_pending d))) +
      int (length (filter (\<lambda>p. ph_name p = ah_name h) (dg_pending d)))"
    using sum_length_filter_compl [of "\<lambda>p. ph_name p \<noteq> ah_name h" "dg_pending d"] by simp
  then show ?thesis by (simp add: add_applied_def digest_total_def Let_def)
qed

text \<open>What is written after \<open>k\<close> lines, and the shape of every body.\<close>

lemma join_snoc: "xs \<noteq> [] \<Longrightarrow> join sep (xs @ [y]) = join sep xs @ sep @ y"
proof (induction xs)
  case (Cons x xs)
  then show ?case by (cases xs) auto
qed simp

lemma write_lines_shape:
  assumes "b = join [NL] pre" "i = length pre" "n = length pre + length ls" "length b \<le> max_body"
  shows "(\<exists>k < length ls. write_lines b i n ls =
            join [NL] (pre @ take k ls) @ more_lines (length ls - k) \<and>
            length (join [NL] (pre @ take k ls)) \<le> max_body) \<or>
         write_lines b i n ls = join [NL] (pre @ ls) \<and> length (join [NL] (pre @ ls)) \<le> max_body"
  using assms
proof (induction ls arbitrary: b i pre)
  case Nil
  then show ?case by simp
next
  case (Cons l ls)
  show ?case
  proof (cases "length b + length l + 1 > max_body")
    case True
    with Cons.prems show ?thesis by (intro disjI1 exI [of _ 0]) simp
  next
    case False
    let ?b = "(if i > 0 then b @ [NL] else b) @ l"
    have b: "?b = join [NL] (pre @ [l])"
      using Cons.prems(1,2) by (cases "pre = []") (auto simp: join_snoc)
    have len: "length ?b \<le> max_body" using False by auto
    have "(\<exists>k < length ls. write_lines ?b (i + 1) n ls =
            join [NL] ((pre @ [l]) @ take k ls) @ more_lines (length ls - k) \<and>
            length (join [NL] ((pre @ [l]) @ take k ls)) \<le> max_body) \<or>
         write_lines ?b (i + 1) n ls = join [NL] ((pre @ [l]) @ ls) \<and>
         length (join [NL] ((pre @ [l]) @ ls)) \<le> max_body"
      by (rule Cons.IH [OF b]) (use Cons.prems len in auto)
    then show ?thesis
    proof
      assume "\<exists>k < length ls. write_lines ?b (i + 1) n ls =
            join [NL] ((pre @ [l]) @ take k ls) @ more_lines (length ls - k) \<and>
            length (join [NL] ((pre @ [l]) @ take k ls)) \<le> max_body"
      then obtain k where "k < length ls" "write_lines ?b (i + 1) n ls =
            join [NL] ((pre @ [l]) @ take k ls) @ more_lines (length ls - k)"
          "length (join [NL] ((pre @ [l]) @ take k ls)) \<le> max_body" by blast
      then show ?thesis using False
        by (intro disjI1 exI [of _ "Suc k"]) (simp only: write_lines.simps if_False, simp)
    qed (use False in \<open>simp only: write_lines.simps if_False, simp\<close>)
  qed
qed

lemma length_body_lines:
  "length (body_lines d) \<le> length (dg_failed d) + length (dg_applied d) + length (dg_pending d) + 5"
  by (simp add: body_lines_def)

section \<open>Properties\<close>

text \<open>
  The body shows a prefix of its lines, most urgent first: either all of them, or the first \<open>k\<close>
  followed, on the same line as the last of them, by how many were left out; what is shown fits the
  limit, so a body never exceeds it by more than the trailer.\<close>

theorem digest_body_shape:
  fixes d defines "ls \<equiv> body_lines d"
  shows "(\<exists>k < length ls. digest_body d = join [NL] (take k ls) @ more_lines (length ls - k) \<and>
            length (join [NL] (take k ls)) \<le> max_body) \<or>
         digest_body d = join [NL] ls \<and> length (join [NL] ls) \<le> max_body"
  using write_lines_shape [of "[]" "[]" 0 "length ls" ls]
  by (simp add: digest_body_def ls_def max_body_def)

text \<open>
  The message fits the smallest limit among the destinations (4096 bytes), for any fleet of fewer
  than a thousand billion hosts.\<close>

theorem digest_body_bound:
  assumes "length (dg_failed d) + length (dg_applied d) + length (dg_pending d) < 10 ^ 12"
  shows "length (digest_body d) \<le> 4096"
proof -
  have t: "length (more_lines k) \<le> 40" if "k \<le> length (body_lines d)" for k
  proof -
    have "k < 10 ^ 13" using that length_body_lines [of d] assms by simp
    then have "length (digits k) \<le> 13" by (intro length_digits) simp_all
    then show ?thesis by (simp add: more_lines_def itoa_def ellipsis_def)
  qed
  from digest_body_shape [of d] show ?thesis
  proof
    assume "\<exists>k < length (body_lines d).
        digest_body d = join [NL] (take k (body_lines d)) @ more_lines (length (body_lines d) - k) \<and>
        length (join [NL] (take k (body_lines d))) \<le> max_body"
    then obtain k where k: "digest_body d = join [NL] (take k (body_lines d)) @ more_lines (length (body_lines d) - k)"
      "length (join [NL] (take k (body_lines d))) \<le> max_body" by blast
    have "length (more_lines (length (body_lines d) - k)) \<le> 40" by (rule t) simp
    with k show ?thesis by (simp add: max_body_def)
  next
    assume "digest_body d = join [NL] (body_lines d) \<and> length (join [NL] (body_lines d)) \<le> max_body"
    then show ?thesis by (simp add: max_body_def)
  qed
qed

theorem digest_body_bound_witness:
  "length (digest_body (empty_digest\<lparr>dg_failed := [\<lparr>fh_name = ''web'', fh_phase = ''scan'', fh_err = ''timeout''\<rparr>]\<rparr>)) \<le> 4096"
  by (rule digest_body_bound) (simp add: empty_digest_def)

text \<open>
  Recording an apply moves the host out of the pending list, so no host is reported both as updated
  and as needing updates, and a digest with an apply that changed something is worth sending.\<close>

theorem add_applied_effect:
  "ah_name h \<notin> ph_name ` set (dg_pending (add_applied h d)) \<and>
   digest_total (add_applied h d) =
     digest_total d + 1 - int (length (filter (\<lambda>p. ph_name p = ah_name h) (dg_pending d))) \<and>
   (if ah_changed h = 0 \<and> \<not> ah_interrupted h then dg_applied (add_applied h d) = dg_applied d
    else dg_applied (add_applied h d) = dg_applied d @ [h] \<and> notable (add_applied h d))"
  using add_applied_not_pending add_applied_total
  by (simp add: add_applied_def notable_def Let_def)

end
