(* ===== verification/Coalescer.thy ===== *)
theory Coalescer
  imports Digest Machine
begin

text \<open>
  The coalescer of \<open>internal/notify/digest.go\<close>: dashboard events gathered into one digest until
  nothing new has arrived for \<open>quiet\<close>, or \<open>maxHold\<close> after the first. The mutex makes \<open>Add\<close> and the
  critical section of \<open>fire\<close> atomic, so they are steps. A timer that expires starts a goroutine that
  runs \<open>fire\<close> later: \<open>co_firing\<close> holds the generations of the goroutines that have not run yet, and
  stopping a timer that has already expired does not stop its goroutine. What was handed to \<open>flush\<close>
  is the list \<open>co_flushed\<close>.
\<close>

record coalescer =
  co_quiet :: int
  co_max_hold :: int
  co_cur :: "digest option"
  co_first :: int
  co_gen :: nat
  co_timer :: "(int \<times> nat) option"
  co_firing :: "nat list"
  co_flushed :: "digest list"

definition new_coalescer :: "int \<Rightarrow> int \<Rightarrow> coalescer" where
  "new_coalescer quiet max_hold =
     \<lparr>co_quiet = quiet, co_max_hold = max_hold, co_cur = None, co_first = 0, co_gen = 0,
      co_timer = None, co_firing = [], co_flushed = []\<rparr>"

definition coalescer_add :: "int \<Rightarrow> (digest \<Rightarrow> digest) \<Rightarrow> coalescer \<Rightarrow> coalescer" where
  "coalescer_add now add c =
     (let c1 = (if co_cur c = None then c\<lparr>co_cur := Some empty_digest, co_first := now\<rparr> else c);
          c2 = c1\<lparr>co_cur := map_option add (co_cur c1)\<rparr>;
          rem = co_max_hold c2 - (now - co_first c2);
          wait = (if rem < co_quiet c2 then rem else co_quiet c2);
          wait = (if wait < 0 then 0 else wait);
          gen = co_gen c2 + 1
      in c2\<lparr>co_gen := gen, co_timer := Some (now + wait, gen)\<rparr>)"

definition coalescer_expire :: "int \<Rightarrow> coalescer \<Rightarrow> coalescer" where
  "coalescer_expire now c =
     (case co_timer c of
        None \<Rightarrow> c
      | Some (due, gen) \<Rightarrow>
          if due \<le> now then c\<lparr>co_timer := None, co_firing := co_firing c @ [gen]\<rparr> else c)"

definition coalescer_fire :: "nat \<Rightarrow> coalescer \<Rightarrow> coalescer" where
  "coalescer_fire gen c =
     (if gen \<notin> set (co_firing c) then c
      else
        (let c1 = c\<lparr>co_firing := remove1 gen (co_firing c)\<rparr> in
         case co_cur c1 of
           None \<Rightarrow> c1
         | Some d \<Rightarrow>
             if gen \<noteq> co_gen c1 then c1
             else c1\<lparr>co_cur := None, co_timer := None, co_flushed := co_flushed c1 @ [d]\<rparr>))"

section \<open>Runs\<close>

datatype coalescer_op = Add "digest \<Rightarrow> digest" | Expire | Fire nat

fun coalescer_step :: "int \<Rightarrow> coalescer_op \<Rightarrow> coalescer \<Rightarrow> coalescer" where
  "coalescer_step now (Add f) c = coalescer_add now f c"
| "coalescer_step now Expire c = coalescer_expire now c"
| "coalescer_step now (Fire g) c = coalescer_fire g c"

definition digest_of :: "(digest \<Rightarrow> digest) list \<Rightarrow> digest" where
  "digest_of fs = foldl (\<lambda>d f. f d) empty_digest fs"

fun added :: "(int \<times> coalescer_op) list \<Rightarrow> (digest \<Rightarrow> digest) list" where
  "added [] = []"
| "added ((t, Add f) # es) = f # added es"
| "added ((t, _) # es) = added es"

text \<open>The events so far are split into the batches sent and the one being gathered.\<close>

definition batches_ok :: "(digest \<Rightarrow> digest) list \<Rightarrow> coalescer \<Rightarrow> bool" where
  "batches_ok fs c \<longleftrightarrow> (\<exists>bs cur. concat bs @ cur = fs \<and> [] \<notin> set bs \<and>
     co_flushed c = map digest_of bs \<and>
     co_cur c = (if cur = [] then None else Some (digest_of cur)))"

definition timer_ok :: "int \<Rightarrow> coalescer \<Rightarrow> bool" where
  "timer_ok now c \<longleftrightarrow>
     (\<forall>due gen. co_timer c = Some (due, gen) \<longrightarrow> gen = co_gen c \<and> co_cur c \<noteq> None \<and>
        due \<le> max (co_first c + co_max_hold c) now \<and> due \<le> max (now + co_quiet c) now) \<and>
     (co_cur c \<noteq> None \<longrightarrow> co_timer c \<noteq> None \<or> co_gen c \<in> set (co_firing c)) \<and>
     (\<forall>g \<in> set (co_firing c). g \<le> co_gen c) \<and> distinct (co_firing c) \<and>
     (co_timer c \<noteq> None \<longrightarrow> co_gen c \<notin> set (co_firing c))"

lemma digest_of_snoc [simp]: "digest_of (fs @ [f]) = f (digest_of fs)"
  by (simp add: digest_of_def)

lemma digest_of_Nil [simp]: "digest_of [] = empty_digest"
  by (simp add: digest_of_def)

lemma batches_add: "batches_ok fs c \<Longrightarrow> batches_ok (fs @ [f]) (coalescer_add now f c)"
proof -
  assume "batches_ok fs c"
  then obtain bs cur where b: "concat bs @ cur = fs" "[] \<notin> set bs" "co_flushed c = map digest_of bs"
    "co_cur c = (if cur = [] then None else Some (digest_of cur))"
    by (auto simp: batches_ok_def)
  have "co_cur (coalescer_add now f c) = Some (digest_of (cur @ [f]))"
    using b(4) by (simp add: coalescer_add_def Let_def)
  moreover have "co_flushed (coalescer_add now f c) = co_flushed c"
    by (simp add: coalescer_add_def Let_def)
  ultimately show ?thesis using b(1-3)
    unfolding batches_ok_def by (intro exI [of _ bs] exI [of _ "cur @ [f]"]) auto
qed

lemma batches_expire: "batches_ok fs c \<Longrightarrow> batches_ok fs (coalescer_expire now c)"
proof -
  assume ok: "batches_ok fs c"
  have "co_flushed (coalescer_expire now c) = co_flushed c" "co_cur (coalescer_expire now c) = co_cur c"
    by (simp_all add: coalescer_expire_def split: option.split)
  with ok show ?thesis by (simp add: batches_ok_def)
qed

lemma batches_fire: "batches_ok fs c \<Longrightarrow> batches_ok fs (coalescer_fire g c)"
proof -
  assume ok: "batches_ok fs c"
  then obtain bs cur where b: "concat bs @ cur = fs" "[] \<notin> set bs" "co_flushed c = map digest_of bs"
    "co_cur c = (if cur = [] then None else Some (digest_of cur))"
    by (auto simp: batches_ok_def)
  show ?thesis
  proof (cases "g \<in> set (co_firing c) \<and> g = co_gen c \<and> cur \<noteq> []")
    case True
    then have "co_flushed (coalescer_fire g c) = map digest_of (bs @ [cur])"
      "co_cur (coalescer_fire g c) = None"
      using b by (auto simp: coalescer_fire_def Let_def)
    then show ?thesis using b True
      unfolding batches_ok_def by (intro exI [of _ "bs @ [cur]"] exI [of _ "[]"]) auto
  next
    case False
    then have "co_flushed (coalescer_fire g c) = co_flushed c" "co_cur (coalescer_fire g c) = co_cur c"
      using b by (auto simp: coalescer_fire_def Let_def)
    with ok show ?thesis by (simp add: batches_ok_def)
  qed
qed

lemma batches_run:
  "batches_ok fs c \<Longrightarrow> batches_ok (fs @ added es) (trun coalescer_step es c)"
proof (induction es arbitrary: fs c)
  case (Cons e es)
  obtain t x where e: "e = (t, x)" by (cases e)
  show ?case
  proof (cases x)
    case (Add f)
    then show ?thesis using Cons.IH [OF batches_add [OF Cons.prems, of f t]] by (simp add: e)
  next
    case Expire
    then show ?thesis using Cons.IH [OF batches_expire [OF Cons.prems, of t]] by (simp add: e)
  next
    case (Fire g)
    then show ?thesis using Cons.IH [OF batches_fire [OF Cons.prems, of g]] by (simp add: e)
  qed
qed simp

lemma timer_later:
  assumes "timer_ok t0 c" "t0 \<le> t" shows "timer_ok t c"
  using assms by (fastforce simp: timer_ok_def max_def split: if_splits)

lemma timer_add:
  assumes "timer_ok t c"
  shows "timer_ok t (coalescer_add t f c)"
proof -
  have "co_gen c + 1 \<notin> set (co_firing c)" using assms by (fastforce simp: timer_ok_def)
  with assms show ?thesis
    by (auto simp: timer_ok_def coalescer_add_def Let_def max_def)
qed

lemma timer_expire: "timer_ok t c \<Longrightarrow> timer_ok t (coalescer_expire t c)"
  by (auto simp: timer_ok_def coalescer_expire_def split: option.split)

lemma timer_fire: "timer_ok t c \<Longrightarrow> timer_ok t (coalescer_fire g c)"
proof (cases "g \<in> set (co_firing c)")
  case True
  then show "timer_ok t c \<Longrightarrow> ?thesis"
    by (cases "co_cur c") (auto simp: timer_ok_def coalescer_fire_def Let_def dest: notin_set_remove1)
qed (simp add: coalescer_fire_def)

lemma timer_step:
  assumes "timer_ok t0 c" "t0 \<le> t" shows "timer_ok t (coalescer_step t e c)"
  using timer_later [OF assms]
  by (cases e) (simp_all add: timer_add timer_expire timer_fire)

interpretation coalescing: timed_machine coalescer_step timer_ok
  by unfold_locales (rule timer_step)

lemma step_params:
  "co_quiet (coalescer_step t e c) = co_quiet c" "co_max_hold (coalescer_step t e c) = co_max_hold c"
  by (cases e; simp add: coalescer_add_def coalescer_expire_def coalescer_fire_def Let_def split: option.split)+

section \<open>Properties\<close>

text \<open>C21
  Every event is reported exactly once: over any run of adds, timer expiries and goroutines in any
  order, the digests sent and the one being gathered are, in order, the events added, cut into
  consecutive non-empty batches.\<close>

theorem coalescer_exactly_once:
  "\<exists>bs cur. concat bs @ cur = added es \<and> [] \<notin> set bs \<and>
     co_flushed (trun coalescer_step es (new_coalescer quiet hold)) = map digest_of bs \<and>
     co_cur (trun coalescer_step es (new_coalescer quiet hold)) =
       (if cur = [] then None else Some (digest_of cur))"
proof -
  have "batches_ok [] (new_coalescer quiet hold)"
    unfolding batches_ok_def by (intro exI [of _ "[]"]) (simp add: new_coalescer_def)
  from batches_run [OF this, of es] show ?thesis by (simp add: batches_ok_def)
qed

text \<open>
  A batch is never stranded: at any time in any time-ordered run a batch being gathered has a timer
  of the current generation, due by the hold limit after its first event, or a goroutine of that
  generation about to run; and that goroutine sends the batch.\<close>

theorem coalescer_never_stuck:
  assumes "sorted (t0 # map fst es)" "c = trun coalescer_step es (new_coalescer quiet hold)"
    and "co_cur c = Some d" "t = last (t0 # map fst es)"
  shows "((\<exists>due. co_timer c = Some (due, co_gen c) \<and> due \<le> max (co_first c + co_max_hold c) t) \<or>
          co_gen c \<in> set (co_firing c)) \<and>
     co_flushed (coalescer_fire (co_gen c) (c\<lparr>co_firing := [co_gen c]\<rparr>)) = co_flushed c @ [d]"
proof -
  have "timer_ok t0 (new_coalescer quiet hold)" by (simp add: timer_ok_def new_coalescer_def)
  from coalescing.trun_inv [OF this assms(1)] have "timer_ok t c" using assms(2,4) by simp
  then show ?thesis
    using assms(3) by (cases "co_timer c") (auto simp: timer_ok_def coalescer_fire_def Let_def)
qed

theorem coalescer_never_stuck_witness:
  "(\<exists>due. co_timer (trun coalescer_step [(5, Add (add_applied \<lparr>ah_name = ''web'', ah_changed = 1, ah_reboot = False,
       ah_interrupted = False\<rparr>))] (new_coalescer 60 300)) = Some (due, 1)) \<or>
   1 \<in> set (co_firing (trun coalescer_step [(5, Add (add_applied \<lparr>ah_name = ''web'', ah_changed = 1, ah_reboot = False,
       ah_interrupted = False\<rparr>))] (new_coalescer 60 300)))"
proof -
  let ?f = "add_applied \<lparr>ah_name = ''web'', ah_changed = 1, ah_reboot = False, ah_interrupted = False\<rparr>"
  let ?c = "trun coalescer_step [(5, Add ?f)] (new_coalescer 60 300)"
  have c: "co_cur ?c = Some (?f empty_digest)" "co_gen ?c = 1"
    by (simp_all add: coalescer_add_def new_coalescer_def Let_def)
  have "sorted (0 # map fst [(5::int, Add ?f)])" by simp
  from coalescer_never_stuck [OF this refl c(1) refl] c(2) show ?thesis by auto
qed

end
