(* ===== verification/Shell.thy ===== *)
theory Shell
  imports GoStrings RestartPolicy
begin

text \<open>
  The shell commands \<open>internal/sshx/client.go\<close> sends to a host and how it gets root for them. The
  host is a parameter: \<open>run w cmd stdin\<close> executes a command in the world \<open>w\<close> and returns the new
  world, the trimmed standard output and an error (\<open>Client.runWithStdin\<close>). Errors keep the three
  distinctions the callers make: a host-key refusal, a lost connection, anything else.

  The quoting is checked against a reader of the POSIX shell's words: blanks separate words, single
  quotes are literal, double quotes are literal as long as they hold no \<open>$\<close>, backquote or backslash.
\<close>

section \<open>Errors\<close>

datatype ssh_err =
    PlainErr string
  | HostKeyErr string string string string string
  | ConnLost string

definition conn_lost_text :: string where
  "conn_lost_text = ''ssh connection lost mid-command''"

fun err_text :: "ssh_err \<Rightarrow> string" where
  "err_text (PlainErr m) = m"
| "err_text (HostKeyErr i n m ex pr) = m"
| "err_text (ConnLost m) = conn_lost_text @ '': '' @ m"

fun is_host_key_err :: "ssh_err option \<Rightarrow> bool" where
  "is_host_key_err (Some (HostKeyErr _ _ _ _ _)) = True"
| "is_host_key_err _ = False"

fun is_conn_lost :: "ssh_err option \<Rightarrow> bool" where
  "is_conn_lost (Some (ConnLost _)) = True"
| "is_conn_lost _ = False"

text \<open>
  How a failed run becomes an error: the last lines of standard error, else of standard output, else
  the transport's own text; \<open>lost\<close> is \<open>isConnectionLost\<close> of the transport error.
\<close>

definition last_lines :: "string \<Rightarrow> nat \<Rightarrow> string" where
  "last_lines s n =
     (let s = trim_space s in
      if s = [] then []
      else
        (let lines = split_on NL s;
             start = (if length lines > n then length lines - n else 0)
         in trim_space (join '' | '' (drop start lines))))"

definition run_error :: "string \<Rightarrow> string \<Rightarrow> string \<Rightarrow> bool \<Rightarrow> ssh_err" where
  "run_error stderr out raw lost =
     (let built = (if last_lines stderr 3 \<noteq> [] then last_lines stderr 3
                   else if last_lines out 3 \<noteq> [] then last_lines out 3 else raw)
      in if lost then ConnLost built else PlainErr built)"

text \<open>\<open>isConnectionLost\<close>: the kinds of transport error the SSH library distinguishes, then the text.\<close>

datatype transport_err = ExitStatus string | ExitMissing string | EofErr string | OtherErr string

fun transport_text :: "transport_err \<Rightarrow> string" where
  "transport_text (ExitStatus m) = m"
| "transport_text (ExitMissing m) = m"
| "transport_text (EofErr m) = m"
| "transport_text (OtherErr m) = m"

definition is_connection_lost :: "transport_err option \<Rightarrow> bool" where
  "is_connection_lost err =
     (case err of
        None \<Rightarrow> False
      | Some (ExitStatus _) \<Rightarrow> False
      | Some (ExitMissing _) \<Rightarrow> True
      | Some (EofErr _) \<Rightarrow> True
      | Some e \<Rightarrow>
          list_ex (\<lambda>s. contains (transport_text e) s)
            [''remote command exited without'', ''use of closed network connection'',
             ''connection reset'', ''broken pipe'', ''connection lost'', ''unexpected EOF'', ''EOF''])"

section \<open>Friendly errors\<close>

definition friendly_ssh_error :: "string option \<Rightarrow> string" where
  "friendly_ssh_error err =
     (case err of
        None \<Rightarrow> []
      | Some msg \<Rightarrow>
          if contains msg ''connection refused'' then
            ''Connection refused '' @ em_dash @ '' verify host address and SSH port''
          else if contains msg ''no route to host'' then
            ''Host unreachable '' @ em_dash @ '' check network connectivity''
          else if contains msg ''i/o timeout'' then
            ''Connection timed out '' @ em_dash @ '' host may be offline or firewalled''
          else if contains msg ''unable to authenticate'' \<or> contains msg ''no supported methods remain'' \<or>
                  contains msg ''permission denied'' then
            ''SSH authentication failed '' @ em_dash @ '' check credentials''
          else if contains msg ''handshake failed'' then
            ''SSH handshake failed '' @ em_dash @ '' host may have incompatible SSH configuration''
          else if contains msg ''no such host'' \<or> contains msg ''lookup'' then
            ''Host not found '' @ em_dash @ '' check the hostname or IP address''
          else if contains msg ''connection reset'' then
            ''Connection reset by host '' @ em_dash @ '' the remote server closed the connection''
          else ''SSH error: '' @ msg)"

section \<open>Quoting\<close>

definition squote :: char where
  "squote = CHR 0x27"

definition dquote :: char where
  "dquote = CHR 0x22"

definition shell_single_quote :: "string \<Rightarrow> string" where
  "shell_single_quote s =
     (if s = [] then [squote, squote]
      else [squote] @ replace_char squote [squote, dquote, squote, dquote, squote] s @ [squote])"

definition run_as_root_command :: "string \<Rightarrow> string" where
  "run_as_root_command command = ''sh -lc '' @ shell_single_quote command"

definition su_command :: "string \<Rightarrow> string" where
  "su_command cmd = ''su -c '' @ shell_single_quote cmd @ '' root''"

definition probe_script :: string where
  "probe_script = ''if [ '' @ [dquote] @ ''$(id -u)'' @ [dquote] @
     '' = 0 ]; then echo __PD_ROOT__; elif sudo -n true 2>/dev/null; then echo __PD_SUDO__; else echo __PD_NOSUDO__; fi''"

definition escalation_probe :: string where
  "escalation_probe = ''sh -c '' @ shell_single_quote probe_script"

definition sudo_password_prefix :: string where
  "sudo_password_prefix = ''sudo -S -p '' @ [squote, squote] @ '' ''"

section \<open>The words of a shell command\<close>

datatype quote_state = Bare | Single | Double

text \<open>
  \<open>words q w cs\<close> reads \<open>cs\<close> in state \<open>q\<close>; \<open>w\<close> is the word being read, \<open>None\<close> between words. \<open>None\<close>
  as a result means the command uses syntax outside the fragment, or ends inside a quote.
\<close>

definition shell_special :: "char \<Rightarrow> bool" where
  "shell_special c \<longleftrightarrow> c \<in> set (''$`;&|<>()*?[#~!'' @ [CHR 0x5C, NL])"

fun words :: "quote_state \<Rightarrow> string option \<Rightarrow> string \<Rightarrow> string list option" where
  "words Bare w [] = Some (case w of None \<Rightarrow> [] | Some x \<Rightarrow> [x])"
| "words Single w [] = None"
| "words Double w [] = None"
| "words Bare w (c # cs) =
     (if c = CHR '' '' \<or> c = TAB then
        map_option (\<lambda>ws. (case w of None \<Rightarrow> ws | Some x \<Rightarrow> x # ws)) (words Bare None cs)
      else if c = squote then words Single (Some (case w of None \<Rightarrow> [] | Some x \<Rightarrow> x)) cs
      else if c = dquote then words Double (Some (case w of None \<Rightarrow> [] | Some x \<Rightarrow> x)) cs
      else if shell_special c then None
      else words Bare (Some ((case w of None \<Rightarrow> [] | Some x \<Rightarrow> x) @ [c])) cs)"
| "words Single w (c # cs) =
     (if c = squote then words Bare w cs
      else words Single (Some ((case w of None \<Rightarrow> [] | Some x \<Rightarrow> x) @ [c])) cs)"
| "words Double w (c # cs) =
     (if c = dquote then words Bare w cs
      else if c = CHR ''$'' \<or> c = CHR 0x60 \<or> c = CHR 0x5C then None
      else words Double (Some ((case w of None \<Rightarrow> [] | Some x \<Rightarrow> x) @ [c])) cs)"

definition shell_words :: "string \<Rightarrow> string list option" where
  "shell_words s = words Bare None s"

lemma quote_chars [simp]:
  "squote \<noteq> dquote" "dquote \<noteq> squote" "squote \<noteq> CHR '' ''" "squote \<noteq> TAB" "dquote \<noteq> CHR '' ''"
  "dquote \<noteq> TAB" "CHR '' '' \<noteq> squote" "CHR '' '' \<noteq> dquote"
  by (simp_all add: squote_def dquote_def TAB_def)

lemma squote_not_special [simp]: "squote \<noteq> CHR ''$''" "squote \<noteq> CHR 0x60" "squote \<noteq> CHR 0x5C"
  by (simp_all add: squote_def)

lemma words_quoted_body:
  "words Single (Some w) (replace_char squote [squote, dquote, squote, dquote, squote] s @ squote # cs) =
     words Bare (Some (w @ s)) cs"
  by (induction s arbitrary: w) auto

lemma words_quoted:
  "words Bare None (shell_single_quote s @ cs) = words Bare (Some s) cs"
  by (simp add: shell_single_quote_def words_quoted_body)

lemma words_space: "words Bare (Some w) (CHR '' '' # cs) = map_option (\<lambda>ws. w # ws) (words Bare None cs)"
  by simp

lemma shell_single_quote_inj: "shell_single_quote s = shell_single_quote t \<Longrightarrow> s = t"
proof -
  assume "shell_single_quote s = shell_single_quote t"
  then have "words Bare None (shell_single_quote s @ []) = words Bare None (shell_single_quote t @ [])" by simp
  then show ?thesis by (simp only: words_quoted words.simps) simp
qed

text \<open>A word without quotes or special characters reads as itself.\<close>

definition plain_word :: "string \<Rightarrow> bool" where
  "plain_word w \<longleftrightarrow> w \<noteq> [] \<and>
     list_all (\<lambda>c. c \<noteq> CHR '' '' \<and> c \<noteq> TAB \<and> c \<noteq> squote \<and> c \<noteq> dquote \<and> \<not> shell_special c) w"

lemma words_bare_some:
  "list_all (\<lambda>c. c \<noteq> CHR '' '' \<and> c \<noteq> TAB \<and> c \<noteq> squote \<and> c \<noteq> dquote \<and> \<not> shell_special c) w \<Longrightarrow>
     words Bare (Some v) (w @ cs) = words Bare (Some (v @ w)) cs"
  by (induction w arbitrary: v) auto

lemma words_plain:
  assumes "plain_word w"
  shows "words Bare None (w @ cs) = words Bare (Some w) cs"
proof -
  obtain c v where w: "w = c # v" using assms by (auto simp: plain_word_def neq_Nil_conv)
  show ?thesis using assms words_bare_some [of v "[c]" cs] by (simp add: w plain_word_def)
qed

lemma words_plain_space:
  "plain_word w \<Longrightarrow> words Bare None (w @ CHR '' '' # cs) = map_option (\<lambda>ws. w # ws) (words Bare None cs)"
  by (simp add: words_plain)

lemma plain_words:
  "plain_word ''sh''" "plain_word ''-lc''" "plain_word ''su''" "plain_word ''-c''" "plain_word ''root''"
  "plain_word ''sudo''" "plain_word ''-n''" "plain_word ''-S''" "plain_word ''-p''"
  by code_simp+

section \<open>Getting root\<close>

datatype escalation_method = EscRoot | EscSudo | EscNone

type_synonym 'w runner = "'w \<Rightarrow> string \<Rightarrow> string option \<Rightarrow> 'w \<times> string \<times> ssh_err option"

definition escalation :: "'w runner \<Rightarrow> 'w \<Rightarrow> 'w \<times> (ssh_err + escalation_method)" where
  "escalation run w =
     (case run w escalation_probe None of
        (w', out, Some err) \<Rightarrow> (w', Inl err)
      | (w', out, None) \<Rightarrow>
          (w', Inr (if contains out ''__PD_ROOT__'' then EscRoot
                    else if contains out ''__PD_SUDO__'' then EscSudo else EscNone)))"

text \<open>
  \<open>runPrivileged\<close>. \<open>sudo\<close> is the sudo password of the decrypted secrets, or the error of decrypting
  them. The result is the world, the output and the error of the command committed to.
\<close>

definition no_sudo_text :: string where
  "no_sudo_text = ''privilege escalation required: passwordless sudo unavailable and sudo/root password not provided''"

definition escalation_failed_text :: string where
  "escalation_failed_text = ''privilege escalation failed: sudo -n, sudo -S, and su fallback all failed (verify sudo/root password and host policy)''"

definition run_privileged ::
  "'w runner \<Rightarrow> ssh_err + string \<Rightarrow> 'w \<Rightarrow> string \<Rightarrow> 'w \<times> string \<times> ssh_err option" where
  "run_privileged run sudo w command =
     (case sudo of
        Inl err \<Rightarrow> (w, [], Some err)
      | Inr password \<Rightarrow>
          (let root_cmd = run_as_root_command command in
           case escalation run w of
             (w1, Inl err) \<Rightarrow> (w1, [], Some err)
           | (w1, Inr EscRoot) \<Rightarrow> run w1 root_cmd None
           | (w1, Inr EscSudo) \<Rightarrow> run w1 (''sudo -n '' @ root_cmd) None
           | (w1, Inr EscNone) \<Rightarrow>
               (let sudo_pass = trim_space password in
                if sudo_pass = [] then (w1, [], Some (PlainErr no_sudo_text))
                else
                  (let inp = Some (sudo_pass @ [NL]) in
                   case run w1 (sudo_password_prefix @ ''true'') inp of
                     (w2, _, None) \<Rightarrow> run w2 (sudo_password_prefix @ root_cmd) inp
                   | (w2, _, Some _) \<Rightarrow>
                       (case run w2 (su_command ''true'') inp of
                          (w3, _, None) \<Rightarrow> run w3 (su_command root_cmd) inp
                        | (w3, _, Some _) \<Rightarrow> (w3, [], Some (PlainErr escalation_failed_text)))))))"

text \<open>A runner that also keeps the log of the commands it was given.\<close>

definition logged :: "'w runner \<Rightarrow> ('w \<times> (string \<times> string option) list) runner" where
  "logged run = (\<lambda>(w, log) cmd inp. case run w cmd inp of (w', r) \<Rightarrow> ((w', log @ [(cmd, inp)]), r))"

lemma logged_app:
  "logged run (w, log) cmd inp = (case run w cmd inp of (w', r) \<Rightarrow> ((w', log @ [(cmd, inp)]), r))"
  by (simp add: logged_def)

text \<open>The commands that carry the caller's command, one for each way of getting root.\<close>

definition carriers :: "string \<Rightarrow> string list" where
  "carriers command =
     (let r = run_as_root_command command in [r, ''sudo -n '' @ r, sudo_password_prefix @ r, su_command r])"

definition probes :: "string list" where
  "probes = [escalation_probe, sudo_password_prefix @ ''true'', su_command ''true'']"

section \<open>Properties\<close>

text \<open>C18
  No injection: whatever the command is, the remote shell reads \<open>sh -lc\<close> and its quoted argument as
  three words, the third being exactly the command; and through \<open>su -c\<close>, where it is quoted twice,
  the inner shell is handed exactly the same three words.\<close>

theorem quoting_exact:
  "shell_words (run_as_root_command c) = Some [''sh'', ''-lc'', c] \<and>
   shell_words (su_command (run_as_root_command c)) = Some [''su'', ''-c'', run_as_root_command c, ''root''] \<and>
   shell_words (''sudo -n '' @ run_as_root_command c) = Some [''sudo'', ''-n'', ''sh'', ''-lc'', c] \<and>
   shell_words (sudo_password_prefix @ run_as_root_command c) = Some [''sudo'', ''-S'', ''-p'', [], ''sh'', ''-lc'', c]"
proof -
  note P = plain_words [THEN words_plain_space]
  have sh: "words Bare None (run_as_root_command s) = Some [''sh'', ''-lc'', s]" for s
  proof -
    have e: "run_as_root_command s = ''sh'' @ CHR '' '' # ''-lc'' @ CHR '' '' # shell_single_quote s"
      by (simp add: run_as_root_command_def)
    show ?thesis unfolding e P using words_quoted [of s "[]"] by simp
  qed
  have su: "words Bare None (su_command s) = Some [''su'', ''-c'', s, ''root'']" for s
  proof -
    have e: "su_command s = ''su'' @ CHR '' '' # ''-c'' @ CHR '' '' # shell_single_quote s @ CHR '' '' # ''root'' @ []"
      by (simp add: su_command_def)
    show ?thesis unfolding e P words_quoted words_space words_plain [OF plain_words(5)] by simp
  qed
  have n: "words Bare None (''sudo -n '' @ run_as_root_command s) = Some [''sudo'', ''-n'', ''sh'', ''-lc'', s]" for s
  proof -
    have e: "''sudo -n '' @ run_as_root_command s = ''sudo'' @ CHR '' '' # ''-n'' @ CHR '' '' # run_as_root_command s"
      by simp
    show ?thesis unfolding e P sh by simp
  qed
  have p: "words Bare None (sudo_password_prefix @ run_as_root_command s) =
      Some [''sudo'', ''-S'', ''-p'', [], ''sh'', ''-lc'', s]" for s
  proof -
    have e: "sudo_password_prefix @ run_as_root_command s =
        ''sudo'' @ CHR '' '' # ''-S'' @ CHR '' '' # ''-p'' @ CHR '' '' # shell_single_quote [] @ CHR '' '' # run_as_root_command s"
      by (simp add: sudo_password_prefix_def shell_single_quote_def)
    show ?thesis unfolding e P words_quoted words_space sh by simp
  qed
  show ?thesis using sh su n p by (simp add: shell_words_def)
qed

text \<open>C35
  The command runs at most once and the password never on a command line: in a privileged run every
  command sent is one of the three fixed probes or carries the caller's command, at most one of them
  carries it, and the password is only ever the standard input, of a command that does not depend on it.\<close>

theorem run_privileged_once:
  assumes "run_privileged (logged run) sudo (w, []) command = ((w', log), out, err)"
  shows "list_all (\<lambda>(cmd, inp). cmd \<in> set probes \<union> set (carriers command) \<and>
       (case inp of None \<Rightarrow> True | Some i \<Rightarrow> (case sudo of Inl _ \<Rightarrow> False | Inr p \<Rightarrow> i = trim_space p @ [NL]))) log \<and>
     length (filter (\<lambda>(cmd, inp). cmd \<notin> set probes) log) \<le> 1 \<and> length log \<le> 4"
proof (cases sudo)
  case (Inl e)
  with assms show ?thesis by (simp add: run_privileged_def)
next
  case (Inr p)
  note assms = assms [unfolded Inr]
  obtain w1 o1 e1 where r1: "run w escalation_probe None = (w1, o1, e1)" by (metis prod_cases3)
  have esc: "escalation (logged run) (w, []) = ((w1, [(escalation_probe, None)]),
      case e1 of Some err \<Rightarrow> Inl err
      | None \<Rightarrow> Inr (if contains o1 ''__PD_ROOT__'' then EscRoot
                    else if contains o1 ''__PD_SUDO__'' then EscSudo else EscNone))"
    by (simp add: escalation_def logged_def r1 split: option.split)
  let ?P = "\<lambda>(cmd, inp). cmd \<in> set probes \<union> set (carriers command) \<and>
       (case inp of None \<Rightarrow> True | Some i \<Rightarrow> (case sudo of Inl _ \<Rightarrow> False | Inr p \<Rightarrow> i = trim_space p @ [NL]))"
  let ?inp = "Some (trim_space p @ [NL])"
  have ok: "?P (escalation_probe, None)" "?P (sudo_password_prefix @ ''true'', ?inp)" "?P (su_command ''true'', ?inp)"
    "\<And>c i. c \<in> set (carriers command) \<Longrightarrow> i = None \<or> i = ?inp \<Longrightarrow> ?P (c, i)"
    by (auto simp: probes_def Inr)
  have car: "run_as_root_command command \<in> set (carriers command)"
    "''sudo -n '' @ run_as_root_command command \<in> set (carriers command)"
    "sudo_password_prefix @ run_as_root_command command \<in> set (carriers command)"
    "su_command (run_as_root_command command) \<in> set (carriers command)"
    by (simp_all add: carriers_def Let_def)
  obtain w2 o2 e2 where r2: "run w1 (sudo_password_prefix @ ''true'') ?inp = (w2, o2, e2)" by (metis prod_cases3)
  obtain w3 o3 e3 where r3: "run w2 (su_command ''true'') ?inp = (w3, o3, e3)" by (metis prod_cases3)
  let ?sp = "(sudo_password_prefix @ ''true'', ?inp)"
  have "log = [(escalation_probe, None)] \<or>
     (\<exists>c i. c \<in> set (carriers command) \<and> (i = None \<or> i = ?inp) \<and>
        (log = [(escalation_probe, None), (c, i)] \<or> log = [(escalation_probe, None), ?sp, (c, i)] \<or>
         log = [(escalation_probe, None), ?sp, (su_command ''true'', ?inp), (c, i)])) \<or>
     log = [(escalation_probe, None), ?sp, (su_command ''true'', ?inp)]"
  proof (cases e1)
    case (Some e)
    then show ?thesis using assms by (simp add: run_privileged_def esc Let_def)
  next
    case None
    show ?thesis
    proof (cases "contains o1 ''__PD_ROOT__'' \<or> contains o1 ''__PD_SUDO__'' \<or> trim_space p = []")
      case True
      then show ?thesis
        using assms None car
        by (auto simp: run_privileged_def esc logged_app Let_def split: if_splits prod.splits)
    next
      case no: False
      show ?thesis
      proof (cases e2)
        case None2: None
        then show ?thesis
          using assms None no car(3)
          by (auto simp: run_privileged_def esc logged_app Let_def r2 split: prod.splits)
      next
        case Some2: (Some x)
        then show ?thesis
          using assms None no car(4)
          by (cases e3) (auto simp: run_privileged_def esc logged_app Let_def r2 r3 split: prod.splits)
      qed
    qed
  qed
  then show ?thesis
    using ok by (elim disjE exE conjE) (simp_all add: probes_def)
qed

theorem run_privileged_once_witness:
  "length (snd (fst (run_privileged (logged (\<lambda>w cmd inp. (w, ''__PD_NOSUDO__'', None))) (Inr ''pw'') (0::nat, []) ''id''))) \<le> 4"
proof -
  let ?r = "run_privileged (logged (\<lambda>w cmd inp. (w, ''__PD_NOSUDO__'', None))) (Inr ''pw'') (0::nat, []) ''id''"
  have "?r = ((fst (fst ?r), snd (fst ?r)), fst (snd ?r), snd (snd ?r))" by (simp only: prod.collapse)
  from run_privileged_once [OF this] show ?thesis by blast
qed

end
