(* ===== verification/Restart.thy ===== *)
theory Restart
  imports Shell Models
begin

text \<open>
  Restarting services in \<open>internal/sshx/client.go\<close>: the commands for one unit, the sequential
  \<open>RestartServices\<close>, the batched \<open>RestartDeferredDetached\<close> and the bulk pass of needrestart. The
  privileged runner (\<open>Client.runPrivileged\<close>, modelled in \<open>Shell\<close>) is the parameter \<open>priv\<close>.
\<close>

type_synonym 'w priv = "'w \<Rightarrow> string \<Rightarrow> 'w \<times> string \<times> ssh_err option"

definition bullet :: string where
  "bullet = [CHR 0xE2, CHR 0x80, CHR 0xA2] @ '' ''"

definition tick :: string where
  "tick = [CHR 0xE2, CHR 0x9C, CHR 0x93] @ '' ''"

definition cross :: string where
  "cross = [CHR 0xE2, CHR 0x9C, CHR 0x97] @ '' ''"

definition warn_sign :: string where
  "warn_sign = [CHR 0xE2, CHR 0x9A, CHR 0xA0] @ '' ''"

definition dash :: string where
  "dash = '' '' @ em_dash @ '' ''"

section \<open>Units and their commands\<close>

definition is_systemd_manager_unit :: "string \<Rightarrow> bool" where
  "is_systemd_manager_unit svc \<longleftrightarrow> to_lower (trim_space svc) \<in> set
     [''systemd'', ''systemd.service'', ''systemd-manager'', ''systemd-manager.service'', ''init'', ''init.scope'']"

definition is_user_manager_unit :: "string \<Rightarrow> bool" where
  "is_user_manager_unit svc \<longleftrightarrow> to_lower (trim_space svc) \<in> set [''systemd-user'', ''systemd-user.service'']"

definition handler_absent_marker :: string where
  "handler_absent_marker = ''__NR_HANDLER_ABSENT__''"

definition handler_path :: "string \<Rightarrow> string" where
  "handler_path svc = ''/etc/needrestart/restart.d/'' @ svc"

definition with_handler :: "string \<Rightarrow> string \<Rightarrow> string" where
  "with_handler svc otherwise =
     ''if [ -x '' @ [dquote] @ handler_path svc @ [dquote] @
     '' ]; then DEBIAN_FRONTEND=noninteractive '' @ [dquote] @ handler_path svc @ [dquote] @
     ''; else '' @ otherwise @ ''; fi''"

definition risky_restart_cmd :: "string \<Rightarrow> string" where
  "risky_restart_cmd svc = with_handler svc (''echo '' @ handler_absent_marker)"

definition deferred_restart_cmd :: "string \<Rightarrow> string" where
  "deferred_restart_cmd svc =
     (if is_dbus_family svc then with_handler svc (''echo '' @ handler_absent_marker)
      else with_handler svc
        (''systemd-run --collect --description='' @ [dquote] @ ''patchdeck restart '' @ svc @ [dquote] @
         '' systemctl restart '' @ svc))"

definition is_unit_not_found_text :: "string \<Rightarrow> bool" where
  "is_unit_not_found_text s \<longleftrightarrow>
     (let m = to_lower s in contains m ''not found'' \<or> contains m ''not loaded'' \<or> contains m ''no such'')"

definition is_unit_not_found :: "ssh_err option \<Rightarrow> bool" where
  "is_unit_not_found err = (case err of None \<Rightarrow> False | Some e \<Rightarrow> is_unit_not_found_text (err_text e))"

text \<open>\<open>stripAuthPromptNoise\<close> loops until nothing changes; a round that changes makes the text shorter.\<close>

function strip_prompts :: "string \<Rightarrow> string" where
  "strip_prompts s =
     (let nxt = trim_space (trim_prefix s ''Password:'') in
      if length nxt \<ge> length s then s else strip_prompts nxt)"
  by pat_completeness auto
termination
  by (relation "measure length") auto

declare strip_prompts.simps [simp del]
lemmas [go_simps] = strip_prompts.simps

definition strip_auth_prompt_noise :: "string \<Rightarrow> string" where
  "strip_auth_prompt_noise s = strip_prompts (trim_space s)"

section \<open>RestartServices\<close>

text \<open>The texts of the report lines.\<close>

definition per_user_text :: string where
  "per_user_text =
     ''per-user service manager; refreshes on next login/reboot (skipped)''"

definition reboot_to_apply_text :: string where
  "reboot_to_apply_text =
     ''cannot be safely restarted on a running host (a live restart severs D-Bus/logind and locks out SSH); reboot to apply (no needrestart coordinated-restart handler available)''"

definition restarted_safely_text :: string where
  "restarted_safely_text =
     ''restarted safely via needrestart (coordinated: bus + its clients re-registered)''"

definition dropped_text :: string where
  "dropped_text =
     ''connection dropped during restart (likely restarted; reconnect to confirm)''"

definition not_restartable_text :: string where
  "not_restartable_text =
     ''not a restartable unit on this host (skipped)''"

definition no_handler_text :: string where
  "no_handler_text =
     ''no coordinated handler on this host; reboot to apply (a naive restart would sever the D-Bus bus and lock out SSH)''"

definition dispatched_dropped_text :: string where
  "dispatched_dropped_text =
     ''restart dispatched; connection dropped (reconnecting to confirm)''"

definition dispatched_expected_text :: string where
  "dispatched_expected_text =
     ''restart dispatched; connection dropped as expected (reconnecting to confirm)''"

definition no_result_text :: string where
  "no_result_text =
     ''no result (restart may not have run)''"

definition not_loaded_text :: string where
  "not_loaded_text =
     ''not a loaded unit; skipped''"

definition coordinated_dropped_text :: string where
  "coordinated_dropped_text =
     ''coordinated restart dispatched via needrestart; connection dropped (expected '' @ em_dash @ '' reconnect to confirm)''"

record restart_acc =
  ra_lines :: "string list"
  ra_failures :: "string list"
  ra_reboot :: "string list"
  ra_skipped :: nat

definition empty_acc :: restart_acc where
  "empty_acc = \<lparr>ra_lines = [], ra_failures = [], ra_reboot = [], ra_skipped = 0\<rparr>"

definition add_line :: "string \<Rightarrow> restart_acc \<Rightarrow> restart_acc" where
  "add_line l acc = acc\<lparr>ra_lines := ra_lines acc @ [l]\<rparr>"

definition add_failure :: "string \<Rightarrow> string \<Rightarrow> string \<Rightarrow> restart_acc \<Rightarrow> restart_acc" where
  "add_failure svc label reason acc =
     (add_line (cross @ label @ dash @ reason) acc)
       \<lparr>ra_failures := ra_failures acc @ [svc @ '': '' @ reason]\<rparr>"

text \<open>One service; \<open>Inl\<close> is the host-key error that aborts the whole operation.\<close>

definition restart_one ::
  "'w priv \<Rightarrow> 'w \<Rightarrow> string \<Rightarrow> restart_acc \<Rightarrow> 'w \<times> (ssh_err + restart_acc)" where
  "restart_one priv w svc acc =
     (if is_user_manager_unit svc then
        (w, Inr ((add_line (bullet @ svc @ dash @
           per_user_text) acc)
           \<lparr>ra_skipped := ra_skipped acc + 1\<rparr>))
      else if is_risky svc then
        (case priv w (risky_restart_cmd svc) of (w', out, err) \<Rightarrow>
           if is_host_key_err err then (w', Inl (the err))
           else if contains out handler_absent_marker then
             (w', Inr ((add_line (warn_sign @ svc @ dash @
                reboot_to_apply_text) acc)
                \<lparr>ra_reboot := ra_reboot acc @ [svc]\<rparr>))
           else if err = None then
             (w', Inr (add_line (tick @ svc @ dash @
                restarted_safely_text) acc))
           else if is_conn_lost err then
             (w', Inr (add_line (bullet @ svc @ dash @
                coordinated_dropped_text) acc))
           else (w', Inr (add_failure svc svc (strip_auth_prompt_noise (err_text (the err))) acc)))
      else
        (let manager = is_systemd_manager_unit svc;
             cmd = (if manager then ''systemctl daemon-reexec'' else ''systemctl restart '' @ svc);
             label = (if manager then svc @ '' (daemon-reexec)'' else svc)
         in
         case priv w cmd of (w', out, err) \<Rightarrow>
           if err = None then (w', Inr (add_line (tick @ label @ dash @ ''restarted'') acc))
           else if is_host_key_err err then (w', Inl (the err))
           else if is_conn_lost err then
             (w', Inr (add_line (bullet @ label @ dash @
                dropped_text) acc))
           else if is_unit_not_found err then
             (w', Inr ((add_line (bullet @ label @ dash @ not_restartable_text) acc)
                \<lparr>ra_skipped := ra_skipped acc + 1\<rparr>))
           else (w', Inr (add_failure svc label (strip_auth_prompt_noise (err_text (the err))) acc))))"

fun restart_loop ::
  "'w priv \<Rightarrow> 'w \<Rightarrow> string list \<Rightarrow> restart_acc \<Rightarrow> 'w \<times> (ssh_err + restart_acc)" where
  "restart_loop priv w [] acc = (w, Inr acc)"
| "restart_loop priv w (svc # svcs) acc =
     (case restart_one priv w svc acc of
        (w', Inl err) \<Rightarrow> (w', Inl err)
      | (w', Inr acc') \<Rightarrow> restart_loop priv w' svcs acc')"

definition empty_result :: restart_result where
  "empty_result = \<lparr>rr_services = [], rr_success = False, rr_output = [], rr_reboot_required = [],
     rr_dispatched = [], rr_failed = []\<rparr>"

definition restart_services ::
  "'w priv \<Rightarrow> 'w \<Rightarrow> string list \<Rightarrow> 'w \<times> restart_result \<times> ssh_err option" where
  "restart_services priv w services =
     (if length services = 0
      then (w, empty_result\<lparr>rr_success := True, rr_output := ''no services selected''\<rparr>, None)
      else
        (case restart_loop priv w services empty_acc of
           (w', Inl err) \<Rightarrow> (w', empty_result, Some err)
         | (w', Inr acc) \<Rightarrow>
             (let res = empty_result\<lparr>rr_services := services, rr_success := (length (ra_failures acc) = 0),
                    rr_output := join [NL] (ra_lines acc), rr_reboot_required := ra_reboot acc\<rparr>
              in
              if length (ra_failures acc) > 0 then
                (let ok = int (length services) - int (length (ra_failures acc)) - int (ra_skipped acc) -
                       int (length (ra_reboot acc));
                     msg = ''restarted '' @ itoa ok @ '' of '' @ itoan (length services) @ '' service(s)'';
                     msg = (if ra_skipped acc > 0 then msg @ ''; '' @ itoan (ra_skipped acc) @ '' skipped'' else msg);
                     msg = (if length (ra_reboot acc) > 0
                            then msg @ ''; '' @ itoan (length (ra_reboot acc)) @ '' need reboot'' else msg)
                 in (w', res, Some (PlainErr (msg @ ''; failed '' @ em_dash @ '' '' @ join ''; '' (ra_failures acc)))))
              else (w', res, None))))"

section \<open>The bulk pass\<close>

definition needrestart_missing_marker :: string where
  "needrestart_missing_marker = ''__NEEDRESTART_MISSING__''"

definition restart_all_cmd :: string where
  "restart_all_cmd =
     ''if command -v needrestart >/dev/null 2>&1; then DEBIAN_FRONTEND=noninteractive needrestart -r a 2>&1 || true; else echo '' @
     needrestart_missing_marker @ ''; fi''"

definition restart_all_via_needrestart :: "'w priv \<Rightarrow> 'w \<Rightarrow> 'w \<times> restart_result \<times> ssh_err option" where
  "restart_all_via_needrestart priv w =
     (case priv w restart_all_cmd of (w', out, err) \<Rightarrow>
        (let out = trim_space out in
         if is_host_key_err err then (w', empty_result, err)
         else if contains out needrestart_missing_marker then
           (let msg = ''needrestart is not installed on this host '' @ em_dash @
                '' install it (apt install needrestart) so Patchdeck can detect and safely restart services after upgrades.''
            in (w', empty_result\<lparr>rr_output := msg\<rparr>, Some (PlainErr msg)))
         else if is_conn_lost err then
           (w', empty_result\<lparr>rr_success := True, rr_output := out @ [NL] @
              ''(connection dropped during restart '' @ em_dash @ '' reconnect to confirm)''\<rparr>, None)
         else if err \<noteq> None then
           (w', empty_result\<lparr>rr_output := out\<rparr>,
            Some (PlainErr (''needrestart restart failed: '' @ strip_auth_prompt_noise (err_text (the err)))))
         else
           (w', empty_result\<lparr>rr_success := True,
              rr_output := (if out = [] then ''needrestart: nothing to restart.'' else out)\<rparr>, None)))"

section \<open>The batch\<close>

definition restart_batch_marker :: string where
  "restart_batch_marker = ''PDSVCRESULT''"

fun split_restart_batch :: "string list \<Rightarrow> string list \<times> string list" where
  "split_restart_batch [] = ([], [])"
| "split_restart_batch (s # ss) =
     (case split_restart_batch ss of (batchable, special) \<Rightarrow>
        if is_risky s then (batchable, s # special) else (s # batchable, special))"

definition backslash :: char where
  "backslash = CHR 0x5C"

definition batch_line :: "string \<Rightarrow> string" where
  "batch_line svc =
     ''__pdout=$( { '' @ deferred_restart_cmd svc @ '' ; } 2>&1 ); __pdrc=$?; '' @
     ''printf '' @ [squote] @ restart_batch_marker @ [backslash] @ ''t%s'' @ [backslash] @ ''t%d'' @ [backslash] @
     ''t%s'' @ [backslash] @ ''n'' @ [squote] @ '' '' @ [squote] @ svc @ [squote] @ '' '' @ [dquote] @ ''$__pdrc'' @
     [dquote] @ '' '' @ [dquote] @ ''$(printf '' @ [squote] @ ''%s'' @ [squote] @ '' '' @ [dquote] @ ''$__pdout'' @
     [dquote] @ '' | tr '' @ [squote, backslash] @ ''n'' @ [backslash] @ ''t'' @ [squote] @ '' '' @ [squote] @ ''  '' @
     [squote] @ '')'' @ [dquote, NL]"

definition batch_restart_script :: "string list \<Rightarrow> string" where
  "batch_restart_script services = ''set +e'' @ [NL] @ concat (map batch_line services)"

text \<open>
  The result lines. The map of results is an association list, the newest entry first, read with
  \<open>map_of\<close>, so a later line for the same unit replaces an earlier one.
\<close>

type_synonym batch_map = "(string \<times> int \<times> string) list"

definition parse_result_line :: "string \<Rightarrow> (string \<times> int \<times> string) option" where
  "parse_result_line ln =
     (if \<not> has_prefix ln (restart_batch_marker @ [TAB]) then None
      else
        (let parts = split_n 4 TAB ln in
         if length parts < 3 then None
         else
           (let rc = atoi_value (trim_space (parts ! 2));
                out = (if length parts = 4 then trim_space (parts ! 3) else [])
            in Some (parts ! 1, rc, out))))"

fun parse_result_lines :: "string list \<Rightarrow> batch_map \<Rightarrow> batch_map" where
  "parse_result_lines [] res = res"
| "parse_result_lines (ln # lns) res =
     (case parse_result_line ln of
        None \<Rightarrow> parse_result_lines lns res
      | Some (svc, r) \<Rightarrow> parse_result_lines lns ((svc, r) # res))"

definition parse_restart_batch :: "string \<Rightarrow> batch_map" where
  "parse_restart_batch output = parse_result_lines (split_on NL output) []"

section \<open>RestartDeferredDetached\<close>

record deferred_acc =
  da_done :: "string \<rightharpoonup> string"
  da_failures :: "string list"
  da_failed :: "string list"
  da_dispatched :: "string list"
  da_reboot :: "string list"

definition empty_deferred :: deferred_acc where
  "empty_deferred = \<lparr>da_done = Map.empty, da_failures = [], da_failed = [], da_dispatched = [], da_reboot = []\<rparr>"

definition def_fail :: "string \<Rightarrow> string \<Rightarrow> deferred_acc \<Rightarrow> deferred_acc" where
  "def_fail svc reason a =
     a\<lparr>da_done := (da_done a)(svc \<mapsto> cross @ svc @ dash @ reason),
       da_failures := da_failures a @ [svc @ '': '' @ reason], da_failed := da_failed a @ [svc]\<rparr>"

definition def_ok :: "string \<Rightarrow> string \<Rightarrow> deferred_acc \<Rightarrow> deferred_acc" where
  "def_ok svc line a =
     a\<lparr>da_done := (da_done a)(svc \<mapsto> line), da_dispatched := da_dispatched a @ [svc]\<rparr>"

definition dispatched_line :: "string \<Rightarrow> string" where
  "dispatched_line svc = tick @ svc @ dash @ ''restart dispatched (detached; reconnecting to confirm)''"

definition batch_outcome ::
  "batch_map \<Rightarrow> bool \<Rightarrow> ssh_err option \<Rightarrow> string \<Rightarrow> deferred_acc \<Rightarrow> deferred_acc" where
  "batch_outcome parsed escalation_failed err svc a =
     (if escalation_failed then def_fail svc (strip_auth_prompt_noise (err_text (the err))) a
      else
        (case map_of parsed svc of
           None \<Rightarrow>
             if is_conn_lost err then
               def_ok svc (bullet @ svc @ dash @
                 dispatched_dropped_text) a
             else def_fail svc no_result_text a
         | Some (rc, out) \<Rightarrow>
             if rc = 0 then def_ok svc (dispatched_line svc) a
             else if is_unit_not_found_text out then
               a\<lparr>da_done := (da_done a)(svc \<mapsto> bullet @ svc @ dash @ not_loaded_text)\<rparr>
             else
               (let reason = strip_auth_prompt_noise out;
                    reason = (if reason = [] then ''exit '' @ itoa rc else reason)
                in def_fail svc reason a)))"

definition run_batch ::
  "'w priv \<Rightarrow> 'w \<Rightarrow> string list \<Rightarrow> deferred_acc \<Rightarrow> 'w \<times> (ssh_err + deferred_acc)" where
  "run_batch priv w batchable a =
     (if length batchable > 0 then
        (case priv w (batch_restart_script batchable) of (w', out, err) \<Rightarrow>
           if is_host_key_err err then (w', Inl (the err))
           else
             (let parsed = parse_restart_batch out;
                  escalation_failed = (parsed = [] \<and> err \<noteq> None)
              in (w', Inr (fold (batch_outcome parsed escalation_failed err) batchable a))))
      else (w, Inr a))"

fun run_special ::
  "'w priv \<Rightarrow> 'w \<Rightarrow> string list \<Rightarrow> deferred_acc \<Rightarrow> 'w \<times> (ssh_err + deferred_acc)" where
  "run_special priv w [] a = (w, Inr a)"
| "run_special priv w (svc # svcs) a =
     (case priv w (deferred_restart_cmd svc) of (w', out, err) \<Rightarrow>
        if is_host_key_err err then (w', Inl (the err))
        else run_special priv w' svcs
          (if contains out handler_absent_marker then
             a\<lparr>da_reboot := da_reboot a @ [svc], da_done := (da_done a)(svc \<mapsto> warn_sign @ svc @ dash @
                no_handler_text)\<rparr>
           else if err = None then def_ok svc (dispatched_line svc) a
           else if is_conn_lost err then
             def_ok svc (bullet @ svc @ dash @
               dispatched_expected_text) a
           else def_fail svc (strip_auth_prompt_noise (err_text (the err))) a))"

definition restart_deferred_detached ::
  "'w priv \<Rightarrow> 'w \<Rightarrow> string list \<Rightarrow> 'w \<times> restart_result \<times> ssh_err option" where
  "restart_deferred_detached priv w services =
     (if length services = 0
      then (w, empty_result\<lparr>rr_success := True, rr_output := ''no services selected''\<rparr>, None)
      else
        (case split_restart_batch services of (batchable, special) \<Rightarrow>
           case run_batch priv w batchable empty_deferred of
             (w1, Inl err) \<Rightarrow> (w1, empty_result, Some err)
           | (w1, Inr a1) \<Rightarrow>
               (case run_special priv w1 special a1 of
                  (w2, Inl err) \<Rightarrow> (w2, empty_result, Some err)
                | (w2, Inr a) \<Rightarrow>
                    (let res = \<lparr>rr_services = services, rr_success = (length (da_failures a) = 0),
                           rr_output = join [NL] (List.map_filter (da_done a) services),
                           rr_reboot_required = da_reboot a, rr_dispatched = da_dispatched a,
                           rr_failed = da_failed a\<rparr>
                     in if length (da_failures a) > 0
                        then (w2, res, Some (PlainErr (''some restarts failed '' @ em_dash @ '' '' @ join ''; '' (da_failures a))))
                        else (w2, res, None)))))"

section \<open>The commands RestartServices issues\<close>

text \<open>A privileged runner that also keeps the log of its commands.\<close>

definition logged_priv :: "'w priv \<Rightarrow> ('w \<times> string list) priv" where
  "logged_priv priv = (\<lambda>(w, log) cmd. case priv w cmd of (w', r) \<Rightarrow> ((w', log @ [cmd]), r))"

lemma logged_priv_app: "logged_priv priv (w, log) cmd = (case priv w cmd of (w', r) \<Rightarrow> ((w', log @ [cmd]), r))"
  by (simp add: logged_priv_def)

definition unit_cmds :: "string \<Rightarrow> string list" where
  "unit_cmds svc =
     (if is_user_manager_unit svc then []
      else if is_risky svc then [risky_restart_cmd svc]
      else if is_systemd_manager_unit svc then [''systemctl daemon-reexec'']
      else [''systemctl restart '' @ svc])"

lemma restart_one_log:
  "restart_one (logged_priv priv) (w, log) svc acc = ((w', log'), r) \<Longrightarrow> log' = log @ unit_cmds svc"
  by (auto simp: restart_one_def unit_cmds_def logged_priv_app Let_def split: prod.splits if_splits)

lemma is_host_key_err_the: "is_host_key_err e \<Longrightarrow> is_host_key_err (Some (the e))"
  by (cases e rule: is_host_key_err.cases) auto

lemma restart_one_host_key: "restart_one priv w svc acc = (w', Inl err) \<Longrightarrow> is_host_key_err (Some err)"
  by (auto simp: restart_one_def Let_def is_host_key_err_the split: prod.splits if_splits)

lemma restart_loop_log:
  assumes "restart_loop (logged_priv priv) (w, log) svcs acc = ((w', log'), r)"
  shows "\<exists>k. log' = log @ concat (map unit_cmds (take k svcs)) \<and>
     (case r of Inl err \<Rightarrow> is_host_key_err (Some err) | Inr _ \<Rightarrow> k = length svcs)"
  using assms
proof (induction svcs arbitrary: w log acc)
  case Nil
  then show ?case by auto
next
  case (Cons svc svcs)
  obtain w1 log1 r1 where one: "restart_one (logged_priv priv) (w, log) svc acc = ((w1, log1), r1)"
    by (metis surj_pair)
  have log1: "log1 = log @ unit_cmds svc" by (rule restart_one_log [OF one])
  show ?case
  proof (cases r1)
    case (Inl err)
    with Cons.prems one log1 restart_one_host_key [of "logged_priv priv" "(w, log)" svc acc] show ?thesis
      by (intro exI [of _ 1]) auto
  next
    case (Inr acc1)
    with Cons.prems one have "restart_loop (logged_priv priv) (w1, log1) svcs acc1 = ((w', log'), r)" by simp
    from Cons.IH [OF this] obtain k where "log' = log1 @ concat (map unit_cmds (take k svcs))"
      "case r of Inl err \<Rightarrow> is_host_key_err (Some err) | Inr _ \<Rightarrow> k = length svcs" by blast
    with log1 show ?thesis by (intro exI [of _ "Suc k"]) (auto split: sum.splits)
  qed
qed

lemma naive_restart_not_risky: "is_risky svc \<Longrightarrow> ''systemctl restart '' @ svc \<notin> set (unit_cmds s)"
  by (auto simp: unit_cmds_def risky_restart_cmd_def with_handler_def)

section \<open>The accounting of RestartServices\<close>

lemma restart_one_acc:
  assumes "restart_one priv w svc acc = (w', Inr acc')"
  shows "\<exists>l. ra_lines acc' = ra_lines acc @ [l] \<and>
    ((\<exists>reason. ra_failures acc' = ra_failures acc @ [svc @ '': '' @ reason] \<and>
        ra_reboot acc' = ra_reboot acc \<and> ra_skipped acc' = ra_skipped acc) \<or>
     (is_risky svc \<and> ra_failures acc' = ra_failures acc \<and>
        ra_reboot acc' = ra_reboot acc @ [svc] \<and> ra_skipped acc' = ra_skipped acc) \<or>
     (ra_failures acc' = ra_failures acc \<and> ra_reboot acc' = ra_reboot acc \<and>
        (ra_skipped acc' = ra_skipped acc \<or> ra_skipped acc' = ra_skipped acc + 1)))"
  using assms
  by (auto simp: restart_one_def add_line_def add_failure_def Let_def split: prod.splits if_splits)

lemma restart_loop_acc:
  "restart_loop priv w svcs acc = (w', Inr acc') \<Longrightarrow>
     length (ra_lines acc') = length (ra_lines acc) + length svcs \<and>
     length (ra_failures acc') + length (ra_reboot acc') + ra_skipped acc' \<le>
       length (ra_failures acc) + length (ra_reboot acc) + ra_skipped acc + length svcs \<and>
     set (ra_reboot acc') \<subseteq> set (ra_reboot acc) \<union> {s \<in> set svcs. is_risky s} \<and>
     (svcs = [] \<longrightarrow> acc' = acc)"
proof (induction svcs arbitrary: w acc)
  case (Cons svc svcs)
  obtain w1 acc1 where one: "restart_one priv w svc acc = (w1, Inr acc1)"
    and rest: "restart_loop priv w1 svcs acc1 = (w', Inr acc')"
    using Cons.prems by (auto split: prod.splits sum.splits)
  from Cons.IH [OF rest] restart_one_acc [OF one] show ?case by auto
qed simp

lemma restart_loop_host_key:
  "restart_loop priv w svcs acc = (w', Inl err) \<Longrightarrow> is_host_key_err (Some err)"
  by (induction svcs arbitrary: w acc) (auto split: prod.splits sum.splits dest: restart_one_host_key)

section \<open>Properties of RestartServices\<close>

text \<open>C22
  The commands sent are exactly the command of each unit, in order: a host-key refusal stops after
  some unit, anything else goes through the whole list. So a unit whose naive restart would cut off
  SSH is never given to \<open>systemctl restart\<close>, whatever list is asked for.\<close>

theorem restart_commands_exact:
  assumes "restart_services (logged_priv priv) (w, []) services = ((w', log), res, err)"
  shows "\<exists>k. log = concat (map unit_cmds (take k services)) \<and>
     (\<not> is_host_key_err err \<longrightarrow> k = length services) \<and>
     (\<forall>svc. is_risky svc \<longrightarrow> ''systemctl restart '' @ svc \<notin> set log)"
proof (cases "services = []")
  case True
  with assms show ?thesis by (simp add: restart_services_def)
next
  case False
  obtain w1 log1 r where loop: "restart_loop (logged_priv priv) (w, []) services empty_acc = ((w1, log1), r)"
    by (metis surj_pair)
  from restart_loop_log [OF loop] obtain k where k: "log1 = concat (map unit_cmds (take k services))"
    and r: "case r of Inl err \<Rightarrow> is_host_key_err (Some err) | Inr _ \<Rightarrow> k = length services" by auto
  have "log = log1" "\<not> is_host_key_err err \<longrightarrow> k = length services"
    using assms loop r False
    by (auto simp: restart_services_def Let_def split: sum.splits if_splits)
  with k show ?thesis using naive_restart_not_risky by (intro exI [of _ k]) auto
qed

theorem restart_commands_exact_witness:
  "''systemctl restart dbus'' \<notin> set (snd (fst (restart_services
      (logged_priv (\<lambda>w cmd. (w, [], Some (PlainErr ''no'')))) (0::nat, []) [''dbus'', ''cron''])))"
proof -
  let ?r = "restart_services (logged_priv (\<lambda>w cmd. (w, [], Some (PlainErr ''no'')))) (0::nat, []) [''dbus'', ''cron'']"
  have "?r = ((fst (fst ?r), snd (fst ?r)), fst (snd ?r), snd (snd ?r))" by (simp only: prod.collapse)
  from restart_commands_exact [OF this]
  have "is_risky ''dbus'' \<longrightarrow> ''systemctl restart '' @ ''dbus'' \<notin> set (snd (fst ?r))" by blast
  moreover have "is_risky ''dbus''" by code_simp
  ultimately show ?thesis by simp
qed

text \<open>
  The result accounts for every service: unless a host key is refused, the output has one line per
  service, only risky units are reported as needing a reboot, the run succeeds exactly when no error
  is returned, and the error's count of restarted services is between 0 and the number of services
  less the one that failed.\<close>

theorem restart_accounting:
  assumes "restart_services priv w services = (w', res, err)" "services \<noteq> []" "\<not> is_host_key_err err"
  shows "(rr_success res \<longleftrightarrow> err = None) \<and> rr_services res = services \<and>
     set (rr_reboot_required res) \<subseteq> {s \<in> set services. is_risky s} \<and>
     (\<exists>lines. length lines = length services \<and> rr_output res = join [NL] lines) \<and>
     (\<forall>e. err = Some e \<longrightarrow> (\<exists>ok < length services. \<exists>rest.
        err_text e = ''restarted '' @ itoan ok @ '' of '' @ itoan (length services) @ '' service(s)'' @ rest))"
proof -
  obtain w1 r where loop: "restart_loop priv w services empty_acc = (w1, r)" by (metis surj_pair)
  show ?thesis
  proof (cases r)
    case (Inl e)
    with loop restart_loop_host_key [of priv w services empty_acc w1 e] assms show ?thesis
      by (simp add: restart_services_def)
  next
    case (Inr acc)
    note run = assms(1) [unfolded restart_services_def loop Inr]
    from restart_loop_acc [of priv w services empty_acc w1 acc] loop Inr
    have acc: "length (ra_lines acc) = length services"
      "length (ra_failures acc) + length (ra_reboot acc) + ra_skipped acc \<le> length services"
      "set (ra_reboot acc) \<subseteq> {s \<in> set services. is_risky s}"
      by (simp_all add: empty_acc_def)
    have res: "res = empty_result\<lparr>rr_services := services, rr_success := (length (ra_failures acc) = 0),
         rr_output := join [NL] (ra_lines acc), rr_reboot_required := ra_reboot acc\<rparr>"
      using run assms(2) by (auto simp: Let_def split: if_splits)
    have oki: "int (length services) - int (length (ra_failures acc)) - int (ra_skipped acc) - int (length (ra_reboot acc)) =
        int (length services - length (ra_failures acc) - ra_skipped acc - length (ra_reboot acc))"
      using acc(2) by linarith
    have err: "ra_failures acc \<noteq> [] \<Longrightarrow>
       \<exists>rest. err = Some (PlainErr (''restarted '' @ itoan (length services - length (ra_failures acc) -
           ra_skipped acc - length (ra_reboot acc)) @ '' of '' @ itoan (length services) @ '' service(s)'' @ rest))"
      using run assms(2) by (auto simp: Let_def oki simp del: of_nat_diff split: if_splits)
    have none: "ra_failures acc = [] \<Longrightarrow> err = None"
      using run assms(2) by (simp add: Let_def)
    have ok: "ra_failures acc \<noteq> [] \<Longrightarrow>
       length services - length (ra_failures acc) - ra_skipped acc - length (ra_reboot acc) < length services"
      using assms(2) by (cases services; cases "ra_failures acc") auto
    show ?thesis
    proof (cases "ra_failures acc = []")
      case True
      with none res acc show ?thesis by (auto simp: empty_result_def)
    next
      case False
      with err [OF False] ok [OF False] res acc show ?thesis by (auto simp: empty_result_def)
    qed
  qed
qed

theorem restart_accounting_witness:
  "rr_success (fst (snd (restart_services (\<lambda>w cmd. (Suc w, [], None)) (0::nat) [''cron'', ''dbus''])))"
proof -
  let ?r = "restart_services (\<lambda>w cmd. (Suc w, [], None)) (0::nat) [''cron'', ''dbus'']"
  have r: "?r = (fst ?r, fst (snd ?r), snd (snd ?r))" by (simp only: prod.collapse)
  have e: "snd (snd ?r) = None" by code_simp
  from restart_accounting [OF r] e show ?thesis by simp
qed

section \<open>The batch results read back\<close>

text \<open>
  What the script of \<open>batchRestartScript\<close> prints for one unit: the marker, the unit, the exit status
  and the command's output, tabs between them. Anything else on the way is noise.
\<close>

definition result_line :: "string \<times> int \<times> string \<Rightarrow> string" where
  "result_line r = (case r of (svc, rc, out) \<Rightarrow>
     restart_batch_marker @ [TAB] @ svc @ [TAB] @ itoa rc @ [TAB] @ out)"

fun batch_print :: "string + string \<times> int \<times> string \<Rightarrow> string" where
  "batch_print (Inl noise) = noise"
| "batch_print (Inr r) = result_line r"

fun batch_print_ok :: "string + string \<times> int \<times> string \<Rightarrow> bool" where
  "batch_print_ok (Inl noise) \<longleftrightarrow> NL \<notin> set noise \<and> \<not> has_prefix noise (restart_batch_marker @ [TAB])"
| "batch_print_ok (Inr (svc, rc, out)) \<longleftrightarrow>
     NL \<notin> set svc \<and> TAB \<notin> set svc \<and> NL \<notin> set out \<and> int64_range rc"

fun batch_results :: "(string + string \<times> int \<times> string) list \<Rightarrow> (string \<times> int \<times> string) list" where
  "batch_results [] = []"
| "batch_results (Inl noise # xs) = batch_results xs"
| "batch_results (Inr (svc, rc, out) # xs) = (svc, rc, trim_space out) # batch_results xs"

lemma marker_no_sep: "NL \<notin> set restart_batch_marker" "TAB \<notin> set restart_batch_marker"
  by code_simp+

lemma TAB_NL: "TAB \<noteq> NL" "NL \<noteq> TAB"
  by code_simp+

lemma itoa_chars: "set (itoa i) \<subseteq> {CHR ''-''} \<union> {c. is_digit c}"
  using digits_all by (auto simp: itoa_def list_all_iff)

lemma itoa_no_sep: "NL \<notin> set (itoa i)" "TAB \<notin> set (itoa i)"
  using itoa_chars [of i] by (auto simp: NL_def TAB_def is_digit_def byte_of_def)

lemma trim_itoa: "trim_space (itoa i) = itoa i"
proof (rule trim_space_plain)
  have "plain_char c" if "c \<in> set (itoa i)" for c
    using itoa_chars [of i] that digit_not_space [of c]
    by (auto simp: plain_char_def ascii_space_def byte_of_def)
  then show "itoa i = [] \<or> plain_char (hd (itoa i)) \<and> plain_char (last (itoa i))"
    using hd_in_set last_in_set by blast
qed

lemma parse_result_line_print:
  assumes "TAB \<notin> set svc" "int64_range rc"
  shows "parse_result_line (result_line (svc, rc, out)) = Some (svc, rc, trim_space out)"
proof -
  have p: "has_prefix (result_line (svc, rc, out)) (restart_batch_marker @ [TAB])"
    by (simp add: has_prefix_def result_line_def)
  have "split_n (Suc (Suc (Suc (Suc 0)))) TAB (restart_batch_marker @ TAB # svc @ TAB # itoa rc @ TAB # out) =
      [restart_batch_marker, svc, itoa rc, out]"
    by (subst split_n_cons, rule marker_no_sep, subst split_n_cons, rule assms(1), subst split_n_cons,
        rule itoa_no_sep) simp
  then have "split_n 4 TAB (result_line (svc, rc, out)) = [restart_batch_marker, svc, itoa rc, out]"
    by (simp add: result_line_def eval_nat_numeral)
  with p assms(2) show ?thesis
    by (simp add: parse_result_line_def trim_itoa atoi_value_itoa)
qed

lemma parse_result_lines_print:
  "list_all batch_print_ok xs \<Longrightarrow>
     parse_result_lines (map batch_print xs) m = rev (batch_results xs) @ m"
proof (induction xs arbitrary: m)
  case (Cons x xs)
  then show ?case
    by (cases x rule: batch_print_ok.cases)
       (simp_all add: parse_result_line_print, simp add: parse_result_line_def)
qed simp

text \<open>
  The batch's results read back exactly: from the printed lines, with any noise between them,
  \<open>parseRestartBatch\<close> recovers for every unit the status and trimmed output of its last line, and
  nothing for a unit that printed no line.\<close>

theorem parse_restart_batch_print:
  assumes "xs \<noteq> []" "list_all batch_print_ok xs"
  shows "map_of (parse_restart_batch (join [NL] (map batch_print xs))) = map_of (rev (batch_results xs))"
proof -
  have "NL \<notin> set (batch_print x)" if "x \<in> set xs" for x
    using assms(2) that marker_no_sep itoa_no_sep TAB_NL
    by (cases x rule: batch_print_ok.cases) (auto simp: list_all_iff result_line_def)
  then have "split_on NL (join [NL] (map batch_print xs)) = map batch_print xs"
    using assms(1) by (intro split_on_join) auto
  with parse_result_lines_print [OF assms(2), of "[]"] show ?thesis
    by (simp add: parse_restart_batch_def)
qed

theorem parse_restart_batch_print_witness:
  "map_of (parse_restart_batch (join [NL] (map batch_print
      [Inl ''Warning: x'', Inr (''cron'', 5, '' Unit cron not found. ''), Inr (''nginx'', 0, [])]))) =
     map_of [(''nginx'', 0, []), (''cron'', 5, ''Unit cron not found.'')]"
proof -
  let ?xs = "[Inl ''Warning: x'', Inr (''cron'', 5, '' Unit cron not found. ''), Inr (''nginx'', 0, [])]
     :: (string + string \<times> int \<times> string) list"
  have "list_all batch_print_ok ?xs" by code_simp
  moreover have "rev (batch_results ?xs) = [(''nginx'', 0, []), (''cron'', 5, ''Unit cron not found.'')]" by code_simp
  ultimately show ?thesis using parse_restart_batch_print [of ?xs] by (simp only: list.distinct not_False_eq_True)
qed

section \<open>The accounting of RestartDeferredDetached\<close>

text \<open>After the units in \<open>S\<close>: one line each, and the three lists are disjoint parts of \<open>S\<close>.\<close>

definition deferred_inv :: "string set \<Rightarrow> deferred_acc \<Rightarrow> bool" where
  "deferred_inv S a \<longleftrightarrow>
     distinct (da_dispatched a @ da_failed a @ da_reboot a) \<and>
     set (da_dispatched a) \<union> set (da_failed a) \<union> set (da_reboot a) \<subseteq> S \<and>
     dom (da_done a) = S \<and> length (da_failures a) = length (da_failed a) \<and>
     (\<forall>s \<in> set (da_reboot a). is_risky s)"

lemma deferred_inv_empty: "deferred_inv {} empty_deferred"
  by (simp add: deferred_inv_def empty_deferred_def)

lemma deferred_inv_fail: "deferred_inv S a \<Longrightarrow> svc \<notin> S \<Longrightarrow> deferred_inv (insert svc S) (def_fail svc reason a)"
  by (auto simp: deferred_inv_def def_fail_def)

lemma deferred_inv_ok: "deferred_inv S a \<Longrightarrow> svc \<notin> S \<Longrightarrow> deferred_inv (insert svc S) (def_ok svc l a)"
  by (auto simp: deferred_inv_def def_ok_def)

lemma deferred_inv_skip:
  "deferred_inv S a \<Longrightarrow> svc \<notin> S \<Longrightarrow> deferred_inv (insert svc S) (a\<lparr>da_done := (da_done a)(svc \<mapsto> l)\<rparr>)"
  by (auto simp: deferred_inv_def)

lemma deferred_inv_reboot:
  "deferred_inv S a \<Longrightarrow> svc \<notin> S \<Longrightarrow> is_risky svc \<Longrightarrow>
     deferred_inv (insert svc S) (a\<lparr>da_reboot := da_reboot a @ [svc], da_done := (da_done a)(svc \<mapsto> l)\<rparr>)"
  by (auto simp: deferred_inv_def)

lemmas deferred_inv_steps = deferred_inv_fail deferred_inv_ok deferred_inv_skip deferred_inv_reboot

lemma deferred_inv_outcome:
  "deferred_inv S a \<Longrightarrow> svc \<notin> S \<Longrightarrow> deferred_inv (insert svc S) (batch_outcome parsed ef err svc a)"
  by (simp add: batch_outcome_def Let_def deferred_inv_steps split: option.split prod.split)

lemma deferred_inv_batch:
  "deferred_inv S a \<Longrightarrow> distinct xs \<Longrightarrow> set xs \<inter> S = {} \<Longrightarrow>
     deferred_inv (S \<union> set xs) (fold (batch_outcome parsed ef err) xs a)"
proof (induction xs arbitrary: S a)
  case (Cons x xs)
  have "deferred_inv (insert x S) (batch_outcome parsed ef err x a)"
    using Cons.prems by (intro deferred_inv_outcome) auto
  from Cons.IH [OF this] Cons.prems show ?case by simp
qed simp

lemma deferred_inv_run_batch:
  assumes "run_batch priv w xs a = (w', Inr a')" "deferred_inv S a" "distinct xs" "set xs \<inter> S = {}"
  shows "deferred_inv (S \<union> set xs) a'"
  using assms deferred_inv_batch [OF assms(2-4)]
  by (auto simp: run_batch_def Let_def split: if_splits prod.splits)

lemma deferred_inv_run_special:
  "run_special priv w xs a = (w', Inr a') \<Longrightarrow> deferred_inv S a \<Longrightarrow> distinct xs \<Longrightarrow> set xs \<inter> S = {} \<Longrightarrow>
     (\<forall>x \<in> set xs. is_risky x) \<Longrightarrow> deferred_inv (S \<union> set xs) a'"
proof (induction xs arbitrary: w a S)
  case (Cons x xs)
  obtain w1 out err where p: "priv w (deferred_restart_cmd x) = (w1, out, err)" by (metis prod_cases3)
  obtain a1 where a1: "run_special priv w1 xs a1 = (w', Inr a')" "deferred_inv (insert x S) a1"
    using Cons.prems by (auto simp: p deferred_inv_steps split: if_splits)
  from Cons.IH [OF this] Cons.prems show ?case by simp
qed simp

lemma run_batch_host_key: "run_batch priv w xs a = (w', Inl e) \<Longrightarrow> is_host_key_err (Some e)"
  by (auto simp: run_batch_def Let_def is_host_key_err_the split: if_splits prod.splits)

lemma run_special_host_key: "run_special priv w xs a = (w', Inl e) \<Longrightarrow> is_host_key_err (Some e)"
  by (induction xs arbitrary: w a) (auto simp: is_host_key_err_the split: prod.splits if_splits)

lemma split_restart_batch_filter:
  "split_restart_batch ss = (filter (\<lambda>s. \<not> is_risky s) ss, filter is_risky ss)"
  by (induction ss) auto

lemma map_filter_total: "set ss \<subseteq> dom m \<Longrightarrow> List.map_filter m ss = map (\<lambda>s. the (m s)) ss"
  by (induction ss) (auto simp: List.map_filter_def)

text \<open>
  The detached restart of distinct units accounts for each exactly once: unless a host key is
  refused, no unit is in two of dispatched, failed and reboot-required, only risky units need a
  reboot, the run succeeds exactly when nothing failed and no error is returned, and the output has
  one line for every unit in the order of the request.\<close>

theorem deferred_partition:
  assumes "restart_deferred_detached priv w ss = (w', res, err)" "distinct ss" "ss \<noteq> []"
    and "\<not> is_host_key_err err"
  shows "distinct (rr_dispatched res @ rr_failed res @ rr_reboot_required res) \<and>
     set (rr_dispatched res @ rr_failed res @ rr_reboot_required res) \<subseteq> set ss \<and>
     (\<forall>s \<in> set (rr_reboot_required res). is_risky s) \<and>
     (rr_success res \<longleftrightarrow> rr_failed res = []) \<and> (rr_success res \<longleftrightarrow> err = None) \<and>
     (\<exists>line. rr_output res = join [NL] (map line ss))"
proof -
  obtain w1 r1 where b: "run_batch priv w (filter (\<lambda>s. \<not> is_risky s) ss) empty_deferred = (w1, r1)"
    by (metis surj_pair)
  note run = assms(1) [unfolded restart_deferred_detached_def split_restart_batch_filter prod.case b]
  show ?thesis
  proof (cases r1)
    case (Inl e)
    from run_batch_host_key [OF b [unfolded Inl]] run [unfolded Inl] assms(3,4) show ?thesis by auto
  next
    case (Inr a1)
    have inv1: "deferred_inv (set ss - {s. is_risky s}) a1"
      using deferred_inv_run_batch [OF b [unfolded Inr] deferred_inv_empty] assms(2)
      by (simp add: set_diff_eq)
    obtain w2 r2 where s: "run_special priv w1 (filter is_risky ss) a1 = (w2, r2)" by (metis surj_pair)
    note run = run [unfolded Inr prod.case sum.case s]
    show ?thesis
    proof (cases r2)
      case (Inl e)
      from run_special_host_key [OF s [unfolded Inl]] run [unfolded Inl] assms(3,4) show ?thesis by auto
    next
      case (Inr a)
      have "deferred_inv ((set ss - {s. is_risky s}) \<union> set (filter is_risky ss)) a"
        using s [unfolded Inr] inv1 by (rule deferred_inv_run_special) (use assms(2) in auto)
      moreover have "(set ss - {s. is_risky s}) \<union> set (filter is_risky ss) = set ss" by auto
      ultimately have inv: "deferred_inv (set ss) a" by simp
      have res: "res = \<lparr>rr_services = ss, rr_success = (length (da_failures a) = 0),
           rr_output = join [NL] (List.map_filter (da_done a) ss),
           rr_reboot_required = da_reboot a, rr_dispatched = da_dispatched a, rr_failed = da_failed a\<rparr>"
        "err = None \<longleftrightarrow> da_failures a = []"
        using run [unfolded Inr] assms(3) by (auto simp: Let_def split: if_splits)
      from inv have "List.map_filter (da_done a) ss = map (\<lambda>s. the (da_done a s)) ss"
        by (intro map_filter_total) (simp add: deferred_inv_def)
      with inv res show ?thesis by (auto simp: deferred_inv_def)
    qed
  qed
qed

theorem deferred_partition_witness:
  "rr_reboot_required (fst (snd (restart_deferred_detached (\<lambda>w cmd. (Suc w, handler_absent_marker, None))
      (0::nat) [''dbus'']))) \<noteq> [] \<and>
   rr_success (fst (snd (restart_deferred_detached (\<lambda>w cmd. (Suc w, handler_absent_marker, None))
      (0::nat) [''dbus''])))"
proof -
  let ?r = "restart_deferred_detached (\<lambda>w cmd. (Suc w, handler_absent_marker, None)) (0::nat) [''dbus'']"
  have r: "?r = (fst ?r, fst (snd ?r), snd (snd ?r))" by (simp only: prod.collapse)
  have e: "snd (snd ?r) = None" and b: "rr_reboot_required (fst (snd ?r)) \<noteq> []" by code_simp+
  from e have hk: "\<not> is_host_key_err (snd (snd ?r))" by (simp only: is_host_key_err.simps not_False_eq_True)
  have "rr_success (fst (snd ?r)) \<longleftrightarrow> snd (snd ?r) = None"
    using deferred_partition [OF r distinct_singleton not_Cons_self2 hk] by blast
  with e b show ?thesis by blast
qed

end
