(* ===== verification/ScanParse.thy ===== *)
theory ScanParse
  imports Restart
begin

text \<open>
  Reading the output of \<open>scanCmd\<close> in \<open>internal/sshx/client.go\<close>: the regular expressions for apt's
  lines, the system information, the deferred packages of the simulated upgrade and
  \<open>parseScanOutput\<close>. Slicing a string out of bounds panics in Go, so every function that slices
  returns an option, \<open>None\<close> being the panic.
\<close>

section \<open>Slices and cuts\<close>

definition slice :: "string \<Rightarrow> nat \<Rightarrow> nat \<Rightarrow> string option" where
  "slice s a b = (if a \<le> b \<and> b \<le> length s then Some (take (b - a) (drop a s)) else None)"

text \<open>\<open>strings.SplitN(s, sep, n)\<close> for a separator of several bytes and \<open>n > 0\<close>.\<close>

fun split_n_str :: "nat \<Rightarrow> string \<Rightarrow> string \<Rightarrow> string list" where
  "split_n_str 0 sep s = []"
| "split_n_str (Suc 0) sep s = [s]"
| "split_n_str (Suc (Suc n)) sep s =
     (case index_of s sep of
        None \<Rightarrow> [s]
      | Some i \<Rightarrow> take i s # split_n_str (Suc n) sep (drop (i + length sep) s))"

section \<open>The lines of apt list\<close>

text \<open>
  \<open>aptLineRe\<close> is \<open>^([^/]+)/(\S+)\s+(\S+)\s+(\S+)\s+\[upgradable from:\s+(\S+?)\]\<close>. A run of
  \<open>\S\<close> followed by \<open>\s\<close>, and a run of \<open>\s\<close> followed by a non-space, can only match in full, so
  matching needs no backtracking; the lazy last group ends at the first bracket after its first byte.
\<close>

definition re_space :: "char \<Rightarrow> bool" where
  "re_space c \<longleftrightarrow> c \<in> set [CHR '' '', CHR 0x09, CHR 0x0A, CHR 0x0C, CHR 0x0D]"

definition re_word :: "string \<Rightarrow> (string \<times> string) option" where
  "re_word s =
     (let w = takeWhile (\<lambda>c. \<not> re_space c) s in
      if w = [] then None else Some (w, dropWhile (\<lambda>c. \<not> re_space c) s))"

definition re_spaces :: "string \<Rightarrow> string option" where
  "re_spaces s = (if takeWhile re_space s = [] then None else Some (dropWhile re_space s))"

definition re_lit :: "string \<Rightarrow> string \<Rightarrow> string option" where
  "re_lit p s = (if prefix p s then Some (drop (length p) s) else None)"

fun re_until_bracket :: "string \<Rightarrow> string option" where
  "re_until_bracket [] = None"
| "re_until_bracket (c # cs) =
     (if c = CHR '']'' then Some [] else if re_space c then None
      else map_option (\<lambda>w. c # w) (re_until_bracket cs))"

fun re_lazy_word :: "string \<Rightarrow> string option" where
  "re_lazy_word [] = None"
| "re_lazy_word (c # cs) = (if re_space c then None else map_option (\<lambda>w. c # w) (re_until_bracket cs))"

definition apt_line_re :: "string \<Rightarrow> (string \<times> string \<times> string \<times> string \<times> string) option" where
  "apt_line_re line =
     (let name = takeWhile (\<lambda>c. c \<noteq> CHR ''/'') line; rest = dropWhile (\<lambda>c. c \<noteq> CHR ''/'') line in
      if name = [] \<or> rest = [] then None
      else do {
        (source, s) \<leftarrow> re_word (tl rest);
        s \<leftarrow> re_spaces s;
        (version, s) \<leftarrow> re_word s;
        s \<leftarrow> re_spaces s;
        (arch, s) \<leftarrow> re_word s;
        s \<leftarrow> re_spaces s;
        s \<leftarrow> re_lit ''[upgradable from:'' s;
        s \<leftarrow> re_spaces s;
        from_version \<leftarrow> re_lazy_word s;
        Some (name, source, version, arch, from_version)
      })"

text \<open>\<open>aptPhasedRe\<close>: \<open>\(phased \d+%\)\<close> anywhere in the line.\<close>

definition phased_at :: "string \<Rightarrow> bool" where
  "phased_at s \<longleftrightarrow> prefix ''(phased '' s \<and>
     (let r = drop 8 s in takeWhile is_digit r \<noteq> [] \<and> prefix ''%)'' (dropWhile is_digit r))"

definition apt_phased_re :: "string \<Rightarrow> bool" where
  "apt_phased_re line \<longleftrightarrow> list_ex phased_at (suffixes line)"

definition name_only :: "string \<Rightarrow> package_info" where
  "name_only n = \<lparr>p_name = n, p_current = [], p_new = [], p_arch = [], p_source = [], p_defer = []\<rparr>"

definition parse_apt_line :: "string \<Rightarrow> package_info \<times> bool" where
  "parse_apt_line line =
     (let phased = apt_phased_re line in
      case apt_line_re line of
        None \<Rightarrow>
          (case index_of line ''/'' of
             Some idx \<Rightarrow> if idx > 0 then (name_only (take idx line), phased) else (name_only line, phased)
           | None \<Rightarrow> (name_only line, phased))
      | Some (name, source, version, arch, from_version) \<Rightarrow>
          (\<lparr>p_name = name, p_current = from_version, p_new = version, p_arch = arch, p_source = source,
            p_defer = []\<rparr>, phased))"

section \<open>System information\<close>

definition os_value :: "string \<Rightarrow> string \<Rightarrow> string" where
  "os_value line key = trim_of (trim_prefix line key) [dquote, squote]"

fun os_release :: "string list \<Rightarrow> string \<times> string \<Rightarrow> string \<times> string" where
  "os_release [] r = r"
| "os_release (ln # lns) (name, version) =
     (let line = trim_space ln;
          name = (if has_prefix line ''PRETTY_NAME='' then os_value line ''PRETTY_NAME='' else name);
          version = (if has_prefix line ''VERSION_ID='' then os_value line ''VERSION_ID='' else version)
      in os_release lns (name, version))"

definition sysinfo_start :: string where "sysinfo_start = ''__SYSINFO_START__''"
definition sysinfo_end :: string where "sysinfo_end = ''__SYSINFO_END__''"
definition sysinfo_sep :: string where "sysinfo_sep = ''__SYSINFO_SEP__''"

definition sysinfo_block :: "string \<Rightarrow> string \<times> string \<times> string \<times> string" where
  "sysinfo_block block =
     (let parts = split_n_str 3 sysinfo_sep block;
          (os_name, os_version) = (if length parts > 0 then os_release (split_on NL (parts ! 0)) ([], []) else ([], []));
          uptime = (if length parts > 1 then trim_prefix (trim_space (parts ! 1)) ''up '' else []);
          kernel = (if length parts > 2 then trim_space (parts ! 2) else [])
      in (os_name, os_version, uptime, kernel))"

definition parse_sysinfo :: "string \<Rightarrow> (string \<times> string \<times> string \<times> string) option" where
  "parse_sysinfo raw =
     (case (index_of raw sysinfo_start, index_of raw sysinfo_end) of
        (Some start_idx, Some end_idx) \<Rightarrow>
          if end_idx \<le> start_idx then Some ([], [], [], [])
          else map_option sysinfo_block (slice raw (start_idx + length sysinfo_start) end_idx)
      | _ \<Rightarrow> Some ([], [], [], []))"

section \<open>Deferred packages\<close>

definition defer_reason :: "string \<Rightarrow> string" where
  "defer_reason ln =
     (let lower = to_lower ln in
      if contains lower ''deferred due to phasing'' then ''phased''
      else if contains lower ''kept back'' \<or> contains lower ''held back'' then ''held''
      else [])"

text \<open>The map of reasons is read with the empty string for an absent name: a reason is never empty.\<close>

fun deferred_lines :: "string list \<Rightarrow> string \<Rightarrow> (string \<rightharpoonup> string) \<Rightarrow> (string \<rightharpoonup> string)" where
  "deferred_lines [] reason res = res"
| "deferred_lines (ln # lns) reason res =
     (if has_prefix ln ''The following'' then deferred_lines lns (defer_reason ln) res
      else if reason \<noteq> [] \<and> ln \<noteq> [] \<and> (hd ln = CHR '' '' \<or> hd ln = TAB) then
        deferred_lines lns reason (fold (\<lambda>name m. m(name \<mapsto> reason)) (go_fields ln) res)
      else if trim_space ln \<noteq> [] then deferred_lines lns [] res
      else deferred_lines lns reason res)"

definition parse_deferred_from_sim :: "string \<Rightarrow> (string \<rightharpoonup> string)" where
  "parse_deferred_from_sim sim = deferred_lines (split_on NL sim) [] Map.empty"

section \<open>parseScanOutput\<close>

definition distupgrade_start :: string where "distupgrade_start = ''__DISTUPGRADE_SIM_START__''"
definition distupgrade_end :: string where "distupgrade_end = ''__DISTUPGRADE_SIM_END__''"
definition bootid_start :: string where "bootid_start = ''__BOOTID_START__''"
definition bootid_end :: string where "bootid_end = ''__BOOTID_END__''"
definition nrhandlers_start :: string where "nrhandlers_start = ''__NRHANDLERS_START__''"
definition nrhandlers_end :: string where "nrhandlers_end = ''__NRHANDLERS_END__''"
definition reboot_pkgs_start :: string where "reboot_pkgs_start = ''__REBOOT_PKGS_START__''"
definition reboot_pkgs_end :: string where "reboot_pkgs_end = ''__REBOOT_PKGS_END__''"
definition reboot_marker :: string where "reboot_marker = ''__REBOOT__''"
definition apt_failed_marker :: string where "apt_failed_marker = ''__APT_UPDATE_FAILED__''"
definition svc_prefix :: string where "svc_prefix = ''NEEDRESTART-SVC:''"
definition upgradable_text :: string where "upgradable_text = ''upgradable from:''"

definition remove_block :: "string \<Rightarrow> nat \<Rightarrow> nat \<Rightarrow> string \<Rightarrow> string" where
  "remove_block s a b end_marker = take a s @ drop (b + length end_marker) s"

text \<open>\<open>extractBlock\<close>: the content and the rest; the simulation's block is cut out the same way.\<close>

definition extract_block :: "string \<Rightarrow> string \<Rightarrow> string \<Rightarrow> (string \<times> string) option" where
  "extract_block s start_marker end_marker =
     (case (index_of s start_marker, index_of s end_marker) of
        (Some a, Some b) \<Rightarrow>
          if b > a then
            map_option (\<lambda>c. (c, remove_block s a b end_marker)) (slice s (a + length start_marker) b)
          else Some ([], s)
      | _ \<Rightarrow> Some ([], s))"

definition strip_sysinfo :: "string \<Rightarrow> string" where
  "strip_sysinfo raw =
     (case (index_of raw sysinfo_start, index_of raw sysinfo_end) of
        (Some a, Some b) \<Rightarrow> remove_block raw a b sysinfo_end
      | _ \<Rightarrow> raw)"

definition handler_entry :: "string \<Rightarrow> (string \<Rightarrow> bool) \<Rightarrow> (string \<Rightarrow> bool)" where
  "handler_entry ln m =
     (case cut (trim_space ln) ''|'' of (svc, val, ok) \<Rightarrow>
        if ok \<and> svc \<noteq> [] then m(svc := trim_space val = ''1'') else m)"

definition reboot_lines :: "string list \<Rightarrow> string" where
  "reboot_lines lns = join '', '' (filter (\<lambda>l. l \<noteq> []) (map trim_space lns))"

text \<open>The reboot block has no test that its end follows its start: the slice can be out of bounds.\<close>

definition reboot_block :: "string \<Rightarrow> (string \<times> string) option" where
  "reboot_block s =
     (case (index_of s reboot_pkgs_start, index_of s reboot_pkgs_end) of
        (Some a, Some b) \<Rightarrow>
          map_option (\<lambda>c. (reboot_lines (split_on NL c), remove_block s a b reboot_pkgs_end))
            (slice s (a + length reboot_pkgs_start) b)
      | _ \<Rightarrow> Some ([], s))"

type_synonym scan_lists = "package_info list \<times> package_info list \<times> string list"

definition skip_line :: "string \<Rightarrow> bool" where
  "skip_line line \<longleftrightarrow> line = [] \<or> has_prefix line ''Listing'' \<or> has_prefix line ''WARNING'' \<or> has_prefix line ''__''"

definition scan_package :: "(string \<rightharpoonup> string) \<Rightarrow> string \<Rightarrow> scan_lists \<Rightarrow> scan_lists" where
  "scan_package reasons line acc =
     (case acc of (pkgs, deferred, services) \<Rightarrow>
        if contains line '' / '' \<or> contains line upgradable_text then
          (case parse_apt_line line of (pkg, phased) \<Rightarrow>
             (case reasons (p_name pkg) of
                Some reason \<Rightarrow> (pkgs, deferred @ [pkg\<lparr>p_defer := reason\<rparr>], services)
              | None \<Rightarrow>
                  if phased then (pkgs, deferred @ [pkg\<lparr>p_defer := ''phased''\<rparr>], services)
                  else (pkgs @ [pkg], deferred, services)))
        else acc)"

definition scan_service :: "string \<Rightarrow> scan_lists \<Rightarrow> scan_lists" where
  "scan_service line acc =
     (case acc of (pkgs, deferred, services) \<Rightarrow>
        if has_prefix line svc_prefix then
          (let svc = trim_space (trim_prefix line svc_prefix) in
           if svc \<noteq> [] \<and> \<not> is_user_manager_unit svc then (pkgs, deferred, services @ [svc]) else acc)
        else acc)"

definition scan_line :: "(string \<rightharpoonup> string) \<Rightarrow> string \<Rightarrow> scan_lists \<Rightarrow> scan_lists" where
  "scan_line reasons ln acc =
     (let line = trim_space ln in
      if skip_line line then acc else scan_service line (scan_package reasons line acc))"

definition scan_lines :: "(string \<rightharpoonup> string) \<Rightarrow> string list \<Rightarrow> scan_lists" where
  "scan_lines reasons lns = fold (scan_line reasons) lns ([], [], [])"

definition parse_scan_output :: "string \<Rightarrow> scan_result option" where
  "parse_scan_output raw =
     do {
       (os_name, os_version, uptime, kernel) \<leftarrow> parse_sysinfo raw;
       let clean0 = strip_sysinfo raw;
       (sim, clean1) \<leftarrow> extract_block clean0 distupgrade_start distupgrade_end;
       let reasons = (if clean1 \<noteq> clean0 then parse_deferred_from_sim sim else Map.empty);
       (boot, clean2) \<leftarrow> extract_block clean1 bootid_start bootid_end;
       let boot_id = (if clean2 \<noteq> clean1 then trim_space boot else []);
       (content, clean3) \<leftarrow> extract_block clean2 nrhandlers_start nrhandlers_end;
       let handlers = (if clean3 \<noteq> clean2 then fold handler_entry (split_on NL content) (\<lambda>_. False) else (\<lambda>_. False));
       (reason, clean4) \<leftarrow> reboot_block clean3;
       let (pkgs, deferred, services) = scan_lines reasons (split_on NL clean4);
       Some \<lparr>sr_packages = pkgs, sr_deferred = deferred, sr_needs_reboot = contains clean4 reboot_marker,
         sr_reboot_reason = reason, sr_needs_restart = services,
         sr_needrestart_found = (\<not> contains clean4 needrestart_missing_marker),
         sr_apt_failed = contains clean4 apt_failed_marker, sr_raw = raw, sr_os_name = os_name,
         sr_os_version = os_version, sr_uptime = uptime, sr_kernel = kernel, sr_boot_id = boot_id,
         sr_handlers = handlers\<rparr>
     }"

section \<open>The script of a scan\<close>

definition scan_script :: "string list" where
  "scan_script = [
     ''export LANG=C LC_ALL=C DEBIAN_FRONTEND=noninteractive'',
     ''if ! apt-get update 1>&2; then echo __APT_UPDATE_FAILED__; fi'',
     ''apt list --upgradable 2>/dev/null | tail -n +2'',
     ''echo '' @ [dquote] @ ''__DISTUPGRADE_SIM_START__'' @ [dquote] @
       ''; apt-get -s dist-upgrade 2>/dev/null || true; echo '' @ [dquote] @ ''__DISTUPGRADE_SIM_END__'' @ [dquote],
     ''test -f /var/run/reboot-required && echo __REBOOT__ || true'',
     ''test -f /var/run/reboot-required.pkgs && { echo '' @ [dquote] @ ''__REBOOT_PKGS_START__'' @ [dquote] @
       ''; cat /var/run/reboot-required.pkgs 2>/dev/null; echo '' @ [dquote] @ ''__REBOOT_PKGS_END__'' @ [dquote] @
       ''; } || true'',
     ''if command -v needrestart >/dev/null 2>&1; then NR=$(needrestart -b 2>/dev/null || true); echo '' @ [dquote] @
       ''$NR'' @ [dquote] @ ''; echo '' @ [dquote] @ ''__NRHANDLERS_START__'' @ [dquote] @ ''; echo '' @ [dquote] @
       ''$NR'' @ [dquote] @ '' | sed -n '' @ [squote] @ ''s/^NEEDRESTART-SVC:['' @ ''[:space:]'' @ '']*//p'' @
       [squote] @ '' | while IFS= read -r nrsvc; do [ -n '' @ [dquote] @ ''$nrsvc'' @ [dquote] @
       '' ] || continue; if [ -x '' @ [dquote] @ ''/etc/needrestart/restart.d/$nrsvc'' @ [dquote] @
       '' ]; then echo '' @ [dquote] @ ''$nrsvc|1'' @ [dquote] @ ''; else echo '' @ [dquote] @ ''$nrsvc|0'' @
       [dquote] @ ''; fi; done; echo '' @ [dquote] @ ''__NRHANDLERS_END__'' @ [dquote] @
       ''; else echo __NEEDRESTART_MISSING__; fi'',
     ''echo '' @ [dquote] @ ''__BOOTID_START__'' @ [dquote] @
       ''; cat /proc/sys/kernel/random/boot_id 2>/dev/null || true; echo '' @ [dquote] @ ''__BOOTID_END__'' @ [dquote],
     ''echo '' @ [dquote] @ ''__SYSINFO_START__'' @ [dquote] @ ''; cat /etc/os-release 2>/dev/null || true; echo '' @
       [dquote] @ ''__SYSINFO_SEP__'' @ [dquote] @ ''; uptime -p 2>/dev/null || uptime 2>/dev/null || true; echo '' @
       [dquote] @ ''__SYSINFO_SEP__'' @ [dquote] @ ''; uname -r 2>/dev/null || true; echo '' @ [dquote] @
       ''__SYSINFO_END__'' @ [dquote]]"

definition scan_cmd :: string where
  "scan_cmd = join [NL] scan_script"

text \<open>\<open>ScanHost\<close>: the error of the privileged run, else the parsed output.\<close>

definition scan_host :: "'w priv \<Rightarrow> 'w \<Rightarrow> 'w \<times> (ssh_err + scan_result option)" where
  "scan_host priv w =
     (case priv w scan_cmd of
        (w', raw, Some err) \<Rightarrow> (w', Inl err)
      | (w', raw, None) \<Rightarrow> (w', Inr (parse_scan_output raw)))"

section \<open>Finding markers among lines\<close>

definition unlines :: "string list \<Rightarrow> string" where
  "unlines ls = concat (map (\<lambda>l. l @ [NL]) ls)"

lemma unlines_simps [simp]:
  "unlines [] = []" "unlines (l # ls) = l @ NL # unlines ls" "unlines (ls @ ms) = unlines ls @ unlines ms"
  by (simp_all add: unlines_def)

lemma prefix_line: "NL \<notin> set m \<Longrightarrow> prefix m (l @ NL # r) \<longleftrightarrow> prefix m l"
proof (induction l arbitrary: m)
  case Nil
  then show ?case by (cases m) auto
next
  case (Cons c l)
  then show ?case by (cases m) auto
qed

lemma index_of_line:
  "NL \<notin> set m \<Longrightarrow> m \<noteq> [] \<Longrightarrow> \<not> contains l m \<Longrightarrow>
     index_of (l @ NL # r) m = map_option (\<lambda>i. i + Suc (length l)) (index_of r m)"
proof (induction l)
  case Nil
  then show ?case using prefix_line [of m "[]" r] by (simp add: option.map_comp comp_def)
next
  case (Cons c l)
  from Cons.prems have p: "\<not> prefix m (c # l)" and l: "\<not> contains l m"
    by (auto simp: contains_def split: if_splits)
  have "\<not> prefix m (c # l @ NL # r)" using prefix_line [OF Cons.prems(1), of "c # l" r] p by simp
  with Cons.IH [OF Cons.prems(1,2) l] show ?case by (simp add: option.map_comp comp_def)
qed

lemma index_of_unlines:
  "NL \<notin> set m \<Longrightarrow> m \<noteq> [] \<Longrightarrow> \<forall>l \<in> set ls. \<not> contains l m \<Longrightarrow>
     index_of (unlines ls @ r) m = map_option (\<lambda>i. i + length (unlines ls)) (index_of r m)"
proof (induction ls)
  case Nil
  then show ?case by (cases "index_of r m") simp_all
next
  case (Cons l ls)
  then show ?case by (cases "index_of r m") (simp_all add: index_of_line)
qed

lemma index_of_self: "index_of (m @ r) m = Some 0"
  by (cases m) (cases r, simp_all)

lemma contains_unlines:
  "NL \<notin> set m \<Longrightarrow> m \<noteq> [] \<Longrightarrow> contains (unlines ls) m \<longleftrightarrow> (\<exists>l \<in> set ls. contains l m)"
proof (induction ls)
  case (Cons l ls)
  show ?case
  proof (cases "contains l m")
    case True
    then have "contains (unlines (l # ls)) m" by (auto simp: contains_iff sublist_append)
    with True show ?thesis by simp
  next
    case False
    with Cons show ?thesis by (simp add: contains_def index_of_line)
  qed
qed (simp add: contains_def)

lemma split_on_unlines: "\<forall>l \<in> set ls. NL \<notin> set l \<Longrightarrow> split_on NL (unlines ls) = ls @ [[]]"
  by (induction ls) (simp_all add: split_on_append)

lemma slice_mid: "slice (x @ y @ z) (length x) (length x + length y) = Some y"
  by (simp add: slice_def)

definition markers :: "string list" where
  "markers = [sysinfo_start, sysinfo_end, sysinfo_sep, distupgrade_start, distupgrade_end, bootid_start, bootid_end,
     nrhandlers_start, nrhandlers_end, reboot_pkgs_start, reboot_pkgs_end, reboot_marker, apt_failed_marker,
     needrestart_missing_marker]"

text \<open>A line of content: one line that has none of the markers in it.\<close>

definition plain_line :: "string \<Rightarrow> bool" where
  "plain_line l \<longleftrightarrow> NL \<notin> set l \<and> list_all (\<lambda>m. \<not> contains l m) markers"

lemma markers_apart:
  "list_all (\<lambda>m. NL \<notin> set m \<and> m \<noteq> [] \<and> has_prefix m ''__'' \<and>
     list_all (\<lambda>l. l = m \<or> \<not> contains l m) markers) markers"
  by code_simp

lemma marker_props:
  assumes "m \<in> set markers"
  shows "NL \<notin> set m" "m \<noteq> []" "has_prefix m ''__''"
    "l \<in> set markers \<Longrightarrow> l \<noteq> m \<Longrightarrow> \<not> contains l m"
  using markers_apart assms by (auto simp: list_all_iff)

lemma plain_line_no_marker: "plain_line l \<Longrightarrow> m \<in> set markers \<Longrightarrow> \<not> contains l m"
  by (simp add: plain_line_def list_all_iff)

text \<open>The lines a marker can be looked for in: content and the other markers.\<close>

definition text_line :: "string \<Rightarrow> string \<Rightarrow> bool" where
  "text_line m l \<longleftrightarrow> plain_line l \<or> l \<in> set markers - {m}"

lemma text_line_no_marker: "m \<in> set markers \<Longrightarrow> text_line m l \<Longrightarrow> \<not> contains l m"
  using plain_line_no_marker marker_props(4) by (auto simp: text_line_def)

lemma plain_line_Nil [simp]: "plain_line []"
  using marker_props(2) by (auto simp: plain_line_def contains_def list_all_iff)

lemma index_of_marker:
  assumes "m \<in> set markers" "list_all (text_line m) ls"
  shows "index_of (unlines ls @ m @ r) m = Some (length (unlines ls))"
  using assms index_of_unlines [of m ls "m @ r"] marker_props [OF assms(1)] text_line_no_marker [OF assms(1)]
  by (simp add: index_of_self list_all_iff)

lemma extract_block_lines:
  assumes m: "s \<in> set markers" "e \<in> set markers" "s \<noteq> e"
    and A: "list_all (text_line s) A" "list_all (text_line e) A" and B: "list_all (text_line e) B"
  shows "extract_block (unlines (A @ s # B @ e # C)) s e = Some (unlines ([] # B), unlines (A @ [] # C))"
proof -
  have s: "index_of (unlines (A @ s # B @ e # C)) s = Some (length (unlines A))"
    using index_of_marker [OF m(1) A(1)] by simp
  have "list_all (text_line e) (A @ s # B)" using A(2) B m by (simp add: text_line_def)
  from index_of_marker [OF m(2) this, of "NL # unlines C"]
  have e: "index_of (unlines (A @ s # B @ e # C)) e = Some (length (unlines (A @ s # B)))" by simp
  have "slice ((unlines A @ s) @ (NL # unlines B) @ (e @ NL # unlines C)) (length (unlines A @ s))
      (length (unlines A @ s) + length (NL # unlines B)) = Some (NL # unlines B)" by (rule slice_mid)
  then have sl: "slice (unlines (A @ s # B @ e # C)) (length (unlines A) + length s) (length (unlines (A @ s # B))) =
      Some (NL # unlines B)" by (simp add: add.assoc)
  show ?thesis unfolding extract_block_def s e by (simp add: sl [simplified] remove_block_def)
qed

section \<open>What the script prints\<close>

text \<open>
  The output of \<open>scanCmd\<close> on one host, block by block: the upgradable packages, the simulated
  upgrade, the reboot flag and its packages, needrestart's report and the units with a handler when
  needrestart is installed, the boot id, the OS release, the uptime and the kernel. The final line
  feed is trimmed by the runner.
\<close>

record host_output =
  ho_apt_failed :: bool
  ho_apt :: "string list"
  ho_sim :: "string list"
  ho_reboot :: bool
  ho_reboot_pkgs :: "string list option"
  ho_needrestart :: "(string list \<times> string list) option"
  ho_boot_id :: string
  ho_os :: "string list"
  ho_uptime :: string
  ho_kernel :: string

definition block_lines :: "string \<Rightarrow> string list \<Rightarrow> string \<Rightarrow> string list" where
  "block_lines s ls e = s # ls @ [e]"

definition head_lines :: "host_output \<Rightarrow> string list" where
  "head_lines h = (if ho_apt_failed h then [apt_failed_marker] else []) @ ho_apt h"

definition reboot_flag_lines :: "host_output \<Rightarrow> string list" where
  "reboot_flag_lines h = (if ho_reboot h then [reboot_marker] else [])"

definition reboot_pkg_lines :: "host_output \<Rightarrow> string list" where
  "reboot_pkg_lines h =
     (case ho_reboot_pkgs h of None \<Rightarrow> [] | Some ps \<Rightarrow> block_lines reboot_pkgs_start ps reboot_pkgs_end)"

definition needrestart_lines :: "host_output \<Rightarrow> string list" where
  "needrestart_lines h =
     (case ho_needrestart h of
        None \<Rightarrow> [needrestart_missing_marker]
      | Some (nr, hs) \<Rightarrow> nr @ block_lines nrhandlers_start hs nrhandlers_end)"

definition scan_output :: "host_output \<Rightarrow> string" where
  "scan_output h =
     unlines (head_lines h @ block_lines distupgrade_start (ho_sim h) distupgrade_end @
       reboot_flag_lines h @ reboot_pkg_lines h @ needrestart_lines h @
       block_lines bootid_start [ho_boot_id h] bootid_end) @
     sysinfo_start @ [NL] @ unlines (ho_os h) @ sysinfo_sep @ [NL] @ ho_uptime h @ [NL] @ sysinfo_sep @ [NL] @
     ho_kernel h @ [NL] @ sysinfo_end"

definition nr_report :: "host_output \<Rightarrow> string list" where
  "nr_report h = (case ho_needrestart h of None \<Rightarrow> [] | Some (nr, hs) \<Rightarrow> nr)"

definition nr_handlers :: "host_output \<Rightarrow> string list" where
  "nr_handlers h = (case ho_needrestart h of None \<Rightarrow> [] | Some (nr, hs) \<Rightarrow> hs)"

definition content_lines :: "host_output \<Rightarrow> string list" where
  "content_lines h = ho_apt h @ ho_sim h @ (case ho_reboot_pkgs h of None \<Rightarrow> [] | Some ps \<Rightarrow> ps) @
     nr_report h @ nr_handlers h @ [ho_boot_id h] @ ho_os h @ [ho_uptime h, ho_kernel h]"

lemma marker_members:
  "sysinfo_start \<in> set markers" "sysinfo_end \<in> set markers" "sysinfo_sep \<in> set markers"
  "distupgrade_start \<in> set markers" "distupgrade_end \<in> set markers" "bootid_start \<in> set markers"
  "bootid_end \<in> set markers" "nrhandlers_start \<in> set markers" "nrhandlers_end \<in> set markers"
  "reboot_pkgs_start \<in> set markers" "reboot_pkgs_end \<in> set markers" "reboot_marker \<in> set markers"
  "apt_failed_marker \<in> set markers" "needrestart_missing_marker \<in> set markers"
  by (simp_all add: markers_def)

lemma markers_distinct: "distinct markers"
  by code_simp

lemmas markers_neq = markers_distinct [unfolded markers_def, simplified]

lemmas markers_neq_rev = markers_distinct [THEN distinct_rev [THEN iffD2], unfolded markers_def, simplified]

lemma markers_not_Nil_list: "list_all (\<lambda>m. [] \<noteq> m) markers"
  by code_simp

lemmas markers_not_Nil = markers_not_Nil_list [unfolded markers_def, simplified list.pred_inject]

lemmas line_sets = head_lines_def block_lines_def reboot_flag_lines_def reboot_pkg_lines_def needrestart_lines_def
  nr_report_def nr_handlers_def content_lines_def

text \<open>No line before a block can be mistaken for a marker of the block.\<close>

definition no_mark :: "string \<Rightarrow> string list \<Rightarrow> bool" where
  "no_mark m ls \<longleftrightarrow> list_all (\<lambda>l. plain_line l \<or> l \<in> set markers) ls \<and> m \<notin> set ls"

lemma no_mark_text: "\<not> plain_line m \<or> m \<in> set markers \<Longrightarrow> no_mark m ls \<Longrightarrow> list_all (text_line m) ls"
  by (auto simp: no_mark_def text_line_def list_all_iff)

lemma marker_not_plain: "m \<in> set markers \<Longrightarrow> \<not> plain_line m"
  by (auto simp: plain_line_def list_all_iff contains_iff)

lemma extract_block_no_mark:
  assumes "s \<in> set markers" "e \<in> set markers" "s \<noteq> e" "no_mark s A" "no_mark e A" "no_mark e B"
  shows "extract_block (unlines (A @ block_lines s B e @ C)) s e = Some (unlines ([] # B), unlines (A @ [] # C))"
  using extract_block_lines [OF assms(1-3), of A B C] assms(4-) no_mark_text assms(1,2)
  by (simp add: block_lines_def)

lemma no_mark_append [simp]: "no_mark m (ls @ ms) \<longleftrightarrow> no_mark m ls \<and> no_mark m ms"
  by (auto simp: no_mark_def)

lemma no_mark_Cons: "no_mark m (l # ls) \<longleftrightarrow> (plain_line l \<or> l \<in> set markers) \<and> l \<noteq> m \<and> no_mark m ls"
  by (auto simp: no_mark_def)

lemma no_mark_Nil [simp]: "no_mark m []"
  by (simp add: no_mark_def)

lemma no_mark_plain: "m \<in> set markers \<Longrightarrow> list_all plain_line ls \<Longrightarrow> no_mark m ls"
  using marker_not_plain by (auto simp: no_mark_def list_all_iff)

lemma extract_block_absent:
  assumes "s \<in> set markers" "no_mark s ls"
  shows "extract_block (unlines ls) s e = Some ([], unlines ls)"
proof -
  have "index_of (unlines ls @ []) s = None"
    using index_of_unlines [of s ls "[]"] marker_props [OF assms(1)] text_line_no_marker [OF assms(1)]
      no_mark_text [of s ls] assms by (simp add: list_all_iff)
  then show ?thesis by (simp add: extract_block_def)
qed

lemma contains_marker:
  assumes "m \<in> set markers" "list_all (\<lambda>l. plain_line l \<or> l \<in> set markers) ls"
  shows "contains (unlines ls) m \<longleftrightarrow> m \<in> set ls"
proof -
  have "contains m m" by (simp add: contains_iff)
  then show ?thesis
    using assms marker_props [OF assms(1)] plain_line_no_marker [of _ m]
    by (auto simp: contains_unlines list_all_iff)
qed

section \<open>Trimming a line\<close>

lemma space_seqs_NL: "list_all (\<lambda>p. p = [NL] \<or> NL \<notin> set p) space_seqs"
  by code_simp

lemma space_len_NL [simp]: "space_len (NL # s) = 1" "space_len_rev (NL # s) = 1"
  by (simp_all add: space_len_def space_len_rev_def space_seqs_def NL_def)

lemma space_len_snoc_NL: "x \<noteq> [] \<Longrightarrow> space_len (x @ [NL]) = space_len x"
proof -
  assume x: "x \<noteq> []"
  have "prefix p (x @ [NL]) \<longleftrightarrow> prefix p x" if "p \<in> set space_seqs" for p
  proof (cases "p = [NL]")
    case True
    with x show ?thesis by (cases x) auto
  next
    case False
    with that space_seqs_NL show ?thesis using prefix_line [of p x "[]"] by (simp add: list_all_iff) blast
  qed
  then have "find (\<lambda>p. prefix p (x @ [NL])) space_seqs = find (\<lambda>p. prefix p x) space_seqs"
    by (intro find_cong) auto
  then show ?thesis by (simp add: space_len_def)
qed

lemma space_len_le: "space_len s \<le> length s"
proof (cases "find (\<lambda>p. prefix p s) space_seqs")
  case (Some p)
  then have "prefix p s" by (auto simp: find_Some_iff)
  then show ?thesis using Some by (simp add: space_len_def prefix_length_le)
qed (simp add: space_len_def)

lemma trim_left_NL: "trim_left (NL # s) = trim_left s"
  by (subst trim_left.simps) simp

lemma trim_left_snoc_NL: "trim_left (x @ [NL]) = (if trim_left x = [] then [] else trim_left x @ [NL])"
proof (induction x rule: trim_left.induct)
  case (1 x)
  show ?case
  proof (cases "x = []")
    case True
    then show ?thesis by (simp add: trim_left_NL)
  next
    case x: False
    show ?thesis
    proof (cases "space_len x = 0")
      case True
      then show ?thesis using x space_len_snoc_NL [OF x] by simp
    next
      case False
      then show ?thesis
        using 1 [OF False] space_len_snoc_NL [OF x] space_len_le [of x]
        by (simp add: trim_left.simps [of x] trim_left.simps [of "x @ [NL]"])
    qed
  qed
qed

lemma trim_right_snoc_NL: "trim_right (x @ [NL]) = trim_right x"
proof -
  have "trim_left_rev (NL # s) = trim_left_rev s" for s by (subst trim_left_rev.simps) simp
  then show ?thesis by (simp add: trim_right_def)
qed

lemma trim_space_NL: "trim_space (NL # x @ [NL]) = trim_space x"
  using trim_right_snoc_NL [of "trim_left x"]
  by (simp add: trim_space_def trim_left_NL trim_left_snoc_NL)

section \<open>Each block read on its own\<close>

lemma index_of_marker_end:
  "m \<in> set markers \<Longrightarrow> no_mark m ls \<Longrightarrow> index_of (unlines ls @ m @ r) m = Some (length (unlines ls))"
  by (intro index_of_marker no_mark_text) auto

lemma split_n_str_step:
  "index_of (x @ sep @ r) sep = Some (length x) \<Longrightarrow>
     split_n_str (Suc (Suc n)) sep (x @ sep @ r) = x # split_n_str (Suc n) sep r"
  by simp

lemma split_sysinfo:
  assumes "list_all plain_line os" "plain_line up" "plain_line k"
  shows "split_n_str 3 sysinfo_sep (unlines ([] # os) @ sysinfo_sep @ unlines [[], up] @ sysinfo_sep @ unlines [[], k]) =
     [unlines ([] # os), unlines [[], up], unlines [[], k]]"
proof -
  have m: "sysinfo_sep \<in> set markers" by (rule marker_members)
  have three: "(3::nat) = Suc (Suc (Suc 0))" by simp
  have 1: "index_of (unlines ([] # os) @ sysinfo_sep @ r) sysinfo_sep = Some (length (unlines ([] # os)))" for r
    by (intro index_of_marker_end m no_mark_plain) (use assms in simp_all)
  have 2: "index_of (unlines [[], up] @ sysinfo_sep @ r) sysinfo_sep = Some (length (unlines [[], up]))" for r
    by (intro index_of_marker_end m no_mark_plain) (use assms in simp_all)
  show ?thesis
    unfolding three split_n_str_step [OF 1] split_n_str_step [OF 2] by simp
qed

lemma os_release_blank: "os_release (lns @ [[]]) r = os_release lns r"
proof (induction lns r rule: os_release.induct)
  case (1 r)
  then show ?case by (cases r) (simp add: has_prefix_def)
qed (simp_all add: Let_def)

definition sysinfo_of :: "host_output \<Rightarrow> string \<times> string \<times> string \<times> string" where
  "sysinfo_of h =
     (case os_release (ho_os h) ([], []) of (os_name, os_version) \<Rightarrow>
        (os_name, os_version, trim_prefix (trim_space (ho_uptime h)) ''up '', trim_space (ho_kernel h)))"

lemma sysinfo_block_lines:
  assumes "list_all plain_line os" "plain_line up" "plain_line k"
  shows "sysinfo_block (unlines ([] # os) @ sysinfo_sep @ unlines [[], up] @ sysinfo_sep @ unlines [[], k]) =
     (case os_release os ([], []) of (os_name, os_version) \<Rightarrow>
        (os_name, os_version, trim_prefix (trim_space up) ''up '', trim_space k))"
proof -
  have nl': "split_on NL (unlines os) = os @ [[]]"
    using assms(1) split_on_unlines [of os] by (simp add: list_all_iff plain_line_def)
  have rel: "os_release ([] # os @ [[]]) ([], []) = os_release os ([], [])"
    by (simp add: has_prefix_def os_release_blank)
  show ?thesis
    unfolding sysinfo_block_def split_sysinfo [OF assms]
    by (simp add: nl' rel trim_space_NL del: os_release.simps split: prod.split)
qed

abbreviation pre_lines :: "host_output \<Rightarrow> string list" where
  "pre_lines h \<equiv> head_lines h @ block_lines distupgrade_start (ho_sim h) distupgrade_end @
       reboot_flag_lines h @ reboot_pkg_lines h @ needrestart_lines h @
       block_lines bootid_start [ho_boot_id h] bootid_end"

definition good_output :: "host_output \<Rightarrow> bool" where
  "good_output h \<longleftrightarrow> list_all plain_line (content_lines h)"

lemma good_no_mark:
  assumes "good_output h" "m \<in> set markers"
  shows "no_mark m (ho_apt h)" "no_mark m (ho_sim h)" "no_mark m (ho_os h)" "no_mark m [ho_uptime h, ho_kernel h]"
    "no_mark m [ho_boot_id h]" "no_mark m (nr_report h)" "no_mark m (nr_handlers h)"
    "ho_reboot_pkgs h = Some ps \<Longrightarrow> no_mark m ps"
  using assms by (auto intro!: no_mark_plain simp: good_output_def content_lines_def)

lemma pre_no_sysinfo:
  assumes "good_output h"
  shows "no_mark sysinfo_start (pre_lines h)" "no_mark sysinfo_end (pre_lines h)"
  using good_no_mark [OF assms marker_members(1)] good_no_mark [OF assms marker_members(2)]
  by (simp_all add: line_sets no_mark_Cons marker_members markers_neq markers_neq_rev markers_not_Nil split: option.splits prod.splits if_splits)

lemma sysinfo_phase:
  assumes good: "good_output h"
  shows "parse_sysinfo (scan_output h) = Some (sysinfo_of h)"
    and "strip_sysinfo (scan_output h) = unlines (pre_lines h)"
proof -
  let ?blk = "unlines ([] # ho_os h) @ sysinfo_sep @ unlines [[], ho_uptime h] @ sysinfo_sep @ unlines [[], ho_kernel h]"
  define P where "P = pre_lines h"
  have raw: "scan_output h = unlines P @ sysinfo_start @ ?blk @ sysinfo_end @ []"
    by (simp add: scan_output_def P_def)
  have raw2: "scan_output h = unlines (P @ sysinfo_start # ho_os h @ [sysinfo_sep, ho_uptime h, sysinfo_sep, ho_kernel h]) @
      sysinfo_end @ []"
    by (simp add: raw)
  have s: "index_of (scan_output h) sysinfo_start = Some (length (unlines P))"
    unfolding raw P_def by (rule index_of_marker_end [OF marker_members(1) pre_no_sysinfo(1) [OF good]])
  have "no_mark sysinfo_end (P @ sysinfo_start # ho_os h @ [sysinfo_sep, ho_uptime h, sysinfo_sep, ho_kernel h])"
    using good_no_mark [OF good marker_members(2)] pre_no_sysinfo(2) [OF good]
    by (simp add: P_def no_mark_Cons marker_members markers_neq markers_neq_rev markers_not_Nil)
  then have e: "index_of (scan_output h) sysinfo_end = Some (length (unlines P) + length sysinfo_start + length ?blk)"
    unfolding raw2 by (subst index_of_marker_end [OF marker_members(2)]) simp_all
  have "slice ((unlines P @ sysinfo_start) @ ?blk @ (sysinfo_end @ [])) (length (unlines P @ sysinfo_start))
      (length (unlines P @ sysinfo_start) + length ?blk) = Some ?blk" by (rule slice_mid)
  then have sl: "slice (scan_output h) (length (unlines P) + length sysinfo_start)
      (length (unlines P) + length sysinfo_start + length ?blk) = Some ?blk"
    unfolding raw by (simp only: append_assoc length_append add.assoc)
  have plain: "list_all plain_line (ho_os h)" "plain_line (ho_uptime h)" "plain_line (ho_kernel h)"
    using good by (simp_all add: good_output_def content_lines_def)
  have le: "\<not> length (unlines P) + length sysinfo_start + length ?blk \<le> length (unlines P)" by simp
  show "parse_sysinfo (scan_output h) = Some (sysinfo_of h)"
    unfolding parse_sysinfo_def s e prod.case option.case if_not_P [OF le] sl sysinfo_of_def
    by (simp only: option.map sysinfo_block_lines [OF plain])
  show "strip_sysinfo (scan_output h) = unlines (pre_lines h)"
    unfolding strip_sysinfo_def s e prod.case option.case remove_block_def
    unfolding raw by (simp add: P_def)
qed

lemma block_removed_shorter:
  "s \<in> set markers \<Longrightarrow> unlines (A @ [] # C) \<noteq> unlines (A @ block_lines s B e @ C)"
  using marker_props(2) [of s] by (auto simp: block_lines_def dest: arg_cong [where f = length])

lemma reboot_block_lines:
  assumes A: "no_mark reboot_pkgs_start A" "no_mark reboot_pkgs_end A" and B: "list_all plain_line B"
  shows "reboot_block (unlines (A @ block_lines reboot_pkgs_start B reboot_pkgs_end @ C)) =
     Some (reboot_lines B, unlines (A @ [] # C))"
proof -
  have "no_mark reboot_pkgs_end B" using B by (rule no_mark_plain [OF marker_members(11)])
  from extract_block_no_mark [OF marker_members(10,11) _ A this, of C]
  have "extract_block (unlines (A @ block_lines reboot_pkgs_start B reboot_pkgs_end @ C)) reboot_pkgs_start reboot_pkgs_end =
      Some (unlines ([] # B), unlines (A @ [] # C))"
    by (simp only: markers_neq not_False_eq_True)
  moreover have "split_on NL (unlines ([] # B)) = [] # B @ [[]]"
    using B split_on_unlines [of "[] # B"] by (simp add: list_all_iff plain_line_def)
  then have "reboot_lines (split_on NL (unlines ([] # B))) = reboot_lines B"
    by (simp add: reboot_lines_def)
  ultimately show ?thesis
    using block_removed_shorter [OF marker_members(10), of A C B reboot_pkgs_end]
    by (auto simp: reboot_block_def extract_block_def simp del: unlines_simps split: option.splits if_splits)
qed

lemma reboot_block_absent:
  assumes "no_mark reboot_pkgs_start ls"
  shows "reboot_block (unlines ls) = Some ([], unlines ls)"
proof -
  have "index_of (unlines ls @ []) reboot_pkgs_start = None"
    using index_of_unlines [of reboot_pkgs_start ls "[]"] marker_props [OF marker_members(10)]
      text_line_no_marker [OF marker_members(10)] no_mark_text [of reboot_pkgs_start ls] assms marker_members(10)
    by (simp add: list_all_iff)
  then show ?thesis by (simp add: reboot_block_def)
qed

text \<open>The lines left after the blocks are cut out.\<close>

definition after_handlers :: "host_output \<Rightarrow> string list" where
  "after_handlers h = (case ho_needrestart h of None \<Rightarrow> [needrestart_missing_marker] | Some (nr, hs) \<Rightarrow> nr @ [[]])"

definition after_reboot :: "host_output \<Rightarrow> string list" where
  "after_reboot h = (case ho_reboot_pkgs h of None \<Rightarrow> [] | Some ps \<Rightarrow> [[]])"

definition left_lines :: "host_output \<Rightarrow> string list" where
  "left_lines h = head_lines h @ [] # reboot_flag_lines h @ after_reboot h @ after_handlers h @ [[]]"

lemma deferred_blank: "deferred_lines (lns @ [[]]) reason m = deferred_lines lns reason m"
  by (induction lns reason m rule: deferred_lines.induct) (auto simp: has_prefix_def)

lemma sim_phase:
  assumes good: "good_output h"
  shows "extract_block (unlines (pre_lines h)) distupgrade_start distupgrade_end =
      Some (unlines ([] # ho_sim h), unlines (head_lines h @ [] # reboot_flag_lines h @ reboot_pkg_lines h @
         needrestart_lines h @ block_lines bootid_start [ho_boot_id h] bootid_end))"
    and "parse_deferred_from_sim (unlines ([] # ho_sim h)) = deferred_lines (ho_sim h) [] Map.empty"
proof -
  have A: "no_mark distupgrade_start (head_lines h)" "no_mark distupgrade_end (head_lines h)"
    using good_no_mark [OF good marker_members(4)] good_no_mark [OF good marker_members(5)]
    by (simp_all add: head_lines_def no_mark_Cons marker_members markers_neq markers_neq_rev markers_not_Nil)
  have B: "no_mark distupgrade_end (ho_sim h)" by (rule good_no_mark(2) [OF good marker_members(5)])
  show "extract_block (unlines (pre_lines h)) distupgrade_start distupgrade_end =
      Some (unlines ([] # ho_sim h), unlines (head_lines h @ [] # reboot_flag_lines h @ reboot_pkg_lines h @
         needrestart_lines h @ block_lines bootid_start [ho_boot_id h] bootid_end))"
    by (intro extract_block_no_mark marker_members A B) (simp only: markers_neq not_False_eq_True)
  have "split_on NL (unlines (ho_sim h)) = ho_sim h @ [[]]"
    using good by (intro split_on_unlines) (auto simp: good_output_def content_lines_def list_all_iff plain_line_def)
  then show "parse_deferred_from_sim (unlines ([] # ho_sim h)) = deferred_lines (ho_sim h) [] Map.empty"
    by (simp add: parse_deferred_from_sim_def has_prefix_def deferred_blank)
qed

lemma boot_phase:
  assumes good: "good_output h"
  shows "extract_block (unlines (head_lines h @ [] # reboot_flag_lines h @ reboot_pkg_lines h @
         needrestart_lines h @ block_lines bootid_start [ho_boot_id h] bootid_end)) bootid_start bootid_end =
      Some (unlines [[], ho_boot_id h], unlines (head_lines h @ [] # reboot_flag_lines h @ reboot_pkg_lines h @
         needrestart_lines h @ [[]]))"
proof -
  let ?A = "head_lines h @ [] # reboot_flag_lines h @ reboot_pkg_lines h @ needrestart_lines h"
  have A: "no_mark bootid_start ?A" "no_mark bootid_end ?A"
    using good_no_mark [OF good marker_members(6)] good_no_mark [OF good marker_members(7)]
    by (simp_all add: line_sets no_mark_Cons marker_members markers_neq markers_neq_rev markers_not_Nil
        split: option.splits prod.splits if_splits)
  have B: "no_mark bootid_end [ho_boot_id h]" by (rule good_no_mark(5) [OF good marker_members(7)])
  have "extract_block (unlines (?A @ block_lines bootid_start [ho_boot_id h] bootid_end @ [])) bootid_start bootid_end =
      Some (unlines ([] # [ho_boot_id h]), unlines (?A @ [] # []))"
    by (intro extract_block_no_mark marker_members A B) (simp only: markers_neq not_False_eq_True)
  then show ?thesis by (simp only: append_assoc append_Cons append_Nil append_Nil2)
qed

lemma handler_entry_blank: "handler_entry [] m = m"
  by (simp add: handler_entry_def cut_def)

lemma handler_phase:
  assumes good: "good_output h"
  defines "before \<equiv> head_lines h @ [] # reboot_flag_lines h @ reboot_pkg_lines h"
  shows "\<exists>content rest. extract_block (unlines (before @ needrestart_lines h @ [[]])) nrhandlers_start nrhandlers_end =
       Some (content, rest) \<and> rest = unlines (before @ after_handlers h @ [[]]) \<and>
     (if rest \<noteq> unlines (before @ needrestart_lines h @ [[]])
      then fold handler_entry (split_on NL content) (\<lambda>_. False) else (\<lambda>_. False)) =
     fold handler_entry (nr_handlers h) (\<lambda>_. False)"
proof -
  have A: "no_mark nrhandlers_start (before @ nr_report h)" "no_mark nrhandlers_end (before @ nr_report h)"
    using good_no_mark [OF good marker_members(8)] good_no_mark [OF good marker_members(9)]
    by (simp_all add: before_def line_sets no_mark_Cons marker_members markers_neq markers_neq_rev markers_not_Nil
        split: option.splits prod.splits if_splits)
  show ?thesis
  proof (cases "ho_needrestart h")
    case None
    then have n: "no_mark nrhandlers_start (before @ needrestart_lines h @ [[]])"
      using A(1) by (simp add: needrestart_lines_def nr_report_def no_mark_Cons marker_members markers_neq markers_neq_rev markers_not_Nil)
    from extract_block_absent [OF marker_members(8) n, of nrhandlers_end] None show ?thesis
      by (simp add: needrestart_lines_def after_handlers_def nr_handlers_def)
  next
    case (Some p)
    then obtain nr hs where nr: "ho_needrestart h = Some (nr, hs)" by (cases p) simp
    let ?A = "before @ nr"
    have B: "no_mark nrhandlers_end hs" using good_no_mark(7) [OF good marker_members(9)] nr by (simp add: nr_handlers_def)
    have ex: "extract_block (unlines (?A @ block_lines nrhandlers_start hs nrhandlers_end @ [[]])) nrhandlers_start nrhandlers_end =
        Some (unlines ([] # hs), unlines (?A @ [] # [[]]))"
      using A nr by (intro extract_block_no_mark marker_members B) (simp_all add: nr_report_def markers_neq)
    have "split_on NL (unlines hs) = hs @ [[]]"
      using good nr by (intro split_on_unlines)
        (auto simp: good_output_def content_lines_def nr_handlers_def list_all_iff plain_line_def)
    then have f: "fold handler_entry (split_on NL (unlines ([] # hs))) (\<lambda>_. False) = fold handler_entry hs (\<lambda>_. False)"
      by (simp add: handler_entry_blank)
    have ne: "unlines (?A @ [] # [[]]) \<noteq> unlines (?A @ block_lines nrhandlers_start hs nrhandlers_end @ [[]])"
      by (rule block_removed_shorter [OF marker_members(8)])
    have l: "before @ needrestart_lines h @ [[]] = ?A @ block_lines nrhandlers_start hs nrhandlers_end @ [[]]"
      "before @ after_handlers h @ [[]] = ?A @ [] # [[]]"
      using nr by (simp_all add: needrestart_lines_def after_handlers_def)
    show ?thesis unfolding l ex using ne f nr
      by (simp del: unlines_simps add: nr_handlers_def)
  qed
qed

lemma reboot_phase:
  assumes good: "good_output h"
  shows "reboot_block (unlines ((head_lines h @ [] # reboot_flag_lines h @ reboot_pkg_lines h) @ after_handlers h @ [[]])) =
    Some (case ho_reboot_pkgs h of None \<Rightarrow> [] | Some ps \<Rightarrow> reboot_lines ps, unlines (left_lines h))"
proof -
  let ?A = "head_lines h @ [] # reboot_flag_lines h"
  have A: "no_mark reboot_pkgs_start ?A" "no_mark reboot_pkgs_end ?A"
    "no_mark reboot_pkgs_start (after_handlers h)"
    using good_no_mark [OF good marker_members(10)] good_no_mark [OF good marker_members(11)]
    by (simp_all add: line_sets after_handlers_def no_mark_Cons marker_members markers_neq markers_neq_rev markers_not_Nil
        split: option.splits prod.splits if_splits)
  show ?thesis
  proof (cases "ho_reboot_pkgs h")
    case None
    then show ?thesis
      using reboot_block_absent [of "?A @ after_handlers h @ [[]]"] A
      by (simp add: reboot_pkg_lines_def left_lines_def after_reboot_def no_mark_Cons)
  next
    case (Some ps)
    then have "list_all plain_line ps" using good by (simp add: good_output_def content_lines_def)
    from reboot_block_lines [OF A(1,2) this, of "after_handlers h @ [[]]"] Some show ?thesis
      by (simp add: reboot_pkg_lines_def left_lines_def after_reboot_def)
  qed
qed

lemma markers_skipped: "list_all (\<lambda>m. skip_line (trim_space m)) markers"
  by code_simp

lemma scan_line_skip: "l = [] \<or> l \<in> set markers \<Longrightarrow> scan_line reasons l = id"
  using markers_skipped by (auto simp: scan_line_def skip_line_def list_all_iff fun_eq_iff)

lemma scan_left_lines: "scan_lines reasons (left_lines h @ [[]]) = scan_lines reasons (ho_apt h @ nr_report h)"
  by (simp add: scan_lines_def left_lines_def head_lines_def reboot_flag_lines_def after_reboot_def
      after_handlers_def nr_report_def scan_line_skip marker_members split: option.split prod.split)

lemma left_lines_content:
  assumes "good_output h"
  shows "list_all (\<lambda>l. plain_line l \<or> l \<in> set markers) (left_lines h)"
  using assms
  by (auto simp: good_output_def content_lines_def left_lines_def head_lines_def reboot_flag_lines_def
      after_reboot_def after_handlers_def nr_report_def marker_members list_all_iff split: option.splits)

lemma flags_left:
  assumes "good_output h"
  shows "contains (unlines (left_lines h)) reboot_marker \<longleftrightarrow> ho_reboot h"
    and "contains (unlines (left_lines h)) needrestart_missing_marker \<longleftrightarrow> ho_needrestart h = None"
    and "contains (unlines (left_lines h)) apt_failed_marker \<longleftrightarrow> ho_apt_failed h"
proof -
  have n: "m \<notin> set (ho_apt h)" "m \<notin> set (nr_report h)" if "m \<in> set markers" for m
    using assms marker_not_plain [OF that] by (auto simp: good_output_def content_lines_def list_all_iff)
  note c = contains_marker [OF _ left_lines_content [OF assms]]
  note sets = left_lines_def head_lines_def reboot_flag_lines_def after_reboot_def after_handlers_def
  show "contains (unlines (left_lines h)) reboot_marker \<longleftrightarrow> ho_reboot h"
    using n [OF marker_members(12)] marker_props(2) [OF marker_members(12)]
    unfolding c [OF marker_members(12)] by (auto simp: sets nr_report_def markers_neq markers_neq_rev markers_not_Nil
        split: option.splits)
  show "contains (unlines (left_lines h)) needrestart_missing_marker \<longleftrightarrow> ho_needrestart h = None"
    using n [OF marker_members(14)] marker_props(2) [OF marker_members(14)]
    unfolding c [OF marker_members(14)] by (auto simp: sets nr_report_def markers_neq markers_neq_rev markers_not_Nil
        split: option.splits)
  show "contains (unlines (left_lines h)) apt_failed_marker \<longleftrightarrow> ho_apt_failed h"
    using n [OF marker_members(13)] marker_props(2) [OF marker_members(13)]
    unfolding c [OF marker_members(13)] by (auto simp: sets nr_report_def markers_neq markers_neq_rev markers_not_Nil
        split: option.splits)
qed

section \<open>Properties\<close>

text \<open>C19
  The scan is read back: from what the script prints on a host, whatever optional blocks it has,
  every field of the result comes from its own block and nothing leaks between blocks, as long as every
  line of content is one line without one of the fourteen markers in it (\<open>good_output\<close>). The package
  lists are computed from apt's lines and needrestart's report alone, with the reasons of the
  simulated upgrade. A marker in the content can leak or even panic (\<open>scan_parse_panics\<close>).\<close>

theorem scan_output_parsed:
  assumes good: "good_output h"
  shows "parse_scan_output (scan_output h) =
     (case sysinfo_of h of (os_name, os_version, uptime, kern) \<Rightarrow>
      case scan_lines (deferred_lines (ho_sim h) [] Map.empty) (ho_apt h @ nr_report h) of (pkgs, deferred, services) \<Rightarrow>
        Some \<lparr>sr_packages = pkgs, sr_deferred = deferred, sr_needs_reboot = ho_reboot h,
          sr_reboot_reason = (case ho_reboot_pkgs h of None \<Rightarrow> [] | Some ps \<Rightarrow> reboot_lines ps),
          sr_needs_restart = services, sr_needrestart_found = (ho_needrestart h \<noteq> None),
          sr_apt_failed = ho_apt_failed h, sr_raw = scan_output h, sr_os_name = os_name,
          sr_os_version = os_version, sr_uptime = uptime, sr_kernel = kern,
          sr_boot_id = trim_space (ho_boot_id h), sr_handlers = fold handler_entry (nr_handlers h) (\<lambda>_. False)\<rparr>)"
proof -
  let ?before = "head_lines h @ [] # reboot_flag_lines h @ reboot_pkg_lines h"
  obtain content rest where
    hp: "extract_block (unlines (?before @ needrestart_lines h @ [[]])) nrhandlers_start nrhandlers_end = Some (content, rest)"
    and rest: "rest = unlines (?before @ after_handlers h @ [[]])"
    and hs: "(if rest \<noteq> unlines (?before @ needrestart_lines h @ [[]])
      then fold handler_entry (split_on NL content) (\<lambda>_. False) else (\<lambda>_. False)) =
     fold handler_entry (nr_handlers h) (\<lambda>_. False)"
    using handler_phase [OF good] by blast
  have ne1: "unlines (head_lines h @ [] # reboot_flag_lines h @ reboot_pkg_lines h @ needrestart_lines h @
       block_lines bootid_start [ho_boot_id h] bootid_end) \<noteq> unlines (pre_lines h)"
    by (rule block_removed_shorter [OF marker_members(4)])
  have l2: "head_lines h @ [] # reboot_flag_lines h @ reboot_pkg_lines h @ needrestart_lines h @ [[]] =
      ?before @ needrestart_lines h @ [[]]" by simp
  have ne2: "unlines (?before @ needrestart_lines h @ [[]]) \<noteq>
      unlines (head_lines h @ [] # reboot_flag_lines h @ reboot_pkg_lines h @ needrestart_lines h @
       block_lines bootid_start [ho_boot_id h] bootid_end)"
    using block_removed_shorter [OF marker_members(6), of "?before @ needrestart_lines h" "[]" "[ho_boot_id h]" bootid_end]
    by (simp only: append_assoc append_Cons append_Nil append_Nil2 not_False_eq_True)
  have boot: "trim_space (unlines [[], ho_boot_id h]) = trim_space (ho_boot_id h)"
    by (simp add: trim_space_NL)
  have nl: "split_on NL (unlines (left_lines h)) = left_lines h @ [[]]"
    using left_lines_content [OF good] marker_props(1)
    by (intro split_on_unlines) (auto simp: list_all_iff plain_line_def)
  show ?thesis
    unfolding parse_scan_output_def sysinfo_phase [OF good] Let_def sim_phase(1) [OF good] boot_phase [OF good] l2
    apply (cases "sysinfo_of h")
    apply (simp only: bind.bind_lunit prod.case boot_phase [OF good] l2 hp rest [symmetric] hs
        sim_phase(2) [OF good] ne1 ne2 not_False_eq_True if_True boot)
    apply (simp only: rest reboot_phase [OF good] bind.bind_lunit prod.case nl scan_left_lines flags_left [OF good])
    done
qed

definition sample_output :: host_output where
  "sample_output = \<lparr>ho_apt_failed = False,
     ho_apt = [''libc6/noble-updates 2.39-2 amd64 [upgradable from: 2.39-1]'', ''curl/noble 8.6 amd64 [upgradable from: 8.5]''],
     ho_sim = [''The following upgrades have been deferred due to phasing:'', ''  curl''], ho_reboot = True,
     ho_reboot_pkgs = Some [''linux-base''], ho_needrestart = Some ([''NEEDRESTART-SVC: cron'', ''NEEDRESTART-SVC: my__job''], [''cron|0'', ''my__job|0'']),
     ho_boot_id = ''4f2a'', ho_os = [''VERSION_ID=24.04''], ho_uptime = ''up 3 days'', ho_kernel = ''6.8.0''\<rparr>"

theorem scan_output_parsed_witness:
  "map_option (\<lambda>r. (map p_name (sr_packages r), map p_defer (sr_deferred r), sr_needs_restart r, sr_uptime r))
     (parse_scan_output (scan_output sample_output)) = Some ([''libc6''], [''phased''], [''cron'', ''my__job''], ''3 days'')"
proof -
  have good: "good_output sample_output" by code_simp
  have s: "sysinfo_of sample_output = ([], ''24.04'', ''3 days'', ''6.8.0'')" by code_simp
  have l: "map_prod (map p_name) (map_prod (map p_defer) id)
      (scan_lines (deferred_lines (ho_sim sample_output) [] Map.empty) (ho_apt sample_output @ nr_report sample_output)) =
     ([''libc6''], [''phased''], [''cron'', ''my__job''])" by code_simp
  obtain a b c where abc:
    "scan_lines (deferred_lines (ho_sim sample_output) [] Map.empty) (ho_apt sample_output @ nr_report sample_output) = (a, b, c)"
    by (metis surj_pair)
  show ?thesis
    unfolding scan_output_parsed [OF good] s abc using l unfolding abc by simp
qed

text \<open>apt's line for one upgradable package.\<close>

definition apt_line :: "package_info \<Rightarrow> string" where
  "apt_line p = p_name p @ ''/'' @ p_source p @ '' '' @ p_new p @ '' '' @ p_arch p @ '' [upgradable from: '' @ p_current p @ '']''"

definition apt_word :: "string \<Rightarrow> bool" where
  "apt_word w \<longleftrightarrow> w \<noteq> [] \<and> list_all (\<lambda>c. \<not> re_space c) w"

definition apt_package :: "package_info \<Rightarrow> bool" where
  "apt_package p \<longleftrightarrow> p_name p \<noteq> [] \<and> CHR ''/'' \<notin> set (p_name p) \<and> apt_word (p_source p) \<and> apt_word (p_new p) \<and>
     apt_word (p_arch p) \<and> apt_word (p_current p) \<and> CHR '']'' \<notin> set (p_current p)"

lemma re_space_blank [simp]: "re_space CHR '' ''"
  by (simp add: re_space_def)

lemma re_word_app: "apt_word w \<Longrightarrow> re_word (w @ CHR '' '' # s) = Some (w, CHR '' '' # s)"
  by (auto simp: re_word_def apt_word_def list_all_iff takeWhile_append dropWhile_append)

lemma re_spaces_app: "s \<noteq> [] \<Longrightarrow> \<not> re_space (hd s) \<Longrightarrow> re_spaces (CHR '' '' # s) = Some s"
  by (cases s) (auto simp: re_spaces_def)

lemma re_lit_app: "re_lit p (p @ s) = Some s"
  by (simp add: re_lit_def)

lemma re_until_app: "list_all (\<lambda>c. \<not> re_space c) w \<Longrightarrow> CHR '']'' \<notin> set w \<Longrightarrow> re_until_bracket (w @ CHR '']'' # s) = Some w"
  by (induction w) auto

lemma re_lazy_app: "apt_word w \<Longrightarrow> CHR '']'' \<notin> set w \<Longrightarrow> re_lazy_word (w @ CHR '']'' # s) = Some w"
  by (cases w) (auto simp: apt_word_def re_until_app)

lemma apt_word_hd: "apt_word w \<Longrightarrow> w @ s \<noteq> [] \<and> \<not> re_space (hd (w @ s))"
  by (cases w) (auto simp: apt_word_def)

lemma phased_suffix:
  assumes "list_all is_digit ds" "ds \<noteq> []"
  shows "apt_phased_re (l @ ''(phased '' @ ds @ ''%)'')"
proof -
  have p: "phased_at (''(phased '' @ ds @ ''%)'')"
    using assms by (simp add: phased_at_def Let_def takeWhile_append dropWhile_append list_all_iff is_digit_def byte_of_def)
  have "''(phased '' @ ds @ ''%)'' \<in> set (suffixes (l @ ''(phased '' @ ds @ ''%)''))"
    by (auto simp: suffix_def)
  with p show ?thesis unfolding apt_phased_re_def list_ex_iff by blast
qed

text \<open>
  Every field of apt's line is read back, whatever follows the closing bracket, and a phased tag
  there is seen.\<close>

theorem apt_line_parsed:
  assumes "apt_package p"
  shows "fst (parse_apt_line (apt_line p @ s)) = p\<lparr>p_defer := []\<rparr> \<and>
     (list_all is_digit ds \<longrightarrow> ds \<noteq> [] \<longrightarrow> snd (parse_apt_line (apt_line p @ '' (phased '' @ ds @ ''%)'')))"
proof -
  have n: "takeWhile (\<lambda>c. c \<noteq> CHR ''/'') (p_name p @ CHR ''/'' # r) = p_name p"
    "dropWhile (\<lambda>c. c \<noteq> CHR ''/'') (p_name p @ CHR ''/'' # r) = CHR ''/'' # r" for r
    using assms by (auto simp: apt_package_def takeWhile_append dropWhile_append)
  have line: "apt_line p @ s = p_name p @ CHR ''/'' # p_source p @ CHR '' '' # p_new p @ CHR '' '' # p_arch p @ CHR '' '' #
      ''[upgradable from:'' @ CHR '' '' # p_current p @ CHR '']'' # s"
    by (simp add: apt_line_def)
  have br: "''[upgradable from:'' @ r \<noteq> []" "\<not> re_space (hd (''[upgradable from:'' @ r))" for r
    by (simp_all add: re_space_def)
  have w: "apt_word (p_source p)" "apt_word (p_new p)" "apt_word (p_arch p)" "apt_word (p_current p)"
    "CHR '']'' \<notin> set (p_current p)" "p_name p \<noteq> []"
    using assms by (auto simp: apt_package_def)
  have "apt_line_re (apt_line p @ s) = Some (p_name p, p_source p, p_new p, p_arch p, p_current p)"
    unfolding line apt_line_re_def n Let_def
    using w by (simp only: re_word_app re_spaces_app apt_word_hd br re_lit_app re_lazy_app list.sel list.distinct
        bind.bind_lunit prod.case simp_thms if_False)
  then have "fst (parse_apt_line (apt_line p @ s)) = p\<lparr>p_defer := []\<rparr>"
    by (simp add: parse_apt_line_def Let_def)
  moreover have "snd (parse_apt_line (apt_line p @ '' (phased '' @ ds @ ''%)''))" if "list_all is_digit ds" "ds \<noteq> []"
    using phased_suffix [OF that, of "apt_line p @ '' ''"]
    by (simp add: parse_apt_line_def Let_def split: option.split)
  ultimately show ?thesis by blast
qed

theorem apt_line_parsed_witness:
  "p_new (fst (parse_apt_line (apt_line \<lparr>p_name = ''curl'', p_current = ''8.5'', p_new = ''8.6'', p_arch = ''amd64'',
      p_source = ''noble'', p_defer = []\<rparr> @ '' (phased 20%)''))) = ''8.6''"
proof -
  let ?p = "\<lparr>p_name = ''curl'', p_current = ''8.5'', p_new = ''8.6'', p_arch = ''amd64'', p_source = ''noble'', p_defer = []\<rparr>"
  have "apt_package ?p" by code_simp
  from conjunct1 [OF apt_line_parsed [OF this, of "'' (phased 20%)''"]] show ?thesis by simp
qed

section \<open>What any scan result satisfies\<close>

abbreviation "defer_reasons \<equiv> {''phased'', ''held''}"

lemma ran_upd_subset: "ran (m(a \<mapsto> v)) \<subseteq> insert v (ran m)"
  by (auto simp: ran_def)

lemma fold_upd_ran:
  "ran m \<subseteq> R \<Longrightarrow> v \<in> R \<Longrightarrow> ran (fold (\<lambda>name m. m(name \<mapsto> v)) ns m) \<subseteq> R"
proof (induction ns arbitrary: m)
  case (Cons n ns)
  then have "ran (m(n \<mapsto> v)) \<subseteq> R" using ran_upd_subset [of m n v] by blast
  from Cons.IH [OF this Cons.prems(2)] show ?case by (simp only: fold.simps comp_apply)
qed simp

lemma deferred_lines_ran:
  "ran m \<subseteq> defer_reasons \<Longrightarrow> reason \<in> insert [] defer_reasons \<Longrightarrow> ran (deferred_lines lns reason m) \<subseteq> defer_reasons"
proof (induction lns reason m rule: deferred_lines.induct)
  case (2 ln lns reason m)
  have d: "defer_reason ln \<in> insert [] defer_reasons" by (simp add: defer_reason_def Let_def)
  have f: "ran (fold (\<lambda>name m. m(name \<mapsto> reason)) ns m) \<subseteq> defer_reasons" if "reason \<noteq> []" for ns
    using 2(5,6) that by (intro fold_upd_ran) auto
  show ?case
  proof (cases "has_prefix ln ''The following''")
    case True
    with 2 d show ?thesis by (simp only: deferred_lines.simps if_True)
  next
    case no: False
    show ?thesis
    proof (cases "reason \<noteq> [] \<and> ln \<noteq> [] \<and> (hd ln = CHR '' '' \<or> hd ln = TAB)")
      case True
      have "ran (deferred_lines lns reason (fold (\<lambda>name m. m(name \<mapsto> reason)) (go_fields ln) m)) \<subseteq> defer_reasons"
        using True by (intro 2(2) [OF no True f] 2(6)) simp
      then show ?thesis by (simp only: deferred_lines.simps if_not_P [OF no] if_P [OF True])
    next
      case False
      with no 2 show ?thesis by (cases "trim_space ln = []") auto
    qed
  qed
qed simp

definition scan_lists_ok :: "scan_lists \<Rightarrow> bool" where
  "scan_lists_ok acc \<longleftrightarrow> (case acc of (pkgs, deferred, services) \<Rightarrow>
     (\<forall>p \<in> set pkgs. p_defer p = []) \<and> (\<forall>p \<in> set deferred. p_defer p \<in> defer_reasons) \<and>
     (\<forall>s \<in> set services. s \<noteq> [] \<and> \<not> is_user_manager_unit s))"

lemma parse_apt_line_defer: "p_defer (fst (parse_apt_line l)) = []"
  by (simp add: parse_apt_line_def name_only_def Let_def split: option.split prod.split)

lemma scan_package_ok:
  "ran reasons \<subseteq> defer_reasons \<Longrightarrow> scan_lists_ok acc \<Longrightarrow> scan_lists_ok (scan_package reasons l acc)"
  using parse_apt_line_defer [of l]
  by (auto simp: scan_package_def scan_lists_ok_def ran_def split: prod.splits option.splits)

lemma scan_service_ok: "scan_lists_ok acc \<Longrightarrow> scan_lists_ok (scan_service l acc)"
  by (auto simp: scan_service_def scan_lists_ok_def Let_def split: prod.splits)

lemma scan_lines_ok: "ran reasons \<subseteq> defer_reasons \<Longrightarrow> scan_lists_ok (scan_lines reasons lns)"
proof -
  assume r: "ran reasons \<subseteq> defer_reasons"
  have "scan_lists_ok acc \<Longrightarrow> scan_lists_ok (fold (scan_line reasons) lns acc)" for acc
  proof (induction lns arbitrary: acc)
    case (Cons l lns)
    have "scan_lists_ok (scan_line reasons l acc)"
      using scan_service_ok [OF scan_package_ok [OF r Cons.prems]] Cons.prems by (simp add: scan_line_def Let_def)
    then show ?case using Cons.IH by simp
  qed simp
  then show ?thesis by (simp add: scan_lines_def scan_lists_ok_def)
qed

text \<open>
  Whatever a host prints: packages apt will not install now are never among the counted packages,
  each deferred one says whether it is phased or held back, and the per-user service manager is
  never offered for a restart.\<close>

theorem deferred_not_counted:
  assumes "parse_scan_output raw = Some r"
  shows "(\<forall>p \<in> set (sr_packages r). p_defer p = []) \<and>
     (\<forall>p \<in> set (sr_deferred r). p_defer p \<in> {''phased'', ''held''}) \<and>
     (\<forall>s \<in> set (sr_needs_restart r). s \<noteq> [] \<and> \<not> is_user_manager_unit s)"
proof -
  have sim: "ran (if b then parse_deferred_from_sim sim else Map.empty) \<subseteq> defer_reasons" for b sim
    using deferred_lines_ran [of Map.empty "[]"] by (simp add: parse_deferred_from_sim_def)
  obtain b sim lns where "(sr_packages r, sr_deferred r, sr_needs_restart r) =
      scan_lines (if b then parse_deferred_from_sim sim else Map.empty) lns"
    using assms by (auto simp: parse_scan_output_def Let_def simp del: if_split
        split: bind_splits prod.splits option.splits) metis
  with scan_lines_ok [OF sim, of b sim lns] show ?thesis by (simp add: scan_lists_ok_def split: prod.splits)
qed

theorem deferred_not_counted_witness:
  "\<exists>r. parse_scan_output ''a/b 1 amd64 [upgradable from: 0] (phased 5%)'' = Some r \<and> sr_packages r = [] \<and>
     p_defer (hd (sr_deferred r)) \<in> {''phased'', ''held''}"
proof -
  let ?o = "parse_scan_output ''a/b 1 amd64 [upgradable from: 0] (phased 5%)''"
  have e: "map_option sr_packages ?o = Some []" "map_option (length \<circ> sr_deferred) ?o = Some 1" by code_simp+
  then obtain r where r: "?o = Some r" "sr_packages r = []" "length (sr_deferred r) = 1" by (cases ?o) auto
  from deferred_not_counted [OF r(1)] r have "p_defer (hd (sr_deferred r)) \<in> {''phased'', ''held''}"
    by (metis hd_in_set length_0_conv zero_neq_one)
  with r show ?thesis by blast
qed

text \<open>
  The end of the reboot block before its start makes \<open>parseScanOutput\<close> slice out of bounds, which
  panics; so do a start and an end marker that share their underscores.
\<close>

lemma scan_parse_panics:
  "parse_scan_output (reboot_pkgs_end @ [NL] @ reboot_pkgs_start) = None"
  "parse_scan_output ''__SYSINFO_START__SYSINFO_END__'' = None"
  by code_simp+

end
