(* ===== verification/Apply.thy ===== *)
theory Apply
  imports ScanParse
begin

text \<open>
  The detached upgrade of \<open>internal/sshx/apply.go\<close>: the scripts that start and follow it, the reading
  of the follow's final lines and the loop of \<open>applyDetached\<close> that reattaches after a dropped
  connection. The host, the clock and the cancellation of the request are an environment.
\<close>

section \<open>The scripts\<close>

definition apply_dir :: string where "apply_dir = ''/var/lib/patchdeck''"

definition second :: int where "second = 1000000000"

definition apply_max_duration :: int where "apply_max_duration = 2 * 60 * 60 * second"
definition apply_reconnect_window :: int where "apply_reconnect_window = 5 * 60 * second"
definition apply_retry_delay :: int where "apply_retry_delay = 3 * second"

text \<open>\<open>applyIDRe\<close>: \<open>^[0-9A-Za-z-]+$\<close>.\<close>

definition apply_id_ok :: "string \<Rightarrow> bool" where
  "apply_id_ok s \<longleftrightarrow> s \<noteq> [] \<and> list_all (\<lambda>c. is_digit c \<or> is_lower c \<or> is_upper c \<or> c = CHR ''-'') s"

definition script_head :: "string \<Rightarrow> string" where
  "script_head rid = ''D='' @ apply_dir @ ''; L='' @ [dquote] @ ''$D/apply-'' @ rid @ [dquote, NL]"

definition follow_lines :: "nat \<Rightarrow> string list" where
  "follow_lines n = [
     ''i=0; while [ ! -s '' @ [dquote] @ ''$L.pid'' @ [dquote] @ '' ] && [ ! -f '' @ [dquote] @ ''$L.rc'' @
       [dquote] @ '' ] && [ $i -lt 40 ]; do sleep 0.25; i=$((i+1)); done'',
     ''if [ ! -f '' @ [dquote] @ ''$L.log'' @ [dquote] @ '' ]; then echo __PD_APPLY_NOTFOUND__; exit 0; fi'',
     ''P=$(cat '' @ [dquote] @ ''$L.pid'' @ [dquote] @ '' 2>/dev/null)'',
     ''if [ -n '' @ [dquote] @ ''$P'' @ [dquote] @ '' ]; then tail -n +'' @ itoan n @ '' --pid='' @ [dquote] @ ''$P'' @ [dquote] @
       '' -f '' @ [dquote] @ ''$L.log'' @ [dquote] @ ''; else tail -n +'' @ itoan n @ '' '' @ [dquote] @ ''$L.log'' @ [dquote] @
       ''; fi'',
     ''i=0; while [ ! -f '' @ [dquote] @ ''$L.rc'' @ [dquote] @
       '' ] && [ $i -lt 8 ]; do sleep 0.25; i=$((i+1)); done'',
     ''if [ -f '' @ [dquote] @ ''$L.rc'' @ [dquote] @ '' ]; then'',
     ''  echo '' @ [dquote] @ ''__PD_APPLY_RC__=$(cat '' @ [dquote] @ ''$L.rc'' @ [dquote] @ '')'' @ [dquote],
     ''  echo '' @ [dquote] @ ''__PD_SETUP_COUNT__=$(grep -c '' @ [squote] @ ''^Setting up '' @ [squote] @ '' '' @
       [dquote] @ ''$L.log'' @ [dquote] @ '')'' @ [dquote],
     ''  test -f /var/run/reboot-required && echo __REBOOT__ || true'',
     ''else echo __PD_APPLY_LOST__; fi'']"

definition apply_follow_body :: "nat \<Rightarrow> string" where
  "apply_follow_body n = concat (map (\<lambda>l. l @ [NL]) (follow_lines n))"

definition start_lines :: "string list" where
  "start_lines = [
     ''mkdir -p '' @ [dquote] @ ''$D'' @ [dquote] @ '' && chmod 700 '' @ [dquote] @ ''$D'' @ [dquote],
     ''find '' @ [dquote] @ ''$D'' @ [dquote] @ '' -maxdepth 1 -name '' @ [squote] @ ''apply-*'' @ [squote] @
       '' -mtime +7 -exec rm -f {} + 2>/dev/null'',
     ''nohup setsid sh -c '' @ [squote] @ ''echo $$ > '' @ [dquote] @ ''$0.pid'' @ [dquote],
     ''export LANG=C LC_ALL=C DEBIAN_FRONTEND=noninteractive'',
     ''dpkg --configure -a'',
     ''apt-get update || echo __APT_UPDATE_FAILED__'',
     ''apt-get -y -o Dpkg::Options::=--force-confdef -o Dpkg::Options::=--force-confold dist-upgrade'',
     ''echo $? > '' @ [dquote] @ ''$0.rc.tmp'' @ [dquote] @ '' && mv '' @ [dquote] @ ''$0.rc.tmp'' @ [dquote] @
       '' '' @ [dquote] @ ''$0.rc'' @ [dquote] @ [squote] @ '' '' @ [dquote] @ ''$L'' @ [dquote] @ '' > '' @
       [dquote] @ ''$L.log'' @ [dquote] @ '' 2>&1 < /dev/null &'']"

definition apply_start_script :: "string \<Rightarrow> string" where
  "apply_start_script rid = script_head rid @ concat (map (\<lambda>l. l @ [NL]) start_lines) @ apply_follow_body 1"

definition apply_follow_script :: "string \<Rightarrow> nat \<Rightarrow> string" where
  "apply_follow_script rid n = script_head rid @ apply_follow_body n"

section \<open>The final lines of a follow\<close>

text \<open>
  \<open>applyRCRe\<close> and \<open>applySetupRe\<close>, \<open>(?m)^KEY=(\d+)\s*$\<close>: a line that is the key, digits and then only
  white space. The first such line counts.
\<close>

definition key_line :: "string \<Rightarrow> string \<Rightarrow> string option" where
  "key_line key ln =
     (if prefix key ln then
        (let r = drop (length key) ln; ds = takeWhile is_digit r in
         if ds \<noteq> [] \<and> list_all re_space (dropWhile is_digit r) then Some ds else None)
      else None)"

fun first_some :: "('a \<Rightarrow> 'b option) \<Rightarrow> 'a list \<Rightarrow> 'b option" where
  "first_some f [] = None"
| "first_some f (x # xs) = (case f x of None \<Rightarrow> first_some f xs | Some y \<Rightarrow> Some y)"

definition apply_rc_re :: "string \<Rightarrow> string option" where
  "apply_rc_re out = first_some (key_line ''__PD_APPLY_RC__='') (split_on NL out)"

definition apply_setup_re :: "string \<Rightarrow> string option" where
  "apply_setup_re out = first_some (key_line ''__PD_SETUP_COUNT__='') (split_on NL out)"

text \<open>\<open>strings.Count\<close> of a non-empty substring.\<close>

function count_sub :: "string \<Rightarrow> string \<Rightarrow> nat" where
  "count_sub s p =
     (case index_of s p of
        None \<Rightarrow> 0
      | Some i \<Rightarrow> if p = [] then Suc (length s) else Suc (count_sub (drop (i + length p) s) p))"
  by pat_completeness auto
termination
  by (relation "measure (length \<circ> fst)") (auto dest!: index_of_Some simp: neq_Nil_conv)

declare count_sub.simps [simp del]
lemmas [go_simps] = count_sub.simps

definition setting_up :: string where "setting_up = ''Setting up ''"

definition finish_apply :: "string \<Rightarrow> string \<Rightarrow> string \<Rightarrow> apply_result \<times> ssh_err option" where
  "finish_apply rc_text out log =
     (let rc = atoi_value rc_text;
          changed = (case apply_setup_re out of
                       Some m \<Rightarrow> atoi_value m
                     | None \<Rightarrow> int (count_sub log setting_up));
          res = \<lparr>ar_changed = changed, ar_raw = log, ar_needs_reboot = contains out reboot_marker\<rparr>
      in if rc \<noteq> 0 then
           (let snippet = last_lines log 3;
                snippet = (if snippet = [] then ''no output'' else snippet)
            in (res, Some (PlainErr (''apt-get dist-upgrade failed (exit '' @ itoa rc @ ''): '' @ snippet))))
         else (res, None))"

section \<open>The loop\<close>

datatype apply_err = ApplyErr ssh_err | ApplyInterrupted string int bool | ApplyCancelled string

definition retryable_texts :: "string list" where
  "retryable_texts = [''timed out'', ''Connection refused'', ''unreachable'', ''Host not found'', ''SSH session error'',
     ''SSH handshake failed'', ''Connection reset'', ''SSH error: EOF'']"

definition retryable_apply_err :: "ssh_err \<Rightarrow> bool" where
  "retryable_apply_err err \<longleftrightarrow> is_conn_lost (Some err) \<or> list_ex (contains (err_text err)) retryable_texts"

text \<open>
  The environment: \<open>ae_stream\<close> runs a script as root and returns the lines it passed to the callback,
  the standard output and the error; \<open>ae_cancelled\<close> is \<open>ctx.Err()\<close>; \<open>ae_sleep\<close> waits for the retry
  delay, or returns the cancellation that ended the wait. The clock is in nanoseconds.
\<close>

record 'w apply_env =
  ae_stream :: "'w \<Rightarrow> string \<Rightarrow> 'w \<times> string list \<times> string \<times> ssh_err option"
  ae_clock :: "'w \<Rightarrow> int"
  ae_cancelled :: "'w \<Rightarrow> string option"
  ae_sleep :: "'w \<Rightarrow> 'w \<times> string option"

record apply_state =
  ap_seen :: nat
  ap_log :: string
  ap_shown :: "string list"
  ap_drop :: "int option"
  ap_attempt :: nat
  ap_script :: string

definition log_line :: "string \<Rightarrow> bool" where
  "log_line l \<longleftrightarrow> \<not> (has_prefix l ''__PD_'' \<or> l = reboot_marker)"

definition apply_emit :: "string \<Rightarrow> apply_state \<Rightarrow> apply_state" where
  "apply_emit l st =
     (if \<not> log_line l then st
      else st\<lparr>ap_seen := ap_seen st + 1, ap_log := ap_log st @ l @ [NL], ap_shown := ap_shown st @ [l]\<rparr>)"

definition empty_apply :: apply_result where
  "empty_apply = \<lparr>ar_changed = 0, ar_raw = [], ar_needs_reboot = False\<rparr>"

definition lost_text :: string where
  "lost_text = ''the upgrade stopped on the host without an exit status (host rebooted or apt was killed)''"

definition not_started_text :: string where
  "not_started_text = ''the upgrade could not be started on the host''"

definition log_gone_text :: string where
  "log_gone_text = ''the upgrade'' @ [squote] @ ''s log is gone from the host''"

definition no_result_err :: ssh_err where
  "no_result_err = PlainErr (''the upgrade'' @ [squote] @ ''s output ended without a result'')"

definition dropped_note :: string where
  "dropped_note = em_dash @ '' connection to the host dropped; the upgrade keeps running there. Reattaching'' @ ellipsis"

definition reattach_failed_text :: "ssh_err \<Rightarrow> string" where
  "reattach_failed_text err = ''couldn'' @ [squote] @ ''t reattach to the running upgrade: '' @ err_text err"

text \<open>What a stream that ended without a result leads to: \<open>Inl\<close> goes round again.\<close>

definition apply_retry ::
  "'w apply_env \<Rightarrow> string \<Rightarrow> int \<Rightarrow> 'w \<Rightarrow> apply_state \<Rightarrow> ssh_err \<Rightarrow>
     'w \<times> (apply_state + apply_result \<times> apply_err option)" where
  "apply_retry env rid started w st err =
     (if ap_attempt st = 0 \<and> ap_seen st = 0 \<and> \<not> retryable_apply_err err
      then (w, Inr (empty_apply, Some (ApplyErr err)))
      else
        (case ae_cancelled env w of
           Some e \<Rightarrow> (w, Inr (empty_apply, Some (ApplyCancelled e)))
         | None \<Rightarrow>
             if \<not> retryable_apply_err err \<and> ap_attempt st > 0
             then (w, Inr (empty_apply, Some (ApplyErr err)))
             else
               (let now = ae_clock env w;
                    (since, st) = (case ap_drop st of
                        Some t \<Rightarrow> (t, st)
                      | None \<Rightarrow> (now, st\<lparr>ap_drop := Some now, ap_shown := ap_shown st @ [dropped_note]\<rparr>))
                in
                if now - since > apply_reconnect_window \<or> now - started > apply_max_duration
                then (w, Inr (empty_apply, Some (ApplyInterrupted (reattach_failed_text err)
                        (int (count_sub (ap_log st) setting_up)) (ap_seen st > 0))))
                else
                  (case ae_sleep env w of
                     (w', Some e) \<Rightarrow> (w', Inr (empty_apply, Some (ApplyCancelled e)))
                   | (w', None) \<Rightarrow>
                       (w', Inl (st\<lparr>ap_script := apply_follow_script rid (ap_seen st + 1),
                          ap_attempt := ap_attempt st + 1\<rparr>))))))"

definition apply_step ::
  "'w apply_env \<Rightarrow> string \<Rightarrow> int \<Rightarrow> 'w \<Rightarrow> apply_state \<Rightarrow> 'w \<times> (apply_state + apply_result \<times> apply_err option)" where
  "apply_step env rid started w st0 =
     (case ae_stream env w (ap_script st0) of (w, lines, out, err) \<Rightarrow>
        (let st = fold apply_emit lines st0;
             st = (if ap_seen st > ap_seen st0 then st\<lparr>ap_drop := None\<rparr> else st)
         in
         case apply_rc_re out of
           Some rc \<Rightarrow> (case finish_apply rc out (ap_log st) of (res, e) \<Rightarrow> (w, Inr (res, map_option ApplyErr e)))
         | None \<Rightarrow>
             if contains out ''__PD_APPLY_LOST__'' then
               (w, Inr (empty_apply, Some (ApplyInterrupted lost_text (int (count_sub (ap_log st) setting_up)) True)))
             else if contains out ''__PD_APPLY_NOTFOUND__'' then
               (if ap_attempt st = 0 then (w, Inr (empty_apply, Some (ApplyErr (PlainErr not_started_text))))
                else (w, Inr (empty_apply, Some (ApplyInterrupted log_gone_text 0 False))))
             else apply_retry env rid started w st (case err of None \<Rightarrow> no_result_err | Some e \<Rightarrow> e)))"

fun apply_loop ::
  "'w apply_env \<Rightarrow> string \<Rightarrow> int \<Rightarrow> nat \<Rightarrow> 'w \<Rightarrow> apply_state \<Rightarrow> ('w \<times> apply_result \<times> apply_err option) option" where
  "apply_loop env rid started 0 w st = None"
| "apply_loop env rid started (Suc fuel) w st =
     (case apply_step env rid started w st of
        (w', Inr r) \<Rightarrow> Some (w', r)
      | (w', Inl st') \<Rightarrow> apply_loop env rid started fuel w' st')"

definition apply_init :: "string \<Rightarrow> apply_state" where
  "apply_init rid = \<lparr>ap_seen = 0, ap_log = [], ap_shown = [], ap_drop = None, ap_attempt = 0,
     ap_script = apply_start_script rid\<rparr>"

text \<open>\<open>applyDetached\<close> with \<open>rid\<close> for the fresh id and \<open>fuel\<close> attempts at most, \<open>None\<close> when they run out.\<close>

definition apply_detached ::
  "'w apply_env \<Rightarrow> string \<Rightarrow> nat \<Rightarrow> 'w \<Rightarrow> ('w \<times> apply_result \<times> apply_err option) option" where
  "apply_detached env rid fuel w =
     (if \<not> apply_id_ok rid then Some (w, empty_apply, Some (ApplyErr (PlainErr ''bad apply id'')))
      else apply_loop env rid (ae_clock env w) fuel w (apply_init rid))"

section \<open>One attempt\<close>

lemma fold_emit:
  "fold apply_emit ls st =
     st\<lparr>ap_seen := ap_seen st + length (filter log_line ls), ap_log := ap_log st @ unlines (filter log_line ls),
        ap_shown := ap_shown st @ filter log_line ls\<rparr>"
  by (induction ls arbitrary: st) (simp_all add: apply_emit_def)

text \<open>An attempt that goes round again has seen the lines of its stream, and its next script follows from there.\<close>

lemma apply_retry_again:
  assumes "apply_retry env rid started w st err = (w', Inl st')"
  shows "ap_seen st' = ap_seen st" "ap_log st' = ap_log st" "ap_attempt st' = ap_attempt st + 1"
    "ap_script st' = apply_follow_script rid (ap_seen st + 1)"
    "ae_clock env w - started \<le> apply_max_duration" "ae_sleep env w = (w', None)"
  using assms
  by (auto simp: apply_retry_def Let_def split: if_splits option.splits prod.splits)

lemma apply_step_again:
  assumes "apply_step env rid started w st = (w', Inl st')" "ae_stream env w (ap_script st) = (w1, ls, out, err)"
  shows "ap_seen st' = ap_seen st + length (filter log_line ls)" "ap_log st' = ap_log st @ unlines (filter log_line ls)"
    "ap_attempt st' = ap_attempt st + 1" "ap_script st' = apply_follow_script rid (ap_seen st' + 1)"
    "ae_clock env w1 - started \<le> apply_max_duration" "ae_sleep env w1 = (w', None)"
proof -
  define st1 where "st1 = (if ap_seen (fold apply_emit ls st) > ap_seen st
      then (fold apply_emit ls st)\<lparr>ap_drop := None\<rparr> else fold apply_emit ls st)"
  have st1: "ap_seen st1 = ap_seen st + length (filter log_line ls)"
    "ap_log st1 = ap_log st @ unlines (filter log_line ls)" "ap_attempt st1 = ap_attempt st"
    by (simp_all add: st1_def fold_emit)
  obtain e where "apply_retry env rid started w1 st1 e = (w', Inl st')"
    using assms by (auto simp: apply_step_def st1_def Let_def split: option.splits if_splits prod.splits)
  from apply_retry_again [OF this] st1
  show "ap_seen st' = ap_seen st + length (filter log_line ls)" "ap_log st' = ap_log st @ unlines (filter log_line ls)"
    "ap_attempt st' = ap_attempt st + 1" "ap_script st' = apply_follow_script rid (ap_seen st' + 1)"
    "ae_clock env w1 - started \<le> apply_max_duration" "ae_sleep env w1 = (w', None)"
    by simp_all
qed

text \<open>An attempt that ends with a result: either the whole log with an exit status, or an error.\<close>

lemma apply_retry_end:
  "apply_retry env rid started w st e = (w', Inr (res, err)) \<Longrightarrow> res = empty_apply \<and> err \<noteq> None"
  by (auto simp: apply_retry_def Let_def split: if_splits option.splits prod.splits)

lemma apply_step_end:
  assumes "apply_step env rid started w st = (w', Inr (res, err))" "ae_stream env w (ap_script st) = (w1, ls, out, e)"
  shows "(apply_rc_re out \<noteq> None \<and> ar_raw res = ap_log st @ unlines (filter log_line ls)) \<or> (res = empty_apply \<and> err \<noteq> None)"
  using assms
  by (auto simp: apply_step_def fold_emit finish_apply_def Let_def split: option.splits if_splits prod.splits
      dest: apply_retry_end)

section \<open>The upgrade is started once\<close>

lemma start_not_follow: "apply_start_script rid \<noteq> apply_follow_script rid n"
proof
  let ?s = "concat (map (\<lambda>l. l @ [NL]) start_lines)"
  assume "apply_start_script rid = apply_follow_script rid n"
  then have e: "?s @ apply_follow_body 1 = apply_follow_body n"
    by (simp only: apply_start_script_def apply_follow_script_def same_append_eq)
  have s: "?s \<noteq> []" "hd ?s = CHR ''m''" by code_simp+
  have "hd (apply_follow_body n) = CHR ''i''"
    by (simp only: apply_follow_body_def follow_lines_def list.map concat.simps append_Cons list.sel)
  with arg_cong [OF e, of hd] s show False by simp
qed

text \<open>The environment that also keeps the scripts it was given.\<close>

definition logged_env :: "'w apply_env \<Rightarrow> ('w \<times> string list) apply_env" where
  "logged_env env =
     \<lparr>ae_stream = (\<lambda>(w, log) script. case ae_stream env w script of (w', r) \<Rightarrow> ((w', log @ [script]), r)),
      ae_clock = (\<lambda>(w, log). ae_clock env w), ae_cancelled = (\<lambda>(w, log). ae_cancelled env w),
      ae_sleep = (\<lambda>(w, log). case ae_sleep env w of (w', c) \<Rightarrow> ((w', log), c))\<rparr>"

lemma apply_retry_log:
  "apply_retry (logged_env env) rid started (w, log) st e = ((w', log'), r) \<Longrightarrow> log' = log"
  by (auto simp: apply_retry_def logged_env_def Let_def split: if_splits option.splits prod.splits)

lemma apply_step_log:
  "apply_step (logged_env env) rid started (w, log) st = ((w', log'), r) \<Longrightarrow> log' = log @ [ap_script st]"
  unfolding apply_step_def
  by (auto simp: Let_def logged_env_def [of env, THEN arg_cong [where f = ae_stream]]
      split: if_splits option.splits prod.splits dest: apply_retry_log)

lemma apply_loop_scripts:
  assumes "apply_loop (logged_env env) rid started fuel (w, log) st = Some ((w', log'), r)"
  shows "\<exists>ns. log' = log @ ap_script st # map (apply_follow_script rid) ns \<and> (\<forall>n \<in> set ns. 0 < n) \<and> sorted (Suc (ap_seen st) # ns)"
  using assms
proof (induction fuel arbitrary: w log st)
  case (Suc fuel)
  obtain w1 log1 r1 where step: "apply_step (logged_env env) rid started (w, log) st = ((w1, log1), r1)" by (metis surj_pair)
  have log1: "log1 = log @ [ap_script st]" by (rule apply_step_log [OF step])
  show ?case
  proof (cases r1)
    case (Inl st1)
    obtain w2 ls out e where s: "ae_stream (logged_env env) (w, log) (ap_script st) = (w2, ls, out, e)" by (metis surj_pair)
    note again = apply_step_again [OF step [unfolded Inl] s]
    have "apply_loop (logged_env env) rid started fuel (w1, log1) st1 = Some ((w', log'), r)"
      using Suc.prems step Inl by simp
    from Suc.IH [OF this] obtain ns where ns: "log' = log1 @ ap_script st1 # map (apply_follow_script rid) ns"
      "\<forall>n \<in> set ns. 0 < n" "sorted (Suc (ap_seen st1) # ns)" by blast
    let ?ns = "Suc (ap_seen st1) # ns"
    show ?thesis using ns log1 again by (intro exI [of _ ?ns]) auto
  next
    case (Inr x)
    with Suc.prems step log1 show ?thesis by (intro exI [of _ "[]"]) simp
  qed
qed simp

section \<open>Properties\<close>

text \<open>C6
  The upgrade is started at most once: however often the connection drops, the script that launches it is
  handed to the SSH client once, as the first one, and every later one only follows its log, from positions that
  never go back. A first script that is refused never reaches the host, and then no later one launches the
  upgrade either (\<open>refused_apply\<close>).\<close>

theorem apply_started_once:
  assumes "apply_id_ok rid" "apply_detached (logged_env env) rid fuel (w, []) = Some ((w', log), r)"
  shows "length (filter (\<lambda>s. s = apply_start_script rid) log) = 1 \<and>
     (\<exists>ns. log = apply_start_script rid # map (apply_follow_script rid) ns \<and> sorted ns \<and> (\<forall>n \<in> set ns. 0 < n))"
proof -
  have "apply_loop (logged_env env) rid (ae_clock (logged_env env) (w, [])) fuel (w, []) (apply_init rid) =
      Some ((w', log), r)"
    using assms by (simp add: apply_detached_def)
  from apply_loop_scripts [OF this] obtain ns where
    ns: "log = apply_start_script rid # map (apply_follow_script rid) ns" "\<forall>n \<in> set ns. 0 < n" "sorted ns"
    by (auto simp: apply_init_def)
  have "filter (\<lambda>s. s = apply_start_script rid) (map (apply_follow_script rid) ns) = []"
    using start_not_follow by (auto simp: filter_empty_conv) metis
  with ns show ?thesis by auto
qed

text \<open>A host that can never be reached, with a clock that only moves while waiting.\<close>

definition refusing_env :: "int apply_env" where
  "refusing_env = \<lparr>ae_stream = (\<lambda>w script. (w, [], [], Some (PlainErr ''Connection refused''))),
     ae_clock = (\<lambda>w. w), ae_cancelled = (\<lambda>_. None), ae_sleep = (\<lambda>w. (w + apply_retry_delay, None))\<rparr>"

theorem apply_started_once_witness:
  "\<exists>w' log r. apply_detached (logged_env \<lparr>ae_stream = (\<lambda>w script. (w + 1, [], ''__PD_APPLY_RC__=0'', None)),
      ae_clock = (\<lambda>w. w), ae_cancelled = (\<lambda>_. None), ae_sleep = (\<lambda>w. (w, None))\<rparr>) ''a1'' 1 (0::int, []) =
      Some ((w', log), r) \<and> length (filter (\<lambda>s. s = apply_start_script ''a1'') log) = 1"
proof -
  let ?e = "\<lparr>ae_stream = (\<lambda>w script. (w + 1, [], ''__PD_APPLY_RC__=0'', None)),
      ae_clock = (\<lambda>w. w), ae_cancelled = (\<lambda>_. None), ae_sleep = (\<lambda>w. (w, None))\<rparr> :: int apply_env"
  have i: "apply_id_ok ''a1''" by code_simp
  have "apply_rc_re ''__PD_APPLY_RC__=0'' = Some ''0''" by code_simp
  then have "apply_detached (logged_env ?e) ''a1'' 1 (0, []) =
      Some ((1, [apply_start_script ''a1'']), apsnd (map_option ApplyErr) (finish_apply ''0'' ''__PD_APPLY_RC__=0'' []))"
    by (simp add: apply_detached_def i logged_env_def apply_step_def apply_init_def Let_def split: prod.split)
  with apply_started_once [OF i this] show ?thesis by blast
qed

section \<open>The loop ends\<close>

text \<open>The clock never goes back, and a wait that is not cancelled takes at least the retry delay.\<close>

definition clock_ok :: "'w apply_env \<Rightarrow> bool" where
  "clock_ok env \<longleftrightarrow> (\<forall>w script. ae_clock env w \<le> ae_clock env (fst (ae_stream env w script))) \<and>
     (\<forall>w w'. ae_sleep env w = (w', None) \<longrightarrow> ae_clock env w + apply_retry_delay \<le> ae_clock env w')"

lemma apply_retry_delay_pos: "0 < apply_retry_delay"
  by (simp add: apply_retry_delay_def second_def)

lemma apply_loop_ends:
  assumes "clock_ok env" "ae_clock env w - started + int fuel * apply_retry_delay > apply_max_duration"
  shows "apply_loop env rid started (Suc fuel) w st \<noteq> None"
  using assms(2)
proof (induction fuel arbitrary: w st)
  case (0 w st)
  obtain w1 ls out e where s: "ae_stream env w (ap_script st) = (w1, ls, out, e)" by (metis surj_pair)
  have "ae_clock env w \<le> ae_clock env w1" using assms(1) s unfolding clock_ok_def by (metis fst_conv)
  then have "\<not> ae_clock env w1 - started \<le> apply_max_duration" using 0 by simp
  then have "apply_step env rid started w st \<noteq> (w', Inl st')" for w' st'
    using apply_step_again(5) [OF _ s] by blast
  then show ?case by (auto split: prod.split sum.split)
next
  case (Suc fuel w st)
  obtain w1 ls out e where s: "ae_stream env w (ap_script st) = (w1, ls, out, e)" by (metis surj_pair)
  obtain w2 r where step: "apply_step env rid started w st = (w2, r)" by (metis surj_pair)
  show ?case
  proof (cases r)
    case (Inl st2)
    have "ae_clock env w \<le> ae_clock env w1" using assms(1) s unfolding clock_ok_def by (metis fst_conv)
    moreover have "ae_clock env w1 + apply_retry_delay \<le> ae_clock env w2"
      using apply_step_again(6) [OF step [unfolded Inl] s] assms(1) unfolding clock_ok_def by blast
    ultimately have "ae_clock env w2 - started + int fuel * apply_retry_delay > apply_max_duration"
      using Suc.prems by (simp add: algebra_simps)
    from Suc.IH [OF this, of st2] step Inl show ?thesis by simp
  next
    case (Inr x)
    with step show ?thesis by simp
  qed
qed

lemma apply_loop_more:
  "apply_loop env rid started fuel w st = Some r \<Longrightarrow> fuel \<le> fuel' \<Longrightarrow> apply_loop env rid started fuel' w st = Some r"
proof (induction env rid started fuel w st arbitrary: fuel' rule: apply_loop.induct)
  case (2 env rid started fuel w st)
  obtain f where f: "fuel' = Suc f" "fuel \<le> f" using 2(3) by (cases fuel') auto
  obtain w1 x where step: "apply_step env rid started w st = (w1, x)" by (metis surj_pair)
  show ?case
  proof (cases x)
    case (Inl st1)
    with 2(1) [OF step [symmetric] Inl _ f(2)] 2(2) step f(1) show ?thesis by simp
  next
    case (Inr y)
    with 2(2) step f(1) show ?thesis by simp
  qed
qed simp

text \<open>C36
  An apply always ends: with waits of at least the retry delay it makes at most 2402 attempts before
  the two-hour cap stops it (the one at exactly two hours goes round again), so that many attempts give its
  result and more change nothing.\<close>

theorem apply_terminates:
  assumes "clock_ok env"
  shows "\<exists>r. \<forall>fuel \<ge> 2402. apply_detached env rid fuel w = Some r"
proof (cases "apply_id_ok rid")
  case True
  have "apply_loop env rid (ae_clock env w) (Suc 2401) w (apply_init rid) \<noteq> None"
    by (rule apply_loop_ends [OF assms])
       (simp add: apply_retry_delay_def apply_max_duration_def second_def)
  then obtain r where "apply_loop env rid (ae_clock env w) 2402 w (apply_init rid) = Some r"
    by (auto simp del: apply_loop.simps)
  from apply_loop_more [OF this] True show ?thesis by (intro exI [of _ r]) (simp add: apply_detached_def)
qed (auto simp: apply_detached_def)

theorem apply_terminates_witness: "apply_detached refusing_env ''a1'' 5000 0 \<noteq> None"
proof -
  have "clock_ok refusing_env" by (simp add: clock_ok_def refusing_env_def)
  from apply_terminates [OF this, of "''a1''" 0]
  obtain r where "\<forall>fuel \<ge> 2402. apply_detached refusing_env ''a1'' fuel 0 = Some r" by blast
  moreover have "(2402::nat) \<le> 5000" by simp
  ultimately have "apply_detached refusing_env ''a1'' 5000 0 = Some r" by blast
  then show ?thesis by simp
qed

text \<open>
  A host that refuses every connection: no upgrade is ever started, but the apply does not fail. It
  is reported as interrupted, with no package set up and the flag that dpkg had started off.
\<close>

definition refuses :: "'w apply_env \<Rightarrow> ssh_err \<Rightarrow> bool" where
  "refuses env e \<longleftrightarrow> (\<forall>w script. snd (ae_stream env w script) = ([], [], Some e)) \<and>
     (\<forall>w. ae_cancelled env w = None) \<and> (\<forall>w. snd (ae_sleep env w) = None)"

lemma refused_step:
  assumes "refuses env e" "retryable_apply_err e" "ap_seen st = 0" "ap_log st = []"
  shows "(\<exists>w' st'. apply_step env rid started w st = (w', Inl st') \<and> ap_seen st' = 0 \<and> ap_log st' = []) \<or>
     (\<exists>w' t. apply_step env rid started w st = (w', Inr (empty_apply, Some (ApplyInterrupted t 0 False))))"
proof -
  obtain w1 where s: "ae_stream env w (ap_script st) = (w1, [], [], Some e)"
    using assms(1) unfolding refuses_def by (metis prod.collapse)
  obtain w2 where z: "ae_sleep env w1 = (w2, None)" using assms(1) unfolding refuses_def by (metis prod.collapse)
  have rc: "apply_rc_re [] = None" by code_simp
  have c: "contains [] (x # xs) = False" for x :: char and xs by (simp add: contains_def)
  have cnt: "count_sub [] setting_up = 0" by code_simp
  show ?thesis
    using assms(2-4) s z assms(1) rc
    by (auto simp: apply_step_def apply_retry_def refuses_def c cnt Let_def split: option.split)
qed

lemma refused_loop:
  assumes "refuses env e" "retryable_apply_err e"
  shows "ap_seen st = 0 \<Longrightarrow> ap_log st = [] \<Longrightarrow> apply_loop env rid started fuel w st = Some (w', res, err) \<Longrightarrow>
     res = empty_apply \<and> (\<exists>t. err = Some (ApplyInterrupted t 0 False))"
proof (induction fuel arbitrary: w st)
  case (Suc fuel)
  from refused_step [OF assms Suc.prems(1,2), of rid started w] show ?case
  proof (elim disjE exE conjE)
    fix w1 st1
    assume "apply_step env rid started w st = (w1, Inl st1)" "ap_seen st1 = 0" "ap_log st1 = []"
    with Suc.IH [of st1 w1] Suc.prems(3) show ?case by simp
  next
    fix w1 t
    assume "apply_step env rid started w st = (w1, Inr (empty_apply, Some (ApplyInterrupted t 0 False)))"
    with Suc.prems(3) show ?case by auto
  qed
qed simp

lemma refused_apply:
  assumes "refuses env e" "retryable_apply_err e" "clock_ok env" "apply_id_ok rid" "fuel \<ge> 2402"
  shows "\<exists>w' t. apply_detached env rid fuel w = Some (w', empty_apply, Some (ApplyInterrupted t 0 False))"
proof -
  obtain w' res err where r: "apply_detached env rid fuel w = Some (w', res, err)"
    using apply_loop_ends [OF assms(3), of w "ae_clock env w" "fuel - 1" rid "apply_init rid"] assms(4,5)
    by (cases fuel) (auto simp: apply_detached_def apply_retry_delay_def apply_max_duration_def second_def
        simp del: apply_loop.simps)
  with refused_loop [OF assms(1,2), of "apply_init rid" rid "ae_clock env w" fuel w w' res err] assms(4)
  show ?thesis by (auto simp: apply_detached_def apply_init_def)
qed

end
