(* ===== verification/Pool.thy ===== *)
theory Pool
  imports Models "HOL-Library.Multiset"
begin

text \<open>
  \<open>internal/sshx/pool.go\<close>: the pool of SSH connections, one for each way of reaching a host. A
  connection is a number; the table holds what the program knows of each, with two fields the
  program does not have: whether the transport is still open, and whether it was the program that
  closed it. Every critical section of the pool's mutex is one operation, and the operations of the
  goroutines interleave as a step relation together with the multiset of the sessions in flight.
\<close>

section \<open>The pool\<close>

definition pool_idle :: int where
  "pool_idle = 20000000000"

record pooled_conn =
  pc_key :: string
  pc_users :: int
  pc_last :: int
  pc_dead :: bool
  pc_pooled :: bool
  pc_open :: bool
  pc_closed :: bool

record conn_pool =
  po_conns :: "string \<rightharpoonup> nat"
  po_table :: "nat \<rightharpoonup> pooled_conn"
  po_fresh :: nat

definition new_conn_pool :: conn_pool where
  "new_conn_pool = \<lparr>po_conns = Map.empty, po_table = Map.empty, po_fresh = 0\<rparr>"

text \<open>
  The key covers everything that affects how the connection was authenticated and verified: each
  part is written with a zero byte after it and the whole is hashed.
\<close>

definition pool_key_parts :: "host \<Rightarrow> string list \<Rightarrow> string list" where
  "pool_key_parts h fingerprints =
     [h_id h, h_address h, itoa (h_port h), h_ssh_user h, h_auth_type h, h_secret h, h_trust_mode h, h_pinned h, h_trusted h]
     @ fingerprints"

definition pool_key :: "(string \<Rightarrow> string) \<Rightarrow> host \<Rightarrow> string list \<Rightarrow> string" where
  "pool_key sha h fingerprints = sha (concat (map (\<lambda>s. s @ [CHR 0x00]) (pool_key_parts h fingerprints)))"

definition update_conn :: "nat \<Rightarrow> (pooled_conn \<Rightarrow> pooled_conn) \<Rightarrow> conn_pool \<Rightarrow> conn_pool" where
  "update_conn i f p = p\<lparr>po_table := (po_table p)(i := map_option f (po_table p i))\<rparr>"

text \<open>\<open>p.conns[pc.key] == pc\<close>, and the deletion that follows it.\<close>

definition evict :: "nat \<Rightarrow> conn_pool \<Rightarrow> conn_pool" where
  "evict i p = (case po_table p i of
     None \<Rightarrow> p
   | Some c \<Rightarrow> if po_conns p (pc_key c) = Some i then p\<lparr>po_conns := (po_conns p)(pc_key c := None)\<rparr> else p)"

definition mark_dead :: "nat \<Rightarrow> conn_pool \<Rightarrow> conn_pool" where
  "mark_dead i p = evict i (update_conn i (pc_dead_update (\<lambda>_. True)) p)"

definition close_conn :: "nat \<Rightarrow> conn_pool \<Rightarrow> conn_pool" where
  "close_conn i p = update_conn i (\<lambda>c. c\<lparr>pc_open := False, pc_closed := True\<rparr>) p"

text \<open>\<open>acquire\<close>: the two critical sections around the dialing.\<close>

definition acquire_cached :: "string \<Rightarrow> int \<Rightarrow> conn_pool \<Rightarrow> (nat \<times> conn_pool) option" where
  "acquire_cached key now p = (case po_conns p key of
     None \<Rightarrow> None
   | Some i \<Rightarrow> (case po_table p i of
        None \<Rightarrow> None
      | Some c \<Rightarrow> if pc_dead c then None
          else Some (i, update_conn i (\<lambda>c. c\<lparr>pc_users := pc_users c + 1, pc_last := now\<rparr>) p)))"

definition free_slot :: "string \<Rightarrow> conn_pool \<Rightarrow> bool" where
  "free_slot key p = (case po_conns p key of
     None \<Rightarrow> True
   | Some i \<Rightarrow> (case po_table p i of None \<Rightarrow> True | Some c \<Rightarrow> pc_dead c))"

definition acquire_dialed :: "string \<Rightarrow> int \<Rightarrow> conn_pool \<Rightarrow> nat \<times> conn_pool" where
  "acquire_dialed key now p =
     (let i = po_fresh p; pooled = free_slot key p;
          c = \<lparr>pc_key = key, pc_users = 1, pc_last = now, pc_dead = False, pc_pooled = pooled, pc_open = True, pc_closed = False\<rparr>
      in (i, \<lparr>po_conns = (if pooled then (po_conns p)(key \<mapsto> i) else po_conns p),
              po_table = (po_table p)(i \<mapsto> c), po_fresh = i + 1\<rparr>))"

text \<open>What the goroutine that waits for the end of the transport does.\<close>

definition transport_ended :: "nat \<Rightarrow> conn_pool \<Rightarrow> conn_pool" where
  "transport_ended i p = mark_dead i p"

definition release :: "nat \<Rightarrow> bool \<Rightarrow> int \<Rightarrow> conn_pool \<Rightarrow> conn_pool" where
  "release i broken now p =
     (let p = update_conn i (\<lambda>c. c\<lparr>pc_users := pc_users c - 1, pc_last := now\<rparr>) p;
          p = (if broken then mark_dead i p else p)
      in case po_table p i of
           None \<Rightarrow> p
         | Some c \<Rightarrow> if (pc_dead c \<or> \<not> pc_pooled c) \<and> pc_users c \<le> 0 then close_conn i p else p)"

definition abort_conn :: "nat \<Rightarrow> conn_pool \<Rightarrow> conn_pool" where
  "abort_conn i p = close_conn i (mark_dead i p)"

definition idle_conn :: "int \<Rightarrow> conn_pool \<Rightarrow> nat \<Rightarrow> bool" where
  "idle_conn now p i = (case po_table p i of
     None \<Rightarrow> False
   | Some c \<Rightarrow> po_conns p (pc_key c) = Some i \<and> pc_users c \<le> 0 \<and> now - pc_last c > pool_idle)"

definition close_idle :: "int \<Rightarrow> conn_pool \<Rightarrow> conn_pool" where
  "close_idle now p = p\<lparr>
     po_conns := (\<lambda>k. case po_conns p k of None \<Rightarrow> None | Some i \<Rightarrow> if idle_conn now p i then None else Some i),
     po_table := (\<lambda>i. map_option (\<lambda>c. if idle_conn now p i
        then c\<lparr>pc_dead := True, pc_open := False, pc_closed := True\<rparr> else c) (po_table p i))\<rparr>"

section \<open>Interleaving\<close>

text \<open>
  The pool with the sessions in flight. A dialed connection is entered whatever has happened since
  the pool was looked up; the transport of any connection may end at any time, and the program notices
  it at any later time; only a holder releases or aborts its connection.
\<close>

type_synonym pool_state = "conn_pool \<times> nat multiset"

inductive pool_step :: "pool_state \<Rightarrow> pool_state \<Rightarrow> bool" where
  Reuse: "acquire_cached key now p = Some (i, p') \<Longrightarrow> pool_step (p, m) (p', add_mset i m)"
| Dialed: "acquire_dialed key now p = (i, p') \<Longrightarrow> pool_step (p, m) (p', add_mset i m)"
| Dropped: "pool_step (p, m) (update_conn i (pc_open_update (\<lambda>_. False)) p, m)"
| Noticed: "po_table p i = Some c \<Longrightarrow> \<not> pc_open c \<Longrightarrow> pool_step (p, m) (transport_ended i p, m)"
| Released: "i \<in># m \<Longrightarrow> pool_step (p, m) (release i broken now p, m - {#i#})"
| Aborted: "i \<in># m \<Longrightarrow> pool_step (p, m) (abort_conn i p, m)"
| Reaped: "pool_step (p, m) (close_idle now p, m)"

inductive_cases pool_stepE: "pool_step (p, m) y"

inductive pool_reachable :: "pool_state \<Rightarrow> bool" where
  Start: "pool_reachable (new_conn_pool, {#})"
| Step: "pool_reachable x \<Longrightarrow> pool_step x y \<Longrightarrow> pool_reachable y"

text \<open>
  The invariant: what the pool maps is known, under its own key, neither dead nor closed; the user
  count is the number of sessions in flight; a dead or unpooled connection without sessions has been
  closed, by the program or by its end.
\<close>

definition conn_ok :: "conn_pool \<Rightarrow> nat multiset \<Rightarrow> nat \<Rightarrow> pooled_conn \<Rightarrow> bool" where
  "conn_ok p m i c \<longleftrightarrow> i < po_fresh p \<and> pc_users c = int (count m i) \<and>
     (po_conns p (pc_key c) = Some i \<longrightarrow> \<not> pc_dead c \<and> \<not> pc_closed c \<and> pc_pooled c) \<and>
     (po_conns p (pc_key c) \<noteq> Some i \<longrightarrow> pc_dead c \<or> \<not> pc_pooled c) \<and>
     (pc_closed c \<longrightarrow> \<not> pc_open c) \<and>
     ((pc_dead c \<or> \<not> pc_pooled c) \<and> pc_users c = 0 \<longrightarrow> \<not> pc_open c)"

definition pool_inv :: "pool_state \<Rightarrow> bool" where
  "pool_inv = (\<lambda>(p, m).
     (\<forall>i c. po_table p i = Some c \<longrightarrow> conn_ok p m i c) \<and>
     (\<forall>k i. po_conns p k = Some i \<longrightarrow> (\<exists>c. po_table p i = Some c \<and> pc_key c = k)) \<and>
     (\<forall>i. i \<in># m \<longrightarrow> po_table p i \<noteq> None) \<and> (\<forall>i. po_fresh p \<le> i \<longrightarrow> po_table p i = None))"

lemma pool_inv_init: "pool_inv (new_conn_pool, {#})"
  by (simp add: pool_inv_def new_conn_pool_def)

lemma pool_invD:
  assumes "pool_inv (p, m)"
  shows "po_table p i = Some c \<Longrightarrow> conn_ok p m i c"
    and "po_conns p k = Some i \<Longrightarrow> \<exists>c. po_table p i = Some c \<and> pc_key c = k"
    and "i \<in># m \<Longrightarrow> \<exists>c. po_table p i = Some c"
    and "po_table p (po_fresh p) = None"
  using assms by (auto simp: pool_inv_def)

text \<open>An operation on one connection, which may take it out of the pool.\<close>

lemma pool_inv_at:
  assumes inv: "pool_inv (p, m)" and c: "po_table p i = Some c" "pc_key c' = pc_key c"
    and p': "po_table p' = (po_table p)(i \<mapsto> c')" "po_fresh p' = po_fresh p"
      "po_conns p' = po_conns p \<or> po_conns p (pc_key c) = Some i \<and> po_conns p' = (po_conns p)(pc_key c := None)"
    and m: "\<And>j. j \<noteq> i \<Longrightarrow> count m' j = count m j" and ok: "conn_ok p' m' i c'"
  shows "pool_inv (p', m')"
proof -
  have other: "conn_ok p' m' j d" if "po_table p j = Some d" "j \<noteq> i" for j d
  proof -
    have "po_conns p' (pc_key d) = Some j \<longleftrightarrow> po_conns p (pc_key d) = Some j" using p'(3) that(2) by (auto split: if_splits)
    with pool_invD(1) [OF inv that(1)] m [OF that(2)] show ?thesis by (simp add: conn_ok_def p'(2))
  qed
  have "\<exists>d. po_table p' j = Some d \<and> pc_key d = k" if "po_conns p' k = Some j" for j k
  proof -
    have "po_conns p k = Some j" using that p'(3) by (auto split: if_splits)
    with pool_invD(2) [OF inv this] c p'(1) show ?thesis by auto
  qed
  moreover have "po_table p' j \<noteq> None" if "j \<in># m'" for j
  proof (cases "j = i")
    case False
    with m that have "j \<in># m" by (metis count_greater_zero_iff)
    with pool_invD(3) [OF inv this] show ?thesis by (auto simp: p'(1))
  qed (simp add: p'(1))
  moreover have "po_table p' j = None" if "po_fresh p' \<le> j" for j
    using inv that c(1) by (auto simp: pool_inv_def p'(1,2))
  ultimately show ?thesis using other ok by (auto simp: pool_inv_def p'(1) split: if_splits)
qed

lemma update_conn_fields [simp]:
  "po_conns (update_conn i f p) = po_conns p" "po_fresh (update_conn i f p) = po_fresh p"
  "po_table (update_conn i f p) = (po_table p)(i := map_option f (po_table p i))"
  by (simp_all add: update_conn_def)

lemma acquire_cached_inv:
  assumes inv: "pool_inv (p, m)" and a: "acquire_cached key now p = Some (i, p')"
  shows "pool_inv (p', add_mset i m)"
proof -
  obtain c where c: "po_conns p key = Some i" "po_table p i = Some c" "\<not> pc_dead c"
    and p': "p' = update_conn i (\<lambda>c. c\<lparr>pc_users := pc_users c + 1, pc_last := now\<rparr>) p"
    using a by (auto simp: acquire_cached_def split: option.splits if_splits)
  have key: "pc_key c = key" using pool_invD(2) [OF inv c(1)] c(2) by simp
  show ?thesis
    by (rule pool_inv_at [OF inv c(2), of "c\<lparr>pc_users := pc_users c + 1, pc_last := now\<rparr>"])
      (use pool_invD(1) [OF inv c(2)] c key in \<open>auto simp: p' conn_ok_def\<close>)
qed

lemma free_slot_iff: "pool_inv (p, m) \<Longrightarrow> free_slot key p \<longleftrightarrow> po_conns p key = None"
proof (cases "po_conns p key")
  case (Some i)
  moreover assume inv: "pool_inv (p, m)"
  ultimately obtain c where c: "po_table p i = Some c" "pc_key c = key" using pool_invD(2) by blast
  with pool_invD(1) [OF inv c(1)] Some show ?thesis by (simp add: free_slot_def conn_ok_def)
qed (simp add: free_slot_def)

lemma acquire_dialed_inv:
  assumes inv: "pool_inv (p, m)" and a: "acquire_dialed key now p = (i, p')"
  shows "pool_inv (p', add_mset i m)"
proof -
  have i: "i = po_fresh p" using a by (simp add: acquire_dialed_def Let_def)
  have fresh: "po_table p i = None" "i \<notin># m" using pool_invD(3,4) [OF inv] i by force+
  have none: "po_conns p k \<noteq> Some i" for k using pool_invD(2) [OF inv, of k i] fresh by auto
  have zero: "count m i = 0" using fresh(2) by (simp add: not_in_iff)
  note free = free_slot_iff [OF inv, of key]
  define c where "c = \<lparr>pc_key = key, pc_users = 1, pc_last = now, pc_dead = False,
    pc_pooled = (po_conns p key = None), pc_open = True, pc_closed = False\<rparr>"
  have p': "po_conns p' = (if po_conns p key = None then (po_conns p)(key \<mapsto> i) else po_conns p)"
    "po_table p' = (po_table p)(i \<mapsto> c)" "po_fresh p' = i + 1"
    using a free by (auto simp: acquire_dialed_def Let_def c_def)
  have "conn_ok p' (add_mset i m) i c"
    using none zero by (auto simp: conn_ok_def p' c_def)
  moreover have "conn_ok p' (add_mset i m) j d" if d: "po_table p j = Some d" for j d
  proof -
    have "j \<noteq> i" using d fresh(1) by auto
    moreover have "po_conns p' (pc_key d) = Some j \<longleftrightarrow> po_conns p (pc_key d) = Some j"
      using calculation by (auto simp: p' split: if_splits)
    ultimately show ?thesis using pool_invD(1) [OF inv d] by (simp add: conn_ok_def p' i)
  qed
  moreover have "\<exists>d. po_table p' j = Some d \<and> pc_key d = k" if "po_conns p' k = Some j" for j k
    using that pool_invD(2) [OF inv, of k j] fresh none by (cases "j = i") (auto simp: p' c_def split: if_splits)
  ultimately show ?thesis
    using inv by (auto simp: pool_inv_def p' i split: if_splits)
qed

lemma mark_dead_eq:
  assumes "po_table p i = Some c"
  shows "mark_dead i p = p\<lparr>po_table := (po_table p)(i \<mapsto> c\<lparr>pc_dead := True\<rparr>),
    po_conns := (if po_conns p (pc_key c) = Some i then (po_conns p)(pc_key c := None) else po_conns p)\<rparr>"
  using assms by (auto simp: mark_dead_def evict_def update_conn_def)

lemma dropped_inv: "pool_inv (p, m) \<Longrightarrow> pool_inv (update_conn i (pc_open_update (\<lambda>_. False)) p, m)"
proof (cases "po_table p i")
  case (Some c)
  assume inv: "pool_inv (p, m)"
  show ?thesis
    by (rule pool_inv_at [OF inv Some, of "c\<lparr>pc_open := False\<rparr>"])
      (use pool_invD(1) [OF inv Some] Some in \<open>auto simp: conn_ok_def\<close>)
next
  case None
  moreover assume "pool_inv (p, m)"
  ultimately show ?thesis by (simp add: update_conn_def fun_upd_idem)
qed

lemma noticed_inv:
  assumes inv: "pool_inv (p, m)" and c: "po_table p i = Some c" "\<not> pc_open c"
  shows "pool_inv (transport_ended i p, m)"
  by (rule pool_inv_at [OF inv c(1), of "c\<lparr>pc_dead := True\<rparr>"])
    (use pool_invD(1) [OF inv c(1)] c in \<open>auto simp: transport_ended_def mark_dead_eq conn_ok_def\<close>)

lemma aborted_inv:
  assumes inv: "pool_inv (p, m)" and i: "i \<in># m"
  shows "pool_inv (abort_conn i p, m)"
proof -
  obtain c where c: "po_table p i = Some c" using pool_invD(3) [OF inv i] by blast
  show ?thesis
    by (rule pool_inv_at [OF inv c, of "c\<lparr>pc_dead := True, pc_open := False, pc_closed := True\<rparr>"])
      (use pool_invD(1) [OF inv c] c in \<open>auto simp: abort_conn_def close_conn_def mark_dead_eq conn_ok_def\<close>)
qed

text \<open>A release in one equation: the record afterwards and whether it stays in the pool.\<close>

lemma release_eq:
  fixes broken
  assumes "po_table p i = Some c"
  defines "gone \<equiv> (pc_dead c \<or> broken \<or> \<not> pc_pooled c) \<and> pc_users c - 1 \<le> 0"
  shows "release i broken now p = p\<lparr>
    po_table := (po_table p)(i \<mapsto> c\<lparr>pc_users := pc_users c - 1, pc_last := now, pc_dead := pc_dead c \<or> broken,
      pc_open := pc_open c \<and> \<not> gone, pc_closed := pc_closed c \<or> gone\<rparr>),
    po_conns := (if broken \<and> po_conns p (pc_key c) = Some i then (po_conns p)(pc_key c := None) else po_conns p)\<rparr>"
  using assms(1)
  by (cases broken)
    (auto simp: release_def gone_def Let_def mark_dead_def evict_def update_conn_def close_conn_def split: if_splits)

lemma released_inv:
  assumes inv: "pool_inv (p, m)" and i: "i \<in># m"
  shows "pool_inv (release i broken now p, m - {#i#})"
proof -
  obtain c where c: "po_table p i = Some c" using pool_invD(3) [OF inv i] by blast
  note ok = pool_invD(1) [OF inv c]
  have pos: "pc_users c \<ge> 1" "count m i \<ge> 1" using ok i by (auto simp: conn_ok_def)
  show ?thesis
    unfolding release_eq [OF c]
    by (rule pool_inv_at [OF inv c]) (use ok c pos in \<open>auto simp: conn_ok_def\<close>)
qed

lemma reaped_inv:
  assumes inv: "pool_inv (p, m)"
  shows "pool_inv (close_idle now p, m)"
proof -
  let ?p = "close_idle now p"
  define shut :: "nat \<Rightarrow> pooled_conn \<Rightarrow> pooled_conn" where "shut i c = (if idle_conn now p i then c\<lparr>pc_dead := True, pc_open := False, pc_closed := True\<rparr> else c)" for i c
  have table: "po_table ?p i = map_option (shut i) (po_table p i)" for i
    by (simp add: close_idle_def shut_def [abs_def])
  have conns: "po_conns ?p k = Some i \<longleftrightarrow> po_conns p k = Some i \<and> \<not> idle_conn now p i" for k i
    by (auto simp: close_idle_def split: option.splits)
  have key: "pc_key (shut i c) = pc_key c" for i c by (simp add: shut_def)
  have "conn_ok ?p m i (shut i c)" if c: "po_table p i = Some c" for i c
  proof (cases "idle_conn now p i")
    case True
    with pool_invD(1) [OF inv c] c conns show ?thesis by (simp add: conn_ok_def shut_def close_idle_def [of now p])
  next
    case False
    with pool_invD(1) [OF inv c] conns show ?thesis by (simp add: conn_ok_def shut_def) (simp add: close_idle_def)
  qed
  moreover have "\<exists>c. po_table ?p i = Some c \<and> pc_key c = k" if "po_conns ?p k = Some i" for k i
    using pool_invD(2) [OF inv, of k i] that by (auto simp: conns table key)
  moreover have "po_fresh ?p = po_fresh p" by (simp add: close_idle_def)
  ultimately show ?thesis
    using inv by (auto simp: pool_inv_def table)
qed

lemma pool_step_inv: "pool_step x y \<Longrightarrow> pool_inv x \<Longrightarrow> pool_inv y"
  by (induction rule: pool_step.induct)
    (auto intro: acquire_cached_inv acquire_dialed_inv dropped_inv noticed_inv released_inv aborted_inv reaped_inv)

lemma reachable_inv: "pool_reachable x \<Longrightarrow> pool_inv x"
  by (induction rule: pool_reachable.induct) (auto intro: pool_inv_init pool_step_inv)

text \<open>The key of a host and its signers can be taken apart again when no part holds a zero byte.\<close>

definition no_nul :: "string \<Rightarrow> bool" where
  "no_nul s \<longleftrightarrow> CHR 0x00 \<notin> set s"

lemma split_at_nul: "no_nul x \<Longrightarrow> no_nul y \<Longrightarrow> x @ CHR 0x00 # u = y @ CHR 0x00 # v \<longleftrightarrow> x = y \<and> u = v"
proof (induction x arbitrary: y)
  case Nil then show ?case by (cases y) (auto simp: no_nul_def)
next
  case (Cons a x) then show ?case by (cases y) (auto simp: no_nul_def)
qed

lemma nul_terminated_inj:
  assumes "\<forall>x \<in> set xs. no_nul x" "\<forall>x \<in> set ys. no_nul x"
    and "concat (map (\<lambda>s. s @ [CHR 0x00]) xs) = concat (map (\<lambda>s. s @ [CHR 0x00]) ys)"
  shows "xs = ys"
  using assms
proof (induction xs arbitrary: ys)
  case Nil then show ?case by (cases ys) auto
next
  case (Cons x xs)
  obtain y zs where ys: "ys = y # zs" using Cons.prems(3) by (cases ys) simp_all
  have "x = y \<and> concat (map (\<lambda>s. s @ [CHR 0x00]) xs) = concat (map (\<lambda>s. s @ [CHR 0x00]) zs)"
    using Cons.prems split_at_nul [of x y] by (simp add: ys)
  with Cons.IH [of zs] Cons.prems(1,2) show ?case by (simp add: ys)
qed

section \<open>Properties\<close>

text \<open>C25
  No connection leaks: in every interleaving of sessions, dropped transports and the reaper, a
  connection that no session uses and that is not in the pool is closed, each host has at most the
  one pooled connection, and once all sessions have ended and the idle time has passed one run of
  the reaper leaves no connection open.\<close>

theorem pool_no_leak:
  assumes "pool_reachable (p, m)" "po_table p i = Some c"
  shows "(i \<in># m \<or> po_conns p (pc_key c) = Some i \<or> \<not> pc_open c) \<and>
    (m = {#} \<and> now - pc_last c > pool_idle \<longrightarrow> (\<exists>c'. po_table (close_idle now p) i = Some c' \<and> \<not> pc_open c'))"
proof -
  have ok: "conn_ok p m i c" using reachable_inv [OF assms(1)] assms(2) by (rule pool_invD)
  have "\<not> pc_open c" if "i \<notin># m" "po_conns p (pc_key c) \<noteq> Some i"
    using ok that by (auto simp: conn_ok_def not_in_iff)
  moreover have "\<exists>c'. po_table (close_idle now p) i = Some c' \<and> \<not> pc_open c'" if "m = {#}" "now - pc_last c > pool_idle"
    using ok that assms(2) by (auto simp: conn_ok_def close_idle_def idle_conn_def)
  ultimately show ?thesis by blast
qed

text \<open>C26
  Sessions are safe from each other: a reused connection was opened under exactly the same pool key
  and is one the program has neither closed nor seen dead; and neither the reaper nor the release of
  another session closes a connection that a session is using.\<close>

theorem pool_sessions_kept:
  assumes "pool_reachable (p, m)"
  shows "(acquire_cached key now p = Some (i, p') \<longrightarrow>
      (\<exists>c. po_table p i = Some c \<and> pc_key c = key \<and> \<not> pc_closed c \<and> \<not> pc_dead c)) \<and>
    (j \<in># m \<longrightarrow> map_option pc_open (po_table (close_idle now p) j) = map_option pc_open (po_table p j)) \<and>
    (i \<in># m \<and> j \<in># m - {#i#} \<longrightarrow> map_option pc_open (po_table (release i broken now p) j) = map_option pc_open (po_table p j))"
proof (intro conjI impI)
  note inv = reachable_inv [OF assms]
  show "\<exists>c. po_table p i = Some c \<and> pc_key c = key \<and> \<not> pc_closed c \<and> \<not> pc_dead c"
    if "acquire_cached key now p = Some (i, p')"
  proof -
    from that obtain c where "po_conns p key = Some i" "po_table p i = Some c" "\<not> pc_dead c"
      by (auto simp: acquire_cached_def split: option.splits if_splits)
    with pool_invD(1,2) [OF inv] show ?thesis by (fastforce simp: conn_ok_def)
  qed
  show "map_option pc_open (po_table (close_idle now p) j) = map_option pc_open (po_table p j)" if j: "j \<in># m"
  proof -
    obtain c where c: "po_table p j = Some c" using pool_invD(3) [OF inv j] by blast
    have "0 < pc_users c" using pool_invD(1) [OF inv c] j by (simp add: conn_ok_def)
    with c show ?thesis by (simp add: close_idle_def idle_conn_def)
  qed
  show "map_option pc_open (po_table (release i broken now p) j) = map_option pc_open (po_table p j)"
    if ij: "i \<in># m \<and> j \<in># m - {#i#}"
  proof -
    obtain c where c: "po_table p i = Some c" using pool_invD(3) [OF inv] ij by blast
    have "1 < pc_users c" if "j = i"
      using pool_invD(1) [OF inv c] ij that by (auto simp: conn_ok_def in_diff_count)
    with c show ?thesis by (auto simp: release_eq [OF c])
  qed
qed

text \<open>
  A connection is never shared across credentials: two hosts that reach the same pooled connection
  have the same id, address, port, user, login method, sealed secrets, trust mode and trusted keys, and are
  offered the same signers, as long as the hash has no collision on them.\<close>

theorem pool_key_separates:
  assumes "pool_key sha h fs = pool_key sha h' fs'"
    and collision_free: "\<And>x y. sha x = sha y \<Longrightarrow> x = y"
    and "list_all no_nul (pool_key_parts h fs)" "list_all no_nul (pool_key_parts h' fs')"
    and "int64_range (h_port h)" "int64_range (h_port h')"
  shows "(h_id h, h_address h, h_port h, h_ssh_user h, h_auth_type h, h_secret h, h_trust_mode h, h_pinned h, h_trusted h, fs) =
    (h_id h', h_address h', h_port h', h_ssh_user h', h_auth_type h', h_secret h', h_trust_mode h', h_pinned h', h_trusted h', fs')"
proof -
  have "pool_key_parts h fs = pool_key_parts h' fs'"
    by (rule nul_terminated_inj) (use assms(3,4) collision_free [OF assms(1) [unfolded pool_key_def]] in \<open>simp_all add: list_all_iff\<close>)
  then show ?thesis using itoa_inj [OF assms(5,6)] by (simp add: pool_key_parts_def)
qed

text \<open>One dialed connection whose command loses it: the release closes it.\<close>

definition one_dialed :: "conn_pool" where
  "one_dialed = snd (acquire_dialed ''k'' 0 new_conn_pool)"

lemma one_dialed_reachable: "pool_reachable (one_dialed, {#0#})"
proof -
  have "acquire_dialed ''k'' 0 new_conn_pool = (0, one_dialed)"
    by (simp add: one_dialed_def acquire_dialed_def new_conn_pool_def Let_def)
  from pool_step.Dialed [OF this] show ?thesis by (rule pool_reachable.Step [OF pool_reachable.Start])
qed

lemma one_dialed_entry: "po_table one_dialed 0 = Some \<lparr>pc_key = ''k'', pc_users = 1, pc_last = 0, pc_dead = False,
    pc_pooled = True, pc_open = True, pc_closed = False\<rparr>" "po_conns one_dialed = [''k'' \<mapsto> 0]"
  by (simp_all add: one_dialed_def acquire_dialed_def new_conn_pool_def free_slot_def Let_def)

theorem pool_no_leak_witness:
  "\<exists>c. po_table (release 0 True 1 one_dialed) 0 = Some c \<and> \<not> pc_open c"
proof -
  have "pool_step (one_dialed, {#0#}) (release 0 True 1 one_dialed, {#0#} - {#0#})"
    by (rule pool_step.Released) simp
  then have r: "pool_reachable (release 0 True 1 one_dialed, {#})"
    using pool_reachable.Step [OF one_dialed_reachable] by simp
  obtain c where c: "po_table (release 0 True 1 one_dialed) 0 = Some c" "po_conns (release 0 True 1 one_dialed) (pc_key c) \<noteq> Some 0"
    by (simp add: release_eq [OF one_dialed_entry(1)] one_dialed_entry(2))
  with pool_no_leak [OF r c(1), of 1] show ?thesis by auto
qed

theorem pool_sessions_kept_witness:
  "map_option pc_open (po_table (close_idle 999000000000 one_dialed) 0) = Some True"
  using pool_sessions_kept [OF one_dialed_reachable, of "''k''" 999000000000 0 _ 0 True] one_dialed_entry(1) by simp

definition toy_pool_host :: "string \<Rightarrow> host" where
  "toy_pool_host a = \<lparr>h_id = ''1'', h_name = a, h_address = a, h_port = 22, h_ssh_user = ''root'', h_auth_type = ''app_key'',
     h_secret = [], h_created = 0, h_prefs = \<lparr>hp_updates = True, hp_apply_ok = True, hp_apply_fail = True, hp_scan_fail = True\<rparr>,
     h_checks = True, h_policy = ''manual'', h_key_required = True, h_trust_mode = ''tofu'', h_pinned = [], h_trusted = [],
     h_pending = [], h_verified_at = None, h_tags = [], h_exclude_bulk = False\<rparr>"

text \<open>A key that was rotated out does not reach the old connection.\<close>

theorem pool_key_separates_witness:
  "pool_key (\<lambda>x. x) (toy_pool_host ''a'') [''old''] \<noteq> pool_key (\<lambda>x. x) (toy_pool_host ''a'') [''old'', ''new'']"
proof
  assume eq: "pool_key (\<lambda>x. x) (toy_pool_host ''a'') [''old''] = pool_key (\<lambda>x. x) (toy_pool_host ''a'') [''old'', ''new'']"
  have n: "list_all no_nul (pool_key_parts (toy_pool_host ''a'') [''old''])"
    "list_all no_nul (pool_key_parts (toy_pool_host ''a'') [''old'', ''new''])"
    by code_simp+
  have "int64_range (h_port (toy_pool_host ''a''))" by code_simp
  from pool_key_separates [OF eq _ n this this] show False by simp
qed

end
