(* ===== verification/HostRequests.thy ===== *)
theory HostRequests
  imports HostKey DbSettings
begin

text \<open>
  The requests that add, change and delete hosts: the JSON handlers of \<open>cmd/server/main.go\<close> and the
  forms of \<open>spike_hosts.go\<close>, with their normalisation, validation and handling of the stored
  credentials. A body that does not decode is \<open>None\<close>. The sealed credentials of a host are the JSON
  object of its four secrets, encrypted: \<open>va_seal\<close> and \<open>va_open\<close> of a \<open>vault\<close> stand for encoding and
  encrypting, and for decrypting and decoding; the nonce is an argument.
\<close>

record secrets =
  s_password :: string
  s_key :: string
  s_passphrase :: string
  s_sudo :: string

record vault =
  va_seal :: "string \<Rightarrow> secrets \<Rightarrow> string option"
  va_open :: "string \<Rightarrow> secrets option"

definition no_secrets :: secrets where
  "no_secrets = \<lparr>s_password = [], s_key = [], s_passphrase = [], s_sudo = []\<rparr>"

record host_upsert =
  hu_name :: string
  hu_address :: string
  hu_port :: int
  hu_user :: string
  hu_auth :: string
  hu_secrets :: secrets
  hu_clear_password :: bool
  hu_clear_key :: bool
  hu_clear_sudo :: bool
  hu_required :: "bool option"
  hu_mode :: string
  hu_pinned :: string
  hu_tags :: "string list option"

section \<open>Normalisation and validation\<close>

definition trim_secrets :: "secrets \<Rightarrow> secrets" where
  "trim_secrets s = \<lparr>s_password = trim_space (s_password s), s_key = trim_space (s_key s),
     s_passphrase = trim_space (s_passphrase s), s_sudo = trim_space (s_sudo s)\<rparr>"

definition trim_host_request :: "host_upsert \<Rightarrow> host_upsert" where
  "trim_host_request r = r\<lparr>hu_name := trim_space (hu_name r), hu_address := trim_space (hu_address r),
     hu_user := trim_space (hu_user r), hu_auth := trim_space (hu_auth r), hu_secrets := trim_secrets (hu_secrets r),
     hu_mode := trim_space (to_lower (hu_mode r)), hu_pinned := trim_space (hu_pinned r)\<rparr>"

definition normalize_host_request :: "host_upsert \<Rightarrow> host_upsert" where
  "normalize_host_request r =
     (let r = trim_host_request r;
          r = (if hu_port r = 0 then r\<lparr>hu_port := 22\<rparr> else r);
          r = (if hu_auth r = [] then r\<lparr>hu_auth := ''key''\<rparr> else r)
      in if hu_mode r = [] then r\<lparr>hu_mode := ''tofu''\<rparr> else r)"

definition validate_host_request :: "host_upsert \<Rightarrow> string" where
  "validate_host_request r =
     (if hu_port r < 1 \<or> hu_port r > 65535 then ''port must be between 1 and 65535''
      else if hu_required r = Some False
      then ''host_key_required cannot be false in alpha; host key verification is mandatory''
      else if hu_name r = [] \<or> hu_address r = [] \<or> hu_user r = [] then ''name,address,ssh_user required''
      else if hu_auth r \<noteq> ''password'' \<and> hu_auth r \<noteq> ''key'' \<and> hu_auth r \<noteq> auth_app_key
      then ''auth_type must be password|key|app_key''
      else if hu_auth r = ''password'' \<and> s_password (hu_secrets r) = [] then ''password required when auth_type=password''
      else if hu_auth r = ''key'' \<and> s_key (hu_secrets r) = [] then ''private_key_pem required when auth_type=key''
      else if hu_mode r \<noteq> ''tofu'' \<and> hu_mode r \<noteq> ''pinned'' then ''host_key_trust_mode must be tofu|pinned''
      else if hu_mode r = ''pinned'' \<and> hu_pinned r = []
      then ''host_key_pinned_fingerprint required when host_key_trust_mode=pinned''
      else [])"

section \<open>Credentials\<close>

definition scrub_for_auth :: "host_upsert \<Rightarrow> host_upsert" where
  "scrub_for_auth r =
     (let s = hu_secrets r in
      if hu_auth r = ''password'' then r\<lparr>hu_secrets := s\<lparr>s_key := [], s_passphrase := []\<rparr>\<rparr>
      else if hu_auth r = ''key'' then r\<lparr>hu_secrets := s\<lparr>s_password := []\<rparr>\<rparr>
      else if hu_auth r = auth_app_key then r\<lparr>hu_secrets := s\<lparr>s_password := [], s_key := [], s_passphrase := []\<rparr>\<rparr>
      else r)"

definition encrypt_host_secrets :: "vault \<Rightarrow> string \<Rightarrow> host_upsert \<Rightarrow> string option" where
  "encrypt_host_secrets v nonce r = va_seal v nonce (hu_secrets r)"

definition decode_host_secrets :: "vault \<Rightarrow> string \<Rightarrow> secrets option" where
  "decode_host_secrets v cipher = (if cipher = [] then Some no_secrets else va_open v cipher)"

definition removed_labels :: "secrets \<Rightarrow> secrets \<Rightarrow> string list" where
  "removed_labels stored now =
     concat [if s_password stored \<noteq> [] \<and> s_password now = [] then [''login password''] else [],
             if s_key stored \<noteq> [] \<and> s_key now = [] then [''private key''] else [],
             if s_sudo stored \<noteq> [] \<and> s_sudo now = [] then [''sudo/root password''] else []]"

definition merge_host_secrets :: "host_upsert \<Rightarrow> secrets \<Rightarrow> string list \<times> host_upsert" where
  "merge_host_secrets r stored =
     (let new_key = s_key (hu_secrets r) \<noteq> [];
          s = hu_secrets r;
          s = (if s_password s = [] \<and> \<not> hu_clear_password r then s\<lparr>s_password := s_password stored\<rparr> else s);
          s = (if \<not> new_key \<and> \<not> hu_clear_key r
               then s\<lparr>s_key := s_key stored,
                      s_passphrase := (if s_passphrase s = [] then s_passphrase stored else s_passphrase s)\<rparr>
               else s);
          s = (if s_sudo s = [] \<and> \<not> hu_clear_sudo r then s\<lparr>s_sudo := s_sudo stored\<rparr> else s);
          r = scrub_for_auth (r\<lparr>hu_secrets := s\<rparr>)
      in (removed_labels stored (hu_secrets r), r))"

section \<open>The JSON handlers\<close>

definition new_host :: "host_upsert \<Rightarrow> string \<Rightarrow> host" where
  "new_host r enc = \<lparr>h_id = [], h_name = hu_name r, h_address = hu_address r, h_port = hu_port r,
     h_ssh_user = hu_user r, h_auth_type = hu_auth r, h_secret = enc, h_created = 0, h_prefs = default_prefs,
     h_checks = True, h_policy = ''manual'', h_key_required = True, h_trust_mode = hu_mode r,
     h_pinned = hu_pinned r, h_trusted = [], h_pending = [], h_verified_at = None, h_tags = [], h_exclude_bulk = False\<rparr>"

definition keep :: "db res \<Rightarrow> db \<Rightarrow> db" where
  "keep r d = (case r of Inl _ \<Rightarrow> d | Inr d' \<Rightarrow> d')"

definition host_added_text :: "host_upsert \<Rightarrow> string" where
  "host_added_text r = ''Host '' @ hu_name r @ '' added ('' @ hu_user r @ ''@'' @ hu_address r @ '':'' @ itoa (hu_port r) @ '')''"

definition create_host_req ::
  "vault \<Rightarrow> string \<Rightarrow> string \<Rightarrow> int \<Rightarrow> host_upsert option \<Rightarrow> db \<Rightarrow> response \<times> db" where
  "create_host_req v nonce uid now body d =
     (case body of
        None \<Rightarrow> ((400, ''invalid json''), d)
      | Some req \<Rightarrow>
          let req = normalize_host_request req in
          if validate_host_request req \<noteq> [] then ((400, validate_host_request req), d)
          else
            let req = scrub_for_auth req in
            case encrypt_host_secrets v nonce req of
              None \<Rightarrow> ((500, ''Failed to encrypt host credentials''), d)
            | Some enc \<Rightarrow>
                (case create_host uid now (new_host req enc) d of
                   Inl HostExists \<Rightarrow> ((409, ''host with same address/port/ssh_user already exists''), d)
                 | Inl _ \<Rightarrow> ((500, ''Failed to save host''), d)
                 | Inr (i, d1) \<Rightarrow>
                     let d2 = (case hu_tags req of None \<Rightarrow> d1 | Some ts \<Rightarrow> keep (update_host_tags i ts d1) d1)
                     in ((201, ''host added''), record_activity now i (hu_name req) ''host_added'' (host_added_text req) d2)))"

text \<open>What an update takes from the stored row where the request is blank.\<close>

definition fill_from :: "host \<Rightarrow> host_upsert \<Rightarrow> host_upsert" where
  "fill_from h r = r\<lparr>hu_name := (if hu_name r = [] then h_name h else hu_name r),
     hu_address := (if hu_address r = [] then h_address h else hu_address r),
     hu_port := (if hu_port r = 0 then h_port h else hu_port r),
     hu_user := (if hu_user r = [] then h_ssh_user h else hu_user r),
     hu_auth := (if hu_auth r = [] then h_auth_type h else hu_auth r)\<rparr>"

definition fill_key_policy :: "host \<Rightarrow> host_upsert \<Rightarrow> host_upsert" where
  "fill_key_policy h r =
     (let mode = (if hu_mode r = [] then h_trust_mode h else hu_mode r);
          mode = (if mode = [] then ''tofu'' else mode)
      in r\<lparr>hu_mode := mode, hu_pinned := (if hu_pinned r = [] then h_pinned h else hu_pinned r)\<rparr>)"

definition updated_host :: "string \<Rightarrow> host_upsert \<Rightarrow> string \<Rightarrow> host" where
  "updated_host i r enc = (new_host r enc)\<lparr>h_id := i\<rparr>"

definition update_host_req ::
  "vault \<Rightarrow> string \<Rightarrow> int \<Rightarrow> string \<Rightarrow> host_upsert option \<Rightarrow> db \<Rightarrow> response \<times> db" where
  "update_host_req v nonce now i body d =
     (case get_host d i of
        Inl _ \<Rightarrow> ((404, ''host not found''), d)
      | Inr existing \<Rightarrow>
          (case body of
             None \<Rightarrow> ((400, ''invalid json''), d)
           | Some req \<Rightarrow>
               let req = fill_from existing (trim_host_request req) in
               case decode_host_secrets v (h_secret existing) of
                 None \<Rightarrow> ((500, ''Failed to read existing host credentials''), d)
               | Some stored \<Rightarrow>
                   (case merge_host_secrets req stored of
                      (removed, req) \<Rightarrow>
                        let req = fill_key_policy existing req in
                        if validate_host_request req \<noteq> [] then ((400, validate_host_request req), d)
                        else
                          let req = scrub_for_auth req in
                          case encrypt_host_secrets v nonce req of
                            None \<Rightarrow> ((500, ''Failed to encrypt host credentials''), d)
                          | Some enc \<Rightarrow>
                              (case update_host (updated_host i req enc) d of
                                 Inl NoRows \<Rightarrow> ((404, ''host not found''), d)
                               | Inl HostExists \<Rightarrow> ((409, ''host with same address/port/ssh_user already exists''), d)
                               | Inl (ErrMsg _) \<Rightarrow> ((500, ''Failed to update host''), d)
                               | Inr d1 \<Rightarrow>
                                   (case update_host_key_policy i True (hu_mode req) (hu_pinned req) d1 of
                                      Inl _ \<Rightarrow> ((500, ''Failed to update host key policy''), d1)
                                    | Inr d2 \<Rightarrow>
                                        let d3 = (case hu_tags req of None \<Rightarrow> d2 | Some ts \<Rightarrow> keep (update_host_tags i ts d2) d2);
                                            d4 = (if removed \<noteq> []
                                                  then record_activity now i (hu_name req) ''host_updated''
                                                    (''Host '' @ hu_name req @ '' updated (removed stored '' @ join '', '' removed @ '')'') d3
                                                  else d3)
                                        in ((200, ''host updated''), d4))))))"

definition delete_host_req :: "int \<Rightarrow> string \<Rightarrow> db \<Rightarrow> response \<times> db" where
  "delete_host_req now i d =
     (let name = (case get_host d i of Inl _ \<Rightarrow> [] | Inr h \<Rightarrow> h_name h) in
      case delete_host i d of
        Inl NoRows \<Rightarrow> ((404, ''host not found''), d)
      | Inl _ \<Rightarrow> ((500, ''Failed to delete host''), d)
      | Inr d' \<Rightarrow> ((200, ''host deleted''), record_activity now i name ''host_deleted'' (''Host '' @ name @ '' deleted'') d'))"

definition normalize_host_operational_controls :: "bool option \<Rightarrow> string option \<Rightarrow> host \<Rightarrow> bool \<times> string" where
  "normalize_host_operational_controls checks policy h =
     (let current = to_lower (trim_space (h_policy h)) in
      (case checks of None \<Rightarrow> h_checks h | Some b \<Rightarrow> b,
       case policy of
         None \<Rightarrow> if current = [] then ''manual'' else current
       | Some p \<Rightarrow> to_lower (trim_space p)))"

definition put_host_operational_controls ::
  "string \<Rightarrow> (bool option \<times> string option) option \<Rightarrow> db \<Rightarrow> response \<times> db" where
  "put_host_operational_controls i body d =
     (case get_host d i of
        Inl NoRows \<Rightarrow> ((404, ''host not found''), d)
      | Inl _ \<Rightarrow> ((500, ''Failed to load host''), d)
      | Inr h \<Rightarrow>
          (case body of
             None \<Rightarrow> ((400, ''invalid json''), d)
           | Some (c, p) \<Rightarrow>
               (case normalize_host_operational_controls c p h of
                  (checks, policy) \<Rightarrow>
                    if policy = [] then ((400, ''auto_update_policy must not be empty''), d)
                    else if policy \<noteq> ''manual'' \<and> policy \<noteq> ''scheduled_apply''
                    then ((400, ''auto_update_policy must be manual|scheduled_apply''), d)
                    else (case update_host_operational_controls i checks policy d of
                        Inl NoRows \<Rightarrow> ((404, ''host not found''), d)
                      | Inl _ \<Rightarrow> ((500, ''Failed to update host operational controls''), d)
                      | Inr d' \<Rightarrow> ((200, ''host operational controls updated''), d')))))"

definition put_host_notification_prefs :: "string \<Rightarrow> host_prefs option \<Rightarrow> db \<Rightarrow> response \<times> db" where
  "put_host_notification_prefs i body d =
     (case get_host d i of
        Inl _ \<Rightarrow> ((404, ''host not found''), d)
      | Inr h \<Rightarrow>
          (case body of
             None \<Rightarrow> ((400, ''invalid json''), d)
           | Some p \<Rightarrow> ((200, ''host notification preferences updated''), upsert_host_notification_prefs i p d)))"

section \<open>The forms\<close>

fun split_tags_from :: "string list \<Rightarrow> string list \<Rightarrow> string list" where
  "split_tags_from seen [] = []"
| "split_tags_from seen (t # ts) =
     (let t = trim_space t in
      if t \<noteq> [] \<and> to_lower t \<notin> set seen then t # split_tags_from (to_lower t # seen) ts
      else split_tags_from seen ts)"

definition split_tags :: "string \<Rightarrow> string list" where
  "split_tags s = split_tags_from [] (split_on (CHR '','') s)"

text \<open>The values of a posted form by field name; a missing field is empty.\<close>

definition form_host_req :: "(string \<Rightarrow> string) \<Rightarrow> host_upsert" where
  "form_host_req f = \<lparr>hu_name = f ''name'', hu_address = f ''address'', hu_port = atoi_value (trim_space (f ''port'')),
     hu_user = f ''ssh_user'', hu_auth = f ''auth_type'',
     hu_secrets = \<lparr>s_password = f ''password'', s_key = f ''private_key_pem'', s_passphrase = f ''passphrase'',
       s_sudo = f ''sudo_password''\<rparr>,
     hu_clear_password = (f ''clear_password'' \<noteq> []), hu_clear_key = (f ''clear_private_key'' \<noteq> []),
     hu_clear_sudo = (f ''clear_sudo_password'' \<noteq> []), hu_required = None, hu_mode = f ''host_key_trust_mode'',
     hu_pinned = f ''host_key_pinned_fingerprint'', hu_tags = Some (split_tags (f ''tags''))\<rparr>"

definition form_checks :: "(string \<Rightarrow> string) \<Rightarrow> bool" where
  "form_checks f \<longleftrightarrow> f ''checks_enabled'' \<noteq> []"

definition form_policy :: "(string \<Rightarrow> string) \<Rightarrow> string" where
  "form_policy f = (let p = trim_space (f ''auto_update_policy'') in if p = [] then ''manual'' else p)"

text \<open>The message of the form rendered again, or the page it goes to.\<close>

datatype form_reply = FormError string | GoTo string | PageError nat string

definition tag_list :: "host_upsert \<Rightarrow> string list" where
  "tag_list r = (case hu_tags r of None \<Rightarrow> [] | Some ts \<Rightarrow> ts)"

definition form_policy_of :: "string \<Rightarrow> string" where
  "form_policy_of policy = (if policy \<noteq> ''scheduled_apply'' then ''manual'' else policy)"

definition next_host_create ::
  "vault \<Rightarrow> string \<Rightarrow> string \<Rightarrow> int \<Rightarrow> (string \<Rightarrow> string) \<Rightarrow> db \<Rightarrow> form_reply \<times> db" where
  "next_host_create v nonce uid now f d =
     (let req = normalize_host_request (form_host_req f) in
      if validate_host_request req \<noteq> [] then (FormError (validate_host_request req), d)
      else
        let req = scrub_for_auth req in
        case encrypt_host_secrets v nonce req of
          None \<Rightarrow> (FormError ''Failed to encrypt host credentials.'', d)
        | Some enc \<Rightarrow>
            (case create_host uid now (new_host req enc) d of
               Inl HostExists \<Rightarrow> (FormError ''A host with the same address, port and SSH user already exists.'', d)
             | Inl _ \<Rightarrow> (FormError ''Failed to save host.'', d)
             | Inr (i, d1) \<Rightarrow>
                 let d2 = keep (update_host_operational_controls i (form_checks f) (form_policy_of (form_policy f)) d1) d1;
                     d3 = keep (update_host_tags i (tag_list req) d2) d2;
                     d4 = keep (update_host_key_policy i True ''pinned'' [] d3) d3
                 in (GoTo ''/'', record_activity now i (hu_name req) ''host_added'' (host_added_text req) d4)))"

definition next_host_update ::
  "vault \<Rightarrow> string \<Rightarrow> int \<Rightarrow> string \<Rightarrow> (string \<Rightarrow> string) \<Rightarrow> db \<Rightarrow> form_reply \<times> db" where
  "next_host_update v nonce now i f d =
     (case get_host d i of
        Inl _ \<Rightarrow> (PageError 404 ''host not found'', d)
      | Inr existing \<Rightarrow>
          let req = fill_from existing (trim_host_request (form_host_req f)) in
          case decode_host_secrets v (h_secret existing) of
            None \<Rightarrow> (FormError ''Failed to read existing host credentials.'', d)
          | Some stored \<Rightarrow>
              (case merge_host_secrets req stored of
                 (removed, req) \<Rightarrow>
                   let req = req\<lparr>hu_mode := ''tofu'', hu_pinned := []\<rparr> in
                   if validate_host_request req \<noteq> [] then (FormError (validate_host_request req), d)
                   else case encrypt_host_secrets v nonce req of
                     None \<Rightarrow> (FormError ''Failed to encrypt host credentials.'', d)
                   | Some enc \<Rightarrow>
                       (case update_host (updated_host i req enc) d of
                          Inl HostExists \<Rightarrow> (FormError ''A host with the same address, port and SSH user already exists.'', d)
                        | Inl _ \<Rightarrow> (FormError ''Failed to update host.'', d)
                        | Inr d1 \<Rightarrow>
                            let d2 = keep (update_host_operational_controls i (form_checks f) (form_policy_of (form_policy f)) d1) d1;
                                d3 = keep (update_host_tags i (tag_list req) d2) d2;
                                summary = ''Host '' @ hu_name req @ '' updated'';
                                summary = (if removed \<noteq> [] then summary @ '' (removed stored '' @ join '', '' removed @ '')'' else summary)
                            in (GoTo (''/hosts/'' @ i), record_activity now i (hu_name req) ''host_updated'' summary d3))))"

definition next_host_delete :: "int \<Rightarrow> string \<Rightarrow> db \<Rightarrow> form_reply \<times> db" where
  "next_host_delete now i d =
     (let name = (case get_host d i of Inl _ \<Rightarrow> [] | Inr h \<Rightarrow> h_name h) in
      case delete_host i d of
        Inl _ \<Rightarrow> (PageError 500 ''failed to delete host'', d)
      | Inr d' \<Rightarrow> (GoTo ''/'', record_activity now i name ''host_deleted'' (''Host '' @ name @ '' deleted'') d'))"

definition next_host_notif_prefs :: "string \<Rightarrow> (string \<Rightarrow> string) \<Rightarrow> db \<Rightarrow> form_reply \<times> db" where
  "next_host_notif_prefs i f d =
     (case get_host d i of
        Inl _ \<Rightarrow> (PageError 404 ''host not found'', d)
      | Inr _ \<Rightarrow> (FormError ''Saved.'',
          upsert_host_notification_prefs i
            \<lparr>hp_updates = (f ''updates_available'' \<noteq> []), hp_apply_ok = (f ''auto_apply_success'' \<noteq> []),
             hp_apply_fail = (f ''auto_apply_failure'' \<noteq> []), hp_scan_fail = (f ''scan_failure'' \<noteq> [])\<rparr> d))"

end
