(* ===== verification/Timestamp.thy ===== *)
theory Timestamp
  imports GoStrings
begin

text \<open>
  The part of Go's package \<open>time\<close> behind the creation date of a key: a UTC time as seconds since
  1970, its civil date and clock in the proleptic Gregorian calendar from the year 1 on (the zero
  \<open>time.Time\<close> is the first second of it), the layouts \<open>time.RFC3339\<close> and \<open>20060102T150405Z\<close>, and
  the reading of the first. Of what \<open>time.Parse\<close> admits only the form with the zone \<open>Z\<close> and no
  fraction is read: it is the only one the program writes.
\<close>

section \<open>The calendar\<close>

definition leap :: "nat \<Rightarrow> bool" where
  "leap y \<longleftrightarrow> y mod 4 = 0 \<and> (y mod 100 \<noteq> 0 \<or> y mod 400 = 0)"

definition year_len :: "nat \<Rightarrow> nat" where
  "year_len y = (if leap y then 366 else 365)"

definition month_len :: "nat \<Rightarrow> nat \<Rightarrow> nat" where
  "month_len y m = (if m = 2 then (if leap y then 29 else 28) else if m \<in> set [4, 6, 9, 11] then 30 else 31)"

text \<open>The year and the day within it, counting up from a first year; the month alike.\<close>

function year_of :: "nat \<Rightarrow> nat \<Rightarrow> nat \<times> nat" where
  "year_of y d = (if d < year_len y then (y, d) else year_of (y + 1) (d - year_len y))"
  by auto
termination
  by (relation "measure snd") (auto simp: year_len_def split: if_splits)

function month_of :: "nat \<Rightarrow> nat \<Rightarrow> nat \<Rightarrow> nat \<times> nat" where
  "month_of y m d = (if d < month_len y m then (m, d) else month_of y (m + 1) (d - month_len y m))"
  by auto
termination
  by (relation "measure (\<lambda>(y, m, d). d)") (auto simp: month_len_def split: if_splits)

declare year_of.simps [simp del] month_of.simps [simp del]

text \<open>The calendar repeats every 400 years, that is every 146097 days.\<close>

definition civil_date :: "nat \<Rightarrow> nat \<times> nat \<times> nat" where
  "civil_date d =
     (let (y, r) = year_of 1 (d mod 146097); (m, i) = month_of y 1 r
      in (400 * (d div 146097) + y, m, i + 1))"

definition days_before_year :: "nat \<Rightarrow> nat" where
  "days_before_year y = sum_list (map year_len [1..<y])"

definition days_before_month :: "nat \<Rightarrow> nat \<Rightarrow> nat" where
  "days_before_month y m = sum_list (map (month_len y) [1..<m])"

definition day_number :: "nat \<times> nat \<times> nat \<Rightarrow> nat" where
  "day_number = (\<lambda>(y, m, i).
     146097 * ((y - 1) div 400) + days_before_year ((y - 1) mod 400 + 1) + days_before_month y m + (i - 1))"

lemma year_of_sum:
  "y \<ge> 1 \<Longrightarrow> year_of y d = (z, r) \<Longrightarrow>
     days_before_year z + r = days_before_year y + d \<and> y \<le> z \<and> r < year_len z"
proof (induction y d arbitrary: z r rule: year_of.induct)
  case (1 y d)
  show ?case
  proof (cases "d < year_len y")
    case True with 1 show ?thesis by (simp add: year_of.simps [of y d])
  next
    case False
    with 1 have "days_before_year z + r = days_before_year (y + 1) + (d - year_len y) \<and> y + 1 \<le> z \<and> r < year_len z"
      by (simp add: year_of.simps [of y d])
    with False 1(2) show ?thesis by (simp add: days_before_year_def)
  qed
qed

lemma month_of_sum:
  "m \<ge> 1 \<Longrightarrow> month_of y m d = (n, r) \<Longrightarrow>
     days_before_month y n + r = days_before_month y m + d \<and> m \<le> n \<and> r < month_len y n"
proof (induction y m d arbitrary: n r rule: month_of.induct)
  case (1 y m d)
  show ?case
  proof (cases "d < month_len y m")
    case True with 1 show ?thesis by (simp add: month_of.simps [of y m d])
  next
    case False
    with 1 have "days_before_month y n + r = days_before_month y (m + 1) + (d - month_len y m) \<and> m + 1 \<le> n \<and> r < month_len y n"
      by (simp add: month_of.simps [of y m d])
    with False 1(2) show ?thesis by (simp add: days_before_month_def)
  qed
qed

lemma sum_list_mono_upt: "a \<le> b \<Longrightarrow> sum_list (map f [c..<a]) \<le> (sum_list (map f [c..<b]) :: nat)"
proof (induction b)
  case (Suc b) then show ?case by (cases "a = Suc b") auto
qed simp

lemma mod_chain:
  "(n::nat) mod 400 = 0 \<Longrightarrow> n mod 100 = 0" "(n::nat) mod 100 = 0 \<Longrightarrow> n mod 4 = 0"
  by presburger+

lemma days_before_year_closed: "days_before_year (Suc n) + n div 100 = 365 * n + n div 4 + n div 400"
proof (induction n)
  case (Suc n)
  have step: "days_before_year (Suc (Suc n)) = days_before_year (Suc n) + year_len (Suc n)"
    by (simp add: days_before_year_def)
  show ?case
    using Suc mod_chain [of "Suc n"]
    by (simp add: step div_Suc year_len_def leap_def del: mod_Suc)
qed (simp add: days_before_year_def)

lemma cycle_days: "days_before_year 401 = 146097"
  using days_before_year_closed [of 400] by simp

lemma year_days: "days_before_month y 13 = year_len y"
proof -
  have "[1..<13] = [1, 2, 3, 4, 5, 6, 7, 8, 9, 10, 11, 12::nat]" by code_simp
  then show ?thesis by (simp add: days_before_month_def month_len_def year_len_def)
qed

lemma year_in_cycle:
  assumes "year_of 1 d = (z, r)" "d < 146097"
  shows "1 \<le> z" "z \<le> 400" "r < year_len z" "days_before_year z + r = d"
proof -
  have *: "days_before_year z + r = d \<and> 1 \<le> z \<and> r < year_len z"
    using year_of_sum [of 1 d z r] assms(1) by (simp add: days_before_year_def)
  then show "1 \<le> z" "r < year_len z" "days_before_year z + r = d" by auto
  show "z \<le> 400"
  proof (rule ccontr)
    assume "\<not> z \<le> 400"
    then have "days_before_year 401 \<le> days_before_year z"
      unfolding days_before_year_def by (intro sum_list_mono_upt) simp
    with * assms(2) cycle_days show False by simp
  qed
qed

lemma month_in_year:
  assumes "month_of y 1 d = (n, r)" "d < year_len y"
  shows "1 \<le> n" "n \<le> 12" "r < month_len y n" "days_before_month y n + r = d"
proof -
  have *: "days_before_month y n + r = d \<and> 1 \<le> n \<and> r < month_len y n"
    using month_of_sum [of 1 y d n r] assms(1) by (simp add: days_before_month_def)
  then show "1 \<le> n" "r < month_len y n" "days_before_month y n + r = d" by auto
  show "n \<le> 12"
  proof (rule ccontr)
    assume "\<not> n \<le> 12"
    then have "days_before_month y 13 \<le> days_before_month y n"
      unfolding days_before_month_def by (intro sum_list_mono_upt) simp
    with * assms(2) year_days show False by simp
  qed
qed

lemma leap_cycle: "leap (400 * q + y) = leap y"
proof -
  have "(400 * q + y) mod k = y mod k" if "k dvd 400" for k
    using that by (metis add.commute dvd_mult2 mod_add_self2 mod_mult_self2 dvdE mult.assoc)
  from this [of 4] this [of 100] this [of 400] show ?thesis
    unfolding leap_def by (simp add: dvd_def)
qed

lemma cycle_len [simp]: "month_len (400 * q + y) m = month_len y m" "days_before_month (400 * q + y) m = days_before_month y m"
proof -
  show *: "month_len (400 * q + y) m = month_len y m" for m by (simp add: month_len_def leap_cycle)
  show "days_before_month (400 * q + y) m = days_before_month y m"
    unfolding days_before_month_def by (simp add: * cong: map_cong)
qed

theorem day_number_civil_date: "day_number (civil_date d) = d"
proof -
  obtain y r where y: "year_of 1 (d mod 146097) = (y, r)" by force
  obtain m i where m: "month_of y 1 r = (m, i)" by force
  note Y = year_in_cycle [OF y] and M = month_in_year [OF m]
  have "(400 * (d div 146097) + y - 1) div 400 = d div 146097" "(400 * (d div 146097) + y - 1) mod 400 = y - 1"
  proof -
    have "400 * (d div 146097) + y - 1 = (y - 1) + (d div 146097) * 400" using Y(1) by simp
    moreover have "y - 1 < 400" using Y(1,2) by simp
    ultimately show "(400 * (d div 146097) + y - 1) div 400 = d div 146097"
      "(400 * (d div 146097) + y - 1) mod 400 = y - 1" by simp_all
  qed
  moreover have "civil_date d = (400 * (d div 146097) + y, m, i + 1)"
    using y m by (simp add: civil_date_def)
  ultimately have "day_number (civil_date d) = 146097 * (d div 146097) + days_before_year y + days_before_month y m + i"
    using Y M by (simp add: day_number_def)
  moreover have "days_before_year y + r = d mod 146097" "days_before_month y m + i = r" using Y M by simp_all
  ultimately show ?thesis using mult_div_mod_eq [of 146097 d] by linarith
qed

lemma civil_date_range:
  assumes "civil_date d = (y, m, i)"
  shows "1 \<le> y" "1 \<le> m \<and> m \<le> 12" "1 \<le> i \<and> i \<le> month_len y m" "d < 146097 * 24 \<Longrightarrow> y \<le> 9600"
proof -
  obtain z r where y: "year_of 1 (d mod 146097) = (z, r)" by force
  obtain n j where m: "month_of z 1 r = (n, j)" by force
  note Y = year_in_cycle [OF y] and M = month_in_year [OF m]
  have *: "y = 400 * (d div 146097) + z \<and> m = n \<and> i = j + 1"
    using assms y m by (simp add: civil_date_def)
  with Y M show "1 \<le> y" "1 \<le> m \<and> m \<le> 12" "1 \<le> i \<and> i \<le> month_len y m" by simp_all
  show "y \<le> 9600" if "d < 146097 * 24"
  proof -
    have "d div 146097 < 24" using that by (simp add: less_mult_imp_div_less)
    with * Y show ?thesis by simp
  qed
qed

section \<open>Printing and reading\<close>

text \<open>The seconds between the zero time and 1970, and a number with its leading zeros.\<close>

definition unix_origin :: int where
  "unix_origin = 62135596800"

definition zero_time :: int where
  "zero_time = - 62135596800"

definition pad :: "nat \<Rightarrow> nat \<Rightarrow> string" where
  "pad k n = replicate (k - length (digits n)) (CHR ''0'') @ digits n"

text \<open>The date, hour, minute and second of a time.\<close>

definition civil_time :: "int \<Rightarrow> (nat \<times> nat \<times> nat) \<times> nat \<times> nat \<times> nat" where
  "civil_time t =
     (let s = nat (t + unix_origin); r = s mod 86400
      in (civil_date (s div 86400), r div 3600, r mod 3600 div 60, r mod 60))"

definition format_rfc3339 :: "int \<Rightarrow> string" where
  "format_rfc3339 t =
     (let ((y, m, i), h, n, s) = civil_time t
      in pad 4 y @ ''-'' @ pad 2 m @ ''-'' @ pad 2 i @ ''T'' @ pad 2 h @ '':'' @ pad 2 n @ '':'' @ pad 2 s @ ''Z'')"

definition format_compact :: "int \<Rightarrow> string" where
  "format_compact t =
     (let ((y, m, i), h, n, s) = civil_time t
      in pad 4 y @ pad 2 m @ pad 2 i @ ''T'' @ pad 2 h @ pad 2 n @ pad 2 s @ ''Z'')"

definition read_num :: "nat \<Rightarrow> string \<Rightarrow> (nat \<times> string) option" where
  "read_num k s =
     (if k \<le> length s \<and> list_all is_digit (take k s) then Some (digits_val (take k s), drop k s) else None)"

definition read_char :: "char \<Rightarrow> string \<Rightarrow> string option" where
  "read_char c s = (case s of [] \<Rightarrow> None | x # r \<Rightarrow> if x = c then Some r else None)"

definition parse_rfc3339 :: "string \<Rightarrow> int option" where
  "parse_rfc3339 s = do {
     (y, s) \<leftarrow> read_num 4 s; s \<leftarrow> read_char (CHR ''-'') s;
     (m, s) \<leftarrow> read_num 2 s; s \<leftarrow> read_char (CHR ''-'') s;
     (i, s) \<leftarrow> read_num 2 s; s \<leftarrow> read_char (CHR ''T'') s;
     (h, s) \<leftarrow> read_num 2 s; s \<leftarrow> read_char (CHR '':'') s;
     (n, s) \<leftarrow> read_num 2 s; s \<leftarrow> read_char (CHR '':'') s;
     (sec, s) \<leftarrow> read_num 2 s;
     if s = ''Z'' \<and> 1 \<le> y \<and> 1 \<le> m \<and> m \<le> 12 \<and> 1 \<le> i \<and> i \<le> month_len y m \<and> h < 24 \<and> n < 60 \<and> sec < 60
     then Some (int (86400 * day_number (y, m, i) + 3600 * h + 60 * n + sec) - unix_origin) else None }"

lemma length_pad: "n < 10 ^ k \<Longrightarrow> 0 < k \<Longrightarrow> length (pad k n) = k"
  using length_digits [of k n] by (simp add: pad_def)

lemma digits_val_zeros: "digits_val (replicate k (CHR ''0'') @ s) = digits_val s"
  by (induction k) (simp_all add: digits_val_def digit_val_def byte_of_def)

lemma digits_pad: "list_all is_digit (pad k n)"
  using digits_all [of n] by (auto simp: pad_def list_all_iff is_digit_def byte_of_def)

lemma read_num_pad [simp]: "n < 10 ^ k \<Longrightarrow> 0 < k \<Longrightarrow> read_num k (pad k n @ s) = Some (n, s)"
  by (simp add: read_num_def length_pad digits_pad) (simp add: pad_def digits_val_zeros)

lemma read_char_same [simp]: "read_char c (c # s) = Some s"
  by (simp add: read_char_def)

text \<open>The times the program meets: from the zero time to the end of the year 9600.\<close>

definition time_ok :: "int \<Rightarrow> bool" where
  "time_ok t \<longleftrightarrow> zero_time \<le> t \<and> t < 240811142400"

text \<open>A printed time is read back.\<close>

theorem parse_format_rfc3339:
  assumes "time_ok t"
  shows "parse_rfc3339 (format_rfc3339 t) = Some t"
proof -
  define s where "s = nat (t + unix_origin)"
  have s: "int s = t + unix_origin" "s < 146097 * 24 * 86400"
    using assms by (auto simp: s_def time_ok_def zero_time_def unix_origin_def)
  obtain y m i where d: "civil_date (s div 86400) = (y, m, i)" by (metis prod_cases3)
  have "s div 86400 < 146097 * 24" using s(2) by (simp add: less_mult_imp_div_less)
  note R = civil_date_range [OF d] and y = civil_date_range(4) [OF d this]
  have small: "y < 10 ^ 4" "m < 10\<^sup>2" "i < 10\<^sup>2"
    using R y by (auto simp: month_len_def split: if_splits)
  have clock: "s mod 86400 div 3600 < 24" "s mod 86400 mod 3600 div 60 < 60" "s mod 86400 mod 60 < 60"
    by (simp_all add: less_mult_imp_div_less)
  then have clock': "s mod 86400 div 3600 < 10\<^sup>2" "s mod 86400 mod 3600 div 60 < 10\<^sup>2" "s mod 86400 mod 60 < 10\<^sup>2"
    by simp_all
  have sixty: "60 dvd (3600::nat)" by simp
  have sum: "86400 * (s div 86400) + 3600 * (s mod 86400 div 3600) + 60 * (s mod 86400 mod 3600 div 60) + s mod 86400 mod 60 = s"
    using mult_div_mod_eq [of 86400 s] mult_div_mod_eq [of 3600 "s mod 86400"]
      mult_div_mod_eq [of 60 "s mod 86400 mod 3600"] mod_mod_cancel [OF sixty, of "s mod 86400"]
    by linarith
  have "civil_time t = ((y, m, i), s mod 86400 div 3600, s mod 86400 mod 3600 div 60, s mod 86400 mod 60)"
    by (simp add: civil_time_def Let_def d flip: s_def)
  then have "format_rfc3339 t = pad 4 y @ ''-'' @ pad 2 m @ ''-'' @ pad 2 i @ ''T'' @ pad 2 (s mod 86400 div 3600) @ '':'' @
      pad 2 (s mod 86400 mod 3600 div 60) @ '':'' @ pad 2 (s mod 86400 mod 60) @ ''Z''"
    by (simp add: format_rfc3339_def)
  moreover have "day_number (y, m, i) = s div 86400"
    using day_number_civil_date [of "s div 86400"] d by simp
  moreover have "int (86400 * (s div 86400) + 3600 * (s mod 86400 div 3600) + 60 * (s mod 86400 mod 3600 div 60) +
      s mod 86400 mod 60) - unix_origin = t"
    unfolding sum s(1) by simp
  ultimately show ?thesis
    using R small clock clock'
    by (simp add: parse_rfc3339_def del: of_nat_add of_nat_mult)
qed

end
