(* ===== verification/Session.thy ===== *)
theory Session
  imports Pool Shell HostRequests Timestamp ScanParse
begin

text \<open>
  How a command reaches a host in \<open>internal/sshx/pool.go\<close> and \<open>client.go\<close>: the login method, the
  dialing, a session on a pooled connection, the run under its deadline, the error it becomes and the
  return of the connection. What the SSH library and the network do is a record of functions on a
  world that is passed on; what one command does to the pool is a sequence of the steps of \<open>Pool\<close>.
\<close>

section \<open>The transport\<close>

datatype 'p auth = PasswordAuth string | KeysAuth "'p list"

datatype session_open = SessionOpen | SessionFailed string | SessionWedged

text \<open>How a run ended: by itself, by the cancellation of its caller, or at its deadline.\<close>

datatype run_end = Ended "transport_err option" | Cancelled | TimedOut

record ('w, 'p) transport =
  tr_dial :: "'w \<Rightarrow> host \<Rightarrow> 'p auth \<Rightarrow> 'w \<times> ssh_err option"
  tr_session :: "'w \<Rightarrow> nat \<Rightarrow> 'w \<times> session_open"
  tr_exec :: "'w \<Rightarrow> nat \<Rightarrow> string \<Rightarrow> string option \<Rightarrow> 'w \<times> string \<times> string \<times> run_end"
  tr_start :: "'w \<Rightarrow> nat \<Rightarrow> string \<Rightarrow> string option \<Rightarrow> 'w \<times> string option"
  tr_lines :: "'w \<Rightarrow> nat \<Rightarrow> 'w \<times> (bool \<times> string) list \<times> run_end"
  tr_now :: "'w \<Rightarrow> int"
  tr_app_signers :: "('w \<Rightarrow> 'p list) option"
  tr_fingerprint :: "'p \<Rightarrow> string"
  tr_parse_signer :: "string \<Rightarrow> string \<Rightarrow> string + 'p"
  tr_sha :: "string \<Rightarrow> string"
  tr_secrets :: "string \<Rightarrow> ssh_err + secrets"
  tr_exec_timeout :: int

section \<open>Durations as text\<close>

text \<open>\<open>fmtFrac\<close>: a number of units of \<open>10 ^ prec\<close>, without trailing zeros.\<close>

definition frac_text :: "nat \<Rightarrow> nat \<Rightarrow> string" where
  "frac_text prec v =
     (let f = rev (dropWhile (\<lambda>c. c = CHR ''0'') (rev (pad prec (v mod 10 ^ prec))))
      in itoan (v div 10 ^ prec) @ (if f = [] then [] else ''.'' @ f))"

definition duration_text :: "int \<Rightarrow> string" where
  "duration_text d =
     (let u = nat (abs d); sign = (if d < 0 then ''-'' else []) in
      if u = 0 then ''0s''
      else if u < 1000 then sign @ itoan u @ ''ns''
      else if u < 1000000 then sign @ frac_text 3 u @ [CHR 0xC2, CHR 0xB5] @ ''s''
      else if u < 1000000000 then sign @ frac_text 6 u @ ''ms''
      else
        (let sec = u div 1000000000; h = sec div 3600; m = sec div 60 mod 60
         in sign @ (if h > 0 then itoan h @ ''h'' else []) @ (if sec div 60 > 0 then itoan m @ ''m'' else []) @
            frac_text 9 (1000000000 * (sec mod 60) + u mod 1000000000) @ ''s''))"

section \<open>Opening a session\<close>

definition auth_methods :: "('w, 'p) transport \<Rightarrow> 'w \<Rightarrow> host \<Rightarrow> secrets \<Rightarrow> ssh_err + 'p auth \<times> 'p list" where
  "auth_methods tr w h sec =
     (if h_auth_type h = ''password'' then Inr (PasswordAuth (s_password sec), [])
      else if h_auth_type h = auth_app_key then
        (let signers = (case tr_app_signers tr of None \<Rightarrow> [] | Some f \<Rightarrow> f w) in
         if signers = [] then Inl (PlainErr (''Patchdeck'' @ [CHR 0x27] @ ''s SSH key is not available''))
         else Inr (KeysAuth signers, signers))
      else case tr_parse_signer tr (s_key sec) (s_passphrase sec) of
          Inl e \<Rightarrow> Inl (PlainErr e)
        | Inr p \<Rightarrow> Inr (KeysAuth [p], []))"

definition dial :: "('w, 'p) transport \<Rightarrow> 'w \<Rightarrow> host \<Rightarrow> 'p auth \<Rightarrow> 'w \<times> ssh_err option" where
  "dial tr w h au =
     (case tr_dial tr w h au of
        (w', None) \<Rightarrow> (w', None)
      | (w', Some e) \<Rightarrow> (w', Some (if is_host_key_err (Some e) then e else PlainErr (friendly_ssh_error (Some (err_text e))))))"

type_synonym 'w ssh_state = "'w \<times> conn_pool"

definition acquire :: "('w, 'p) transport \<Rightarrow> host \<Rightarrow> secrets \<Rightarrow> 'w ssh_state \<Rightarrow> (ssh_err + nat \<times> bool) \<times> 'w ssh_state" where
  "acquire tr h sec = (\<lambda>(w, p).
     case auth_methods tr w h sec of
       Inl e \<Rightarrow> (Inl e, w, p)
     | Inr (au, signers) \<Rightarrow>
         (let key = pool_key (tr_sha tr) h (map (tr_fingerprint tr) signers) in
          case acquire_cached key (tr_now tr w) p of
            Some (i, p') \<Rightarrow> (Inr (i, True), w, p')
          | None \<Rightarrow>
              (case dial tr w h au of
                 (w', Some e) \<Rightarrow> (Inl e, w', p)
               | (w', None) \<Rightarrow> (case acquire_dialed key (tr_now tr w') p of (i, p') \<Rightarrow> (Inr (i, False), w', p')))))"

text \<open>\<open>newSession\<close>: a library that does not answer in time is unblocked by closing the connection.\<close>

definition new_session :: "('w, 'p) transport \<Rightarrow> nat \<Rightarrow> 'w ssh_state \<Rightarrow> string option \<times> 'w ssh_state" where
  "new_session tr i = (\<lambda>(w, p).
     case tr_session tr w i of
       (w', SessionOpen) \<Rightarrow> (None, w', p)
     | (w', SessionFailed e) \<Rightarrow> (Some e, w', p)
     | (w', SessionWedged) \<Rightarrow> (Some ''timed out opening an SSH session'', w', abort_conn i p))"

function open_session_at ::
  "nat \<Rightarrow> ('w, 'p) transport \<Rightarrow> host \<Rightarrow> secrets \<Rightarrow> 'w ssh_state \<Rightarrow> (ssh_err + nat) \<times> 'w ssh_state" where
  "open_session_at attempt tr h sec x =
     (case acquire tr h sec x of
        (Inl e, y) \<Rightarrow> (Inl e, y)
      | (Inr (i, cached), y) \<Rightarrow>
          (case new_session tr i y of
             (None, z) \<Rightarrow> (Inr i, z)
           | (Some e, (w, p)) \<Rightarrow>
               (let z = (w, release i True (tr_now tr w) p) in
                if \<not> cached \<or> attempt > 0 then (Inl (PlainErr (''SSH session error: '' @ friendly_ssh_error (Some e))), z)
                else open_session_at (attempt + 1) tr h sec z)))"
  by pat_completeness auto
termination
  by (relation "measure (\<lambda>(attempt, _). 2 - attempt)") auto

declare open_session_at.simps [simp del]

definition open_session :: "('w, 'p) transport \<Rightarrow> host \<Rightarrow> secrets \<Rightarrow> 'w ssh_state \<Rightarrow> (ssh_err + nat) \<times> 'w ssh_state" where
  "open_session = open_session_at 0"

section \<open>Running a command\<close>

definition timed_out_text :: "int \<Rightarrow> string" where
  "timed_out_text d = ''command timed out after '' @ duration_text d @ '' (host may have a held apt/dpkg lock or be unresponsive)''"

text \<open>\<open>runWithDeadline\<close>: its error, and whether it had to abort the connection.\<close>

fun deadline_error :: "int \<Rightarrow> run_end \<Rightarrow> transport_err option \<times> bool" where
  "deadline_error d (Ended e) = (e, False)"
| "deadline_error d Cancelled = (Some (OtherErr ''operation cancelled''), True)"
| "deadline_error d TimedOut = (Some (OtherErr (timed_out_text d)), True)"

text \<open>The end of a run: the connection goes back, and the output and error of the caller.\<close>

definition end_run ::
  "('w, 'p) transport \<Rightarrow> nat \<Rightarrow> string \<Rightarrow> string \<Rightarrow> run_end \<Rightarrow> 'w ssh_state \<Rightarrow> (string \<times> ssh_err option) \<times> 'w ssh_state" where
  "end_run tr i stdout stderr e = (\<lambda>(w, p).
     (let (err, aborted) = deadline_error (tr_exec_timeout tr) e;
          p = (if aborted then abort_conn i p else p);
          p = release i (aborted \<or> is_connection_lost err) (tr_now tr w) p;
          out = trim_space stdout
      in ((out, map_option (\<lambda>t. run_error stderr out (transport_text t) (is_connection_lost (Some t))) err), w, p)))"

definition run_with_stdin ::
  "('w, 'p) transport \<Rightarrow> host \<Rightarrow> string \<Rightarrow> string option \<Rightarrow> 'w ssh_state \<Rightarrow> (string \<times> ssh_err option) \<times> 'w ssh_state" where
  "run_with_stdin tr h command inp x =
     (case tr_secrets tr (h_secret h) of
        Inl e \<Rightarrow> (([], Some e), x)
      | Inr sec \<Rightarrow>
          (case open_session tr h sec x of
             (Inl e, y) \<Rightarrow> (([], Some e), y)
           | (Inr i, (w, p)) \<Rightarrow>
               (case tr_exec tr w i command inp of (w', stdout, stderr, e) \<Rightarrow> end_run tr i stdout stderr e (w', p))))"

text \<open>
  The streaming run: every line of both outputs goes to the caller's function as it comes; only
  standard output is kept for the result.
\<close>

definition run_streaming ::
  "('w, 'p) transport \<Rightarrow> host \<Rightarrow> (string \<Rightarrow> 'w \<Rightarrow> 'w) \<Rightarrow> string \<Rightarrow> string option \<Rightarrow> 'w ssh_state \<Rightarrow> (string \<times> ssh_err option) \<times> 'w ssh_state" where
  "run_streaming tr h on_line command inp x =
     (case tr_secrets tr (h_secret h) of
        Inl e \<Rightarrow> (([], Some e), x)
      | Inr sec \<Rightarrow>
          (case open_session tr h sec x of
             (Inl e, y) \<Rightarrow> (([], Some e), y)
           | (Inr i, (w, p)) \<Rightarrow>
               (case tr_start tr w i command inp of
                  (w1, Some e) \<Rightarrow> (([], Some (PlainErr e)), w1, release i False (tr_now tr w1) p)
                | (w1, None) \<Rightarrow>
                    (case tr_lines tr w1 i of
                       (w2, ls, e) \<Rightarrow>
                         end_run tr i (unlines (map snd (filter fst ls))) (unlines (map snd (filter (\<lambda>l. \<not> fst l) ls))) e
                           (fold (\<lambda>l. on_line (snd l)) ls w2, p)))))"

text \<open>The runner the privileged commands are built on, and the streaming one.\<close>

definition ssh_runner :: "('w, 'p) transport \<Rightarrow> host \<Rightarrow> 'w ssh_state runner" where
  "ssh_runner tr h = (\<lambda>x command inp. case run_with_stdin tr h command inp x of ((out, err), y) \<Rightarrow> (y, out, err))"

definition ssh_stream :: "('w, 'p) transport \<Rightarrow> host \<Rightarrow> (string \<Rightarrow> 'w \<Rightarrow> 'w) \<Rightarrow> 'w ssh_state runner" where
  "ssh_stream tr h on_line = (\<lambda>x command inp. case run_streaming tr h on_line command inp x of ((out, err), y) \<Rightarrow> (y, out, err))"

definition sudo_of :: "('w, 'p) transport \<Rightarrow> host \<Rightarrow> ssh_err + string" where
  "sudo_of tr h = (case tr_secrets tr (h_secret h) of Inl e \<Rightarrow> Inl e | Inr sec \<Rightarrow> Inr (s_sudo sec))"

definition run_privileged_streaming ::
  "'w runner \<Rightarrow> 'w runner \<Rightarrow> ssh_err + string \<Rightarrow> 'w \<Rightarrow> string \<Rightarrow> 'w \<times> string \<times> ssh_err option" where
  "run_privileged_streaming run stream sudo w command =
     (case sudo of
        Inl err \<Rightarrow> (w, [], Some err)
      | Inr password \<Rightarrow>
          (let root_cmd = run_as_root_command command in
           case escalation run w of
             (w1, Inl err) \<Rightarrow> (w1, [], Some err)
           | (w1, Inr EscRoot) \<Rightarrow> stream w1 root_cmd None
           | (w1, Inr EscSudo) \<Rightarrow> stream w1 (''sudo -n '' @ root_cmd) None
           | (w1, Inr EscNone) \<Rightarrow>
               (let sudo_pass = trim_space password in
                if sudo_pass = [] then (w1, [], Some (PlainErr no_sudo_text))
                else
                  (let inp = Some (sudo_pass @ [NL]) in
                   case run w1 (sudo_password_prefix @ ''true'') inp of
                     (w2, _, None) \<Rightarrow> stream w2 (sudo_password_prefix @ root_cmd) inp
                   | (w2, _, Some _) \<Rightarrow>
                       (case run w2 (su_command ''true'') inp of
                          (w3, _, None) \<Rightarrow> stream w3 (su_command root_cmd) inp
                        | (w3, _, Some _) \<Rightarrow> (w3, [], Some (PlainErr escalation_failed_text)))))))"

definition scan_host_streaming :: "'w runner \<Rightarrow> 'w runner \<Rightarrow> ssh_err + string \<Rightarrow> 'w \<Rightarrow> 'w \<times> (ssh_err + scan_result option)" where
  "scan_host_streaming run stream sudo w =
     (case run_privileged_streaming run stream sudo w scan_cmd of
        (w', raw, Some err) \<Rightarrow> (w', Inl err)
      | (w', raw, None) \<Rightarrow> (w', Inr (parse_scan_output raw)))"

section \<open>Power, reachability and the rotation's check\<close>

text \<open>The errors of a reboot or shutdown are dropped: the connection usually ends with it.\<close>

definition power_command :: "string \<Rightarrow> string" where
  "power_command action = ''nohup setsid systemctl '' @ action @ '' &>/dev/null & sleep 0.2''"

definition power_host :: "'w runner \<Rightarrow> ssh_err + string \<Rightarrow> 'w \<Rightarrow> string \<Rightarrow> 'w \<times> ssh_err option" where
  "power_host run sudo w action = (case run_privileged run sudo w (power_command action) of (w', _, _) \<Rightarrow> (w', None))"

text \<open>\<open>strconv.ParseFloat\<close> followed by the conversion to an integer is the parameter \<open>seconds\<close>.\<close>

definition check_connectivity :: "(string \<Rightarrow> int option) \<Rightarrow> 'w runner \<Rightarrow> 'w \<Rightarrow> 'w \<times> (ssh_err + int)" where
  "check_connectivity seconds run w =
     (case run w ''cat /proc/uptime'' None of
        (w', _, Some e) \<Rightarrow> (w', Inl e)
      | (w', out, None) \<Rightarrow>
          (w', Inr (case go_fields out of [] \<Rightarrow> 0 | f # _ \<Rightarrow> (case seconds f of None \<Rightarrow> 0 | Some n \<Rightarrow> n))))"

text \<open>
  \<open>CheckAppKey\<close> dials outside the pool with the one key; the session and the run of \<open>true\<close> are the
  last two arguments.
\<close>

definition check_app_key :: "('w, 'p) transport \<Rightarrow> string option \<Rightarrow> string option \<Rightarrow> 'w \<Rightarrow> host \<Rightarrow> 'p \<Rightarrow> 'w \<times> string option" where
  "check_app_key tr session run w h p =
     (case dial tr w h (KeysAuth [p]) of
        (w', Some e) \<Rightarrow> (w', Some (err_text e))
      | (w', None) \<Rightarrow>
          (w', case session of Some e \<Rightarrow> Some (''SSH session error: '' @ friendly_ssh_error (Some e))
             | None \<Rightarrow> map_option (\<lambda>e. ''logged in, but running a command failed: '' @ e) run))"

section \<open>The pool around a command\<close>

lemma reach_abort: "pool_reachable (p, m) \<Longrightarrow> i \<in># m \<Longrightarrow> pool_reachable (abort_conn i p, m)"
  by (erule pool_reachable.Step) (rule pool_step.Aborted)

lemma reach_release: "pool_reachable (p, add_mset i m) \<Longrightarrow> pool_reachable (release i broken now p, m)"
  using pool_reachable.Step [OF _ pool_step.Released, of p "add_mset i m" i broken now] by simp

lemma reach_abort_release:
  "pool_reachable (p, add_mset i m) \<Longrightarrow> pool_reachable (release i broken now (abort_conn i p), m)"
  by (rule reach_release) (rule reach_abort, simp_all)

lemma reach_reuse: "pool_reachable (p, m) \<Longrightarrow> acquire_cached key now p = Some (i, p') \<Longrightarrow> pool_reachable (p', add_mset i m)"
  by (erule pool_reachable.Step) (rule pool_step.Reuse)

lemma reach_dialed: "pool_reachable (p, m) \<Longrightarrow> acquire_dialed key now p = (i, p') \<Longrightarrow> pool_reachable (p', add_mset i m)"
  by (erule pool_reachable.Step) (rule pool_step.Dialed)

lemma acquire_reach:
  assumes "pool_reachable (snd x, m)" "acquire tr h sec x = (r, y)"
  shows "case r of Inl _ \<Rightarrow> pool_reachable (snd y, m) | Inr (i, _) \<Rightarrow> pool_reachable (snd y, add_mset i m)"
  using assms
  by (auto simp: acquire_def Let_def split: prod.splits sum.splits option.splits
      intro: reach_reuse reach_dialed)

lemma new_session_reach:
  "pool_reachable (snd y, m) \<Longrightarrow> i \<in># m \<Longrightarrow> pool_reachable (snd (snd (new_session tr i y)), m)"
  by (auto simp: new_session_def split: prod.split session_open.split intro: reach_abort)

lemma open_session_reach:
  "pool_reachable (snd x, m) \<Longrightarrow> open_session_at n tr h sec x = (r, y) \<Longrightarrow>
     (case r of Inl _ \<Rightarrow> pool_reachable (snd y, m) | Inr i \<Rightarrow> pool_reachable (snd y, add_mset i m))"
proof (induction n tr h sec x arbitrary: r y rule: open_session_at.induct)
  case (1 n tr h sec x)
  obtain ra ya where a: "acquire tr h sec x = (ra, ya)" by (cases "acquire tr h sec x")
  note A = acquire_reach [OF 1(2) a]
  show ?case
  proof (cases ra)
    case (Inl e)
    with A 1(3) show ?thesis by (auto simp: open_session_at.simps [of n] a)
  next
    case (Inr ic)
    then obtain i cached where ra: "ra = Inr (i, cached)" by force
    obtain rs w p where s: "new_session tr i ya = (rs, w, p)" by (metis prod_cases3)
    from A ra new_session_reach [of ya "add_mset i m" i tr] s
    have R: "pool_reachable (p, add_mset i m)" by simp
    show ?thesis
    proof (cases rs)
      case None
      with R 1(3) a ra s show ?thesis by (auto simp: open_session_at.simps [of n])
    next
      case (Some e)
      from reach_release [OF R] have R': "pool_reachable (release i True (tr_now tr w) p, m)" .
      show ?thesis
      proof (cases "\<not> cached \<or> n > 0")
        case True
        with R' 1(3) a ra s Some show ?thesis by (auto simp: open_session_at.simps [of n] Let_def)
      next
        case False
        with 1(3) a ra s Some have "open_session_at (n + 1) tr h sec (w, release i True (tr_now tr w) p) = (r, y)"
          by (simp add: open_session_at.simps [of n] Let_def)
        with 1(1) [OF a [symmetric] ra refl s [symmetric] Some refl refl False] R' show ?thesis by simp
      qed
    qed
  qed
qed

lemma end_run_reach:
  "pool_reachable (p, add_mset i m) \<Longrightarrow> pool_reachable (snd (snd (end_run tr i so se e (w, p))), m)"
  by (auto simp: end_run_def Let_def split: prod.split intro: reach_release reach_abort_release)

lemma run_with_stdin_reach:
  assumes "pool_reachable (snd x, m)"
  shows "pool_reachable (snd (snd (run_with_stdin tr h command inp x)), m)"
proof (cases "tr_secrets tr (h_secret h)")
  case (Inr sec)
  obtain r w p where o: "open_session tr h sec x = (r, w, p)" by (metis prod_cases3)
  with open_session_reach [OF assms, of 0 tr h sec] have
    "case r of Inl _ \<Rightarrow> pool_reachable (p, m) | Inr i \<Rightarrow> pool_reachable (p, add_mset i m)"
    by (auto simp: open_session_def split: sum.splits)
  then show ?thesis
    using end_run_reach by (auto simp: run_with_stdin_def Inr o split: sum.splits prod.split)
qed (simp add: run_with_stdin_def assms)

lemma run_streaming_reach:
  assumes "pool_reachable (snd x, m)"
  shows "pool_reachable (snd (snd (run_streaming tr h on_line command inp x)), m)"
proof (cases "tr_secrets tr (h_secret h)")
  case (Inr sec)
  obtain r w p where o: "open_session tr h sec x = (r, w, p)" by (metis prod_cases3)
  with open_session_reach [OF assms, of 0 tr h sec] have
    "case r of Inl _ \<Rightarrow> pool_reachable (p, m) | Inr i \<Rightarrow> pool_reachable (p, add_mset i m)"
    by (auto simp: open_session_def split: sum.splits)
  then show ?thesis
    using end_run_reach reach_release
    by (auto simp: run_streaming_def Inr o split: sum.splits prod.split option.split)
qed (simp add: run_streaming_def assms)

text \<open>What every run keeps, a privileged command keeps, whichever way it gets root.\<close>

locale command_runner =
  fixes run stream :: "'w runner" and keep :: "'w \<Rightarrow> bool"
  assumes run_keeps: "keep w \<Longrightarrow> keep (fst (run w command inp))"
    and stream_keeps: "keep w \<Longrightarrow> keep (fst (stream w command inp))"
begin

lemma run_keeps_eq: "run w command inp = (w', r) \<Longrightarrow> keep w \<Longrightarrow> keep w'"
  using run_keeps [of w command inp] by simp

lemma stream_keeps_eq: "stream w command inp = (w', r) \<Longrightarrow> keep w \<Longrightarrow> keep w'"
  using stream_keeps [of w command inp] by simp

lemma escalation_keeps: "escalation run w = (w', r) \<Longrightarrow> keep w \<Longrightarrow> keep w'"
  by (auto simp: escalation_def split: prod.splits option.splits dest: run_keeps_eq)

lemma streaming_keeps: "keep w \<Longrightarrow> keep (fst (run_privileged_streaming run stream sudo w command))"
  unfolding run_privileged_streaming_def Let_def
  by (auto split: sum.split prod.split escalation_method.split option.split
      dest: escalation_keeps run_keeps_eq stream_keeps_eq intro: run_keeps stream_keeps)

end

interpretation pooled: command_runner "ssh_runner tr h" "ssh_stream tr h on_line" "\<lambda>x. pool_reachable (snd x, m)"
  for tr :: "('w, 'p) transport" and h on_line m
proof unfold_locales
  show "pool_reachable (snd (fst (ssh_runner tr h w command inp)), m)" if "pool_reachable (snd w, m)" for w command inp
    using run_with_stdin_reach [OF that, of tr h command inp] by (auto simp: ssh_runner_def split: prod.split)
  show "pool_reachable (snd (fst (ssh_stream tr h on_line w command inp)), m)" if "pool_reachable (snd w, m)" for w command inp
    using run_streaming_reach [OF that, of tr h on_line command inp] by (auto simp: ssh_stream_def split: prod.split)
qed

text \<open>The streaming way of getting root is the other one with the runner of the last command exchanged.\<close>

lemma run_privileged_same: "run_privileged_streaming run run sudo w command = run_privileged run sudo w command"
  by (simp add: run_privileged_streaming_def run_privileged_def)

text \<open>Whatever the program runs on hosts, in any order.\<close>

datatype remote_command = Plain host string "string option" | Privileged host string | Streamed host string

fun remote_step :: "('w, 'p) transport \<Rightarrow> (string \<Rightarrow> 'w \<Rightarrow> 'w) \<Rightarrow> remote_command \<Rightarrow> 'w ssh_state \<Rightarrow> 'w ssh_state" where
  "remote_step tr f (Plain h c inp) x = snd (run_with_stdin tr h c inp x)"
| "remote_step tr f (Privileged h c) x = fst (run_privileged (ssh_runner tr h) (sudo_of tr h) x c)"
| "remote_step tr f (Streamed h c) x = fst (run_privileged_streaming (ssh_runner tr h) (ssh_stream tr h f) (sudo_of tr h) x c)"

lemma remote_step_reach: "pool_reachable (snd x, m) \<Longrightarrow> pool_reachable (snd (remote_step tr f e x), m)"
proof (cases e)
  case (Privileged h c)
  moreover assume "pool_reachable (snd x, m)"
  moreover have "command_runner (ssh_runner tr h) (ssh_runner tr h) (\<lambda>x. pool_reachable (snd x, m))"
    by unfold_locales (use pooled.run_keeps in blast)+
  ultimately show ?thesis
    using command_runner.streaming_keeps by (fastforce simp: run_privileged_same)
qed (auto intro: run_with_stdin_reach pooled.streaming_keeps)

lemma remote_run_reach: "pool_reachable (snd x, m) \<Longrightarrow> pool_reachable (snd (fold (remote_step tr f) es x), m)"
proof (induction es arbitrary: x)
  case (Cons e es)
  from Cons.IH [OF remote_step_reach [OF Cons.prems]] show ?case by simp
qed simp

text \<open>One command opens at most one connection.\<close>

lemma fresh_kept [simp]: "po_fresh (release i b t p) = po_fresh p" "po_fresh (abort_conn i p) = po_fresh p"
proof -
  have e: "po_fresh (evict j q) = po_fresh q" for j q by (simp add: evict_def split: option.split)
  show "po_fresh (release i b t p) = po_fresh p" "po_fresh (abort_conn i p) = po_fresh p"
    by (simp_all add: release_def abort_conn_def close_conn_def mark_dead_def e Let_def split: option.split)
qed

lemma acquire_fresh:
  assumes "acquire tr h sec x = (r, y)"
  shows "po_fresh (snd y) = po_fresh (snd x) + (case r of Inr (_, False) \<Rightarrow> 1 | _ \<Rightarrow> 0)"
  using assms
  by (auto simp: acquire_def acquire_cached_def acquire_dialed_def Let_def split: prod.splits sum.splits option.splits if_splits)

lemma new_session_fresh: "po_fresh (snd (snd (new_session tr i y))) = po_fresh (snd y)"
  by (auto simp: new_session_def split: prod.split session_open.split)

lemma open_session_fresh:
  "open_session_at n tr h sec x = (r, y) \<Longrightarrow> po_fresh (snd y) \<le> po_fresh (snd x) + 1"
proof (induction n tr h sec x arbitrary: r y rule: open_session_at.induct)
  case (1 n tr h sec x)
  obtain ra ya where a: "acquire tr h sec x = (ra, ya)" by (cases "acquire tr h sec x")
  note F = acquire_fresh [OF a]
  show ?case
  proof (cases ra)
    case (Inl e)
    with F 1(2) show ?thesis by (auto simp: open_session_at.simps [of n] a)
  next
    case (Inr ic)
    then obtain i cached where ra: "ra = Inr (i, cached)" by force
    obtain rs w p where s: "new_session tr i ya = (rs, w, p)" by (metis prod_cases3)
    with new_session_fresh [of tr i ya] have p: "po_fresh p = po_fresh (snd ya)" by simp
    show ?thesis
    proof (cases "rs = None \<or> \<not> cached \<or> n > 0")
      case True
      with F p 1(2) a ra s show ?thesis
        by (cases rs; cases cached) (auto simp: open_session_at.simps [of n] Let_def)
    next
      case False
      then obtain e where e: "rs = Some e" by auto
      from False 1(2) a ra s e have "open_session_at (n + 1) tr h sec (w, release i True (tr_now tr w) p) = (r, y)"
        by (simp add: open_session_at.simps [of 0] Let_def)
      moreover have "\<not> (\<not> cached \<or> n > 0)" using False by auto
      ultimately show ?thesis using 1(1) [OF a [symmetric] ra refl s [symmetric] e refl refl] False F p ra
        by (auto split: bool.splits)
    qed
  qed
qed

lemma end_run_fresh: "po_fresh (snd (snd (end_run tr i so se e (w, p)))) = po_fresh p"
  by (simp add: end_run_def Let_def split: prod.split)

section \<open>Properties\<close>

definition conn_settled :: "conn_pool \<Rightarrow> nat \<Rightarrow> bool" where
  "conn_settled p i = (case po_table p i of
     None \<Rightarrow> True
   | Some c \<Rightarrow> pc_users c = 0 \<and> (po_conns p (pc_key c) = Some i \<or> \<not> pc_open c))"

text \<open>C11
  Every command gives its connection back: after any sequence of plain, privileged and streamed
  commands on any hosts, whatever the network, the SSH library and the hosts do, deadlines and
  cancellations included, no connection has a user left, and each is in the pool or closed.\<close>

theorem commands_return_connections:
  "conn_settled (snd (fold (remote_step tr f) es (w, new_conn_pool))) i"
proof -
  let ?p = "snd (fold (remote_step tr f) es (w, new_conn_pool))"
  have R: "pool_reachable (?p, {#})" by (rule remote_run_reach) (simp add: pool_reachable.Start)
  show ?thesis
    using pool_invD(1) [OF reachable_inv [OF R], of i] by (auto simp: conn_settled_def conn_ok_def split: option.split)
qed

text \<open>
  One command opens at most one connection, also when the connection it found in the pool turns out
  to be stale.\<close>

theorem one_connection_per_command:
  "po_fresh (snd (snd (run_with_stdin tr h command inp (w, p)))) \<le> po_fresh p + 1"
proof (cases "tr_secrets tr (h_secret h)")
  case (Inr sec)
  obtain r w' p' where o: "open_session tr h sec (w, p) = (r, w', p')" by (metis prod_cases3)
  with open_session_fresh [of 0 tr h sec "(w, p)"] have "po_fresh p' \<le> po_fresh p + 1"
    by (simp add: open_session_def)
  then show ?thesis by (auto simp: run_with_stdin_def Inr o end_run_fresh split: sum.split prod.split)
qed (simp add: run_with_stdin_def)

text \<open>C38
  A refused host key stops the command before it starts: when no connection to the host is pooled and
  its key is refused while dialing, the caller gets that very error, the pool is as it was and
  nothing was executed; a privileged command ends there too.\<close>

theorem host_key_refusal_surfaces:
  assumes sec: "tr_secrets tr (h_secret h) = Inr sec" and au: "auth_methods tr w h sec = Inr (au, signers)"
    and "acquire_cached (pool_key (tr_sha tr) h (map (tr_fingerprint tr) signers)) (tr_now tr w) p = None"
    and "tr_dial tr w h au = (w', Some e)" "is_host_key_err (Some e)"
  shows "run_with_stdin tr h command inp (w, p) = (([], Some e), w', p) \<and>
    run_privileged (ssh_runner tr h) (sudo_of tr h) (w, p) command = ((w', p), [], Some e)"
proof -
  have "acquire tr h sec (w, p) = (Inl e, w', p)"
    using assms(3-5) by (simp add: acquire_def au dial_def Let_def)
  then have r: "run_with_stdin tr h c i (w, p) = (([], Some e), w', p)" for c i
    by (simp add: run_with_stdin_def sec open_session_def open_session_at.simps [of 0])
  then show ?thesis
    by (simp add: run_privileged_def sudo_of_def sec ssh_runner_def escalation_def)
qed

text \<open>A reboot is reported as started even when root could not be had.\<close>

lemma power_never_fails: "snd (power_host run sudo w action) = None"
  by (simp add: power_host_def split: prod.split)

text \<open>A host whose key is refused by the verifier.\<close>

definition refusing_transport :: "(nat, string) transport" where
  "refusing_transport = \<lparr>tr_dial = (\<lambda>w h a. (w + 1, Some (HostKeyErr ''1'' ''a'' ''host key mismatch'' ''old'' ''new''))),
     tr_session = (\<lambda>w i. (w, SessionOpen)), tr_exec = (\<lambda>w i c inp. (w, [], [], Ended None)),
     tr_start = (\<lambda>w i c inp. (w, None)), tr_lines = (\<lambda>w i. (w, [], Ended None)), tr_now = int,
     tr_app_signers = Some (\<lambda>w. [''key'']), tr_fingerprint = (\<lambda>s. s), tr_parse_signer = (\<lambda>k s. Inl ''no key''),
     tr_sha = (\<lambda>s. s), tr_secrets = (\<lambda>c. Inr no_secrets), tr_exec_timeout = 600000000000\<rparr>"

theorem host_key_refusal_surfaces_witness:
  "snd (snd (run_privileged (ssh_runner refusing_transport (toy_pool_host ''a'')) (sudo_of refusing_transport (toy_pool_host ''a''))
     (0, new_conn_pool) ''reboot'')) = Some (HostKeyErr ''1'' ''a'' ''host key mismatch'' ''old'' ''new'')"
proof -
  have a: "auth_methods refusing_transport 0 (toy_pool_host ''a'') no_secrets = Inr (KeysAuth [''key''], [''key''])"
    by (simp add: auth_methods_def refusing_transport_def toy_pool_host_def auth_app_key_def Let_def)
  have "tr_secrets refusing_transport (h_secret (toy_pool_host ''a'')) = Inr no_secrets"
    by (simp add: refusing_transport_def)
  from host_key_refusal_surfaces [OF this a, of new_conn_pool 1 _ "''reboot''" None] show ?thesis
    by (simp add: acquire_cached_def new_conn_pool_def) (simp add: refusing_transport_def)
qed

end
