(* ===== verification/ApplyLog.thy ===== *)
theory ApplyLog
  imports Apply Session
begin

text \<open>
  The detached upgrade over the SSH client: \<open>applyDetached\<close> of \<open>internal/sshx/apply.go\<close> with the streaming run of
  \<open>client.go\<close> in place of its environment, down to the lines a session prints. A line that arrives on either
  output of the session is shown and counted as a line of the log, so what is assumed of the host is only what
  its follow script prints; the counting is the code's.
\<close>

section \<open>The environment of the loop\<close>

text \<open>The lines handed to the callback are collected beside the world.\<close>

definition with_lines :: "('w, 'p) transport \<Rightarrow> ('w \<times> string list, 'p) transport" where
  "with_lines tr =
     \<lparr>tr_dial = (\<lambda>(w, ls) h au. case tr_dial tr w h au of (w', r) \<Rightarrow> ((w', ls), r)),
      tr_session = (\<lambda>(w, ls) i. case tr_session tr w i of (w', r) \<Rightarrow> ((w', ls), r)),
      tr_exec = (\<lambda>(w, ls) i c inp. case tr_exec tr w i c inp of (w', r) \<Rightarrow> ((w', ls), r)),
      tr_start = (\<lambda>(w, ls) i c inp. case tr_start tr w i c inp of (w', r) \<Rightarrow> ((w', ls), r)),
      tr_lines = (\<lambda>(w, ls) i. case tr_lines tr w i of (w', r) \<Rightarrow> ((w', ls), r)),
      tr_now = (\<lambda>(w, ls). tr_now tr w), tr_app_signers = map_option (\<lambda>f (w, ls). f w) (tr_app_signers tr),
      tr_fingerprint = tr_fingerprint tr, tr_parse_signer = tr_parse_signer tr, tr_sha = tr_sha tr,
      tr_secrets = tr_secrets tr, tr_exec_timeout = tr_exec_timeout tr\<rparr>"

definition collect_line :: "string \<Rightarrow> 'w \<times> string list \<Rightarrow> 'w \<times> string list" where
  "collect_line l = (\<lambda>(w, ls). (w, ls @ [l]))"

text \<open>\<open>cancelled\<close> is the context of the request, \<open>sleep\<close> the wait between two attempts.\<close>

definition ssh_apply_env ::
  "('w, 'p) transport \<Rightarrow> host \<Rightarrow> ('w \<Rightarrow> string option) \<Rightarrow> ('w \<Rightarrow> 'w \<times> string option) \<Rightarrow> 'w ssh_state apply_env" where
  "ssh_apply_env tr h cancelled sleep =
     \<lparr>ae_stream = (\<lambda>(w, p) script.
        case run_privileged_streaming (ssh_runner (with_lines tr) h) (ssh_stream (with_lines tr) h collect_line)
               (sudo_of (with_lines tr) h) ((w, []), p) script of
          (((w', ls), p'), out, err) \<Rightarrow> ((w', p'), ls, out, err)),
      ae_clock = (\<lambda>(w, p). tr_now tr w), ae_cancelled = (\<lambda>(w, p). cancelled w),
      ae_sleep = (\<lambda>(w, p). case sleep w of (w', e) \<Rightarrow> ((w', p), e))\<rparr>"

section \<open>What the host prints\<close>

text \<open>
  The lines a connection delivers of what a script prints: some of them from the first on, all of them if it
  lasts. With \<open>partial\<close> the connection may also drop within a line; then the beginning that arrived is delivered as
  a line of its own.
\<close>

definition delivered :: "bool \<Rightarrow> string list \<Rightarrow> string list \<Rightarrow> bool" where
  "delivered partial full ls \<longleftrightarrow>
     (\<exists>k \<le> length full. ls = take k full \<or>
        partial \<and> k < length full \<and> (\<exists>l. l \<noteq> [] \<and> prefix l (full ! k) \<and> ls = take k full @ [l]))"

definition not_found_line :: string where
  "not_found_line = ''__PD_APPLY_NOTFOUND__''"

text \<open>
  A follow from line \<open>n + 1\<close> prints the lines of the log from there on and then marker lines, or it finds no
  log. It prints nothing to standard error. All four ways of getting root carry the same script.
\<close>

definition keeps_log :: "bool \<Rightarrow> ('w, 'p) transport \<Rightarrow> string \<Rightarrow> string list \<Rightarrow> bool" where
  "keeps_log partial tr rid lns \<longleftrightarrow>
     (\<forall>w i n script command inp w1 w2 ls e.
        script = apply_follow_script rid (n + 1) \<or> n = 0 \<and> script = apply_start_script rid \<longrightarrow>
        command \<in> set (carriers script) \<longrightarrow> tr_start tr w i command inp = (w1, None) \<longrightarrow> tr_lines tr w1 i = (w2, ls, e) \<longrightarrow>
        list_all fst ls \<and>
        (map snd ls = [not_found_line] \<or>
         (\<exists>tail. list_all (\<lambda>m. \<not> log_line m) tail \<and> delivered partial (drop n lns @ tail) (map snd ls))))"

text \<open>No line of the log has a marker of the scripts in it.\<close>

definition plain_log :: "string list \<Rightarrow> bool" where
  "plain_log lns \<longleftrightarrow> list_all (\<lambda>l. \<not> contains l ''__PD_'' \<and> \<not> contains l reboot_marker) lns"

text \<open>
  What is shown of a log: line by line the line of the log, or with \<open>partial\<close> a beginning of it. Behind the last
  line there can only be the beginning of a marker.
\<close>

definition marker_piece :: "string \<Rightarrow> bool" where
  "marker_piece l \<longleftrightarrow> prefix l ''__PD_'' \<or> prefix l reboot_marker"

definition shown_line :: "bool \<Rightarrow> string list \<Rightarrow> nat \<Rightarrow> string \<Rightarrow> bool" where
  "shown_line partial lns k l \<longleftrightarrow>
     (if k < length lns then l = lns ! k \<or> partial \<and> prefix l (lns ! k) else partial \<and> marker_piece l)"

definition log_shown :: "bool \<Rightarrow> string list \<Rightarrow> string list \<Rightarrow> bool" where
  "log_shown partial lns ls \<longleftrightarrow> (\<forall>k < length ls. shown_line partial lns k (ls ! k))"

section \<open>One attempt\<close>

lemma privileged_commits:
  assumes "run_privileged_streaming run stream sudo w c = r" "K w"
    and run: "\<And>w cmd inp. K w \<Longrightarrow> K (fst (run w cmd inp))"
  shows "(\<exists>w1 e. r = (w1, [], Some e) \<and> K w1) \<or> (\<exists>w1 cmd inp. cmd \<in> set (carriers c) \<and> K w1 \<and> r = stream w1 cmd inp)"
proof -
  have R: "run w cmd inp = (w', x) \<Longrightarrow> K w \<Longrightarrow> K w'" for w w' cmd inp x using run [of w cmd inp] by simp
  have E: "escalation run w = (w', x) \<Longrightarrow> K w'" for w' x
    using assms(2) by (auto simp: escalation_def split: prod.splits option.splits dest: R)
  let ?c = "run_as_root_command c"
  have car: "?c \<in> set (carriers c)" "''sudo -n '' @ ?c \<in> set (carriers c)" "sudo_password_prefix @ ?c \<in> set (carriers c)"
    "su_command ?c \<in> set (carriers c)" by (simp_all add: carriers_def Let_def)
  have G: "r = stream w1 cmd inp \<Longrightarrow> cmd \<in> set (carriers c) \<Longrightarrow> K w1 \<Longrightarrow> ?thesis" for w1 cmd inp by blast
  have F: "r = (w1, [], Some e) \<Longrightarrow> K w1 \<Longrightarrow> ?thesis" for w1 e by blast
  show ?thesis
  proof (cases sudo)
    case (Inl e)
    with assms(1) have "r = (w, [], Some e)" by (simp add: run_privileged_streaming_def)
    then show ?thesis by (rule F [OF _ assms(2)])
  next
    case (Inr password)
    obtain w1 m where esc: "escalation run w = (w1, m)" by (metis surj_pair)
    note K1 = E [OF esc]
    note def = assms(1) [symmetric, unfolded run_privileged_streaming_def Inr sum.case Let_def esc prod.case]
    show ?thesis
    proof (cases m)
      case (Inl e)
      with def K1 show ?thesis by (intro F) simp_all
    next
      case m: (Inr meth)
      show ?thesis
      proof (cases meth)
        case EscRoot
        with def m show ?thesis by (intro G [OF _ car(1) K1]) simp
      next
        case EscSudo
        with def m show ?thesis by (intro G [OF _ car(2) K1]) simp
      next
        case EscNone
        let ?i = "Some (trim_space password @ [NL])"
        obtain w2 o2 e2 where r2: "run w1 (sudo_password_prefix @ ''true'') ?i = (w2, o2, e2)" by (metis prod_cases3)
        obtain w3 o3 e3 where r3: "run w2 (su_command ''true'') ?i = (w3, o3, e3)" by (metis prod_cases3)
        note K2 = R [OF r2 K1] and K3 = R [OF r3 R [OF r2 K1]]
        note def' = def [unfolded m EscNone, simplified r2 r3, simplified]
        show ?thesis
        proof (cases "trim_space password = []")
          case True
          with def' show ?thesis by (intro F [OF _ K1]) simp
        next
          case pw: False
          show ?thesis
          proof (cases e2)
            case None
            with def' pw r2 show ?thesis by (intro G [OF _ car(3) K2]) simp
          next
            case (Some x)
            show ?thesis
            proof (cases e3)
              case None
              with def' pw r2 r3 Some show ?thesis by (intro G [OF _ car(4) K3]) simp
            next
              case (Some y)
              have "r = (w3, [], Some (PlainErr escalation_failed_text))" using def' pw r2 r3 Some \<open>e2 = Some x\<close> by simp
              then show ?thesis by (rule F [OF _ K3])
            qed
          qed
        qed
      qed
    qed
  qed
qed


text \<open>Nothing but a streaming run adds to the collected lines.\<close>

lemma with_lines_simps [simp]:
  "tr_dial (with_lines tr) (w, ls) h au = (case tr_dial tr w h au of (w', r) \<Rightarrow> ((w', ls), r))"
  "tr_session (with_lines tr) (w, ls) i = (case tr_session tr w i of (w', r) \<Rightarrow> ((w', ls), r))"
  "tr_exec (with_lines tr) (w, ls) i c inp = (case tr_exec tr w i c inp of (w', r) \<Rightarrow> ((w', ls), r))"
  "tr_start (with_lines tr) (w, ls) i c inp = (case tr_start tr w i c inp of (w', r) \<Rightarrow> ((w', ls), r))"
  "tr_lines (with_lines tr) (w, ls) i = (case tr_lines tr w i of (w', r) \<Rightarrow> ((w', ls), r))"
  "tr_now (with_lines tr) (w, ls) = tr_now tr w" "tr_secrets (with_lines tr) = tr_secrets tr"
  by (simp_all add: with_lines_def)

lemma acquire_lines: "acquire (with_lines tr) h sec ((w, ls), p) = (r, (w', ls'), p') \<Longrightarrow> ls' = ls"
  by (auto simp: acquire_def dial_def Let_def split: sum.splits prod.splits option.splits)

lemma new_session_lines: "new_session (with_lines tr) i ((w, ls), p) = (r, (w', ls'), p') \<Longrightarrow> ls' = ls"
  by (auto simp: new_session_def split: prod.splits session_open.splits)

lemma open_session_at_lines:
  "open_session_at a (with_lines tr) h sec x = (r, (w', ls'), p') \<Longrightarrow> ls' = snd (fst x)"
proof (induction a "with_lines tr" h sec x arbitrary: r w' ls' p' rule: open_session_at.induct)
  case (1 a h sec x)
  obtain w ls p where x: "x = ((w, ls), p)" by (metis prod.collapse)
  obtain ra wa la pa where A: "acquire (with_lines tr) h sec x = (ra, (wa, la), pa)" by (metis prod.collapse)
  have la: "la = ls" by (rule acquire_lines [OF A [unfolded x]])
  show ?case
  proof (cases ra)
    case (Inl e)
    with 1(2) A la x show ?thesis by (simp add: open_session_at.simps [of a])
  next
    case (Inr ic)
    then obtain i cached where ra: "ra = Inr (i, cached)" by force
    obtain rs wb lb pb where S: "new_session (with_lines tr) i ((wa, la), pa) = (rs, (wb, lb), pb)" by (metis prod.collapse)
    have lb: "lb = ls" using new_session_lines [OF S] la by simp
    show ?thesis
    proof (cases rs)
      case None
      with 1(2) A ra S lb x show ?thesis by (simp add: open_session_at.simps [of a])
    next
      case (Some e)
      let ?z = "((wb, lb), release i True (tr_now tr wb) pb)"
      show ?thesis
      proof (cases "\<not> cached \<or> a > 0")
        case True
        with 1(2) A ra S lb Some x show ?thesis by (auto simp: open_session_at.simps [of a] Let_def)
      next
        case False
        with 1(2) A ra S Some have "open_session_at (a + 1) (with_lines tr) h sec ?z = (r, (w', ls'), p')"
          by (simp add: open_session_at.simps [of a] Let_def)
        with 1(1) [OF A [symmetric] ra refl S [symmetric] Some refl _ False, of ?z] lb x show ?thesis by simp
      qed
    qed
  qed
qed

lemma end_run_lines: "end_run tr i so se e (w, p) = (oe, w', p') \<Longrightarrow> w' = w"
  by (auto simp: end_run_def Let_def split: prod.splits)

lemma run_lines: "snd (fst (fst (ssh_runner (with_lines tr) h x cmd inp))) = snd (fst x)"
proof (cases "tr_secrets tr (h_secret h)")
  case (Inr sec)
  obtain r w ls p where o: "open_session (with_lines tr) h sec x = (r, (w, ls), p)" by (metis prod.collapse)
  then have ls: "ls = snd (fst x)" using open_session_at_lines by (simp add: open_session_def)
  show ?thesis
  proof (cases r)
    case (Inl e)
    with Inr o ls show ?thesis by (simp add: ssh_runner_def run_with_stdin_def)
  next
    case r: (Inr i)
    obtain w1 so se e where ex: "tr_exec tr w i cmd inp = (w1, so, se, e)" by (metis prod_cases4)
    obtain oe x1 p1 where en: "end_run (with_lines tr) i so se e ((w1, ls), p) = (oe, x1, p1)" by (metis prod_cases3)
    with end_run_lines [OF en] Inr o r ex ls show ?thesis
      by (simp add: ssh_runner_def run_with_stdin_def split: prod.split)
  qed
qed (simp add: ssh_runner_def run_with_stdin_def)

lemma fold_collect: "fold (\<lambda>l. collect_line (snd l)) ls (w, acc) = (w, acc @ map snd ls)"
  by (induction ls arbitrary: acc) (simp_all add: collect_line_def)

text \<open>One streaming run: it fails before it starts, or delivers the lines of one session.\<close>

lemma stream_lines:
  assumes "ssh_stream (with_lines tr) h collect_line ((w, []), p) cmd inp = (((w', ls), p'), out, err)"
  shows "ls = [] \<and> out = [] \<or>
    (\<exists>w0 i w1 w2 sls e. tr_start tr w0 i cmd inp = (w1, None) \<and> tr_lines tr w1 i = (w2, sls, e) \<and>
       ls = map snd sls \<and> out = trim_space (unlines (map snd (filter fst sls))))"
proof (cases "tr_secrets tr (h_secret h)")
  case (Inl e)
  with assms show ?thesis by (simp add: ssh_stream_def run_streaming_def)
next
  case (Inr sec)
  obtain r w0 l0 p0 where o: "open_session (with_lines tr) h sec ((w, []), p) = (r, (w0, l0), p0)" by (metis prod.collapse)
  then have l0: "l0 = []" using open_session_at_lines by (fastforce simp: open_session_def)
  note def = assms [unfolded ssh_stream_def run_streaming_def] Inr o l0
  show ?thesis
  proof (cases r)
    case (Inl e)
    with def show ?thesis by simp
  next
    case r: (Inr i)
    obtain w1 s where st: "tr_start tr w0 i cmd inp = (w1, s)" by (metis surj_pair)
    show ?thesis
    proof (cases s)
      case (Some e)
      with def r st show ?thesis by simp
    next
      case None
      obtain w2 sls e where li: "tr_lines tr w1 i = (w2, sls, e)" by (metis prod_cases3)
      have "ls = map snd sls \<and> out = trim_space (unlines (map snd (filter fst sls)))"
        using def r st None li by (auto simp: fold_collect end_run_def Let_def split: prod.splits)
      with st None li show ?thesis by blast
    qed
  qed
qed

lemma attempt_lines:
  assumes "ae_stream (ssh_apply_env tr h cancelled sleep) x script = (x', ls, out, err)"
  shows "ls = [] \<and> out = [] \<or>
    (\<exists>command inp w0 i w1 w2 sls e. command \<in> set (carriers script) \<and> tr_start tr w0 i command inp = (w1, None) \<and>
       tr_lines tr w1 i = (w2, sls, e) \<and> ls = map snd sls \<and> out = trim_space (unlines (map snd (filter fst sls))))"
proof -
  obtain w p where x: "x = (w, p)" by (cases x)
  obtain w' ls' p' out' err' where r: "run_privileged_streaming (ssh_runner (with_lines tr) h) (ssh_stream (with_lines tr) h collect_line)
      (sudo_of (with_lines tr) h) ((w, []), p) script = (((w', ls'), p'), out', err')" by (metis prod.collapse)
  then have eq: "ls' = ls" "out' = out" using assms by (simp_all add: ssh_apply_env_def x)
  have K: "snd (fst (((w, []), p) :: ('a \<times> string list) ssh_state)) = []" by simp
  have "(\<exists>w1 e. (((w', ls), p'), out, err') = (w1, [], Some e) \<and> snd (fst w1) = []) \<or>
      (\<exists>w1 cmd inp. cmd \<in> set (carriers script) \<and> snd (fst w1) = [] \<and>
         (((w', ls), p'), out, err') = ssh_stream (with_lines tr) h collect_line w1 cmd inp)"
    using privileged_commits [OF r [unfolded eq], of "\<lambda>y. snd (fst y) = []", OF K] by (simp only: run_lines)
  then show ?thesis
  proof (elim disjE exE conjE)
    fix w1 e assume "(((w', ls), p'), out, err') = (w1, [], Some e)" "snd (fst w1) = []"
    then show ?thesis by auto
  next
    fix w1 cmd inp
    assume c: "cmd \<in> set (carriers script)" "snd (fst w1) = []"
      "(((w', ls), p'), out, err') = ssh_stream (with_lines tr) h collect_line w1 cmd inp"
    obtain wa pa where w1: "w1 = ((wa, []), pa)" using c(2) by (metis prod.collapse)
    show ?thesis using stream_lines [OF c(3) [unfolded w1, symmetric]] c(1) by blast
  qed
qed

section \<open>Which lines are shown\<close>

lemma plain_log_beginning:
  assumes "plain_log lns" "m \<in> set lns" "prefix l m"
  shows "log_line l" "\<not> sublist ''__PD_'' l"
proof -
  have m: "\<not> sublist ''__PD_'' m" "\<not> sublist reboot_marker m"
    using assms(1,2) by (auto simp: plain_log_def list_all_iff contains_iff)
  have l: "sublist l m" using assms(3) by (rule prefix_imp_sublist)
  show "\<not> sublist ''__PD_'' l" using m(1) l sublist_order.order.trans by blast
  then show "log_line l"
    using m(2) l by (auto simp: log_line_def has_prefix_def dest: prefix_imp_sublist)
qed

lemma marker_beginning:
  assumes "log_line l" "\<not> log_line m" "prefix l m"
  shows "marker_piece l"
proof (cases "m = reboot_marker")
  case False
  then have "prefix ''__PD_'' m" using assms(2) by (simp add: log_line_def has_prefix_def)
  then have "prefix l ''__PD_'' \<or> prefix ''__PD_'' l" using assms(3) prefix_same_cases by blast
  then show ?thesis using assms(1) by (auto simp: marker_piece_def log_line_def has_prefix_def)
qed (use assms(3) in \<open>simp add: marker_piece_def\<close>)

lemma filter_delivered:
  assumes "plain_log lns" "list_all (\<lambda>m. \<not> log_line m) tail"
  shows "filter log_line (take k (drop n lns @ tail)) = take k (drop n lns)"
proof -
  have "filter log_line (take k (drop n lns)) = take k (drop n lns)"
    using plain_log_beginning(1) [OF assms(1)] by (auto simp: filter_id_conv dest!: in_set_takeD in_set_dropD)
  moreover have "filter log_line (take j tail) = []" for j
    using assms(2) by (auto simp: filter_empty_conv list_all_iff dest: in_set_takeD)
  ultimately show ?thesis by simp
qed

lemma delivered_shown:
  assumes plain: "plain_log lns" and tail: "list_all (\<lambda>m. \<not> log_line m) tail" and del: "delivered partial (drop n lns @ tail) ls"
  shows "\<forall>k < length (filter log_line ls). shown_line partial lns (n + k) (filter log_line ls ! k)"
    "length lns \<le> n + length (filter log_line ls) \<or> (\<forall>l \<in> set ls. \<not> sublist ''__PD_'' l)"
proof -
  let ?full = "drop n lns @ tail" and ?m = "length lns - n"
  obtain k where k: "k \<le> length ?full" and
    ls: "ls = take k ?full \<or> partial \<and> k < length ?full \<and> (\<exists>l. prefix l (?full ! k) \<and> ls = take k ?full @ [l])"
    using del by (auto simp: delivered_def)
  note F = filter_delivered [OF plain tail, of k n]
  have whole: "shown_line partial lns (n + j) (take k (drop n lns) ! j)" if "j < length (take k (drop n lns))" for j
    using that by (auto simp: shown_line_def)
  have free: "\<not> sublist ''__PD_'' l" if "k < ?m" "l \<in> set (take k ?full)" for l
    using that plain_log_beginning(2) [OF plain, of l l] by (auto dest!: in_set_takeD in_set_dropD)
  have "(\<forall>j < length (filter log_line ls). shown_line partial lns (n + j) (filter log_line ls ! j)) \<and>
    (length lns \<le> n + length (filter log_line ls) \<or> (\<forall>l \<in> set ls. \<not> sublist ''__PD_'' l))"
    using ls
  proof (elim disjE exE conjE)
    assume ls: "ls = take k ?full"
    show ?thesis
    proof (cases "k < ?m")
      case True
      with ls F whole free show ?thesis by auto
    next
      case False
      with ls F whole show ?thesis by auto
    qed
  next
    fix l assume p: partial and kl: "k < length ?full" and l: "prefix l (?full ! k)" and ls: "ls = take k ?full @ [l]"
    show ?thesis
    proof (cases "k < ?m")
      case True
      then have at: "?full ! k = lns ! (n + k)" "n + k < length lns" by (simp_all add: nth_append)
      then have m: "lns ! (n + k) \<in> set lns" by simp
      note b = plain_log_beginning [OF plain m l [unfolded at(1)]]
      have fl: "filter log_line ls = take k (drop n lns) @ [l]" using ls F b(1) by simp
      have "shown_line partial lns (n + k) l" using at l p by (simp add: shown_line_def)
      then have "\<forall>j < length (filter log_line ls). shown_line partial lns (n + j) (filter log_line ls ! j)"
        unfolding fl using whole True by (auto simp: nth_append less_Suc_eq)
      moreover have "\<forall>l' \<in> set ls. \<not> sublist ''__PD_'' l'" using ls b(2) free [OF True] by auto
      ultimately show ?thesis by blast
    next
      case False
      then have "?full ! k \<in> set tail" using kl by (simp add: nth_append)
      then have "\<not> log_line (?full ! k)" using tail by (simp add: list_all_iff)
      then have piece: "log_line l \<Longrightarrow> marker_piece l" using marker_beginning l by blast
      have fl: "filter log_line ls = drop n lns @ (if log_line l then [l] else [])" using ls F False by simp
      show ?thesis
        unfolding fl using piece p by (auto simp: nth_append shown_line_def less_Suc_eq)
    qed
  qed
  then show "\<forall>j < length (filter log_line ls). shown_line partial lns (n + j) (filter log_line ls ! j)"
    "length lns \<le> n + length (filter log_line ls) \<or> (\<forall>l \<in> set ls. \<not> sublist ''__PD_'' l)" by blast+
qed

text \<open>An exit status is only read when a line with the marker was delivered.\<close>

lemma join_sublist: "p \<in> set ps \<Longrightarrow> sublist p (join sep ps)"
proof (induction ps)
  case (Cons q qs)
  show ?case
  proof (cases "qs = []")
    case False
    then have "join sep (q # qs) = q @ sep @ join sep qs" by (simp add: join_Cons)
    with Cons show ?thesis by (auto simp: sublist_append)
  qed (use Cons in simp)
qed simp

lemma split_on_sublist: "ln \<in> set (split_on c s) \<Longrightarrow> sublist ln s"
  using join_sublist [of ln "split_on c s" "[c]"] by simp

lemma trim_space_sublist: "sublist (trim_space s) s"
proof -
  have "sublist (trim_right (trim_left s)) (trim_left s)" by (rule prefix_imp_sublist) (rule trim_right_prefix)
  moreover have "sublist (trim_left s) s" by (rule suffix_imp_sublist) (rule trim_left_suffix)
  ultimately show ?thesis unfolding trim_space_def by (rule sublist_order.order.trans)
qed

lemma first_some_Some: "first_some f xs \<noteq> None \<Longrightarrow> \<exists>x \<in> set xs. f x \<noteq> None"
  by (induction xs) (auto split: option.splits)

definition rc_key :: string where "rc_key = ''__PD_APPLY_RC__=''"

lemma rc_key_facts: "NL \<notin> set rc_key" "rc_key \<noteq> []" "contains rc_key ''__PD_''" "\<not> contains not_found_line rc_key"
  by code_simp+

lemma status_needs_marker:
  assumes "apply_rc_re (trim_space (unlines ls)) \<noteq> None"
  shows "\<exists>l \<in> set ls. contains l rc_key"
proof -
  have "first_some (key_line rc_key) (split_on NL (trim_space (unlines ls))) \<noteq> None"
    using assms by (simp only: apply_rc_re_def rc_key_def not_False_eq_True)
  from first_some_Some [OF this] obtain ln where
    ln: "ln \<in> set (split_on NL (trim_space (unlines ls)))" "key_line rc_key ln \<noteq> None" by blast
  then have "prefix rc_key ln" by (auto simp: key_line_def split: if_splits)
  then have "sublist rc_key (unlines ls)"
    using split_on_sublist [OF ln(1)] trim_space_sublist by (meson prefix_imp_sublist sublist_order.order.trans)
  then show ?thesis using contains_unlines [of rc_key ls] rc_key_facts by (simp add: contains_iff)
qed

lemma attempt_shown:
  assumes plain: "plain_log lns" and host: "keeps_log partial tr rid lns"
    and script: "script = apply_follow_script rid (n + 1) \<or> n = 0 \<and> script = apply_start_script rid"
    and run: "ae_stream (ssh_apply_env tr h cancelled sleep) x script = (x', ls, out, err)"
  shows "\<forall>k < length (filter log_line ls). shown_line partial lns (n + k) (filter log_line ls ! k)"
    "apply_rc_re out \<noteq> None \<Longrightarrow> length lns \<le> n + length (filter log_line ls)"
proof -
  have none: "apply_rc_re [] = None" by code_simp
  have "(\<forall>k < length (filter log_line ls). shown_line partial lns (n + k) (filter log_line ls ! k)) \<and>
     (apply_rc_re out \<noteq> None \<longrightarrow> length lns \<le> n + length (filter log_line ls))"
    using attempt_lines [OF run]
  proof (elim disjE exE conjE)
    assume "ls = []" "out = []"
    then show ?thesis using none by simp
  next
    fix command inp w0 i w1 w2 sls e
    assume c: "command \<in> set (carriers script)" "tr_start tr w0 i command inp = (w1, None)" "tr_lines tr w1 i = (w2, sls, e)"
      and ls: "ls = map snd sls" and out: "out = trim_space (unlines (map snd (filter fst sls)))"
    from host [unfolded keeps_log_def, rule_format, OF script c] have all: "list_all fst sls"
      and served: "ls = [not_found_line] \<or> (\<exists>tail. list_all (\<lambda>m. \<not> log_line m) tail \<and> delivered partial (drop n lns @ tail) ls)"
      by (simp_all add: ls)
    have "filter fst sls = sls" using all by (simp add: list_all_iff filter_id_conv)
    then have key: "\<exists>l \<in> set ls. contains l rc_key" if "apply_rc_re out \<noteq> None"
      using status_needs_marker [of ls] that by (simp add: out ls)
    from served show ?thesis
    proof (elim disjE exE conjE)
      assume "ls = [not_found_line]"
      moreover have "\<not> log_line not_found_line" by code_simp
      ultimately show ?thesis using key rc_key_facts(4) by auto
    next
      fix tail assume "list_all (\<lambda>m. \<not> log_line m) tail" "delivered partial (drop n lns @ tail) ls"
      note d = delivered_shown [OF plain this]
      have "length lns \<le> n + length (filter log_line ls)" if "apply_rc_re out \<noteq> None"
        using d(2) key [OF that] rc_key_facts(3) by (auto simp: contains_iff dest: sublist_order.order.trans)
      with d(1) show ?thesis by blast
    qed
  qed
  then show "\<forall>k < length (filter log_line ls). shown_line partial lns (n + k) (filter log_line ls ! k)"
    "apply_rc_re out \<noteq> None \<Longrightarrow> length lns \<le> n + length (filter log_line ls)" by blast+
qed

section \<open>The loop\<close>

definition log_inv :: "bool \<Rightarrow> string \<Rightarrow> string list \<Rightarrow> apply_state \<Rightarrow> bool" where
  "log_inv partial rid lns st \<longleftrightarrow>
     (\<exists>L. ap_log st = unlines L \<and> ap_seen st = length L \<and> log_shown partial lns L \<and>
        (ap_script st = apply_follow_script rid (length L + 1) \<or> length L = 0 \<and> ap_script st = apply_start_script rid))"

lemma log_shown_append:
  assumes "log_shown partial lns L" "\<forall>k < length F. shown_line partial lns (length L + k) (F ! k)"
  shows "log_shown partial lns (L @ F)"
  unfolding log_shown_def
proof (intro allI impI)
  fix k assume k: "k < length (L @ F)"
  show "shown_line partial lns k ((L @ F) ! k)"
  proof (cases "k < length L")
    case True
    with assms(1) show ?thesis by (simp add: log_shown_def nth_append)
  next
    case False
    with k have "shown_line partial lns (length L + (k - length L)) (F ! (k - length L))"
      by (intro assms(2) [rule_format]) simp
    with False show ?thesis by (simp add: nth_append)
  qed
qed

lemma log_shown_exact: "log_shown False lns L \<Longrightarrow> length lns \<le> length L \<Longrightarrow> L = lns"
  by (rule nth_equalityI) (force simp: log_shown_def shown_line_def not_le split: if_splits)+

lemma loop_shown:
  assumes "plain_log lns" "keeps_log partial tr rid lns"
  shows "log_inv partial rid lns st \<Longrightarrow>
    apply_loop (ssh_apply_env tr h cancelled sleep) rid started fuel x st = Some (x', res, err) \<Longrightarrow>
    res = empty_apply \<and> err \<noteq> None \<or>
    (\<exists>L. ar_raw res = unlines L \<and> log_shown partial lns L \<and> length lns \<le> length L)"
proof (induction fuel arbitrary: x st)
  case (Suc fuel)
  let ?env = "ssh_apply_env tr h cancelled sleep"
  obtain L where L: "ap_log st = unlines L" "ap_seen st = length L" "log_shown partial lns L"
    "ap_script st = apply_follow_script rid (length L + 1) \<or> length L = 0 \<and> ap_script st = apply_start_script rid"
    using Suc.prems(1) unfolding log_inv_def by blast
  obtain x1 ls out e where s: "ae_stream ?env x (ap_script st) = (x1, ls, out, e)" by (metis prod_cases4)
  note shown = attempt_shown [OF assms L(4) s]
  let ?F = "filter log_line ls"
  have LF: "log_shown partial lns (L @ ?F)" by (rule log_shown_append [OF L(3) shown(1)])
  obtain x2 r where step: "apply_step ?env rid started x st = (x2, r)" by (metis surj_pair)
  show ?case
  proof (cases r)
    case (Inl st2)
    note again = apply_step_again [OF step [unfolded Inl] s]
    have "log_inv partial rid lns st2"
      unfolding log_inv_def using again(1,2,4) L(1,2) LF by (intro exI [of _ "L @ ?F"]) simp
    from Suc.IH [OF this] Suc.prems(2) step Inl show ?thesis by simp
  next
    case (Inr re)
    then have "r = Inr (res, err)" using Suc.prems(2) step by (cases re) auto
    from apply_step_end [OF step [unfolded this] s] show ?thesis
    proof (elim disjE conjE)
      assume "apply_rc_re out \<noteq> None" "ar_raw res = ap_log st @ unlines ?F"
      then have "ar_raw res = unlines (L @ ?F)" "length lns \<le> length (L @ ?F)" using L(1) shown(2) by simp_all
      with LF show ?thesis by blast
    qed simp
  qed
qed simp

text \<open>A line on standard error counts as a line of the log: the next follow starts behind a line never shown.\<close>

lemma stderr_line_skips:
  assumes "ae_stream env w (ap_script st) = (w1, [''sudo: unable to resolve host a'', ''Setting up a''], [], Some (ConnLost ''EOF''))"
    and "ap_seen st = 0" "apply_step env rid started w st = (w', Inl st')"
  shows "ap_script st' = apply_follow_script rid 3"
proof -
  have "filter log_line [''sudo: unable to resolve host a'', ''Setting up a''] = [''sudo: unable to resolve host a'', ''Setting up a'']"
    by code_simp
  then show ?thesis using apply_step_again(1,4) [OF assms(3,1)] assms(2) by (simp add: numeral_3_eq_3)
qed

section \<open>Properties\<close>

text \<open>C23
  No line of the upgrade's log is lost or shown twice, however often the connection drops: the result is an error
  without output, or its output has the lines of the log in order, each exactly once. A line during which the
  connection dropped may be shortened to its beginning, and behind the last line there may be the beginning of a
  marker; when connections only drop between lines the output is exactly the log. This holds of a host whose
  follow script prints the log from the line asked for and nothing to standard error, for a log without the
  markers of the scripts. A line on standard error is counted as one of the log: then a line is lost
  (\<open>stderr_line_skips\<close>).\<close>

theorem apply_log_exact:
  assumes "plain_log lns" "keeps_log partial tr rid lns"
    and "apply_detached (ssh_apply_env tr h cancelled sleep) rid fuel x = Some (x', res, err)"
  shows "res = empty_apply \<and> err \<noteq> None \<or>
    (\<exists>shown. ar_raw res = unlines shown \<and> log_shown partial lns shown \<and> length lns \<le> length shown \<and>
       (\<not> partial \<longrightarrow> shown = lns))"
proof (cases "apply_id_ok rid")
  case True
  have "log_inv partial rid lns (apply_init rid)" by (simp add: log_inv_def apply_init_def log_shown_def)
  from loop_shown [OF assms(1,2) this] assms(3) True
  have "res = empty_apply \<and> err \<noteq> None \<or> (\<exists>L. ar_raw res = unlines L \<and> log_shown partial lns L \<and> length lns \<le> length L)"
    by (simp add: apply_detached_def)
  then show ?thesis using log_shown_exact by (cases partial) auto
next
  case False
  with assms(3) show ?thesis by (auto simp: apply_detached_def)
qed

section \<open>A witness\<close>

lemma digits_blank_inj:
  assumes "digits m @ CHR '' '' # R = digits n @ CHR '' '' # S"
  shows "m = n"
proof -
  have blank: "CHR '' '' \<notin> set (digits k)" for k using digits_all [of k] by (auto simp: list_all_iff is_digit_def byte_of_def)
  have "takeWhile (\<lambda>c. c \<noteq> CHR '' '') (digits k @ CHR '' '' # t) = digits k" for k t
    using blank [of k] by (subst takeWhile_append2) auto
  with assms have "digits m = digits n" by metis
  then show ?thesis using digits_val_digits by metis
qed

lemma itoa_nat: "itoan k = digits k"
  by (simp add: itoa_def)

lemma follow_script_inj: "apply_follow_script rid m = apply_follow_script rid n \<Longrightarrow> m = n"
  unfolding apply_follow_script_def apply_follow_body_def follow_lines_def list.map concat.simps append_assoc same_append_eq
  unfolding append_Cons itoa_nat
  by (erule digits_blank_inj)

lemma carrier_root:
  assumes "run_as_root_command c \<in> set (carriers d)"
  shows "c = d"
proof -
  have "run_as_root_command c \<noteq> ''sudo -n '' @ s" "run_as_root_command c \<noteq> sudo_password_prefix @ s"
    "run_as_root_command c \<noteq> su_command s" for s
    by (simp_all add: run_as_root_command_def sudo_password_prefix_def su_command_def)
  then have "run_as_root_command c = run_as_root_command d" using assms by (auto simp: carriers_def Let_def)
  then show ?thesis by (auto simp: run_as_root_command_def dest: shell_single_quote_inj)
qed

text \<open>A host whose connection drops within the second line; the second attempt reads the end.\<close>

definition log_transport :: "(string, string) transport" where
  "log_transport = \<lparr>tr_dial = (\<lambda>w h a. (w, None)), tr_session = (\<lambda>w i. (w, SessionOpen)),
     tr_exec = (\<lambda>w i c inp. (w, ''__PD_ROOT__'', [], Ended None)),
     tr_start = (\<lambda>w i c inp. if c = run_as_root_command (apply_start_script ''a1'') then (''start'', None)
       else if c = run_as_root_command (apply_follow_script ''a1'' 3) then (''follow'', None) else (w, Some ''refused'')),
     tr_lines = (\<lambda>w i. if w = ''start'' then (w, [(True, ''Setting up a''), (True, ''Setti'')], Ended (Some (EofErr ''EOF'')))
       else (w, [(True, ''__PD_APPLY_RC__=0'')], Ended None)),
     tr_now = (\<lambda>w. 0), tr_app_signers = Some (\<lambda>w. [''key'']), tr_fingerprint = (\<lambda>s. s),
     tr_parse_signer = (\<lambda>k s. Inl ''no key''), tr_sha = (\<lambda>s. s), tr_secrets = (\<lambda>c. Inr no_secrets),
     tr_exec_timeout = 0\<rparr>"

lemma log_transport_keeps: "keeps_log True log_transport ''a1'' [''Setting up a'', ''Setting up b'']"
  unfolding keeps_log_def
proof (intro allI impI)
  fix w i n script command inp w1 w2 ls e
  assume script: "script = apply_follow_script ''a1'' (n + 1) \<or> n = 0 \<and> script = apply_start_script ''a1''"
    and c: "command \<in> set (carriers script)" and st: "tr_start log_transport w i command inp = (w1, None)"
    and li: "tr_lines log_transport w1 i = (w2, ls, e)"
  let ?start = "apply_start_script ''a1''" and ?lns = "[''Setting up a'', ''Setting up b'']"
  have neq: "run_as_root_command (apply_follow_script ''a1'' 3) \<noteq> run_as_root_command ?start"
    using start_not_follow shell_single_quote_inj by (metis run_as_root_command_def same_append_eq)
  consider "command = run_as_root_command ?start" "w1 = ''start''"
    | "command = run_as_root_command (apply_follow_script ''a1'' 3)" "w1 = ''follow''"
    using st by (auto simp: log_transport_def split: if_splits)
  then show "list_all fst ls \<and> (map snd ls = [not_found_line] \<or>
      (\<exists>tail. list_all (\<lambda>m. \<not> log_line m) tail \<and> delivered True (drop n ?lns @ tail) (map snd ls)))"
  proof cases
    case 1
    with c have "script = ?start" by (metis carrier_root)
    with script start_not_follow have n: "n = 0" by auto
    have "ls = [(True, ''Setting up a''), (True, ''Setti'')]" using li 1(2) by (simp add: log_transport_def)
    then show ?thesis using n by (auto simp: delivered_def intro!: exI [of _ "[]"] exI [of _ 1])
  next
    case 2
    with c have "script = apply_follow_script ''a1'' 3" by (metis carrier_root)
    with script start_not_follow [symmetric] have n: "n = 2" using follow_script_inj [of "''a1''" 3 "n + 1"] by auto
    have "ls = [(True, ''__PD_APPLY_RC__=0'')]" using li 2(2) by (simp add: log_transport_def)
    moreover have "\<not> log_line ''__PD_APPLY_RC__=0''" by code_simp
    ultimately show ?thesis using n
      by (auto simp: delivered_def intro!: exI [of _ "[''__PD_APPLY_RC__=0'']"] exI [of _ 1])
  qed
qed

lemma log_open:
  "h_auth_type h = auth_app_key \<Longrightarrow> \<exists>i p'. open_session (with_lines log_transport) h sec ((w, ls), p) = (Inr i, (w, ls), p')"
  by (simp add: open_session_def open_session_at.simps acquire_def auth_methods_def dial_def new_session_def log_transport_def
      with_lines_def auth_app_key_def Let_def split: option.split prod.split)

lemma log_root:
  assumes "h_auth_type h = auth_app_key"
  shows "\<exists>p'. escalation (ssh_runner (with_lines log_transport) h) ((w, ls), p) = (((w, ls), p'), Inr EscRoot)"
proof -
  have t: "contains (trim_space ''__PD_ROOT__'') ''__PD_ROOT__''" by code_simp
  obtain i p' where "open_session (with_lines log_transport) h no_secrets ((w, ls), p) = (Inr i, (w, ls), p')"
    using log_open [OF assms] by blast
  then show ?thesis
    by (simp add: escalation_def ssh_runner_def run_with_stdin_def end_run_def log_transport_def with_lines_def Let_def t)
qed

lemma log_attempt:
  assumes "h_auth_type h = auth_app_key" "\<And>i inp. tr_start log_transport w i (run_as_root_command script) inp = (w1, None)"
    and "\<And>i. tr_lines log_transport w1 i = (w2, ls, e)"
  shows "\<exists>p' err. ae_stream (ssh_apply_env log_transport h cancelled sleep) (w, p) script =
    ((w2, p'), map snd ls, trim_space (unlines (map snd (filter fst ls))), err) \<and>
    err = map_option (\<lambda>t. run_error (unlines (map snd (filter (\<lambda>l. \<not> fst l) ls)))
      (trim_space (unlines (map snd (filter fst ls)))) (transport_text t) (is_connection_lost (Some t))) (fst (deadline_error 0 e))"
proof -
  have sec: "tr_secrets log_transport = (\<lambda>c. Inr no_secrets)" "tr_exec_timeout (with_lines log_transport) = 0"
    by (simp_all add: log_transport_def with_lines_def)
  obtain p1 where r: "escalation (ssh_runner (with_lines log_transport) h) ((w, []), p) = (((w, []), p1), Inr EscRoot)"
    using log_root [OF assms(1)] by blast
  obtain i p2 where o: "open_session (with_lines log_transport) h no_secrets ((w, []), p1) = (Inr i, (w, []), p2)"
    using log_open [OF assms(1)] by blast
  show ?thesis
    by (simp add: ssh_apply_env_def run_privileged_streaming_def sudo_of_def sec r o ssh_stream_def run_streaming_def
        assms(2,3) fold_collect end_run_def Let_def split: prod.splits)
qed

lemma log_run:
  "\<exists>x. apply_detached (ssh_apply_env log_transport (toy_pool_host ''a'') (\<lambda>_. None) (\<lambda>w. (w, None))) ''a1'' 2 (''idle'', new_conn_pool) =
     Some (x, \<lparr>ar_changed = 1, ar_raw = unlines [''Setting up a'', ''Setti''], ar_needs_reboot = False\<rparr>, None)"
proof -
  let ?env = "ssh_apply_env log_transport (toy_pool_host ''a'') (\<lambda>_. None) (\<lambda>w. (w, None))"
  have app: "h_auth_type (toy_pool_host ''a'') = auth_app_key" by (simp add: toy_pool_host_def auth_app_key_def)
  let ?lns = "[''Setting up a'', ''Setti'']"
  let ?text = "unlines ?lns" and ?out = "trim_space (unlines ?lns)" and ?rc = "trim_space (unlines [''__PD_APPLY_RC__=0''])"
  have i: "apply_id_ok ''a1''" and n: "\<not> log_line ''__PD_APPLY_RC__=0''" by code_simp+
  obtain lns out rc where defs: "lns = ?lns" "out = ?out" "rc = ?rc" by blast
  have facts: "filter log_line lns = lns" "length lns = 2" "apply_rc_re out = None" "\<not> contains out ''__PD_APPLY_LOST__''"
    "\<not> contains out ''__PD_APPLY_NOTFOUND__''" "apply_rc_re rc = Some ''0''"
    "finish_apply ''0'' rc (unlines lns) = (\<lparr>ar_changed = 1, ar_raw = ?text, ar_needs_reboot = False\<rparr>, None)"
    unfolding defs by code_simp+
  have neq: "run_as_root_command (apply_follow_script ''a1'' 3) \<noteq> run_as_root_command (apply_start_script ''a1'')"
    using start_not_follow shell_single_quote_inj by (metis run_as_root_command_def same_append_eq)
  have first: "tr_start log_transport ''idle'' i (run_as_root_command (apply_start_script ''a1'')) inp = (''start'', None)"
    "tr_lines log_transport ''start'' i = (''start'', [(True, ''Setting up a''), (True, ''Setti'')], Ended (Some (EofErr ''EOF'')))"
    for i inp by (simp_all add: log_transport_def)
  have second: "tr_start log_transport ''start'' i (run_as_root_command (apply_follow_script ''a1'' 3)) inp = (''follow'', None)"
    "tr_lines log_transport ''follow'' i = (''follow'', [(True, ''__PD_APPLY_RC__=0'')], Ended None)"
    for i inp using neq by (simp_all add: log_transport_def)
  obtain p1 e where s1: "ae_stream ?env (''idle'', new_conn_pool) (apply_start_script ''a1'') = ((''start'', p1), lns, out, Some e)"
      "is_conn_lost (Some e)"
    using log_attempt [OF app first, of "\<lambda>_. None" "\<lambda>w. (w, None)" new_conn_pool]
    by (auto simp: run_error_def is_connection_lost_def Let_def defs)
  obtain p2 where s2: "ae_stream ?env (''start'', p1) (apply_follow_script ''a1'' 3) =
      ((''follow'', p2), [''__PD_APPLY_RC__=0''], rc, None)"
    using log_attempt [OF app second, of "\<lambda>_. None" "\<lambda>w. (w, None)" p1] by (auto simp: defs)
  have quiet: "ae_cancelled ?env w = None" "ae_sleep ?env w = (w, None)" "ae_clock ?env w = 0" for w
    by (simp_all add: ssh_apply_env_def log_transport_def split: prod.split)
  obtain st where st1: "apply_step ?env ''a1'' 0 (''idle'', new_conn_pool) (apply_init ''a1'') = ((''start'', p1), Inl st)"
    using s1 by (simp add: apply_step_def apply_init_def apply_retry_def retryable_apply_err_def facts quiet
        apply_reconnect_window_def apply_max_duration_def second_def Let_def fold_emit)
  from apply_step_again [OF st1] s1(1)
  have st: "ap_script st = apply_follow_script ''a1'' 3" "ap_log st = unlines lns"
    by (simp_all add: apply_init_def facts)
  have "apply_step ?env ''a1'' 0 (''start'', p1) st =
      ((''follow'', p2), Inr (\<lparr>ar_changed = 1, ar_raw = ?text, ar_needs_reboot = False\<rparr>, None))"
    using s2 by (simp only: apply_step_def st prod.case Let_def fold_emit facts option.case) (simp add: n st facts)
  then show ?thesis using st1 by (simp add: apply_detached_def i quiet numeral_2_eq_2)
qed

theorem apply_log_exact_witness:
  "plain_log [''Setting up a'', ''Setting up b''] \<and> keeps_log True log_transport ''a1'' [''Setting up a'', ''Setting up b''] \<and>
   (\<exists>x res. apply_detached (ssh_apply_env log_transport (toy_pool_host ''a'') (\<lambda>_. None) (\<lambda>w. (w, None))) ''a1'' 2
       (''idle'', new_conn_pool) = Some (x, res, None) \<and> res \<noteq> empty_apply \<and>
     (\<exists>shown. ar_raw res = unlines shown \<and> log_shown True [''Setting up a'', ''Setting up b''] shown \<and> 2 \<le> length shown))"
proof -
  have p: "plain_log [''Setting up a'', ''Setting up b'']" by code_simp
  obtain x where run: "apply_detached (ssh_apply_env log_transport (toy_pool_host ''a'') (\<lambda>_. None) (\<lambda>w. (w, None))) ''a1'' 2
      (''idle'', new_conn_pool) = Some (x, \<lparr>ar_changed = 1, ar_raw = unlines [''Setting up a'', ''Setti''], ar_needs_reboot = False\<rparr>, None)"
    using log_run by blast
  from apply_log_exact [OF p log_transport_keeps run] p log_transport_keeps run show ?thesis
    by (auto simp: empty_apply_def)
qed

end
