(* ===== verification/Scheduler.thy ===== *)
theory Scheduler
  imports Cron DbHosts DbSettings Machine
begin

text \<open>
  The ticking part of \<open>internal/scheduler/scheduler.go\<close>: which jobs a tick starts, the once-a-minute
  and no-overlap bookkeeping and the daily purge of the audit log. The key of the bookkeeping is the
  UTC minute, of the purge the UTC day; both are the number of the minute or day of the instant.

  One goroutine ticks; the goroutines of running jobs only call \<open>finishStart\<close>. Each method holds the
  mutex, so the steps of the machine are: the start of a tick, the consideration of one job, which is
  \<open>markDue\<close> and \<open>tryStart\<close> (a \<open>finishStart\<close> between them commutes with \<open>markDue\<close>), and the end of a job.
\<close>

section \<open>The engine\<close>

record engine =
  en_last :: "string \<rightharpoonup> int"
  en_running :: "string set"
  en_purged :: "int option"

definition new_engine :: engine where
  "new_engine = \<lparr>en_last = Map.empty, en_running = {}, en_purged = None\<rparr>"

definition utc_minute :: "int \<Rightarrow> int" where
  "utc_minute now = now div minute_ns"

definition utc_day :: "int \<Rightarrow> int" where
  "utc_day now = now div day_ns"

definition mark_due :: "string \<Rightarrow> int \<Rightarrow> engine \<Rightarrow> bool \<times> engine" where
  "mark_due j now e =
     (if en_last e j = Some (utc_minute now) then (False, e)
      else (True, e\<lparr>en_last := (en_last e)(j \<mapsto> utc_minute now)\<rparr>))"

definition prune_last_run :: "int \<Rightarrow> engine \<Rightarrow> engine" where
  "prune_last_run now e =
     e\<lparr>en_last := (\<lambda>j. if en_last e j = Some (utc_minute now) then en_last e j else None)\<rparr>"

definition try_start :: "string \<Rightarrow> engine \<Rightarrow> bool \<times> engine" where
  "try_start j e =
     (if j \<in> en_running e then (False, e) else (True, e\<lparr>en_running := insert j (en_running e)\<rparr>))"

definition finish_start :: "string \<Rightarrow> engine \<Rightarrow> engine" where
  "finish_start j e = e\<lparr>en_running := en_running e - {j}\<rparr>"

definition maybe_purge_activity :: "int \<Rightarrow> engine \<Rightarrow> db \<Rightarrow> engine \<times> db" where
  "maybe_purge_activity now e d =
     (if en_purged e = Some (utc_day now) then (e, d)
      else
        (let e = e\<lparr>en_purged := Some (utc_day now)\<rparr>;
             days = get_audit_retention_days d
         in if days = 0 then (e, d) else (e, snd (purge_old_activity now days d))))"

text \<open>One job of a tick; the result says whether it is started.\<close>

definition consider_job :: "(int \<Rightarrow> civil) \<Rightarrow> int \<Rightarrow> job \<Rightarrow> engine \<Rightarrow> bool \<times> engine" where
  "consider_job loc now j e =
     (if \<not> j_enabled j then (False, e)
      else if \<not> cron_matches (j_cron j) (loc now) then (False, e)
      else
        (case mark_due (j_id j) now e of
           (False, e) \<Rightarrow> (False, e)
         | (True, e) \<Rightarrow> try_start (j_id j) e))"

fun consider_jobs :: "(int \<Rightarrow> civil) \<Rightarrow> int \<Rightarrow> job list \<Rightarrow> engine \<Rightarrow> job list \<times> engine" where
  "consider_jobs loc now [] e = ([], e)"
| "consider_jobs loc now (j # js) e =
     (case consider_job loc now j e of (started, e) \<Rightarrow>
      case consider_jobs loc now js e of (ss, e) \<Rightarrow> (if started then j # ss else ss, e))"

text \<open>\<open>tick\<close>: the jobs it starts, in the order of their goroutines, with the engine and the database.\<close>

definition tick :: "(int \<Rightarrow> civil) \<Rightarrow> int \<Rightarrow> engine \<Rightarrow> db \<Rightarrow> job list \<times> engine \<times> db" where
  "tick loc now e d =
     (case maybe_purge_activity now e d of (e, d) \<Rightarrow>
      case consider_jobs loc now (map fst (list_jobs d)) (prune_last_run now e) of (ss, e) \<Rightarrow> (ss, e, d))"

section \<open>What a tick starts\<close>

lemma consider_job_iff:
  "fst (consider_job loc now j e) \<longleftrightarrow> j_enabled j \<and> cron_matches (j_cron j) (loc now) \<and>
     en_last e (j_id j) \<noteq> Some (utc_minute now) \<and> j_id j \<notin> en_running e"
  by (simp add: consider_job_def mark_due_def try_start_def)

lemma consider_job_other:
  "j_id j \<noteq> i \<Longrightarrow> en_last (snd (consider_job loc now j e)) i = en_last e i \<and>
     (i \<in> en_running (snd (consider_job loc now j e)) \<longleftrightarrow> i \<in> en_running e)"
  by (auto simp: consider_job_def mark_due_def try_start_def)

lemma consider_jobs_filter:
  "distinct (map j_id js) \<Longrightarrow> fst (consider_jobs loc now js e) = filter (\<lambda>j. fst (consider_job loc now j e)) js"
proof (induction js arbitrary: e)
  case (Cons j js)
  let ?e = "snd (consider_job loc now j e)"
  have "fst (consider_job loc now k ?e) = fst (consider_job loc now k e)" if "k \<in> set js" for k
    using Cons.prems that consider_job_other [of j "j_id k" loc now e]
    by (auto simp: consider_job_iff image_iff)
  then have "filter (\<lambda>k. fst (consider_job loc now k ?e)) js = filter (\<lambda>k. fst (consider_job loc now k e)) js"
    by (intro filter_cong) auto
  with Cons show ?case by (simp split: prod.split) (metis fst_conv snd_conv)
qed simp

lemma distinct_order_desc: "distinct (map k (order_desc f rows)) \<longleftrightarrow> distinct (map k rows)"
  by (simp add: order_desc_def distinct_map)

lemma distinct_list_jobs: "distinct (map j_id (map fst (list_jobs d))) \<longleftrightarrow> distinct (map j_id (d_jobs d))"
  by (simp add: list_jobs_def comp_def distinct_order_desc)

lemma maybe_purge_jobs:
  "maybe_purge_activity now e d = (e', d') \<Longrightarrow> list_jobs d' = list_jobs d \<and> en_running e' = en_running e \<and> en_last e' = en_last e"
  by (auto simp: maybe_purge_activity_def purge_old_activity_def list_jobs_def Let_def split: if_splits)

section \<open>The machine\<close>

text \<open>The steps, with the starts (job and minute) and the ends so far as history.\<close>

datatype sched_op = EvTick | EvConsider "int \<Rightarrow> civil" job | EvFinish string

type_synonym sched_state = "engine \<times> (string \<times> int) list \<times> string list"

fun sched_step :: "int \<Rightarrow> sched_op \<Rightarrow> sched_state \<Rightarrow> sched_state" where
  "sched_step now EvTick (e, starts, ends) = (prune_last_run now e, starts, ends)"
| "sched_step now (EvConsider loc j) (e, starts, ends) =
     (case consider_job loc now j e of (started, e') \<Rightarrow>
        (e', if started then (j_id j, utc_minute now) # starts else starts, ends))"
| "sched_step now (EvFinish j) (e, starts, ends) =
     (if j \<in> en_running e then (finish_start j e, starts, j # ends) else (e, starts, ends))"

definition sched_inv :: "int \<Rightarrow> sched_state \<Rightarrow> bool" where
  "sched_inv t s \<longleftrightarrow> (case s of (e, starts, ends) \<Rightarrow>
     distinct starts \<and>
     (\<forall>(j, k) \<in> set starts. k \<le> utc_minute t \<and> (k = utc_minute t \<longrightarrow> en_last e j = Some k)) \<and>
     (\<forall>j. count_list (map fst starts) j = count_list ends j + (if j \<in> en_running e then 1 else 0)))"

lemma utc_minute_mono: "t0 \<le> t \<Longrightarrow> utc_minute t0 \<le> utc_minute t"
  by (simp add: utc_minute_def zdiv_mono1 minute_ns_def)

lemma sched_inv_later: "sched_inv t0 s \<Longrightarrow> t0 \<le> t \<Longrightarrow> sched_inv t s"
  using utc_minute_mono [of t0 t] by (fastforce simp: sched_inv_def split: prod.splits)

lemma sched_step_inv:
  assumes "sched_inv t0 s" "t0 \<le> t"
  shows "sched_inv t (sched_step t ev s)"
proof -
  obtain e starts ends where s: "s = (e, starts, ends)" by (cases s) auto
  have inv: "sched_inv t s" by (rule sched_inv_later [OF assms])
  show ?thesis
  proof (cases ev)
    case EvTick
    with inv show ?thesis by (auto simp: s sched_inv_def prune_last_run_def)
  next
    case (EvFinish j)
    with inv show ?thesis by (auto simp: s sched_inv_def finish_start_def)
  next
    case (EvConsider loc j)
    obtain b e' where c: "consider_job loc t j e = (b, e')" by (metis surj_pair)
    have b: "b \<longleftrightarrow> fst (consider_job loc t j e)" using c by simp
    have last: "en_last e' = en_last e \<or> en_last e (j_id j) \<noteq> Some (utc_minute t) \<and>
        en_last e' = (en_last e)(j_id j \<mapsto> utc_minute t)"
      and run: "en_running e' = (if b then insert (j_id j) (en_running e) else en_running e)"
      using c by (auto simp: consider_job_def mark_due_def try_start_def split: if_splits)
    have started: "b \<Longrightarrow> en_last e' = (en_last e)(j_id j \<mapsto> utc_minute t) \<and> en_last e (j_id j) \<noteq> Some (utc_minute t) \<and>
        j_id j \<notin> en_running e"
      using c by (auto simp: consider_job_def mark_due_def try_start_def split: if_splits)
    show ?thesis
    proof (cases b)
      case True
      from started [OF True] inv show ?thesis
        by (auto simp: s EvConsider c True sched_inv_def run)
    next
      case False
      with last inv show ?thesis by (auto simp: s EvConsider c sched_inv_def run)
    qed
  qed
qed

interpretation scheduling: timed_machine sched_step sched_inv
  by unfold_locales (rule sched_step_inv)

section \<open>Properties\<close>

text \<open>C7
  However ticks, the ends of jobs and the look at each job interleave, as long as time does not go
  back: no job is started twice in the same minute, and at most one run of a job is in flight.\<close>

theorem once_a_minute_no_overlap:
  assumes "sorted (t0 # map fst evs)" "trun sched_step evs (new_engine, [], []) = (e, starts, ends)"
  shows "distinct starts \<and> (\<forall>j. count_list (map fst starts) j \<le> count_list ends j + 1)"
proof -
  have "sched_inv t0 (new_engine, [], [])" by (simp add: sched_inv_def new_engine_def)
  from scheduling.trun_inv [OF this assms(1)] assms(2) show ?thesis
    by (auto simp: sched_inv_def)
qed

definition hourly_job :: job where
  "hourly_job = \<lparr>j_id = ''j1'', j_host = ''h1'', j_hosts = [], j_tag = [], j_name = ''nightly'', j_cron = ''0 * * * *'',
     j_mode = ''scan'', j_enabled = True\<rparr>"

definition on_the_hour :: "int \<Rightarrow> civil" where
  "on_the_hour t = \<lparr>c_minute = 0, c_hour = 3, c_day = 1, c_month = 1, c_weekday = 1\<rparr>"

theorem once_a_minute_no_overlap_witness:
  "\<exists>e starts ends. trun sched_step [(0, EvTick), (0, EvConsider on_the_hour hourly_job), (30000000000, EvTick),
       (30000000000, EvConsider on_the_hour hourly_job), (60000000000, EvFinish ''j1'')] (new_engine, [], []) =
     (e, starts, ends) \<and> starts = [(''j1'', 0)] \<and> count_list (map fst starts) ''j1'' \<le> count_list ends ''j1'' + 1"
proof -
  let ?evs = "[(0, EvTick), (0, EvConsider on_the_hour hourly_job), (30000000000, EvTick),
       (30000000000, EvConsider on_the_hour hourly_job), (60000000000, EvFinish ''j1'')] :: (int \<times> sched_op) list"
  obtain e starts ends where r: "trun sched_step ?evs (new_engine, [], []) = (e, starts, ends)" by (metis surj_pair)
  have s: "fst (snd (trun sched_step ?evs (new_engine, [], []))) = [(''j1'', 0)]" by code_simp
  have "sorted (0 # map fst ?evs)" by simp
  from once_a_minute_no_overlap [OF this r] r s show ?thesis by auto
qed

text \<open>
  A tick starts exactly the due jobs: those that are enabled, whose schedule matches the wall clock,
  that have not been started in this minute and are not still running; none is missed because of
  another one, and the jobs themselves are not changed.\<close>

theorem tick_starts_exactly:
  assumes "distinct (map j_id (d_jobs d))"
  shows "fst (tick loc now e d) = filter (\<lambda>j. j_enabled j \<and> cron_matches (j_cron j) (loc now) \<and>
       en_last e (j_id j) \<noteq> Some (utc_minute now) \<and> j_id j \<notin> en_running e) (map fst (list_jobs d))"
proof -
  obtain e1 d1 where p: "maybe_purge_activity now e d = (e1, d1)" by (metis surj_pair)
  note q = maybe_purge_jobs [OF p]
  have "fst (tick loc now e d) = fst (consider_jobs loc now (map fst (list_jobs d)) (prune_last_run now e1))"
    using p q by (simp add: tick_def split: prod.split)
  also have "\<dots> = filter (\<lambda>j. fst (consider_job loc now j (prune_last_run now e1))) (map fst (list_jobs d))"
    using assms distinct_list_jobs [of d] by (intro consider_jobs_filter) simp
  also have "\<dots> = filter (\<lambda>j. j_enabled j \<and> cron_matches (j_cron j) (loc now) \<and>
       en_last e (j_id j) \<noteq> Some (utc_minute now) \<and> j_id j \<notin> en_running e) (map fst (list_jobs d))"
    using q by (intro filter_cong) (auto simp: consider_job_iff prune_last_run_def)
  finally show ?thesis .
qed

theorem tick_starts_exactly_witness:
  "map j_id (fst (tick on_the_hour 0 new_engine (empty_db\<lparr>d_jobs := [hourly_job]\<rparr>))) = [''j1'']"
proof -
  let ?d = "empty_db\<lparr>d_jobs := [hourly_job]\<rparr>"
  have "distinct (map j_id (d_jobs ?d))" by simp
  from tick_starts_exactly [OF this, of on_the_hour 0 new_engine] have
    "map j_id (fst (tick on_the_hour 0 new_engine ?d)) = map j_id (filter (\<lambda>j. j_enabled j \<and> cron_matches (j_cron j) (on_the_hour 0) \<and>
       en_last new_engine (j_id j) \<noteq> Some (utc_minute 0) \<and> j_id j \<notin> en_running new_engine) (map fst (list_jobs ?d)))"
    by simp
  also have "\<dots> = [''j1'']" by code_simp
  finally show ?thesis .
qed

end
