(* ===== verification/JobRun.thy ===== *)
theory JobRun
  imports Apply Scheduler DbScans Digest
begin

text \<open>
  One run of a scheduled job in \<open>internal/scheduler/scheduler.go\<close>: which hosts it works on and in
  which order, the scan and the apply of a host with what they save, and which notifications they
  make. The hosts are an environment: a scan or an apply of a host returns its result, and a scan may
  panic (the parser of its output can, see \<open>ScanParse\<close>), which the run recovers from. What is sent is
  a list; a failing send is only logged and changes nothing. The job's fresh identifiers and the
  current time come from the environment.
\<close>

section \<open>State\<close>

record 'w run_env =
  rv_scan :: "'w \<Rightarrow> host \<Rightarrow> 'w \<times> (ssh_err + scan_result) option"
  rv_apply :: "'w \<Rightarrow> host \<Rightarrow> 'w \<times> apply_result \<times> apply_err option"
  rv_now :: "'w \<Rightarrow> int"
  rv_uid :: "'w \<Rightarrow> 'w \<times> string"
  rv_notifier :: bool
  rv_default_url :: string
  rv_self_boot :: string
  rv_panic :: string

datatype message = Text string string | DigestMsg string digest

record 'w run_state =
  rs_world :: 'w
  rs_db :: db
  rs_sent :: "message list"

record run_notes =
  rn_per_host :: bool
  rn_always :: bool
  rn_digest :: digest

text \<open>The notes of a run are part of its state.\<close>

type_synonym 'w run = "'w run_state \<times> run_notes"

definition in_db :: "(int \<Rightarrow> db \<Rightarrow> db) \<Rightarrow> 'w run_env \<Rightarrow> 'w run \<Rightarrow> 'w run" where
  "in_db f env s = (case s of (st, n) \<Rightarrow> (st\<lparr>rs_db := f (rv_now env (rs_world st)) (rs_db st)\<rparr>, n))"

definition log_activity :: "'w run_env \<Rightarrow> host \<Rightarrow> string \<Rightarrow> string \<Rightarrow> 'w run \<Rightarrow> 'w run" where
  "log_activity env h event text = in_db (\<lambda>now. record_activity now (h_id h) (h_name h) event text) env"

section \<open>Notifications\<close>

definition global_event_enabled :: "notification_settings \<Rightarrow> string \<Rightarrow> bool" where
  "global_event_enabled s key =
     (if key = ''updates_available'' then ns_updates s
      else if key = ''auto_apply_success'' then ns_apply_ok s
      else if key = ''auto_apply_failure'' then ns_apply_fail s
      else if key = ''scan_failure'' then ns_scan_fail s else True)"

definition host_event_enabled :: "host_prefs \<Rightarrow> string \<Rightarrow> bool" where
  "host_event_enabled p key =
     (if key = ''updates_available'' then hp_updates p
      else if key = ''auto_apply_success'' then hp_apply_ok p
      else if key = ''auto_apply_failure'' then hp_apply_fail p
      else if key = ''scan_failure'' then hp_scan_fail p else True)"

definition event_enabled :: "db \<Rightarrow> string \<Rightarrow> string \<Rightarrow> bool" where
  "event_enabled d host key \<longleftrightarrow>
     (if \<not> global_event_enabled (get_notification_settings d) key then False
      else host_event_enabled (get_host_notification_prefs d host) key)"

definition notify_target :: "'w run_env \<Rightarrow> db \<Rightarrow> string" where
  "notify_target env d =
     (if trim_space (ns_url (get_notification_settings d)) \<noteq> []
      then trim_space (ns_url (get_notification_settings d)) else rv_default_url env)"

definition send_notification :: "'w run_env \<Rightarrow> string \<Rightarrow> string \<Rightarrow> string \<Rightarrow> 'w run \<Rightarrow> 'w run" where
  "send_notification env host key body s =
     (case s of (st, n) \<Rightarrow>
        if \<not> rv_notifier env \<or> \<not> event_enabled (rs_db st) host key then s
        else (st\<lparr>rs_sent := rs_sent st @ [Text (notify_target env (rs_db st)) body]\<rparr>, n))"

definition new_run_notes :: "db \<Rightarrow> job \<Rightarrow> run_notes" where
  "new_run_notes d j =
     (let s = get_notification_settings d in
      \<lparr>rn_per_host = (ns_delivery s = delivery_per_host), rn_always = ns_always s,
       rn_digest = empty_digest\<lparr>dg_scheduled := True, dg_job := j_name j\<rparr>\<rparr>)"

definition note_event ::
  "'w run_env \<Rightarrow> string \<Rightarrow> string \<Rightarrow> string \<Rightarrow> (digest \<Rightarrow> digest) \<Rightarrow> 'w run \<Rightarrow> 'w run" where
  "note_event env host key legacy_body add s =
     (case s of (st, n) \<Rightarrow>
        if rn_per_host n then (if legacy_body \<noteq> [] then send_notification env host key legacy_body s else s)
        else if event_enabled (rs_db st) host key then (st, n\<lparr>rn_digest := add (rn_digest n)\<rparr>)
        else s)"

definition send_digest :: "'w run_env \<Rightarrow> 'w run \<Rightarrow> 'w run" where
  "send_digest env s =
     (case s of (st, n) \<Rightarrow>
        if rn_per_host n \<or> \<not> rv_notifier env \<or> digest_empty (rn_digest n) then s
        else if \<not> rn_always n \<and> \<not> notable (rn_digest n) then s
        else (st\<lparr>rs_sent := rs_sent st @ [DigestMsg (notify_target env (rs_db st)) (rn_digest n)]\<rparr>, n))"

definition count_up_to_date :: "'w run \<Rightarrow> 'w run" where
  "count_up_to_date s =
     (case s of (st, n) \<Rightarrow>
        if rn_per_host n then s
        else (st, n\<lparr>rn_digest := (rn_digest n)\<lparr>dg_up_to_date := dg_up_to_date (rn_digest n) + 1\<rparr>\<rparr>))"

definition host_key_changed :: string where
  "host_key_changed = ''SSH host key changed '' @ em_dash @ '' review it in Patchdeck''"

definition add_failed :: "string \<Rightarrow> string \<Rightarrow> string \<Rightarrow> digest \<Rightarrow> digest" where
  "add_failed name phase err d = d\<lparr>dg_failed := dg_failed d @ [\<lparr>fh_name = name, fh_phase = phase, fh_err = err\<rparr>]\<rparr>"

definition note_scan_failure :: "'w run_env \<Rightarrow> host \<Rightarrow> string \<Rightarrow> string \<Rightarrow> 'w run \<Rightarrow> 'w run" where
  "note_scan_failure env h legacy_body reason =
     note_event env (h_id h) ''scan_failure'' legacy_body (add_failed (h_name h) ''scan'' reason)"

definition note_pending :: "'w run_env \<Rightarrow> host \<Rightarrow> package_info list \<Rightarrow> scan_result \<Rightarrow> 'w run \<Rightarrow> 'w run" where
  "note_pending env h prev res s =
     (if length (sr_packages res) = 0 then count_up_to_date s
      else
        (let is_new = has_new_updates prev (sr_packages res);
             legacy = (if is_new then ''Patchdeck: updates available on '' @ h_name h @ '' ('' @
                         itoan (length (sr_packages res)) @ '' packages)'' else [])
         in note_event env (h_id h) ''updates_available'' legacy
              (\<lambda>d. d\<lparr>dg_pending := dg_pending d @
                 [\<lparr>ph_name = h_name h, ph_packages = int (length (sr_packages res)),
                   ph_security = security_count (sr_packages res), ph_new = is_new,
                   ph_reboot = sr_needs_reboot res, ph_restarts = int (length (sr_needs_restart res))\<rparr>]\<rparr>) s))"

section \<open>One host\<close>

definition scan_of :: "'w run_env \<Rightarrow> host \<Rightarrow> 'w run \<Rightarrow> (ssh_err + scan_result) option \<times> 'w run" where
  "scan_of env h s =
     (case s of (st, n) \<Rightarrow>
        case rv_scan env (rs_world st) h of (w, r) \<Rightarrow> (r, st\<lparr>rs_world := w\<rparr>, n))"

definition apply_of :: "'w run_env \<Rightarrow> host \<Rightarrow> 'w run \<Rightarrow> (apply_result \<times> apply_err option) \<times> 'w run" where
  "apply_of env h s =
     (case s of (st, n) \<Rightarrow>
        case rv_apply env (rs_world st) h of (w, r) \<Rightarrow> (r, st\<lparr>rs_world := w\<rparr>, n))"

text \<open>\<open>UpsertScanResult\<close> of the run's database, with a fresh id for the history row.\<close>

definition save_scan :: "'w run_env \<Rightarrow> host \<Rightarrow> scan_result \<Rightarrow> 'w run \<Rightarrow> db_err option \<times> 'w run" where
  "save_scan env h res s =
     (case s of (st, n) \<Rightarrow>
        case rv_uid env (rs_world st) of (w, uid) \<Rightarrow>
          case upsert_scan_result uid (rv_now env w) (h_id h) res (rs_db st) of (err, d) \<Rightarrow>
            (err, st\<lparr>rs_world := w, rs_db := d\<rparr>, n))"

text \<open>
  A scan that fails is handled alike by \<open>runScan\<close> and \<open>runScanApply\<close>, which differ in the word they
  put in the activity log when a host key is refused.
\<close>

definition scan_failed :: "'w run_env \<Rightarrow> string \<Rightarrow> host \<Rightarrow> ssh_err \<Rightarrow> 'w run \<Rightarrow> 'w run" where
  "scan_failed env what h err s =
     (if is_host_key_err (Some err) then
        log_activity env h ''scan_fail'' (''Scheduled '' @ what @ '' blocked: SSH host key mismatch'')
          (note_scan_failure env h [] host_key_changed s)
      else
        log_activity env h ''scan_fail'' (''Scheduled scan failed: '' @ err_text err)
          (note_scan_failure env h
             (''Patchdeck scheduled scan FAILED: '' @ h_name h @ '' ('' @ err_text err @ '')'') (err_text err) s))"

definition scan_ok_text :: "scan_result \<Rightarrow> string" where
  "scan_ok_text res = ''Scheduled scan completed: '' @ itoan (length (sr_packages res)) @ '' packages available''"

text \<open>\<open>runScan\<close>; \<open>None\<close> is a panic, with the state it leaves.\<close>

definition run_scan :: "'w run_env \<Rightarrow> host \<Rightarrow> 'w run \<Rightarrow> bool option \<times> 'w run" where
  "run_scan env h s =
     (case scan_of env h s of
        (None, s) \<Rightarrow> (None, s)
      | (Some (Inl err), s) \<Rightarrow> (Some False, scan_failed env ''scan'' h err s)
      | (Some (Inr res), s) \<Rightarrow>
          (let prev = (case get_scan_snapshot (rs_db (fst s)) (h_id h) of None \<Rightarrow> [] | Some (_, sn) \<Rightarrow> sn_packages sn) in
           case save_scan env h res s of
             (Some _, s) \<Rightarrow> (Some False, s)
           | (None, s) \<Rightarrow>
               (Some True, log_activity env h ''scan_ok'' (scan_ok_text res) (note_pending env h prev res s))))"

fun apply_err_text :: "apply_err \<Rightarrow> string" where
  "apply_err_text (ApplyErr e) = err_text e"
| "apply_err_text (ApplyInterrupted t changed started) =
     ''lost the running upgrade after '' @ itoa changed @
     '' package(s) were set up (the host may be rebooting or unreachable '' @ em_dash @ '' re-scan to verify): '' @ t"
| "apply_err_text (ApplyCancelled e) = e"

fun is_host_key_apply :: "apply_err \<Rightarrow> bool" where
  "is_host_key_apply (ApplyErr e) = is_host_key_err (Some e)"
| "is_host_key_apply _ = False"

definition apply_failed :: "'w run_env \<Rightarrow> host \<Rightarrow> apply_err \<Rightarrow> 'w run \<Rightarrow> 'w run" where
  "apply_failed env h err s =
     (if is_host_key_apply err then
        log_activity env h ''apply_fail'' ''Scheduled apply blocked: SSH host key mismatch''
          (note_event env (h_id h) ''auto_apply_failure'' [] (add_failed (h_name h) ''apply'' host_key_changed) s)
      else
        log_activity env h ''apply_fail'' (''Scheduled apply failed: '' @ apply_err_text err)
          (note_event env (h_id h) ''auto_apply_failure''
             (''Patchdeck scheduled apply FAILED: '' @ h_name h @ '' ('' @ apply_err_text err @ '')'')
             (add_failed (h_name h) ''apply'' (apply_err_text err)) s))"

definition run_apply :: "'w run_env \<Rightarrow> host \<Rightarrow> 'w run \<Rightarrow> bool \<times> 'w run" where
  "run_apply env h s =
     (case apply_of env h s of
        ((res, None), s) \<Rightarrow>
          (True, log_activity env h ''apply_ok''
             (''Scheduled apply completed: '' @ itoa (ar_changed res) @ '' packages changed'')
             (note_event env (h_id h) ''auto_apply_success''
                (''Patchdeck scheduled apply success: '' @ h_name h @ '' ('' @ itoa (ar_changed res) @ '' package changes)'')
                (add_applied \<lparr>ah_name = h_name h, ah_changed = ar_changed res, ah_reboot = ar_needs_reboot res,
                   ah_interrupted = False\<rparr>) s))
      | ((_, Some (ApplyInterrupted t changed started)), s) \<Rightarrow>
          (True, log_activity env h ''apply_interrupted''
             (''Scheduled apply: lost the running upgrade and couldn'' @ [squote] @ ''t reattach within 5 min ('' @
              itoa changed @ '' package(s) seen set up) '' @ em_dash @ '' will reconcile on next scan'')
             (note_event env (h_id h) ''auto_apply_success'' []
                (add_applied \<lparr>ah_name = h_name h, ah_changed = changed, ah_reboot = False, ah_interrupted = True\<rparr>) s))
      | ((_, Some err), s) \<Rightarrow> (False, apply_failed env h err s))"

definition run_scan_apply :: "'w run_env \<Rightarrow> host \<Rightarrow> 'w run \<Rightarrow> bool option \<times> 'w run" where
  "run_scan_apply env h s =
     (case scan_of env h s of
        (None, s) \<Rightarrow> (None, s)
      | (Some (Inl err), s) \<Rightarrow> (Some False, scan_failed env ''scan_apply'' h err s)
      | (Some (Inr res), s) \<Rightarrow>
          (case save_scan env h res s of
             (Some _, s) \<Rightarrow> (Some False, s)
           | (None, s) \<Rightarrow>
               (let s = log_activity env h ''scan_ok'' (scan_ok_text res) s in
                if length (sr_packages res) = 0 then (Some True, count_up_to_date s)
                else
                  (let s = (if rn_per_host (snd s)
                            then send_notification env (h_id h) ''updates_available''
                                   (''Patchdeck: updates available on '' @ h_name h @ '' ('' @
                                    itoan (length (sr_packages res)) @ '' packages), applying...'') s
                            else s)
                   in case run_apply env h s of (ok, s) \<Rightarrow> (Some ok, s)))))"
section \<open>The run\<close>

definition self_last :: "host list \<Rightarrow> (host \<Rightarrow> bool) \<Rightarrow> host list" where
  "self_last hosts is_self = filter (\<lambda>h. \<not> is_self h) hosts @ filter is_self hosts"

definition resolve_job_hosts :: "db \<Rightarrow> job \<Rightarrow> host list res" where
  "resolve_job_hosts d j =
     (let load = (\<lambda>ts. List.map_filter (\<lambda>t. case get_host d (h_id t) of Inl _ \<Rightarrow> None | Inr h \<Rightarrow> Some h) ts) in
      if trim_space (j_tag j) \<noteq> [] then Inr (load (list_hosts_by_tag d (j_tag j)))
      else if length (j_hosts j) > 0 then Inr (load (list_hosts_by_ids d (j_hosts j)))
      else if trim_space (j_host j) \<noteq> [] then map_sum id (\<lambda>h. [h]) (get_host d (j_host j))
      else Inr [])"

definition run_mode :: "job \<Rightarrow> string" where
  "run_mode j = (let m = to_lower (trim_space (j_mode j)) in if m = [] then ''scan'' else m)"

definition is_self_host :: "'w run_env \<Rightarrow> db \<Rightarrow> host \<Rightarrow> bool" where
  "is_self_host env d h =
     (case get_scan_snapshot d (h_id h) of None \<Rightarrow> False | Some (_, sn) \<Rightarrow> sn_boot_id sn = rv_self_boot env)"

definition order_hosts :: "'w run_env \<Rightarrow> db \<Rightarrow> string \<Rightarrow> host list \<Rightarrow> host list" where
  "order_hosts env d mode hosts =
     (if (mode = ''apply'' \<or> mode = ''scan_apply'') \<and> rv_self_boot env \<noteq> []
      then self_last hosts (is_self_host env d) else hosts)"

record tally =
  ta_total :: int
  ta_ok :: int
  ta_failed :: int
  ta_details :: "string list"

definition count_host :: "host \<Rightarrow> bool \<Rightarrow> tally \<Rightarrow> tally" where
  "count_host h ok t =
     (if ok then t\<lparr>ta_total := ta_total t + 1, ta_ok := ta_ok t + 1\<rparr>
      else t\<lparr>ta_total := ta_total t + 1, ta_failed := ta_failed t + 1,
             ta_details := ta_details t @ [h_name h @ '': failed (see activity log)'']\<rparr>)"

definition run_host :: "'w run_env \<Rightarrow> string \<Rightarrow> host \<Rightarrow> 'w run \<Rightarrow> bool option \<times> 'w run" where
  "run_host env mode h s =
     (if mode = ''scan'' then run_scan env h s
      else if mode = ''apply'' then (case run_apply env h s of (ok, s) \<Rightarrow> (Some ok, s))
      else run_scan_apply env h s)"

text \<open>The loop over the hosts; \<open>None\<close> is a panic.\<close>

fun run_hosts :: "'w run_env \<Rightarrow> string \<Rightarrow> host list \<Rightarrow> tally \<Rightarrow> 'w run \<Rightarrow> tally option \<times> 'w run" where
  "run_hosts env mode [] t s = (Some t, s)"
| "run_hosts env mode (h # hs) t s =
     (if \<not> h_checks h then
        run_hosts env mode hs (t\<lparr>ta_details := ta_details t @ [h_name h @ '': skipped (checks disabled)'']\<rparr>) s
      else if mode \<notin> {''scan'', ''apply'', ''scan_apply''} then
        run_hosts env mode hs (t\<lparr>ta_details := ta_details t @ [h_name h @ '': unknown mode'']\<rparr>) s
      else
        (case run_host env mode h s of
           (None, s) \<Rightarrow> (None, s)
         | (Some ok, s) \<Rightarrow> run_hosts env mode hs (count_host h ok t) s))"

definition finish_run ::
  "'w run_env \<Rightarrow> string \<Rightarrow> string \<Rightarrow> tally \<Rightarrow> 'w run \<Rightarrow> 'w run" where
  "finish_run env run status t s =
     (if run = [] then s
      else in_db (\<lambda>now. finish_job_run now run status (ta_total t) (ta_ok t) (ta_failed t)
             (join ''; '' (ta_details t))) env s)"

definition no_tally :: "string \<Rightarrow> tally" where
  "no_tally detail = \<lparr>ta_total = 0, ta_ok = 0, ta_failed = 0, ta_details = [detail]\<rparr>"

definition run_status :: "tally \<Rightarrow> string" where
  "run_status t = (if ta_ok t > 0 \<and> ta_failed t > 0 then ''partial'' else if ta_failed t > 0 then ''failed'' else ''success'')"

definition db_err_text :: "db_err \<Rightarrow> string" where
  "db_err_text e = (case e of HostExists \<Rightarrow> ''host already exists''
     | NoRows \<Rightarrow> ''sql: no rows in result set'' | ErrMsg m \<Rightarrow> m)"

definition open_run :: "'w run_env \<Rightarrow> job \<Rightarrow> string \<Rightarrow> 'w run_state \<Rightarrow> string \<times> 'w run_state" where
  "open_run env j mode st =
     (case rv_uid env (rs_world st) of (w, uid) \<Rightarrow>
        (uid, st\<lparr>rs_world := w, rs_db := create_job_run uid (rv_now env w) (j_id j) mode (rs_db st)\<rparr>))"

definition run_job :: "'w run_env \<Rightarrow> job \<Rightarrow> 'w run_state \<Rightarrow> 'w run" where
  "run_job env j st =
     (let mode = run_mode j in
      case open_run env j mode st of (run, st) \<Rightarrow>
        (let none = \<lparr>rn_per_host = False, rn_always = False, rn_digest = empty_digest\<rparr> in
         case resolve_job_hosts (rs_db st) j of
           Inl err \<Rightarrow> finish_run env run ''failed'' (no_tally (''resolve hosts failed: '' @ db_err_text err)) (st, none)
         | Inr hosts \<Rightarrow>
             if length hosts = 0 then
               finish_run env run ''failed'' (no_tally ''no hosts resolved (check tag / host selection)'') (st, none)
             else
               (case run_hosts env mode (order_hosts env (rs_db st) mode hosts)
                       \<lparr>ta_total = 0, ta_ok = 0, ta_failed = 0, ta_details = []\<rparr> (st, new_run_notes (rs_db st) j) of
                  (None, s) \<Rightarrow>
                    finish_run env run ''failed'' (no_tally (''internal error (panic): '' @ rv_panic env)) s
                | (Some t, s) \<Rightarrow>
                    (let s = send_digest env (finish_run env run (run_status t) t s)
                     in in_db (\<lambda>_. prune_job_runs (j_id j) 50) env s))))"

section \<open>What a host's work leaves alone\<close>

text \<open>
  No step of a host's work touches the run history or the delivery chosen at the start, and in digest
  delivery none sends anything.
\<close>

definition keeps :: "'w run \<Rightarrow> 'w run \<Rightarrow> bool" where
  "keeps s s' \<longleftrightarrow> d_runs (rs_db (fst s')) = d_runs (rs_db (fst s)) \<and>
     rn_per_host (snd s') = rn_per_host (snd s) \<and> rn_always (snd s') = rn_always (snd s) \<and>
     (rn_per_host (snd s) \<or> rs_sent (fst s') = rs_sent (fst s))"

named_theorems keep_intros

lemma keeps_refl [simp, keep_intros]: "keeps s s"
  by (simp add: keeps_def)

lemma keeps_trans: "keeps s1 s2 \<Longrightarrow> keeps s2 s3 \<Longrightarrow> keeps s1 s3"
  by (auto simp: keeps_def)

lemma keeps_log [keep_intros]: "keeps s s' \<Longrightarrow> keeps s (log_activity env h e t s')"
  by (auto simp: keeps_def log_activity_def in_db_def record_activity_def split: prod.splits)

lemma keeps_send [keep_intros]: "rn_per_host (snd s') \<Longrightarrow> keeps s s' \<Longrightarrow> keeps s (send_notification env h k b s')"
  by (auto simp: keeps_def send_notification_def split: prod.splits)

lemma keeps_note [keep_intros]: "keeps s s' \<Longrightarrow> keeps s (note_event env h k b add s')"
  by (cases s') (auto simp: keeps_def note_event_def send_notification_def split: prod.splits)

lemma keeps_count [keep_intros]: "keeps s s' \<Longrightarrow> keeps s (count_up_to_date s')"
  by (auto simp: keeps_def count_up_to_date_def split: prod.splits)

lemma keeps_scan: "scan_of env h s = (r, s') \<Longrightarrow> keeps s s'"
  by (auto simp: keeps_def scan_of_def split: prod.splits)

lemma keeps_apply: "apply_of env h s = (r, s') \<Longrightarrow> keeps s s'"
  by (auto simp: keeps_def apply_of_def split: prod.splits)

lemma upsert_scan_runs: "upsert_scan_result uid now i res d = (err, d') \<Longrightarrow> d_runs d' = d_runs d"
  by (auto simp: upsert_scan_result_def reconcile_restart_marks_def Let_def split: prod.splits if_splits)

lemma keeps_save: "save_scan env h res s = (r, s') \<Longrightarrow> keeps s s'"
  by (auto simp: keeps_def save_scan_def split: prod.splits dest: upsert_scan_runs)

lemma keeps_scan_failed [keep_intros]: "keeps s s' \<Longrightarrow> keeps s (scan_failed env what h err s')"
  by (simp add: scan_failed_def note_scan_failure_def keep_intros)

lemma keeps_pending [keep_intros]: "keeps s s' \<Longrightarrow> keeps s (note_pending env h prev res s')"
  by (simp add: note_pending_def Let_def keep_intros)

lemma keeps_apply_failed [keep_intros]: "keeps s s' \<Longrightarrow> keeps s (apply_failed env h err s')"
  by (simp add: apply_failed_def keep_intros)

lemma keeps_run_scan: "run_scan env h s = (r, s') \<Longrightarrow> keeps s s'"
proof -
  assume run: "run_scan env h s = (r, s')"
  obtain o1 s1 where scan: "scan_of env h s = (o1, s1)" by (metis surj_pair)
  note k1 = keeps_scan [OF scan]
  show ?thesis
  proof (cases o1)
    case None
    with run scan k1 show ?thesis by (simp add: run_scan_def)
  next
    case (Some x)
    show ?thesis
    proof (cases x)
      case (Inl err)
      with run scan k1 Some show ?thesis by (auto simp: run_scan_def intro: keep_intros)
    next
      case (Inr res)
      obtain o2 s2 where save: "save_scan env h res s1 = (o2, s2)" by (metis surj_pair)
      from keeps_trans [OF k1 keeps_save [OF save]] have k2: "keeps s s2" .
      with run scan save Some Inr show ?thesis
        by (cases o2) (auto simp: run_scan_def Let_def intro: keep_intros)
    qed
  qed
qed

lemma keeps_run_apply: "run_apply env h s = (r, s') \<Longrightarrow> keeps s s'"
proof -
  assume run: "run_apply env h s = (r, s')"
  obtain res e s1 where ap: "apply_of env h s = ((res, e), s1)" by (metis surj_pair)
  note k1 = keeps_apply [OF ap]
  show ?thesis
  proof (cases e)
    case None
    with run ap k1 show ?thesis by (auto simp: run_apply_def intro: keep_intros)
  next
    case (Some x)
    with run ap k1 show ?thesis by (cases x) (auto simp: run_apply_def intro: keep_intros)
  qed
qed

lemma keeps_run_scan_apply: "run_scan_apply env h s = (r, s') \<Longrightarrow> keeps s s'"
proof -
  assume run: "run_scan_apply env h s = (r, s')"
  obtain o1 s1 where scan: "scan_of env h s = (o1, s1)" by (metis surj_pair)
  note k1 = keeps_scan [OF scan]
  show ?thesis
  proof (cases o1)
    case None
    with run scan k1 show ?thesis by (simp add: run_scan_apply_def)
  next
    case (Some x)
    show ?thesis
    proof (cases x)
      case (Inl err)
      with run scan k1 Some show ?thesis by (auto simp: run_scan_apply_def intro: keep_intros)
    next
      case (Inr res)
      obtain o2 s2 where save: "save_scan env h res s1 = (o2, s2)" by (metis surj_pair)
      from keeps_trans [OF k1 keeps_save [OF save]] have k2: "keeps s s2" .
      define s3 where "s3 = log_activity env h ''scan_ok'' (scan_ok_text res) s2"
      have k3: "keeps s s3" unfolding s3_def by (intro keep_intros k2)
      define s4 where "s4 = (if rn_per_host (snd s3)
          then send_notification env (h_id h) ''updates_available''
            (''Patchdeck: updates available on '' @ h_name h @ '' ('' @
             itoan (length (sr_packages res)) @ '' packages), applying...'') s3 else s3)"
      have k4: "keeps s s4" unfolding s4_def using k3 by (auto intro: keep_intros)
      obtain ok s5 where ap: "run_apply env h s4 = (ok, s5)" by (metis surj_pair)
      from keeps_trans [OF k4 keeps_run_apply [OF ap]] have k5: "keeps s s5" .
      show ?thesis
      proof (cases o2)
        case None
        then have "s' = (if length (sr_packages res) = 0 then count_up_to_date s3 else s5)"
          using run [unfolded run_scan_apply_def scan Some Inr save prod.case option.case sum.case Let_def
              s3_def [symmetric] s4_def [symmetric] ap] by (simp split: if_splits)
        then show ?thesis using keeps_count [OF k3] k5 by simp
      next
        case (Some y)
        with run scan save \<open>o1 = Some x\<close> Inr k2 show ?thesis by (simp add: run_scan_apply_def)
      qed
    qed
  qed
qed

lemma keeps_run_host: "run_host env mode h s = (r, s') \<Longrightarrow> keeps s s'"
  by (auto simp: run_host_def split: if_splits prod.splits
      dest: keeps_run_scan keeps_run_apply keeps_run_scan_apply)

text \<open>The whole loop: the frame and the arithmetic of the tally.\<close>

definition tally_ok :: "tally \<Rightarrow> bool" where
  "tally_ok t \<longleftrightarrow> ta_total t = ta_ok t + ta_failed t \<and> 0 \<le> ta_ok t \<and> 0 \<le> ta_failed t"

lemma run_hosts_keeps:
  "run_hosts env mode hs t s = (r, s') \<Longrightarrow> tally_ok t \<Longrightarrow>
     keeps s s' \<and> (case r of None \<Rightarrow> True | Some t' \<Rightarrow> tally_ok t')"
proof (induction hs arbitrary: t s)
  case (Cons h hs)
  obtain o1 s1 where one: "run_host env mode h s = (o1, s1)" by (metis surj_pair)
  note k = keeps_run_host [OF one]
  have ok: "tally_ok (count_host h b t)" for b using Cons.prems(2) by (simp add: tally_ok_def count_host_def)
  show ?case
  proof (cases "h_checks h \<and> mode \<in> {''scan'', ''apply'', ''scan_apply''}")
    case True
    show ?thesis
    proof (cases o1)
      case None
      with Cons.prems(1) True one k show ?thesis by auto
    next
      case (Some b)
      have "run_hosts env mode hs (count_host h b t) s1 = (r, s')"
        using Cons.prems(1) True one Some by auto
      from Cons.IH [OF this ok] keeps_trans [OF k] show ?thesis by blast
    qed
  next
    case False
    obtain d where d: "run_hosts env mode hs (t\<lparr>ta_details := d\<rparr>) s = (r, s')"
      using Cons.prems(1) False by (cases "h_checks h") auto
    have "tally_ok (t\<lparr>ta_details := d\<rparr>)" using Cons.prems(2) by (simp add: tally_ok_def)
    from Cons.IH [OF d this] show ?thesis .
  qed
qed auto

section \<open>Pruning keeps the newest\<close>

lemma order_desc_sorted: "sorted_wrt (\<lambda>x y. k y \<le> k x) (order_desc k rows)"
proof -
  have "sorted_wrt (\<lambda>x y. k x \<le> k y) (sort_key k (rev rows))"
    using sorted_sort_key [of k "rev rows"] by (simp add: sorted_wrt_map)
  then show ?thesis by (simp add: order_desc_def sorted_wrt_rev)
qed

lemma newest_kept:
  fixes k :: "'a \<Rightarrow> 'b::linorder"
  assumes "x \<in> set rows" "\<forall>y \<in> set rows. y = x \<or> k y < k x" "0 < n"
  shows "x \<in> set (take n (order_desc k rows))"
proof -
  obtain y ys where o: "order_desc k rows = y # ys"
    using assms(1) by (metis length_order_desc length_pos_if_in_set neq_Nil_conv length_greater_0_conv)
  have x: "x = y \<or> k x \<le> k y"
    using order_desc_sorted [of k rows] assms(1) o set_order_desc [of k rows] by auto
  have "y = x \<or> k y < k x" using assms(2) o set_order_desc [of k rows] by (metis list.set_intros(1))
  with x have "x = y" by auto
  with o assms(3) show ?thesis by (cases n) auto
qed

lemma prune_keeps_newest:
  assumes "r \<in> set (d_runs d)" "jr_job r = j" "\<forall>y \<in> set (d_runs d). y = r \<or> jr_started y < jr_started r"
  shows "r \<in> set (d_runs (prune_job_runs j 50 d))"
proof -
  have "\<forall>y \<in> set (filter (\<lambda>r. jr_job r = j) (d_runs d)). y = r \<or> (jr_started y, jr_id y) < (jr_started r, jr_id r)"
    using assms(3) by auto
  from newest_kept [OF _ this] assms(1,2) have "r \<in> set (take 50 (newest_runs d j))"
    by (simp add: newest_runs_def)
  with assms(1) show ?thesis by (auto simp: prune_job_runs_def)
qed

section \<open>The run is always closed\<close>

lemma finish_run_runs:
  "run \<noteq> [] \<Longrightarrow> d_runs (rs_db (fst (finish_run env run status t s))) =
     update_rows (\<lambda>r. jr_id r = run)
       (\<lambda>r. r\<lparr>jr_status := status, jr_finished := Some (rv_now env (rs_world (fst s))), jr_total := ta_total t,
          jr_ok := ta_ok t, jr_failed := ta_failed t, jr_detail := join ''; '' (ta_details t)\<rparr>) (d_runs (rs_db (fst s)))"
  by (cases s) (simp add: finish_run_def in_db_def finish_job_run_def)

lemma send_digest_db [simp]: "rs_db (fst (send_digest env s)) = rs_db (fst s)"
  by (cases s) (simp add: send_digest_def)

lemma in_db_fst: "rs_db (fst (in_db f env s)) = f (rv_now env (rs_world (fst s))) (rs_db (fst s))"
  by (cases s) (simp add: in_db_def)

text \<open>What the row of a closed run looks like.\<close>

definition run_closed :: "string \<Rightarrow> job_run \<Rightarrow> bool" where
  "run_closed j r \<longleftrightarrow> jr_job r = j \<and> jr_finished r \<noteq> None \<and> jr_total r = jr_ok r + jr_failed r \<and>
     0 \<le> jr_ok r \<and> 0 \<le> jr_failed r \<and> jr_status r \<in> {''success'', ''partial'', ''failed''} \<and>
     (jr_status r = ''success'' \<longrightarrow> jr_failed r = 0) \<and> (jr_status r = ''partial'' \<longrightarrow> 0 < jr_ok r \<and> 0 < jr_failed r)"

text \<open>
  All the ways a run ends: the row is closed by one \<open>finish_run\<close> on a state whose run history is the
  old one with the new row, and what follows prunes at most.
\<close>

lemma run_job_ends:
  fixes env :: "'w run_env" and j :: job
  assumes uid: "rv_uid env (rs_world st) = (w1, uid)"
  defines "row \<equiv> \<lparr>jr_id = uid, jr_job = j_id j, jr_mode = run_mode j, jr_status = ''running'', jr_started = rv_now env w1,
       jr_finished = None, jr_total = 0, jr_ok = 0, jr_failed = 0, jr_detail = []\<rparr>"
  obtains (finished) t status s where "tally_ok t" "status = ''failed'' \<and> ta_ok t = 0 \<and> ta_failed t = 0 \<or> status = run_status t"
    "d_runs (rs_db (fst s)) = d_runs (rs_db st) @ [row]"
    "d_runs (rs_db (fst (run_job env j st))) = d_runs (rs_db (fst (finish_run env uid status t s))) \<or>
     d_runs (rs_db (fst (run_job env j st))) = d_runs (prune_job_runs (j_id j) 50 (rs_db (fst (finish_run env uid status t s))))"
proof -
  define st1 where "st1 = st\<lparr>rs_world := w1, rs_db := create_job_run uid (rv_now env w1) (j_id j) (run_mode j) (rs_db st)\<rparr>"
  have op: "open_run env j (run_mode j) st = (uid, st1)" by (simp add: open_run_def uid st1_def)
  have runs: "d_runs (rs_db st1) = d_runs (rs_db st) @ [row]" by (simp add: st1_def create_job_run_def row_def)
  have nt: "tally_ok (no_tally d) \<and> ta_ok (no_tally d) = 0 \<and> ta_failed (no_tally d) = 0" for d
    by (simp add: tally_ok_def no_tally_def)
  let ?none = "\<lparr>rn_per_host = False, rn_always = False, rn_digest = empty_digest\<rparr>"
  note run = run_job_def [of env j st, unfolded Let_def op prod.case]
  show thesis
  proof (cases "resolve_job_hosts (rs_db st1) j")
    case (Inl err)
    with run nt runs show thesis
      by (intro finished [of "no_tally (''resolve hosts failed: '' @ db_err_text err)" "''failed''" "(st1, ?none)"]) simp_all
  next
    case (Inr hosts)
    show thesis
    proof (cases "length hosts = 0")
      case True
      with Inr run nt runs show thesis
        by (intro finished [of "no_tally ''no hosts resolved (check tag / host selection)''" "''failed''" "(st1, ?none)"]) simp_all
    next
      case False
      obtain r s where loop: "run_hosts env (run_mode j) (order_hosts env (rs_db st1) (run_mode j) hosts)
           \<lparr>ta_total = 0, ta_ok = 0, ta_failed = 0, ta_details = []\<rparr> (st1, new_run_notes (rs_db st1) j) = (r, s)"
        by (metis surj_pair)
      from run_hosts_keeps [OF loop] have k: "keeps (st1, new_run_notes (rs_db st1) j) s"
        "case r of None \<Rightarrow> True | Some t' \<Rightarrow> tally_ok t'" by (simp_all add: tally_ok_def)
      from k(1) runs have runs': "d_runs (rs_db (fst s)) = d_runs (rs_db st) @ [row]" by (simp add: keeps_def)
      show thesis
      proof (cases r)
        case None
        with Inr False run loop nt runs' show thesis
          by (intro finished [of "no_tally (''internal error (panic): '' @ rv_panic env)" "''failed''" s]) simp_all
      next
        case (Some t)
        with Inr False run loop k(2) runs' show thesis
          by (intro finished [of t "run_status t" s]) (simp_all add: in_db_fst)
      qed
    qed
  qed
qed

lemma in_db_sent [simp]: "rs_sent (fst (in_db f env s)) = rs_sent (fst s)" "snd (in_db f env s) = snd s"
  by (simp_all add: in_db_def split: prod.split)

lemma finish_run_sent [simp]:
  "rs_sent (fst (finish_run env run status t s)) = rs_sent (fst s)" "snd (finish_run env run status t s) = snd s"
  by (simp_all add: finish_run_def)

lemma send_digest_sent:
  "\<not> rn_per_host (snd s) \<Longrightarrow> \<not> rn_always (snd s) \<Longrightarrow> rs_sent (fst (send_digest env s)) = rs_sent (fst s) \<or>
     (\<exists>target d. rs_sent (fst (send_digest env s)) = rs_sent (fst s) @ [DigestMsg target d] \<and> notable d)"
  by (cases s) (auto simp: send_digest_def)

lemma settings_frame [simp]: "get_notification_settings (d\<lparr>d_runs := x\<rparr>) = get_notification_settings d"
  by (simp add: get_notification_settings_def get_app_setting_def get_setting_bool_def setting_get_def)

section \<open>Properties\<close>

text \<open>C9
  Every run of a job is recorded and closed, whatever happens: hosts that fail, targets that cannot
  be resolved, a database that refuses a scan, a panic in the parser of a scan's output. The row has
  an end, its counts add up, its status agrees with them, it survives the pruning, and no other row
  of the history is changed.\<close>

theorem job_run_recorded:
  assumes "rv_uid env (rs_world st) = (w1, uid)" "uid \<noteq> []"
    and "\<forall>r \<in> set (d_runs (rs_db st)). jr_id r \<noteq> uid \<and> jr_started r < rv_now env w1"
  shows "(\<exists>r \<in> set (d_runs (rs_db (fst (run_job env j st)))). jr_id r = uid \<and> run_closed (j_id j) r) \<and>
     (\<forall>r \<in> set (d_runs (rs_db (fst (run_job env j st)))). jr_id r \<noteq> uid \<longrightarrow> r \<in> set (d_runs (rs_db st)))"
proof (rule run_job_ends [OF assms(1), of j])
  fix t status and s :: "'a run"
  let ?row = "\<lparr>jr_id = uid, jr_job = j_id j, jr_mode = run_mode j, jr_status = ''running'', jr_started = rv_now env w1,
       jr_finished = None, jr_total = 0, jr_ok = 0, jr_failed = 0, jr_detail = []\<rparr>"
  let ?d = "rs_db (fst (finish_run env uid status t s))" and ?f = "rs_db (fst (run_job env j st))"
  assume t: "tally_ok t" "status = ''failed'' \<and> ta_ok t = 0 \<and> ta_failed t = 0 \<or> status = run_status t"
    and runs: "d_runs (rs_db (fst s)) = d_runs (rs_db st) @ [?row]"
    and f: "d_runs ?f = d_runs ?d \<or> d_runs ?f = d_runs (prune_job_runs (j_id j) 50 ?d)"
  define closed where "closed = ?row\<lparr>jr_status := status, jr_finished := Some (rv_now env (rs_world (fst s))),
     jr_total := ta_total t, jr_ok := ta_ok t, jr_failed := ta_failed t, jr_detail := join ''; '' (ta_details t)\<rparr>"
  have old: "update_rows (\<lambda>r. jr_id r = uid) g (d_runs (rs_db st)) = d_runs (rs_db st)" for g
    using assms(3) by (auto simp: update_rows_def intro!: map_idI)
  have d: "d_runs ?d = d_runs (rs_db st) @ [closed]"
    unfolding finish_run_runs [OF assms(2)] runs by (simp add: update_rows_def closed_def old [unfolded update_rows_def])
  have c: "jr_id closed = uid" "run_closed (j_id j) closed"
    using t by (auto simp: closed_def run_closed_def tally_ok_def run_status_def split: if_splits)
  have kept: "closed \<in> set (d_runs (prune_job_runs (j_id j) 50 ?d))"
    by (rule prune_keeps_newest) (use assms(3) in \<open>auto simp: d closed_def\<close>)
  have sub: "set (d_runs (prune_job_runs (j_id j) 50 ?d)) \<subseteq> set (d_runs ?d)" by (auto simp: prune_job_runs_def)
  show ?thesis using f d c kept sub by auto
qed

text \<open>A fleet whose only host answers with output that makes the parser panic.\<close>

definition panicking_env :: "int run_env" where
  "panicking_env = \<lparr>rv_scan = (\<lambda>w h. (w + 1, None)), rv_apply = (\<lambda>w h. (w + 1, empty_apply, None)), rv_now = (\<lambda>w. w),
     rv_uid = (\<lambda>w. (w + 1, ''run-1'')), rv_notifier = True, rv_default_url = [], rv_self_boot = [],
     rv_panic = ''slice bounds out of range''\<rparr>"

theorem job_run_recorded_witness:
  "\<exists>r \<in> set (d_runs (rs_db (fst (run_job panicking_env (sample_job ''j1'' ''a'' [''a'']) \<lparr>rs_world = 5, rs_db = sample_db, rs_sent = []\<rparr>)))).
     jr_id r = ''run-1'' \<and> run_closed ''j1'' r \<and> jr_status r = ''failed''"
proof -
  let ?st = "\<lparr>rs_world = 5, rs_db = sample_db, rs_sent = []\<rparr> :: int run_state"
  let ?d = "d_runs (rs_db (fst (run_job panicking_env (sample_job ''j1'' ''a'' [''a'']) ?st)))"
  have u: "rv_uid panicking_env (rs_world ?st) = (6, ''run-1'')" by (simp add: panicking_env_def)
  have old: "\<forall>r \<in> set (d_runs (rs_db ?st)). jr_id r \<noteq> ''run-1'' \<and> jr_started r < rv_now panicking_env 6" by code_simp
  have st: "list_all (\<lambda>r. jr_id r = ''run-1'' \<longrightarrow> jr_status r = ''failed'') ?d" by code_simp
  have "j_id (sample_job ''j1'' ''a'' [''a'']) = ''j1''" by (simp add: sample_job_def)
  with job_run_recorded [OF u _ old, of "sample_job ''j1'' ''a'' [''a'']"]
  obtain r where "r \<in> set ?d" "jr_id r = ''run-1''" "run_closed ''j1'' r" by auto
  with st show ?thesis unfolding list_all_iff by blast
qed

text \<open>
  In digest delivery a run sends at most one message, however many hosts it works on, and that
  message is the run's digest; it never sends one that says nothing new unless the operator asked for
  every run.\<close>

theorem one_message_per_run:
  assumes "ns_delivery (get_notification_settings (rs_db st)) \<noteq> delivery_per_host"
    and "\<not> ns_always (get_notification_settings (rs_db st))"
  shows "rs_sent (fst (run_job env j st)) = rs_sent st \<or>
     (\<exists>target d. rs_sent (fst (run_job env j st)) = rs_sent st @ [DigestMsg target d] \<and> notable d)"
proof -
  obtain w1 uid where uid: "rv_uid env (rs_world st) = (w1, uid)" by (metis surj_pair)
  define st1 where "st1 = st\<lparr>rs_world := w1, rs_db := create_job_run uid (rv_now env w1) (j_id j) (run_mode j) (rs_db st)\<rparr>"
  have op: "open_run env j (run_mode j) st = (uid, st1)" by (simp add: open_run_def uid st1_def)
  have sent1: "rs_sent st1 = rs_sent st" by (simp add: st1_def)
  have nts: "\<not> rn_per_host (new_run_notes (rs_db st1) j)" "\<not> rn_always (new_run_notes (rs_db st1) j)"
    using assms by (simp_all add: new_run_notes_def st1_def create_job_run_def settings_frame Let_def)
  note run = run_job_def [of env j st, unfolded Let_def op prod.case]
  show ?thesis
  proof (cases "resolve_job_hosts (rs_db st1) j")
    case (Inl err)
    with run sent1 show ?thesis by simp
  next
    case (Inr hosts)
    show ?thesis
    proof (cases "length hosts = 0")
      case True
      with Inr run sent1 show ?thesis by simp
    next
      case False
      obtain r s where loop: "run_hosts env (run_mode j) (order_hosts env (rs_db st1) (run_mode j) hosts)
           \<lparr>ta_total = 0, ta_ok = 0, ta_failed = 0, ta_details = []\<rparr> (st1, new_run_notes (rs_db st1) j) = (r, s)"
        by (metis surj_pair)
      have k: "keeps (st1, new_run_notes (rs_db st1) j) s"
        using run_hosts_keeps [OF loop] by (simp add: tally_ok_def)
      have s: "rs_sent (fst s) = rs_sent st" "\<not> rn_per_host (snd s)" "\<not> rn_always (snd s)"
        using k nts sent1 by (auto simp: keeps_def)
      show ?thesis
      proof (cases r)
        case None
        with Inr False run loop s show ?thesis by simp
      next
        case (Some t)
        let ?s = "finish_run env uid (run_status t) t s"
        have "rs_sent (fst ?s) = rs_sent st" "\<not> rn_per_host (snd ?s)" "\<not> rn_always (snd ?s)" using s by simp_all
        from send_digest_sent [OF this(2,3), of env] this(1)
        have "rs_sent (fst (send_digest env ?s)) = rs_sent st \<or>
            (\<exists>target d. rs_sent (fst (send_digest env ?s)) = rs_sent st @ [DigestMsg target d] \<and> notable d)" by simp
        with Inr False run loop Some show ?thesis by simp
      qed
    qed
  qed
qed

theorem one_message_per_run_witness:
  "rs_sent (fst (run_job panicking_env (sample_job ''j1'' ''a'' [''a'']) \<lparr>rs_world = 5, rs_db = sample_db, rs_sent = []\<rparr>)) = [] \<or>
   (\<exists>target d. rs_sent (fst (run_job panicking_env (sample_job ''j1'' ''a'' [''a'']) \<lparr>rs_world = 5, rs_db = sample_db, rs_sent = []\<rparr>)) =
      [DigestMsg target d] \<and> notable d)"
proof -
  let ?st = "\<lparr>rs_world = 5, rs_db = sample_db, rs_sent = []\<rparr> :: int run_state"
  have "ns_delivery (get_notification_settings (rs_db ?st)) \<noteq> delivery_per_host"
    "\<not> ns_always (get_notification_settings (rs_db ?st))" by code_simp+
  from one_message_per_run [OF this, of panicking_env "sample_job ''j1'' ''a'' [''a'']"] show ?thesis by simp
qed

text \<open>
  A host that refuses every connection is counted as patched: the apply ends as interrupted, nothing
  tests that the upgrade ever started, so \<open>runApply\<close> reports success and the run closes without a
  failure (compare \<open>Apply.refused_apply\<close>).
\<close>

lemma refused_apply_counts_as_success:
  assumes "rv_apply env (rs_world (fst s)) h = (w', empty_apply, Some (ApplyInterrupted t 0 False))"
  shows "fst (run_apply env h s)"
  using assms by (cases s) (simp add: run_apply_def apply_of_def)

section \<open>Which hosts are contacted\<close>

text \<open>The environment that also keeps the hosts it was asked to contact.\<close>

definition logged_run :: "'w run_env \<Rightarrow> ('w \<times> host list) run_env" where
  "logged_run env =
     \<lparr>rv_scan = (\<lambda>(w, log) h. case rv_scan env w h of (w', r) \<Rightarrow> ((w', log @ [h]), r)),
      rv_apply = (\<lambda>(w, log) h. case rv_apply env w h of (w', r) \<Rightarrow> ((w', log @ [h]), r)),
      rv_now = (\<lambda>(w, log). rv_now env w), rv_uid = (\<lambda>(w, log). case rv_uid env w of (w', u) \<Rightarrow> ((w', log), u)),
      rv_notifier = rv_notifier env, rv_default_url = rv_default_url env, rv_self_boot = rv_self_boot env,
      rv_panic = rv_panic env\<rparr>"

definition contacted :: "('w \<times> host list) run \<Rightarrow> host list" where
  "contacted s = snd (rs_world (fst s))"

lemma contacted_frame [simp]:
  "contacted (in_db f env s) = contacted s"
  "contacted (log_activity env h e t s) = contacted s"
  "contacted (send_notification env x k b s) = contacted s"
  "contacted (note_event env x k b add s) = contacted s"
  "contacted (count_up_to_date s) = contacted s"
  "contacted (scan_failed env what h err s) = contacted s"
  "contacted (note_pending env h prev res s) = contacted s"
  "contacted (apply_failed env h aerr s) = contacted s"
  by (simp_all add: contacted_def in_db_def log_activity_def send_notification_def note_event_def count_up_to_date_def
      scan_failed_def note_scan_failure_def note_pending_def apply_failed_def Let_def split: prod.split)

lemma contacted_scan: "scan_of (logged_run env) h s = (r, s') \<Longrightarrow> contacted s' = contacted s @ [h]"
  by (auto simp: contacted_def scan_of_def logged_run_def split: prod.splits)

lemma contacted_apply: "apply_of (logged_run env) h s = (r, s') \<Longrightarrow> contacted s' = contacted s @ [h]"
  by (auto simp: contacted_def apply_of_def logged_run_def split: prod.splits)

lemma contacted_save: "save_scan (logged_run env) h res s = (r, s') \<Longrightarrow> contacted s' = contacted s"
  by (auto simp: contacted_def save_scan_def logged_run_def split: prod.splits)

lemma contacted_run_apply: "contacted (snd (run_apply (logged_run env) h s)) = contacted s @ [h]"
proof -
  obtain res e s1 where ap: "apply_of (logged_run env) h s = ((res, e), s1)" by (metis surj_pair)
  note c = contacted_apply [OF ap]
  show ?thesis
  proof (cases e)
    case None
    with ap c show ?thesis by (simp add: run_apply_def)
  next
    case (Some x)
    with ap c show ?thesis by (cases x) (simp_all add: run_apply_def)
  qed
qed

definition most_visits :: "string \<Rightarrow> nat" where
  "most_visits mode = (if mode = ''scan_apply'' then 2 else 1)"

lemma contacted_run_host:
  assumes "mode \<in> {''scan'', ''apply'', ''scan_apply''}"
  shows "\<exists>c. 1 \<le> c \<and> c \<le> most_visits mode \<and> contacted (snd (run_host (logged_run env) mode h s)) = contacted s @ replicate c h"
proof -
  obtain o1 s1 where scan: "scan_of (logged_run env) h s = (o1, s1)" by (metis surj_pair)
  note c1 = contacted_scan [OF scan]
  have rs: "contacted (snd (run_scan (logged_run env) h s)) = contacted s @ [h] \<and>
      (contacted (snd (run_scan_apply (logged_run env) h s)) = contacted s @ [h] \<or>
       contacted (snd (run_scan_apply (logged_run env) h s)) = contacted s @ [h, h])"
  proof (cases "\<exists>res. o1 = Some (Inr res)")
    case False
    then consider "o1 = None" | err where "o1 = Some (Inl err)" by (metis not_Some_eq sum.exhaust_sel)
    then show ?thesis using scan c1 by cases (simp_all add: run_scan_def run_scan_apply_def)
  next
    case True
    then obtain res where o1: "o1 = Some (Inr res)" by blast
    obtain o2 s2 where save: "save_scan (logged_run env) h res s1 = (o2, s2)" by (metis surj_pair)
    have c2: "contacted s2 = contacted s @ [h]" using contacted_save [OF save] c1 by simp
    show ?thesis using scan o1 save c2
      by (cases o2) (auto simp: run_scan_def run_scan_apply_def Let_def contacted_run_apply split: prod.split
          dest!: arg_cong [where f = "\<lambda>x. contacted (snd x)"])
  qed
  show ?thesis
    using assms rs contacted_run_apply [of env h s]
    by (auto simp: run_host_def most_visits_def split: prod.split intro: exI [of _ 1] exI [of _ 2])
qed

definition visits :: "(host \<times> nat) list \<Rightarrow> host list" where
  "visits cs = concat (map (\<lambda>(h, c). replicate c h) cs)"

lemma run_hosts_contacted:
  "run_hosts (logged_run env) mode hs t s = (r, s') \<Longrightarrow>
     \<exists>cs. contacted s' = contacted s @ visits cs \<and> (\<forall>(h, c) \<in> set cs. 1 \<le> c \<and> c \<le> most_visits mode) \<and>
       prefix (map fst cs) (filter h_checks hs)"
proof (induction hs arbitrary: t s)
  case Nil
  then show ?case by (intro exI [of _ "[]"]) (auto simp: visits_def)
next
  case (Cons h hs)
  obtain o1 s1 where one: "run_host (logged_run env) mode h s = (o1, s1)" by (metis surj_pair)
  show ?case
  proof (cases "h_checks h \<and> mode \<in> {''scan'', ''apply'', ''scan_apply''}")
    case True
    from contacted_run_host [of mode env h s] one True obtain c where
      c: "1 \<le> c" "c \<le> most_visits mode" "contacted s1 = contacted s @ replicate c h" by auto
    show ?thesis
    proof (cases o1)
      case None
      with Cons.prems True one have "s' = s1" by auto
      with c True show ?thesis by (intro exI [of _ "[(h, c)]"]) (auto simp: visits_def)
    next
      case (Some b)
      have "run_hosts (logged_run env) mode hs (count_host h b t) s1 = (r, s')"
        using Cons.prems True one Some by auto
      from Cons.IH [OF this] obtain cs where "contacted s' = contacted s1 @ visits cs"
        "\<forall>(h, c) \<in> set cs. 1 \<le> c \<and> c \<le> most_visits mode" "prefix (map fst cs) (filter h_checks hs)" by blast
      with c True show ?thesis by (intro exI [of _ "(h, c) # cs"]) (auto simp: visits_def)
    qed
  next
    case False
    obtain d where d: "run_hosts (logged_run env) mode hs (t\<lparr>ta_details := d\<rparr>) s = (r, s')"
      using Cons.prems False by (cases "h_checks h") auto
    from Cons.IH [OF d] obtain cs where cs: "contacted s' = contacted s @ visits cs"
      "\<forall>(h, c) \<in> set cs. 1 \<le> c \<and> c \<le> most_visits mode" "prefix (map fst cs) (filter h_checks hs)" by blast
    show ?thesis
    proof (cases "h_checks h")
      case no: True
      with False have bad: "mode \<notin> {''scan'', ''apply'', ''scan_apply''}" by simp
      have "s' = s" using d bad by (induction hs arbitrary: t d) (auto split: if_splits)
      then show ?thesis by (intro exI [of _ "[]"]) (simp add: visits_def)
    next
      case no: False
      with cs show ?thesis by (intro exI [of _ cs]) simp
    qed
  qed
qed

lemma resolve_frame [simp]: "resolve_job_hosts (d\<lparr>d_runs := x\<rparr>) j = resolve_job_hosts d j"
proof -
  have r: "read_host (d\<lparr>d_runs := x\<rparr>) = read_host d"
    by (simp add: fun_eq_iff read_host_def get_host_notification_prefs_def)
  have l: "list_hosts (d\<lparr>d_runs := x\<rparr>) = list_hosts d" by (simp add: list_hosts_def r)
  have g: "get_host (d\<lparr>d_runs := x\<rparr>) = get_host d" by (simp add: fun_eq_iff get_host_def r split: option.split)
  have t: "list_hosts_by_tag (d\<lparr>d_runs := x\<rparr>) = list_hosts_by_tag d"
    "list_hosts_by_ids (d\<lparr>d_runs := x\<rparr>) = list_hosts_by_ids d"
    by (simp_all add: fun_eq_iff list_hosts_by_tag_def list_hosts_by_ids_def Let_def l)
  show ?thesis by (simp only: resolve_job_hosts_def t g)
qed

lemma self_frame [simp]: "is_self_host env (d\<lparr>d_runs := x\<rparr>) = is_self_host env d"
proof -
  have "get_scan_snapshot (d\<lparr>d_runs := x\<rparr>) = get_scan_snapshot d"
    by (auto simp: fun_eq_iff get_scan_snapshot_def split: option.split)
  then show ?thesis by (simp only: fun_eq_iff is_self_host_def simp_thms)
qed

lemma order_frame [simp]: "order_hosts env (d\<lparr>d_runs := x\<rparr>) m hs = order_hosts env d m hs"
  by (simp add: order_hosts_def)

lemma order_hosts_mset: "mset (order_hosts env d mode hs) = mset hs"
  by (simp add: order_hosts_def self_last_def mset_filter multiset_partition [symmetric])

lemma sorted_wrt_all: "(\<forall>x \<in> set xs. \<forall>y \<in> set xs. R x y) \<Longrightarrow> sorted_wrt R xs"
  by (induction xs) auto

lemma self_last_sorted: "sorted_wrt (\<lambda>a b. p a \<longrightarrow> p b) (self_last hs p)"
  unfolding self_last_def sorted_wrt_append by (intro conjI sorted_wrt_all) auto

definition job_hosts :: "db \<Rightarrow> job \<Rightarrow> host list" where
  "job_hosts d j = (case resolve_job_hosts d j of Inl _ \<Rightarrow> [] | Inr hs \<Rightarrow> hs)"

lemma resolve_rows:
  assumes "hosts_unique d" "set rs \<subseteq> set (d_hosts d)"
  shows "List.map_filter (\<lambda>t. case get_host d (h_id t) of Inl _ \<Rightarrow> None | Inr h \<Rightarrow> Some h)
     (map (\<lambda>h. (read_host d h)\<lparr>h_secret := []\<rparr>) rs) = map (read_host d) rs"
  using assms(2)
proof (induction rs)
  case (Cons r rs)
  have "lookup_row h_id (h_id r) (d_hosts d) = Some r"
    using assms(1) Cons.prems by (intro lookup_row_unique) (simp_all add: hosts_unique_def)
  then have "get_host d (h_id (read_host d r)) = Inr (read_host d r)" by (simp add: get_host_def read_host_def)
  with Cons show ?case by (simp add: List.map_filter_simps)
qed (simp add: List.map_filter_simps)

text \<open>
  Which hosts a job is meant for, said of the rows of the table: those with its tag, or those it lists, or
  its one host.
\<close>

definition selects :: "db \<Rightarrow> job \<Rightarrow> host \<Rightarrow> bool" where
  "selects d j r \<longleftrightarrow> r \<in> set (d_hosts d) \<and>
     (if trim_space (j_tag j) \<noteq> [] then
        trim_space (to_lower (j_tag j)) \<noteq> [] \<and>
        (\<exists>t \<in> set (h_tags r). trim_space (to_lower t) = trim_space (to_lower (j_tag j)))
      else if j_hosts j \<noteq> [] then h_id r \<in> trim_space ` set (j_hosts j)
      else h_id r = j_host j \<and> trim_space (j_host j) \<noteq> [])"

lemma listed_selected:
  assumes "hosts_unique d" "\<And>r. Q ((read_host d r)\<lparr>h_secret := []\<rparr>) = P r"
  shows "\<exists>rs. List.map_filter (\<lambda>t. case get_host d (h_id t) of Inl _ \<Rightarrow> None | Inr h \<Rightarrow> Some h)
       (filter Q (list_hosts d)) = map (read_host d) rs \<and> set rs = {r \<in> set (d_hosts d). P r} \<and> distinct (map h_id rs)"
proof -
  let ?rs = "filter P (sort_key h_name (d_hosts d))"
  have "filter Q (list_hosts d) = map (\<lambda>h. (read_host d h)\<lparr>h_secret := []\<rparr>) ?rs"
    by (simp add: list_hosts_def filter_map comp_def assms(2))
  moreover have "distinct (map h_id ?rs)"
    using assms(1) by (auto simp: hosts_unique_def distinct_map intro: inj_on_subset)
  ultimately show ?thesis using resolve_rows [OF assms(1), of ?rs] by (intro exI [of _ ?rs]) auto
qed

lemma job_hosts_selected:
  assumes "hosts_unique d"
  shows "set (job_hosts d j) = read_host d ` {r. selects d j r} \<and> distinct (map h_id (job_hosts d j))"
proof -
  have id: "h_id (read_host d r) = h_id r" "h_tags (read_host d r) = h_tags r" for r by (simp_all add: read_host_def)
  have rows: ?thesis if "job_hosts d j = map (read_host d) rs" "set rs = {r. selects d j r}" "distinct (map h_id rs)" for rs
    using that by (simp add: comp_def id)
  consider "trim_space (j_tag j) \<noteq> []" | "trim_space (j_tag j) = []" "j_hosts j \<noteq> []"
    | "trim_space (j_tag j) = []" "j_hosts j = []" by blast
  then show ?thesis
  proof cases
    case 1
    let ?t = "trim_space (to_lower (j_tag j))"
    from listed_selected [OF assms, of "\<lambda>h. list_ex (\<lambda>x. trim_space (to_lower x) = ?t) (h_tags h)"
        "\<lambda>h. list_ex (\<lambda>x. trim_space (to_lower x) = ?t) (h_tags h)"] obtain rs where rs:
      "List.map_filter (\<lambda>t. case get_host d (h_id t) of Inl _ \<Rightarrow> None | Inr h \<Rightarrow> Some h)
        (filter (\<lambda>h. list_ex (\<lambda>x. trim_space (to_lower x) = ?t) (h_tags h)) (list_hosts d)) = map (read_host d) rs"
      "set rs = {r \<in> set (d_hosts d). list_ex (\<lambda>x. trim_space (to_lower x) = ?t) (h_tags r)}" "distinct (map h_id rs)"
      by (auto simp: id simp del: to_lower.simps)
    show ?thesis
    proof (cases "?t = []")
      case True
      with 1 have "job_hosts d j = map (read_host d) []"
        by (simp add: job_hosts_def resolve_job_hosts_def list_hosts_by_tag_def Let_def List.map_filter_simps del: to_lower.simps)
      then show ?thesis using 1 True by (intro rows [of "[]"]) (auto simp: selects_def simp del: to_lower.simps)
    next
      case False
      with 1 rs(1) have "job_hosts d j = map (read_host d) rs"
        by (simp add: job_hosts_def resolve_job_hosts_def list_hosts_by_tag_def Let_def del: to_lower.simps)
      then show ?thesis using 1 False rs(2,3)
        by (intro rows) (auto simp: selects_def list_ex_iff simp del: to_lower.simps)
    qed
  next
    case 2
    from listed_selected [OF assms, of "\<lambda>h. h_id h \<in> set (map trim_space (j_hosts j))" "\<lambda>h. h_id h \<in> set (map trim_space (j_hosts j))"]
    obtain rs where "List.map_filter (\<lambda>t. case get_host d (h_id t) of Inl _ \<Rightarrow> None | Inr h \<Rightarrow> Some h)
        (filter (\<lambda>h. h_id h \<in> set (map trim_space (j_hosts j))) (list_hosts d)) = map (read_host d) rs"
      "set rs = {r \<in> set (d_hosts d). h_id r \<in> set (map trim_space (j_hosts j))}" "distinct (map h_id rs)" by (auto simp: id)
    then show ?thesis using 2
      by (intro rows) (auto simp: job_hosts_def resolve_job_hosts_def list_hosts_by_ids_def selects_def)
  next
    case 3
    show ?thesis
    proof (cases "\<exists>r. lookup_row h_id (j_host j) (d_hosts d) = Some r \<and> trim_space (j_host j) \<noteq> []")
      case True
      then obtain r where r: "lookup_row h_id (j_host j) (d_hosts d) = Some r" "trim_space (j_host j) \<noteq> []" by blast
      have "x = r" if "x \<in> set (d_hosts d)" "h_id x = j_host j" for x
        using lookup_row_unique [of h_id "d_hosts d" x] assms that r(1) by (simp add: hosts_unique_def)
      then show ?thesis using 3 r lookup_row_Some [OF r(1)]
        by (intro rows [of "[r]"]) (auto simp: job_hosts_def resolve_job_hosts_def get_host_def selects_def)
    next
      case False
      then have "job_hosts d j = map (read_host d) []"
        using 3 by (auto simp: job_hosts_def resolve_job_hosts_def get_host_def split: option.split)
      moreover have "\<not> selects d j r" for r
        using 3 False lookup_row_None [of h_id "j_host j" "d_hosts d"]
        by (cases "lookup_row h_id (j_host j) (d_hosts d)") (auto simp: selects_def dest: image_eqI [of _ h_id, OF sym])
      ultimately show ?thesis by (intro rows [of "[]"]) simp_all
    qed
  qed
qed

text \<open>C24
  A run contacts only hosts the job is meant for whose checks are enabled: there is an order \<open>hs\<close> of exactly
  these hosts, each in it once, and the run contacts a beginning of it, each
  host once, or up to twice in a row when it is scanned and then upgraded. An upgrade leaves the machine
  PatchDeck runs on for the end. Ids of hosts are unique, which \<open>DbHosts.host_targets_unique\<close> shows.\<close>

theorem contacts_only_targets:
  assumes "rs_world st = (w, [])" "hosts_unique (rs_db st)"
  shows "\<exists>cs hs. contacted (run_job (logged_run env) j st) = visits cs \<and> prefix (map fst cs) hs \<and>
     set hs = read_host (rs_db st) ` {r. selects (rs_db st) j r \<and> h_checks r} \<and> distinct (map h_id hs) \<and>
     (\<forall>(h, c) \<in> set cs. 1 \<le> c \<and> c \<le> most_visits (run_mode j)) \<and>
     ((run_mode j = ''apply'' \<or> run_mode j = ''scan_apply'') \<and> rv_self_boot env \<noteq> [] \<longrightarrow>
        sorted_wrt (\<lambda>a b. is_self_host (logged_run env) (rs_db st) a \<longrightarrow> is_self_host (logged_run env) (rs_db st) b) (map fst cs))"
proof -
  let ?e = "logged_run env" and ?p = "\<lambda>a. is_self_host (logged_run env) (rs_db st) a"
  obtain w1 uid where uid: "rv_uid env w = (w1, uid)" by (metis surj_pair)
  define st1 where "st1 = st\<lparr>rs_world := (w1, []), rs_db := create_job_run uid (rv_now env w1) (j_id j) (run_mode j) (rs_db st)\<rparr>"
  have op: "open_run ?e j (run_mode j) st = (uid, st1)"
    using assms uid by (simp add: open_run_def logged_run_def st1_def)
  have c0: "contacted (st1, n) = []" for n by (simp add: contacted_def st1_def)
  have db: "resolve_job_hosts (rs_db st1) j = resolve_job_hosts (rs_db st) j"
    "order_hosts ?e (rs_db st1) = order_hosts ?e (rs_db st)"
    by (simp_all add: st1_def create_job_run_def fun_eq_iff)
  have fin: "contacted (finish_run ?e r s t x) = contacted x" for r s t and x :: "('a \<times> host list) run"
    by (simp add: finish_run_def)
  have dig: "contacted (send_digest ?e x) = contacted x" for x :: "('a \<times> host list) run"
    by (simp add: send_digest_def contacted_def split: prod.split)
  note run = run_job_def [of ?e j st, unfolded Let_def op prod.case db]
  let ?hs = "order_hosts ?e (rs_db st) (run_mode j) (job_hosts (rs_db st) j)"
  have "\<exists>cs. contacted (run_job ?e j st) = visits cs \<and> (\<forall>(h, c) \<in> set cs. 1 \<le> c \<and> c \<le> most_visits (run_mode j)) \<and>
     prefix (map fst cs) (filter h_checks ?hs)"
  proof (cases "\<exists>hosts. resolve_job_hosts (rs_db st) j = Inr hosts \<and> length hosts \<noteq> 0")
    case False
    then have "contacted (run_job ?e j st) = []"
      using run c0 fin by (cases "resolve_job_hosts (rs_db st) j") auto
    then show ?thesis by (intro exI [of _ "[]"]) (simp add: visits_def)
  next
    case True
    then obtain hosts where h: "resolve_job_hosts (rs_db st) j = Inr hosts" "length hosts \<noteq> 0" by blast
    obtain r s where loop: "run_hosts ?e (run_mode j) (order_hosts ?e (rs_db st) (run_mode j) hosts)
           \<lparr>ta_total = 0, ta_ok = 0, ta_failed = 0, ta_details = []\<rparr> (st1, new_run_notes (rs_db st1) j) = (r, s)"
      by (metis surj_pair)
    have "contacted (run_job ?e j st) = contacted s"
      using run h loop fin dig by (cases r) simp_all
    with run_hosts_contacted [OF loop] h c0 show ?thesis by (simp add: job_hosts_def)
  qed
  then obtain cs where cs: "contacted (run_job ?e j st) = visits cs" "\<forall>(h, c) \<in> set cs. 1 \<le> c \<and> c \<le> most_visits (run_mode j)"
    "prefix (map fst cs) (filter h_checks ?hs)" by blast
  have "sorted_wrt (\<lambda>a b. ?p a \<longrightarrow> ?p b) (map fst cs)"
    if m: "run_mode j = ''apply'' \<or> run_mode j = ''scan_apply''" "rv_self_boot env \<noteq> []"
  proof -
    have "rv_self_boot ?e \<noteq> []" using m(2) by (simp add: logged_run_def)
    then have "sorted_wrt (\<lambda>a b. ?p a \<longrightarrow> ?p b) ?hs"
      using m(1) self_last_sorted by (auto simp: order_hosts_def)
    then have "sorted_wrt (\<lambda>a b. ?p a \<longrightarrow> ?p b) (filter h_checks ?hs)" by (rule sorted_wrt_filter)
    with cs(3) show ?thesis by (auto simp: prefix_def sorted_wrt_append)
  qed
  moreover have "set (filter h_checks ?hs) = read_host (rs_db st) ` {r. selects (rs_db st) j r \<and> h_checks r} \<and>
      distinct (map h_id (filter h_checks ?hs))"
  proof -
    have m: "mset ?hs = mset (job_hosts (rs_db st) j)" by (rule order_hosts_mset)
    then have "mset (map h_id ?hs) = mset (map h_id (job_hosts (rs_db st) j))" by simp
    then have "distinct (map h_id ?hs)"
      using job_hosts_selected [OF assms(2), of j] mset_eq_imp_distinct_iff by blast
    then have "distinct (map h_id (filter h_checks ?hs))" by (rule distinct_map_filter)
    moreover have "h_checks (read_host (rs_db st) r) = h_checks r" for r by (simp add: read_host_def)
    ultimately show ?thesis
      using mset_eq_setD [OF m] job_hosts_selected [OF assms(2), of j] by auto
  qed
  ultimately show ?thesis using cs by blast
qed

theorem contacts_only_targets_witness:
  "\<exists>cs. contacted (run_job (logged_run panicking_env) (sample_job ''j1'' ''a'' [''a'']) \<lparr>rs_world = (5, []), rs_db = sample_db, rs_sent = []\<rparr>) =
     visits cs \<and> h_id ` fst ` set cs \<subseteq> {''a''} \<and> length cs \<le> 1"
proof -
  let ?st = "\<lparr>rs_world = (5, []), rs_db = sample_db, rs_sent = []\<rparr> :: (int \<times> host list) run_state" and ?j = "sample_job ''j1'' ''a'' [''a'']"
  have "rs_world ?st = (5, [])" "hosts_unique (rs_db ?st)"
    by (simp_all add: hosts_unique_def sample_db_def sample_host_def host_target_def)
  from contacts_only_targets [OF this, of panicking_env ?j] obtain cs hs where
    cs: "contacted (run_job (logged_run panicking_env) ?j ?st) = visits cs" "prefix (map fst cs) hs"
      "set hs = read_host sample_db ` {r. selects sample_db ?j r \<and> h_checks r}" "distinct (map h_id hs)" by auto
  have t: "trim_space [] = []" "trim_space ''a'' = ''a''" by code_simp+
  have "h_id r = ''a''" if "selects sample_db ?j r" for r
    using that t by (simp add: selects_def sample_job_def)
  then have a: "h_id ` set hs \<subseteq> {''a''}" using cs(3) by (auto simp: read_host_def)
  then have "length hs \<le> 1"
    using card_mono [of "{''a''}" "h_id ` set hs"] distinct_card [OF cs(4)] by simp
  then have "length cs \<le> 1" using prefix_length_le [OF cs(2)] by simp
  moreover have "h_id ` fst ` set cs \<subseteq> {''a''}" using a set_mono_prefix [OF cs(2)] by fastforce
  ultimately show ?thesis using cs(1) by blast
qed

end
