(* ===== verification/ClientIp.thy ===== *)
theory ClientIp
  imports GoStrings
begin

text \<open>
  \<open>clientIP\<close> in \<open>cmd/server/main.go\<close>: the key a login attempt is counted under. The address functions
  of Go's package \<open>net\<close> that it calls are written out: \<open>SplitHostPort\<close>, \<open>ParseIP\<close> (an address is its
  sixteen bytes, an IPv4 address mapped into \<open>::ffff:0:0/96\<close>), \<open>IsLoopback\<close> and \<open>IsPrivate\<close>.
\<close>

section \<open>Addresses in Go's package net\<close>

fun last_index_of :: "char \<Rightarrow> string \<Rightarrow> nat option" where
  "last_index_of c [] = None"
| "last_index_of c (x # xs) =
     (case last_index_of c xs of Some i \<Rightarrow> Some (Suc i) | None \<Rightarrow> if x = c then Some 0 else None)"

text \<open>The host part; \<open>None\<close> for an error.\<close>

definition split_host :: "string \<Rightarrow> string option" where
  "split_host s =
     (case last_index_of (CHR '':'') s of
        None \<Rightarrow> None
      | Some i \<Rightarrow>
          if prefix ''['' s then
            (case index_of s '']'' of
               None \<Rightarrow> None
             | Some e \<Rightarrow>
                 if e + 1 \<noteq> i \<or> contains (drop 1 s) ''['' \<or> contains (drop (e + 1) s) '']'' then None
                 else Some (take (e - 1) (drop 1 s)))
          else if contains (take i s) '':'' \<or> contains s ''['' \<or> contains s '']'' then None
          else Some (take i s))"

definition parse_octet :: "string \<Rightarrow> nat option" where
  "parse_octet s =
     (if s \<noteq> [] \<and> list_all is_digit s \<and> \<not> (length s > 1 \<and> prefix ''0'' s) \<and> length s \<le> 3 \<and> digits_val s \<le> 255
      then Some (digits_val s) else None)"

definition parse_ip4 :: "string \<Rightarrow> nat list option" where
  "parse_ip4 s =
     (let parts = map parse_octet (split_on (CHR ''.'') s)
      in if length parts = 4 \<and> None \<notin> set parts then Some (map the parts) else None)"

definition hex_value :: "char \<Rightarrow> nat option" where
  "hex_value c =
     (if is_digit c then Some (byte_of c - 48)
      else if 97 \<le> byte_of c \<and> byte_of c \<le> 102 then Some (byte_of c - 87)
      else if 65 \<le> byte_of c \<and> byte_of c \<le> 70 then Some (byte_of c - 55)
      else None)"

text \<open>One group of an IPv6 address as its two bytes; the last group may be an IPv4 address.\<close>

definition parse_group :: "string \<Rightarrow> nat list option" where
  "parse_group s =
     (let ds = map hex_value s in
      if s = [] \<or> length s > 4 \<or> None \<in> set ds then None
      else let v = foldl (\<lambda>n d. 16 * n + the d) 0 ds in Some [v div 256, v mod 256])"

fun parse_groups :: "bool \<Rightarrow> string list \<Rightarrow> nat list option" where
  "parse_groups v4 [] = Some []"
| "parse_groups v4 [g] =
     (case parse_group g of Some b \<Rightarrow> Some b | None \<Rightarrow> if v4 then parse_ip4 g else None)"
| "parse_groups v4 (g # h # gs) =
     (case parse_group g of
        None \<Rightarrow> None
      | Some b \<Rightarrow> (case parse_groups v4 (h # gs) of None \<Rightarrow> None | Some bs \<Rightarrow> Some (b @ bs)))"

definition groups_of :: "string \<Rightarrow> string list" where
  "groups_of s = (if s = [] then [] else split_on (CHR '':'') s)"

definition parse_ip6 :: "string \<Rightarrow> nat list option" where
  "parse_ip6 s =
     (case index_of s ''::'' of
        None \<Rightarrow>
          (case parse_groups True (groups_of s) of
             Some bs \<Rightarrow> if length bs = 16 then Some bs else None
           | None \<Rightarrow> None)
      | Some i \<Rightarrow>
          (case (parse_groups False (groups_of (take i s)), parse_groups True (groups_of (drop (i + 2) s))) of
             (Some l, Some r) \<Rightarrow>
               if length l + length r < 16 then Some (l @ replicate (16 - length l - length r) 0 @ r) else None
           | _ \<Rightarrow> None))"

definition v4_prefix :: "nat list" where
  "v4_prefix = replicate 10 0 @ [255, 255]"

text \<open>\<open>ParseIP\<close>: an IPv4 address if a dot comes before any colon, an IPv6 address otherwise.\<close>

definition parse_ip :: "string \<Rightarrow> nat list option" where
  "parse_ip s =
     (case find (\<lambda>c. c = CHR ''.'' \<or> c = CHR '':'') s of
        None \<Rightarrow> None
      | Some c \<Rightarrow>
          if c = CHR ''.'' then map_option (\<lambda>b. v4_prefix @ b) (parse_ip4 s) else parse_ip6 s)"

definition to4 :: "nat list \<Rightarrow> nat list option" where
  "to4 ip = (if take 12 ip = v4_prefix then Some (drop 12 ip) else None)"

definition is_loopback :: "nat list \<Rightarrow> bool" where
  "is_loopback ip \<longleftrightarrow>
     (case to4 ip of Some b \<Rightarrow> b ! 0 = 127 | None \<Rightarrow> ip = replicate 15 0 @ [1])"

definition is_private :: "nat list \<Rightarrow> bool" where
  "is_private ip \<longleftrightarrow>
     (case to4 ip of
        Some b \<Rightarrow> b ! 0 = 10 \<or> (b ! 0 = 172 \<and> b ! 1 div 16 = 1) \<or> (b ! 0 = 192 \<and> b ! 1 = 168)
      | None \<Rightarrow> length ip = 16 \<and> ip ! 0 div 2 = 126)"

section \<open>The client of a request\<close>

record http_req =
  rq_remote :: string
  rq_xff :: string
  rq_real_ip :: string
  rq_cookie :: "string option"
  rq_authz :: string

definition peer_of :: "http_req \<Rightarrow> string" where
  "peer_of r = (case split_host (rq_remote r) of Some h \<Rightarrow> h | None \<Rightarrow> rq_remote r)"

definition trusted_peer :: "string \<Rightarrow> bool" where
  "trusted_peer peer \<longleftrightarrow> (case parse_ip peer of None \<Rightarrow> False | Some ip \<Rightarrow> is_loopback ip \<or> is_private ip)"

definition client_ip :: "http_req \<Rightarrow> string" where
  "client_ip r =
     (let peer = peer_of r in
      if trusted_peer peer then
        (let xff = trim_space (rq_xff r) in
         if xff \<noteq> [] then
           (case index_of xff '','' of Some i \<Rightarrow> trim_space (take i xff) | None \<Rightarrow> xff)
         else let xr = trim_space (rq_real_ip r) in
           if xr \<noteq> [] then xr else peer)
      else peer)"

lemma client_ip_untrusted: "\<not> trusted_peer (peer_of r) \<Longrightarrow> client_ip r = peer_of r"
  by (simp add: client_ip_def)

text \<open>Behind a peer on a private network the first entry of the header is the key, whatever it says.\<close>

lemma client_ip_forwarded:
  assumes "trusted_peer (peer_of r)" "CHR '','' \<notin> set k" "trim_space k = k" "k \<noteq> []"
    "rq_xff r = k \<or> (\<exists>rest. rq_xff r = k @ CHR '','' # rest \<and> trim_space (rq_xff r) = rq_xff r)"
  shows "client_ip r = k"
proof -
  have "index_of k '','' = None" using assms(2) by (simp add: index_of_char)
  moreover have "takeWhile (\<lambda>x. x \<noteq> CHR '','') (k @ CHR '','' # rest) = k" for rest
    using assms(2) by (induction k) auto
  then have "index_of (k @ CHR '','' # rest) '','' = Some (length k)" for rest
    by (simp add: index_of_char)
  ultimately show ?thesis
    using assms by (auto simp: client_ip_def Let_def)
qed

lemmas ip_defs = parse_ip_def parse_ip4_def parse_ip6_def parse_group_def parse_octet_def groups_of_def
  hex_value_def is_digit_def byte_of_def digits_val_def digit_val_def split_host_def contains_def v4_prefix_def

lemma replicate_num: "replicate (numeral k) x = x # replicate (pred_numeral k) x"
  by (simp add: numeral_eq_Suc)

lemma parse_ip_examples:
  "parse_ip ''127.0.0.1'' = Some (v4_prefix @ [127, 0, 0, 1])"
  "parse_ip ''::1'' = Some (replicate 15 0 @ [1])"
  "parse_ip ''::ffff:10.0.0.7'' = Some (v4_prefix @ [10, 0, 0, 7])"
  "parse_ip ''1.2.3'' = None"
  "parse_ip ''fd00::1:2'' = Some ([253, 0] @ replicate 10 0 @ [0, 1, 0, 2])"
  "split_host ''10.0.0.7:443'' = Some ''10.0.0.7''"
  "split_host ''[fd00::1]:443'' = Some ''fd00::1''"
  by (simp_all add: ip_defs Let_def replicate_num)

end
