(* ===== verification/Auth.thy ===== *)
theory Auth
  imports ClientIp DbAccounts RateLimit
begin

text \<open>
  \<open>internal/auth/auth.go\<close>, \<open>internal/rbac/roles.go\<close> and the session guards of \<open>cmd/server/main.go\<close> and
  \<open>spike.go\<close>. The bcrypt and TOTP libraries are the fields of \<open>crypt\<close>; the random choices of a call
  are its arguments.
\<close>

record crypt =
  bcrypt_ok :: "string \<Rightarrow> string \<Rightarrow> bool"
  bcrypt_gen :: "string \<Rightarrow> string \<Rightarrow> string option"
  totp_valid :: "int \<Rightarrow> string \<Rightarrow> string \<Rightarrow> bool"
  totp_generate :: "string \<Rightarrow> string \<Rightarrow> string \<Rightarrow> string option"
  token_hash :: "string \<Rightarrow> string"

section \<open>Roles\<close>

definition supported_roles :: "string list" where
  "supported_roles = [''admin'', ''operator'', ''viewer'']"

definition is_supported_role :: "string \<Rightarrow> bool" where
  "is_supported_role role \<longleftrightarrow> role \<in> set supported_roles"

definition validate_bootstrap_role :: "string \<Rightarrow> string" where
  "validate_bootstrap_role role =
     (if \<not> is_supported_role role then ''unsupported role''
      else if role \<noteq> ''admin'' then ''bootstrap role must be admin''
      else [])"

section \<open>Passwords and TOTP secrets\<close>

definition hash_password :: "crypt \<Rightarrow> string \<Rightarrow> string \<Rightarrow> string option" where
  "hash_password cr salt password = bcrypt_gen cr salt password"

definition check_password :: "crypt \<Rightarrow> string \<Rightarrow> string \<Rightarrow> bool" where
  "check_password cr hash password = bcrypt_ok cr hash password"

definition validate_totp :: "crypt \<Rightarrow> int \<Rightarrow> string \<Rightarrow> string \<Rightarrow> bool" where
  "validate_totp cr now secret code = totp_valid cr now code secret"

definition new_totp_secret :: "crypt \<Rightarrow> string \<Rightarrow> string \<Rightarrow> string \<Rightarrow> string option" where
  "new_totp_secret cr random issuer account = totp_generate cr random issuer account"

definition normalize_base32 :: "string \<Rightarrow> string" where
  "normalize_base32 secret =
     (let cleaned = to_upper (trim_space secret);
          cleaned = replace_char (CHR '' '') [] cleaned;
          cleaned = replace_char (CHR ''-'') [] cleaned
      in trim_right_of cleaned ''='')"

text \<open>
  \<open>base32.StdEncoding.DecodeString\<close>: the loop over groups of eight characters. \<open>pad\<close> is the padding
  character, \<open>None\<close> for \<open>NoPadding\<close> (the rune -1, compared as the byte 255), with which an input may
  end inside a group. One group yields the
  rest of the input and whether it was the last one; \<open>None\<close> is the error.
\<close>

definition b32_char :: "char \<Rightarrow> bool" where
  "b32_char c \<longleftrightarrow> is_upper c \<or> (50 \<le> byte_of c \<and> byte_of c \<le> 55)"

definition pad_byte :: "char option \<Rightarrow> char" where
  "pad_byte pad = (case pad of None \<Rightarrow> CHR 0xFF | Some c \<Rightarrow> c)"

fun b32_group :: "char option \<Rightarrow> nat \<Rightarrow> string \<Rightarrow> (string \<times> bool) option" where
  "b32_group pad j src =
     (if j \<ge> 8 then Some (src, False)
      else case src of
        [] \<Rightarrow> if pad = None then Some ([], True) else None
      | c # cs \<Rightarrow>
          if c = pad_byte pad \<and> j \<ge> 2 \<and> length cs < 8 then
            (if length cs + j < 7 \<or> \<not> list_all (\<lambda>x. x = c) (take (7 - j) cs) \<or> j = 3 \<or> j = 6 then None
             else Some (cs, True))
          else if b32_char c then b32_group pad (Suc j) cs
          else None)"

declare b32_group.simps [simp del]

lemma b32_group_shorter: "b32_group pad j src = Some (rest, fin) \<Longrightarrow> j < 8 \<Longrightarrow> src \<noteq> [] \<Longrightarrow> length rest < length src"
proof -
  have "b32_group pad j src = Some (rest, fin) \<Longrightarrow> length rest \<le> length src \<and> (j < 8 \<and> src \<noteq> [] \<longrightarrow> length rest < length src)"
  proof (induction pad j src rule: b32_group.induct)
    case (1 pad j src)
    show ?case
    proof (cases "j \<ge> 8")
      case True
      with 1(2) show ?thesis by (simp add: b32_group.simps [of pad j src])
    next
      case False
      show ?thesis
      proof (cases src)
        case Nil
        with 1(2) False show ?thesis by (simp add: b32_group.simps [of pad j "[]"] split: if_splits)
      next
        case (Cons c cs)
        with 1(2) False 1(1) [OF False Cons] show ?thesis
          by (auto simp: b32_group.simps [of pad j "c # cs"] split: if_splits)
      qed
    qed
  qed
  then show "b32_group pad j src = Some (rest, fin) \<Longrightarrow> j < 8 \<Longrightarrow> src \<noteq> [] \<Longrightarrow> length rest < length src" by blast
qed

function b32_decodes :: "char option \<Rightarrow> string \<Rightarrow> bool" where
  "b32_decodes pad src =
     (if src = [] then True
      else case b32_group pad 0 src of
        None \<Rightarrow> False
      | Some (rest, fin) \<Rightarrow> fin \<or> b32_decodes pad rest)"
  by pat_completeness auto
termination
  by (relation "measure (\<lambda>(pad, src). length src)") (auto dest: b32_group_shorter)

declare b32_decodes.simps [simp del]

definition b32_decode_string :: "char option \<Rightarrow> string \<Rightarrow> bool" where
  "b32_decode_string pad s = b32_decodes pad (filter (\<lambda>c. byte_of c \<noteq> 10 \<and> byte_of c \<noteq> 13) s)"

definition validate_base32_secret :: "string \<Rightarrow> bool" where
  "validate_base32_secret secret =
     (let sanitized = normalize_base32 secret in
      if sanitized = [] then False
      else if b32_decode_string None sanitized then True
      else
        let rem = length sanitized mod 8;
            padded = (if rem \<noteq> 0 then sanitized @ replicate (8 - rem) (CHR ''='') else sanitized)
        in b32_decode_string (Some (CHR ''='')) padded)"

section \<open>The otpauth URI\<close>

definition hex_digit :: "nat \<Rightarrow> char" where
  "hex_digit n = (if n < 10 then char_of (48 + n) else char_of (55 + n))"

definition url_unreserved :: "char \<Rightarrow> bool" where
  "url_unreserved c \<longleftrightarrow> is_lower c \<or> is_upper c \<or> is_digit c \<or> c \<in> set ''-_.~''"

definition percent :: "char \<Rightarrow> string" where
  "percent c = [CHR ''%'', hex_digit (byte_of c div 16), hex_digit (byte_of c mod 16)]"

definition path_escape :: "string \<Rightarrow> string" where
  "path_escape s = concat (map (\<lambda>c. if url_unreserved c \<or> c \<in> set ''$&+:=@'' then [c] else percent c) s)"

definition query_escape :: "string \<Rightarrow> string" where
  "query_escape s = concat (map (\<lambda>c. if url_unreserved c then [c] else if c = CHR '' '' then ''+'' else percent c) s)"

text \<open>\<open>values.Encode\<close> writes the keys in order: the issuer first.\<close>

definition totp_uri :: "string \<Rightarrow> string \<Rightarrow> string \<Rightarrow> string option" where
  "totp_uri issuer account secret =
     (let sanitized = normalize_base32 secret in
      if sanitized = [] then None
      else Some (''otpauth://totp/'' @ path_escape (issuer @ '':'' @ account) @
        ''?issuer='' @ query_escape issuer @ ''&secret='' @ query_escape sanitized))"

section \<open>Recovery codes\<close>

definition recovery_alphabet :: string where
  "recovery_alphabet = ''ABCDEFGHIJKLMNOPQRSTUVWXYZ0123456789''"

text \<open>
  One random draw per character: \<open>None\<close> is a failure of the random source, a number one that
  \<open>rand.Int\<close> returns, below 36.
\<close>

definition recovery_char :: "nat \<Rightarrow> nat option \<Rightarrow> char" where
  "recovery_char j draw =
     (case draw of
        None \<Rightarrow> recovery_alphabet ! (j mod length recovery_alphabet)
      | Some i \<Rightarrow> recovery_alphabet ! (i mod length recovery_alphabet))"

definition recovery_code_of :: "(nat \<Rightarrow> nat option) \<Rightarrow> string" where
  "recovery_code_of draws =
     (let base = map (\<lambda>j. recovery_char j (draws j)) [0..<8] in take 4 base @ ''-'' @ drop 4 base)"

definition generate_recovery_codes :: "(nat \<Rightarrow> nat \<Rightarrow> nat option) \<Rightarrow> int \<Rightarrow> string list" where
  "generate_recovery_codes draws n =
     (let n = (if n \<le> 0 then 1 else n) in map (\<lambda>i. recovery_code_of (draws i)) [0..<nat n])"

section \<open>The session guards\<close>

record claims =
  cl_user :: string
  cl_name :: string
  cl_role :: string

definition session_ttl :: int where
  "session_ttl = 7 * 24 * 3600 * sec"

definition session_claims :: "crypt \<Rightarrow> int \<Rightarrow> http_req \<Rightarrow> db \<Rightarrow> claims option \<times> db" where
  "session_claims cr now r d =
     (case rq_cookie r of
        None \<Rightarrow> (None, d)
      | Some v \<Rightarrow>
          if v = [] then (None, d)
          else
            (case validate_session (token_hash cr) now v session_ttl d of
               (None, d') \<Rightarrow> (None, d')
             | (Some (uid, name, role), d') \<Rightarrow> (Some \<lparr>cl_user = uid, cl_name = name, cl_role = role\<rparr>, d')))"

definition api_claims :: claims where
  "api_claims = \<lparr>cl_user = [], cl_name = ''api-token'', cl_role = ''admin''\<rparr>"

text \<open>The claims a handler runs with, \<open>None\<close> when the guard answers 401 itself.\<close>

definition auth_middleware :: "crypt \<Rightarrow> int \<Rightarrow> http_req \<Rightarrow> db \<Rightarrow> claims option \<times> db" where
  "auth_middleware cr now r d =
     (case session_claims cr now r d of
        (Some c, d') \<Rightarrow> (Some c, d')
      | (None, d') \<Rightarrow>
          let authz = trim_space (rq_authz r) in
          if authz = [] \<or> \<not> has_prefix authz ''Bearer '' then (None, d')
          else
            let token = trim_space (trim_prefix authz ''Bearer '') in
            if has_prefix token ''pd_'' then
              (case validate_api_token (token_hash cr) now token d' of
                 ((valid, _), d'') \<Rightarrow> (if \<not> valid then None else Some api_claims, d''))
            else (None, d'))"

definition auth_middleware_flexible :: "crypt \<Rightarrow> int \<Rightarrow> http_req \<Rightarrow> db \<Rightarrow> claims option \<times> db" where
  "auth_middleware_flexible cr now r d =
     (case session_claims cr now r d of
        (Some c, d') \<Rightarrow> (Some c, d')
      | (None, d') \<Rightarrow>
          let authz = trim_space (rq_authz r);
              token = trim_space (trim_prefix authz ''Bearer '') in
          if has_prefix token ''pd_'' then
            (case validate_api_token (token_hash cr) now token d' of
               ((valid, _), d'') \<Rightarrow> (if valid then Some api_claims else None, d''))
          else (None, d'))"

text \<open>The guard of the dashboard: \<open>None\<close> is the redirect to the login page.\<close>

definition next_auth :: "crypt \<Rightarrow> int \<Rightarrow> http_req \<Rightarrow> db \<Rightarrow> claims option \<times> db" where
  "next_auth cr now r d = session_claims cr now r d"

definition request_user :: "claims option \<Rightarrow> db \<Rightarrow> user option" where
  "request_user c d =
     (case c of
        None \<Rightarrow> None
      | Some c \<Rightarrow> (case get_user_by_username d (cl_name c) of Inl _ \<Rightarrow> None | Inr u \<Rightarrow> Some u))"

end
