(* ===== verification/Login.thy ===== *)
theory Login
  imports Auth
begin

text \<open>
  The account handlers of \<open>cmd/server/main.go\<close>, \<open>spike_auth.go\<close> and \<open>spike_settings.go\<close>: first-run
  bootstrap, login with its second factor, logout, and the enrolment of TOTP, each as a function
  from the request and the server's state to the reply and the new state. A body is \<open>None\<close> where
  \<open>decodeJSON\<close> refuses it. One clock reading serves a whole request.
\<close>

record server =
  sv_db :: db
  sv_login :: login_limiter

record login_req =
  lr_username :: string
  lr_password :: string
  lr_code :: string

datatype login_reply =
    Refused nat string
  | RetryAfter int
  | NeedTotp
  | SignedIn string string string
  | ServerPanic

definition bad_credentials :: string where
  "bad_credentials = ''Invalid username or password''"

definition bad_code :: string where
  "bad_code = ''Invalid two-factor code''"

section \<open>Login\<close>

definition note_failure :: "int \<Rightarrow> string \<Rightarrow> server \<Rightarrow> server" where
  "note_failure now ip sv = sv\<lparr>sv_login := record_failure now ip (sv_login sv)\<rparr>"

definition normalize_recovery :: "string \<Rightarrow> string" where
  "normalize_recovery code = to_upper (replace_char (CHR ''-'') [] code)"

definition consume_recovery_code :: "crypt \<Rightarrow> string \<Rightarrow> string \<Rightarrow> db \<Rightarrow> bool \<times> db" where
  "consume_recovery_code cr user_id code d =
     (case find (\<lambda>rc. bcrypt_ok cr (rc_hash rc) (normalize_recovery code)) (get_unused_recovery_codes d user_id) of
        None \<Rightarrow> (False, d)
      | Some rc \<Rightarrow> (True, use_recovery_code (rc_id rc) d))"

definition start_session :: "crypt \<Rightarrow> int \<Rightarrow> string \<Rightarrow> string \<Rightarrow> user \<Rightarrow> server \<Rightarrow> login_reply \<times> server" where
  "start_session cr now tok ip u sv =
     (let sv = sv\<lparr>sv_login := reset_failures ip (sv_login sv)\<rparr> in
      case create_session (token_hash cr) tok now (u_id u) (u_name u) (u_role u) session_ttl (sv_db sv) of
        Inl _ \<Rightarrow> (Refused 500 ''Failed to create session'', sv)
      | Inr (cookie, d) \<Rightarrow> (SignedIn cookie (u_name u) (u_role u), sv\<lparr>sv_db := d\<rparr>))"

definition login_check :: "crypt \<Rightarrow> int \<Rightarrow> string \<Rightarrow> string \<Rightarrow> login_req option \<Rightarrow> server \<Rightarrow> login_reply \<times> server" where
  "login_check cr now tok ip body sv =
     (case body of
        None \<Rightarrow> (Refused 400 ''invalid json'', sv)
      | Some req \<Rightarrow>
          (case get_user_by_username (sv_db sv) (lr_username req) of
             Inl _ \<Rightarrow> (Refused 401 bad_credentials, note_failure now ip sv)
           | Inr u \<Rightarrow>
               if \<not> check_password cr (u_hash u) (lr_password req)
               then (Refused 401 bad_credentials, note_failure now ip sv)
               else
                 let secret = trim_space (u_totp u); code = trim_space (lr_code req) in
                 if secret \<noteq> [] \<and> code = [] then (NeedTotp, sv)
                 else if secret \<noteq> [] \<and> \<not> validate_totp cr now secret code then
                   (case consume_recovery_code cr (u_id u) code (sv_db sv) of
                      (False, d) \<Rightarrow> (Refused 401 bad_code, note_failure now ip (sv\<lparr>sv_db := d\<rparr>))
                    | (True, d) \<Rightarrow> start_session cr now tok ip u (sv\<lparr>sv_db := d\<rparr>))
                 else start_session cr now tok ip u sv))"

definition login :: "crypt \<Rightarrow> int \<Rightarrow> string \<Rightarrow> http_req \<Rightarrow> login_req option \<Rightarrow> server \<Rightarrow> login_reply \<times> server" where
  "login cr now tok r body sv =
     (let ip = client_ip r in
      case login_allowed now ip (sv_login sv) of
        (None, l) \<Rightarrow> (ServerPanic, sv\<lparr>sv_login := l\<rparr>)
      | (Some (ok, retry), l) \<Rightarrow>
          if \<not> ok then (RetryAfter retry, sv\<lparr>sv_login := l\<rparr>)
          else login_check cr now tok ip body (sv\<lparr>sv_login := l\<rparr>))"

text \<open>The login form of the dashboard; the page it renders is reduced to its error and its second step.\<close>

datatype page_reply =
    BootstrapPage string
  | LoginPage bool string
  | RedirectTo string
  | PageSession string string
  | PagePanic

definition retry_seconds :: "int \<Rightarrow> string" where
  "retry_seconds n = itoa (if n < 1 then 1 else n) @ ''s''"

definition too_many_text :: "int \<Rightarrow> string" where
  "too_many_text retry = ''Too many attempts '' @ em_dash @ '' try again in about '' @ retry_seconds retry @ ''.''"

definition no_session_text :: string where
  "no_session_text = ''Could not start a session '' @ em_dash @ '' please try again.''"

definition next_start_session :: "crypt \<Rightarrow> int \<Rightarrow> string \<Rightarrow> string \<Rightarrow> user \<Rightarrow> server \<Rightarrow> page_reply \<times> server" where
  "next_start_session cr now tok ip u sv =
     (case start_session cr now tok ip u sv of
        (SignedIn cookie _ _, sv') \<Rightarrow> (PageSession cookie ''/'', sv')
      | (_, sv') \<Rightarrow> (LoginPage False no_session_text, sv'))"

definition next_login_check ::
  "crypt \<Rightarrow> int \<Rightarrow> string \<Rightarrow> string \<Rightarrow> login_req \<Rightarrow> server \<Rightarrow> page_reply \<times> server" where
  "next_login_check cr now tok ip req sv =
     (case get_user_by_username (sv_db sv) (trim_space (lr_username req)) of
        Inl _ \<Rightarrow> (LoginPage False ''Invalid username or password.'', note_failure now ip sv)
      | Inr u \<Rightarrow>
          if \<not> check_password cr (u_hash u) (lr_password req)
          then (LoginPage False ''Invalid username or password.'', note_failure now ip sv)
          else
            let secret = trim_space (u_totp u); code = trim_space (lr_code req) in
            if secret \<noteq> [] \<and> code = [] then (LoginPage True [], sv)
            else
              (case (if secret \<noteq> [] \<and> \<not> validate_totp cr now secret code
                     then consume_recovery_code cr (u_id u) code (sv_db sv) else (True, sv_db sv)) of
                 (False, d) \<Rightarrow> (LoginPage True ''Invalid two-factor code.'', note_failure now ip (sv\<lparr>sv_db := d\<rparr>))
               | (True, d) \<Rightarrow> next_start_session cr now tok ip u (sv\<lparr>sv_db := d\<rparr>)))"

definition next_login_post ::
  "crypt \<Rightarrow> int \<Rightarrow> string \<Rightarrow> http_req \<Rightarrow> login_req \<Rightarrow> server \<Rightarrow> page_reply \<times> server" where
  "next_login_post cr now tok r req sv =
     (if \<not> has_users (sv_db sv) then (BootstrapPage [], sv)
      else
        let ip = client_ip r in
        case login_allowed now ip (sv_login sv) of
          (None, l) \<Rightarrow> (PagePanic, sv\<lparr>sv_login := l\<rparr>)
        | (Some (ok, retry), l) \<Rightarrow>
            if \<not> ok
            then (LoginPage False (too_many_text retry), sv\<lparr>sv_login := l\<rparr>)
            else next_login_check cr now tok ip req (sv\<lparr>sv_login := l\<rparr>))"

definition logout :: "crypt \<Rightarrow> http_req \<Rightarrow> server \<Rightarrow> server" where
  "logout cr r sv =
     (case rq_cookie r of None \<Rightarrow> sv | Some v \<Rightarrow> sv\<lparr>sv_db := delete_session (token_hash cr) v (sv_db sv)\<rparr>)"

section \<open>Bootstrap\<close>

definition bootstrap ::
  "crypt \<Rightarrow> int \<Rightarrow> string \<Rightarrow> string \<Rightarrow> (string \<times> string) option \<Rightarrow> server \<Rightarrow> (nat \<times> string) \<times> server" where
  "bootstrap cr now uid salt body sv =
     (if has_users (sv_db sv) then ((409, ''bootstrap already completed''), sv)
      else case body of
        None \<Rightarrow> ((400, ''invalid json''), sv)
      | Some (username, password) \<Rightarrow>
          let username = trim_space username in
          if username = [] \<or> length password < 12
          then ((400, ''username required and password must be >=12 chars''), sv)
          else (case hash_password cr salt password of
              None \<Rightarrow> ((500, ''Failed to process password''), sv)
            | Some hash \<Rightarrow>
                if validate_bootstrap_role ''admin'' \<noteq> [] then ((400, validate_bootstrap_role ''admin''), sv)
                else (case create_initial_user uid now username ''admin'' hash [] (sv_db sv) of
                    Inl _ \<Rightarrow> ((500, ''Failed to create admin account''), sv)
                  | Inr d \<Rightarrow> ((201, ''bootstrap complete''), sv\<lparr>sv_db := d\<rparr>))))"

definition next_bootstrap_post ::
  "crypt \<Rightarrow> int \<Rightarrow> string \<Rightarrow> string \<Rightarrow> string \<Rightarrow> string \<times> string \<Rightarrow> server \<Rightarrow> page_reply \<times> server" where
  "next_bootstrap_post cr now uid salt tok form sv =
     (if has_users (sv_db sv) then (RedirectTo ''/login'', sv)
      else
        let username = trim_space (fst form); password = snd form in
        if username = [] \<or> length password < 12
        then (BootstrapPage ''Pick a username and a password of at least 12 characters.'', sv)
        else (case hash_password cr salt password of
            None \<Rightarrow> (BootstrapPage (''Could not process that password '' @ em_dash @ '' try again.''), sv)
          | Some hash \<Rightarrow>
              (case create_initial_user uid now username ''admin'' hash [] (sv_db sv) of
                 Inl _ \<Rightarrow> (BootstrapPage ''Could not create the admin account.'', sv)
               | Inr d \<Rightarrow>
                   (case get_user_by_username d username of
                      Inl _ \<Rightarrow> (RedirectTo ''/login'', sv\<lparr>sv_db := d\<rparr>)
                    | Inr u \<Rightarrow>
                        (case create_session (token_hash cr) tok now (u_id u) (u_name u) (u_role u) session_ttl d of
                           Inl _ \<Rightarrow> (RedirectTo ''/login'', sv\<lparr>sv_db := d\<rparr>)
                         | Inr (cookie, d') \<Rightarrow> (PageSession cookie ''/'', sv\<lparr>sv_db := d'\<rparr>))))))"

section \<open>Two-factor enrolment\<close>

datatype totp_reply =
    TotpError nat string
  | TotpSecret string string
  | TotpEnabled "string list"
  | TotpDisabled

text \<open>The JSON handlers run behind \<open>authMiddleware\<close>, the forms behind \<open>nextAuth\<close>; \<open>c\<close> is what the guard found.\<close>

definition setup_totp :: "crypt \<Rightarrow> string \<Rightarrow> claims option \<Rightarrow> string option \<Rightarrow> db \<Rightarrow> totp_reply" where
  "setup_totp cr random c body d =
     (case request_user c d of
        None \<Rightarrow> TotpError 401 ''unauthorized''
      | Some u \<Rightarrow>
          if trim_space (u_totp u) \<noteq> [] then TotpError 400 ''TOTP is already enabled. Disable it before reconfiguring.''
          else (case body of
              None \<Rightarrow> TotpError 400 ''invalid json''
            | Some given \<Rightarrow>
                let v = trim_space given in
                if v = [] then
                  (case new_totp_secret cr random ''Patchdeck'' (u_name u) of
                     None \<Rightarrow> TotpError 500 ''Failed to generate TOTP secret''
                   | Some g \<Rightarrow>
                       let secret = normalize_base32 g in
                       (case totp_uri ''Patchdeck'' (u_name u) secret of
                          None \<Rightarrow> TotpError 500 ''Failed to prepare TOTP configuration''
                        | Some uri \<Rightarrow> TotpSecret secret uri))
                else if \<not> validate_base32_secret v then TotpError 400 ''Invalid TOTP secret''
                else
                  let secret = normalize_base32 v in
                  (case totp_uri ''Patchdeck'' (u_name u) secret of
                     None \<Rightarrow> TotpError 400 ''Failed to build otpauth URI''
                   | Some uri \<Rightarrow> TotpSecret secret uri)))"

fun hash_codes :: "crypt \<Rightarrow> (nat \<Rightarrow> string) \<Rightarrow> nat \<Rightarrow> string list \<Rightarrow> string list option" where
  "hash_codes cr salts i [] = Some []"
| "hash_codes cr salts i (c # cs) =
     (case bcrypt_gen cr (salts i) (replace_char (CHR ''-'') [] c) of
        None \<Rightarrow> None
      | Some h \<Rightarrow> map_option ((#) h) (hash_codes cr salts (Suc i) cs))"

record totp_random =
  tr_draws :: "nat \<Rightarrow> nat \<Rightarrow> nat option"
  tr_salts :: "nat \<Rightarrow> string"
  tr_uids :: "nat \<Rightarrow> string"

definition with_uids :: "(nat \<Rightarrow> string) \<Rightarrow> string list \<Rightarrow> (string \<times> string) list" where
  "with_uids uids hashes = zip (map uids [0..<length hashes]) hashes"

text \<open>From the accepted code on: the secret is stored and the recovery codes are replaced.\<close>

definition enable_totp :: "crypt \<Rightarrow> int \<Rightarrow> totp_random \<Rightarrow> user \<Rightarrow> string \<Rightarrow> db \<Rightarrow> totp_reply \<times> db" where
  "enable_totp cr now rnd u normalized d =
     (let d = set_user_totp (u_id u) normalized d;
          d = delete_recovery_codes (u_id u) d;
          codes = generate_recovery_codes (tr_draws rnd) 10
      in case hash_codes cr (tr_salts rnd) 0 codes of
           None \<Rightarrow> (TotpError 500 ''Failed to protect recovery codes'', d)
         | Some hashed \<Rightarrow>
             (TotpEnabled codes, save_recovery_codes now (u_id u) (with_uids (tr_uids rnd) hashed) d))"

definition confirm_totp ::
  "crypt \<Rightarrow> int \<Rightarrow> totp_random \<Rightarrow> claims option \<Rightarrow> (string \<times> string) option \<Rightarrow> db \<Rightarrow> totp_reply \<times> db" where
  "confirm_totp cr now rnd c body d =
     (case request_user c d of
        None \<Rightarrow> (TotpError 401 ''unauthorized'', d)
      | Some u \<Rightarrow>
          if trim_space (u_totp u) \<noteq> []
          then (TotpError 400 ''TOTP is already enabled. Disable it before reconfiguring.'', d)
          else (case body of
              None \<Rightarrow> (TotpError 400 ''invalid json'', d)
            | Some (secret, code) \<Rightarrow>
                let secret = trim_space secret; code = trim_space code in
                if secret = [] \<or> code = [] then (TotpError 400 ''Secret and verification code are required'', d)
                else if \<not> validate_base32_secret secret then (TotpError 400 ''Invalid TOTP secret'', d)
                else
                  let normalized = normalize_base32 secret in
                  if \<not> validate_totp cr now normalized code then (TotpError 400 ''Invalid verification code'', d)
                  else enable_totp cr now rnd u normalized d))"

text \<open>The form has no test for a second factor that is already enabled.\<close>

definition next_totp_confirm ::
  "crypt \<Rightarrow> int \<Rightarrow> totp_random \<Rightarrow> claims option \<Rightarrow> string \<times> string \<Rightarrow> db \<Rightarrow> totp_reply \<times> db" where
  "next_totp_confirm cr now rnd c form d =
     (case request_user c d of
        None \<Rightarrow> (TotpError 401 ''unauthorized'', d)
      | Some u \<Rightarrow>
          let secret = trim_space (fst form); code = trim_space (snd form) in
          if secret = [] \<or> code = [] then (TotpError 200 ''Enter the 6-digit code from your authenticator.'', d)
          else if \<not> validate_base32_secret secret then (TotpError 200 ''Invalid secret.'', d)
          else
            let normalized = normalize_base32 secret in
            if \<not> validate_totp cr now normalized code
            then (TotpError 200 (''That code didn'' @ [CHR 0x27] @ ''t match '' @ em_dash @ '' try the current one.''), d)
            else enable_totp cr now rnd u normalized d)"

definition next_totp_setup :: "crypt \<Rightarrow> string \<Rightarrow> claims option \<Rightarrow> db \<Rightarrow> totp_reply" where
  "next_totp_setup cr random c d =
     (case request_user c d of
        None \<Rightarrow> TotpError 401 ''unauthorized''
      | Some u \<Rightarrow>
          if trim_space (u_totp u) \<noteq> [] then TotpError 200 ''Two-factor is already enabled.''
          else (case new_totp_secret cr random ''Patchdeck'' (u_name u) of
              None \<Rightarrow> TotpError 200 ''Failed to generate a secret.''
            | Some g \<Rightarrow>
                let secret = normalize_base32 g in
                (case totp_uri ''Patchdeck'' (u_name u) secret of
                   None \<Rightarrow> TotpError 200 ''Failed to prepare configuration.''
                 | Some uri \<Rightarrow> TotpSecret secret uri)))"

definition disable_totp :: "crypt \<Rightarrow> claims option \<Rightarrow> string option \<Rightarrow> db \<Rightarrow> totp_reply \<times> db" where
  "disable_totp cr c body d =
     (case request_user c d of
        None \<Rightarrow> (TotpError 401 ''unauthorized'', d)
      | Some u \<Rightarrow>
          if trim_space (u_totp u) = [] then (TotpError 400 ''TOTP is not enabled'', d)
          else (case body of
              None \<Rightarrow> (TotpError 400 ''invalid json'', d)
            | Some password \<Rightarrow>
                if \<not> check_password cr (u_hash u) password then (TotpError 401 ''invalid credentials'', d)
                else (TotpDisabled, delete_recovery_codes (u_id u) (clear_user_totp (u_id u) d))))"

definition next_totp_disable :: "crypt \<Rightarrow> claims option \<Rightarrow> string \<Rightarrow> db \<Rightarrow> totp_reply \<times> db" where
  "next_totp_disable cr c password d =
     (case request_user c d of
        None \<Rightarrow> (TotpError 401 ''unauthorized'', d)
      | Some u \<Rightarrow>
          if trim_space (u_totp u) = [] then (TotpError 200 [], d)
          else if \<not> check_password cr (u_hash u) password then (TotpError 200 ''Password incorrect.'', d)
          else (TotpDisabled, delete_recovery_codes (u_id u) (clear_user_totp (u_id u) d)))"

definition get_totp_status :: "claims option \<Rightarrow> db \<Rightarrow> bool option" where
  "get_totp_status c d = map_option (\<lambda>u. trim_space (u_totp u) \<noteq> []) (request_user c d)"

section \<open>What one login does\<close>

datatype outcome = Wrong | Right | Neither

fun json_outcome :: "login_reply \<Rightarrow> outcome" where
  "json_outcome (Refused code _) = (if code = 401 then Wrong else if code = 500 then Right else Neither)"
| "json_outcome (SignedIn _ _ _) = Right"
| "json_outcome _ = Neither"

fun page_outcome :: "page_reply \<Rightarrow> outcome" where
  "page_outcome (LoginPage second msg) =
     (if msg = ''Invalid username or password.'' \<or> msg = ''Invalid two-factor code.'' then Wrong
      else if msg = no_session_text then Right
      else Neither)"
| "page_outcome (PageSession _ _) = Right"
| "page_outcome _ = Neither"

definition limiter_effect :: "int \<Rightarrow> string \<Rightarrow> login_limiter \<Rightarrow> outcome \<Rightarrow> login_limiter \<Rightarrow> bool" where
  "limiter_effect now ip l out l' \<longleftrightarrow>
     (let p = snd (prune_failures now ip l) in
      case out of
        Neither \<Rightarrow> l' = p
      | Wrong \<Rightarrow> l' = record_failure now ip p \<and>
          int (length (filter (\<lambda>t. t > now - ll_window l) (failures_of l ip))) < ll_max l
      | Right \<Rightarrow> l' = reset_failures ip p)"

definition note_outcome :: "int \<Rightarrow> string \<Rightarrow> outcome \<Rightarrow> (string \<Rightarrow> int list) \<Rightarrow> string \<Rightarrow> int list" where
  "note_outcome now ip out hist =
     (case out of Wrong \<Rightarrow> hist(ip := hist ip @ [now]) | Right \<Rightarrow> hist(ip := []) | Neither \<Rightarrow> hist)"

lemma effect_inv:
  assumes inv: "login_inv m w t0 (l, hist)" "t0 \<le> t" and eff: "limiter_effect t ip l out l'" and "0 \<le> m" "0 < w"
  shows "login_inv m w t (l', note_outcome t ip out hist)"
proof -
  let ?p = "snd (prune_failures t ip l)"
  have p: "login_inv m w t (?p, hist)" by (rule login_inv_prune [OF inv])
  show ?thesis
  proof (cases out)
    case Wrong
    then have "int (length (filter (\<lambda>x. t - w < x) (failures_of ?p ip))) < m"
      using eff login_invD(1,2) [OF inv] by (simp add: limiter_effect_def failures_of_prune)
    from login_inv_record [OF p assms(5) this] Wrong eff show ?thesis
      by (simp add: limiter_effect_def note_outcome_def)
  qed (use eff p login_inv_reset [OF p assms(4)] in \<open>simp_all add: limiter_effect_def note_outcome_def\<close>)
qed

lemma sv_login_note [simp]: "sv_login (note_failure now ip sv) = record_failure now ip (sv_login sv)"
  by (simp add: note_failure_def)

lemma sv_db_note [simp]: "sv_db (note_failure now ip sv) = sv_db sv"
  by (simp add: note_failure_def)

lemma start_session_outcome:
  assumes "start_session cr now tok ip u sv = (rep, sv')"
  shows "json_outcome rep = Right" "sv_login sv' = reset_failures ip (sv_login sv)"
  using assms by (auto simp: start_session_def Let_def split: sum.splits)

definition checked :: "int \<Rightarrow> string \<Rightarrow> server \<Rightarrow> outcome \<Rightarrow> server \<Rightarrow> bool" where
  "checked now ip sv out sv' \<longleftrightarrow>
     sv_login sv' = (case out of Wrong \<Rightarrow> record_failure now ip (sv_login sv)
       | Right \<Rightarrow> reset_failures ip (sv_login sv) | Neither \<Rightarrow> sv_login sv)"

lemma login_check_checked:
  assumes "login_check cr now tok ip body sv = (rep, sv')"
  shows "checked now ip sv (json_outcome rep) sv'"
  using assms start_session_outcome
  by (fastforce simp: login_check_def checked_def Let_def split: option.splits sum.splits if_splits prod.splits bool.splits)

lemma page_texts [simp]:
  "page_outcome (LoginPage b ''Invalid username or password.'') = Wrong"
  "page_outcome (LoginPage b ''Invalid two-factor code.'') = Wrong"
  "page_outcome (LoginPage b no_session_text) = Right"
  "page_outcome (LoginPage b (too_many_text n)) = Neither"
  "page_outcome (LoginPage b []) = Neither"
  by (simp_all add: too_many_text_def no_session_text_def)

declare page_outcome.simps(1) [simp del]

lemma next_start_session_checked:
  assumes "next_start_session cr now tok ip u sv = (rep, sv')"
  shows "page_outcome rep = Right \<and> sv_login sv' = reset_failures ip (sv_login sv)"
proof -
  obtain a b where ab: "start_session cr now tok ip u sv = (a, b)" by (metis surj_pair)
  from assms ab have "page_outcome rep = Right" "sv' = b" by (cases a; auto simp: next_start_session_def)+
  with start_session_outcome(2) [OF ab] show ?thesis by simp
qed

lemma next_login_check_checked:
  assumes "next_login_check cr now tok ip req sv = (rep, sv')"
  shows "checked now ip sv (page_outcome rep) sv'"
  using assms unfolding next_login_check_def Let_def checked_def
  by (auto split: sum.splits if_splits prod.splits bool.splits dest: next_start_session_checked)

lemma allowed_cases:
  obtains (blocked) res where "login_allowed now ip l = (res, snd (prune_failures now ip l))"
      "\<nexists>r. res = Some (True, r)"
  | (granted) r where "login_allowed now ip l = (Some (True, r), snd (prune_failures now ip l))"
      "int (length (filter (\<lambda>t. t > now - ll_window l) (failures_of l ip))) < ll_max l"
proof -
  obtain res l' where a: "login_allowed now ip l = (res, l')" by (metis surj_pair)
  have l': "l' = snd (prune_failures now ip l)" using allowed_state [of now ip l] a by simp
  show ?thesis
  proof (cases "\<exists>r. res = Some (True, r)")
    case True
    then obtain r where r: "res = Some (True, r)" by blast
    show ?thesis using granted [of r] allowed_iff [of now ip l r] a l' r by simp
  next
    case False
    with blocked a l' show ?thesis by blast
  qed
qed

lemma checked_effect:
  assumes "checked now ip (sv\<lparr>sv_login := snd (prune_failures now ip (sv_login sv))\<rparr>) out sv'"
    "int (length (filter (\<lambda>t. t > now - ll_window (sv_login sv)) (failures_of (sv_login sv) ip))) < ll_max (sv_login sv)"
  shows "limiter_effect now ip (sv_login sv) out (sv_login sv')"
  using assms by (simp add: checked_def limiter_effect_def split: outcome.splits)

lemma login_effect:
  assumes "login cr now tok r body sv = (rep, sv')"
  shows "limiter_effect now (client_ip r) (sv_login sv) (json_outcome rep) (sv_login sv')"
proof (cases rule: allowed_cases [of now "client_ip r" "sv_login sv"])
  case (blocked res)
  with assms show ?thesis
    by (auto simp: login_def limiter_effect_def Let_def split: option.splits)
next
  case (granted ra)
  with assms have "login_check cr now tok (client_ip r) body
      (sv\<lparr>sv_login := snd (prune_failures now (client_ip r) (sv_login sv))\<rparr>) = (rep, sv')"
    by (simp add: login_def Let_def)
  from checked_effect [OF login_check_checked [OF this] granted(2)] show ?thesis .
qed

lemma next_login_effect:
  assumes "next_login_post cr now tok r req sv = (rep, sv')"
  shows "sv' = sv \<and> page_outcome rep = Neither \<or>
    limiter_effect now (client_ip r) (sv_login sv) (page_outcome rep) (sv_login sv')"
proof (cases "has_users (sv_db sv)")
  case False
  with assms show ?thesis by (auto simp: next_login_post_def)
next
  case True
  show ?thesis
  proof (cases rule: allowed_cases [of now "client_ip r" "sv_login sv"])
    case (blocked res)
    with assms True show ?thesis
      by (auto simp: next_login_post_def limiter_effect_def Let_def split: option.splits)
  next
    case (granted ra)
    with assms True have "next_login_check cr now tok (client_ip r) req
        (sv\<lparr>sv_login := snd (prune_failures now (client_ip r) (sv_login sv))\<rparr>) = (rep, sv')"
      by (simp add: next_login_post_def Let_def)
    from checked_effect [OF next_login_check_checked [OF this] granted(2)] show ?thesis by blast
  qed
qed

end
