(* ===== verification/Accounts.thy ===== *)
theory Accounts
  imports Login
begin

text \<open>
  The account handlers together: the guards are exact, a sign-in needs every factor, and what holds
  of the one account and of the login limiter over any sequence of requests.
\<close>

section \<open>The guards\<close>

definition live_session :: "crypt \<Rightarrow> int \<Rightarrow> http_req \<Rightarrow> db \<Rightarrow> session option" where
  "live_session cr now r d =
     (case rq_cookie r of
        None \<Rightarrow> None
      | Some v \<Rightarrow>
          if v = [] then None
          else (case lookup_row se_hash (token_hash cr v) (d_sessions d) of
              Some s \<Rightarrow> if now \<le> se_expires s then Some s else None
            | None \<Rightarrow> None))"

definition live_token :: "crypt \<Rightarrow> string \<Rightarrow> db \<Rightarrow> bool" where
  "live_token cr token d \<longleftrightarrow> (\<exists>t \<in> set (d_tokens d). at_hash t = token_hash cr token \<and> \<not> at_revoked t)"

definition claims_of :: "session \<Rightarrow> claims" where
  "claims_of s = \<lparr>cl_user = se_user s, cl_name = se_username s, cl_role = se_role s\<rparr>"

lemma session_claims_live: "fst (session_claims cr now r d) = map_option claims_of (live_session cr now r d)"
  by (auto simp: session_claims_def live_session_def validate_session_def claims_of_def
      split: option.splits)

lemma session_claims_tokens: "d_tokens (snd (session_claims cr now r d)) = d_tokens d"
  by (auto simp: session_claims_def validate_session_def split: option.splits)

lemma validate_api_token_valid: "fst (fst (validate_api_token (token_hash cr) now token d)) = live_token cr token d"
proof (cases "find (\<lambda>t. at_hash t = token_hash cr token \<and> \<not> at_revoked t) (d_tokens d)")
  case None
  then have "\<not> live_token cr token d" by (auto simp: live_token_def find_None_iff)
  with None show ?thesis by (simp add: validate_api_token_def)
next
  case (Some t)
  then have "live_token cr token d" by (auto simp: live_token_def find_Some_iff)
  with Some show ?thesis by (simp add: validate_api_token_def)
qed

definition bearer :: "http_req \<Rightarrow> string" where
  "bearer r = trim_space (trim_prefix (trim_space (rq_authz r)) ''Bearer '')"

lemma auth_middleware_fst:
  "fst (auth_middleware cr now r d) =
     (case live_session cr now r d of
        Some s \<Rightarrow> Some (claims_of s)
      | None \<Rightarrow>
          if has_prefix (trim_space (rq_authz r)) ''Bearer '' \<and> has_prefix (bearer r) ''pd_'' \<and> live_token cr (bearer r) d
          then Some api_claims else None)"
proof -
  obtain c d' where sc: "session_claims cr now r d = (c, d')" by (metis surj_pair)
  have c: "c = map_option claims_of (live_session cr now r d)" using session_claims_live [of cr now r d] sc by simp
  have d': "live_token cr tok d' = live_token cr tok d" for tok
    using session_claims_tokens [of cr now r d] sc by (simp add: live_token_def)
  obtain v i d'' where v: "validate_api_token (token_hash cr) now (bearer r) d' = ((v, i), d'')" by (metis surj_pair)
  have v': "v = live_token cr (bearer r) d" using validate_api_token_valid [of cr now "bearer r" d'] v d' by simp
  show ?thesis
    using sc c v v' by (auto simp: auth_middleware_def bearer_def [symmetric] Let_def has_prefix_def split: option.splits)
qed

lemma flexible_fst:
  "fst (auth_middleware_flexible cr now r d) =
     (case live_session cr now r d of
        Some s \<Rightarrow> Some (claims_of s)
      | None \<Rightarrow> if has_prefix (bearer r) ''pd_'' \<and> live_token cr (bearer r) d then Some api_claims else None)"
proof -
  obtain c d' where sc: "session_claims cr now r d = (c, d')" by (metis surj_pair)
  have c: "c = map_option claims_of (live_session cr now r d)" using session_claims_live [of cr now r d] sc by simp
  have d': "live_token cr tok d' = live_token cr tok d" for tok
    using session_claims_tokens [of cr now r d] sc by (simp add: live_token_def)
  obtain v i d'' where v: "validate_api_token (token_hash cr) now (bearer r) d' = ((v, i), d'')" by (metis surj_pair)
  have v': "v = live_token cr (bearer r) d" using validate_api_token_valid [of cr now "bearer r" d'] v d' by simp
  show ?thesis
    using sc c v v' by (auto simp: auth_middleware_flexible_def bearer_def [symmetric] Let_def split: option.splits)
qed

section \<open>One sign-in\<close>

definition spent_code :: "crypt \<Rightarrow> string \<Rightarrow> string \<Rightarrow> db \<Rightarrow> db \<Rightarrow> bool" where
  "spent_code cr user_id code d d' \<longleftrightarrow>
     (\<exists>rc \<in> set (d_recovery d). rc_user rc = user_id \<and> \<not> rc_used rc \<and>
        bcrypt_ok cr (rc_hash rc) (normalize_recovery code) \<and>
        d_recovery d' = update_rows (\<lambda>c. rc_id c = rc_id rc) (rc_used_update (\<lambda>_. True)) (d_recovery d))"

lemma consume_recovery_True:
  assumes "consume_recovery_code cr user_id code d = (True, d')"
  shows "spent_code cr user_id code d d' \<and> d_users d' = d_users d \<and> d_sessions d' = d_sessions d"
proof -
  obtain rc where f: "find (\<lambda>rc. bcrypt_ok cr (rc_hash rc) (normalize_recovery code)) (get_unused_recovery_codes d user_id) = Some rc"
    and d': "d' = use_recovery_code (rc_id rc) d"
    using assms by (auto simp: consume_recovery_code_def split: option.splits)
  then have "rc \<in> set (get_unused_recovery_codes d user_id)" "bcrypt_ok cr (rc_hash rc) (normalize_recovery code)"
    by (auto simp: find_Some_iff)
  with d' show ?thesis
    unfolding spent_code_def by (auto simp: get_unused_recovery_codes_def use_recovery_code_def)
qed

lemma consume_recovery_False: "consume_recovery_code cr user_id code d = (False, d') \<Longrightarrow> d' = d"
  by (simp add: consume_recovery_code_def split: option.splits)

definition factors_ok :: "crypt \<Rightarrow> int \<Rightarrow> string \<Rightarrow> login_req \<Rightarrow> db \<Rightarrow> db \<Rightarrow> user \<Rightarrow> bool" where
  "factors_ok cr now name req d d' u \<longleftrightarrow>
     get_user_by_username d name = Inr u \<and> bcrypt_ok cr (u_hash u) (lr_password req) \<and>
     (trim_space (u_totp u) = [] \<or>
      totp_valid cr now (trim_space (lr_code req)) (trim_space (u_totp u)) \<or>
      spent_code cr (u_id u) (trim_space (lr_code req)) d d')"

lemma lookup_row_snoc: "k r = x \<Longrightarrow> \<forall>s \<in> set rows. k s \<noteq> x \<Longrightarrow> lookup_row k x (rows @ [r]) = Some r"
  by (induction rows) (auto simp: lookup_row_def)

lemma start_session_SignedIn:
  assumes "start_session cr now tok ip u sv = (SignedIn cookie name role, sv')" "tok \<noteq> []"
  shows "cookie = tok" "name = u_name u" "role = u_role u" "d_recovery (sv_db sv') = d_recovery (sv_db sv)"
    "fst (validate_session (token_hash cr) now tok session_ttl (sv_db sv')) = Some (u_id u, u_name u, u_role u)"
proof -
  have "\<forall>s \<in> set (d_sessions (sv_db sv)). se_hash s \<noteq> token_hash cr tok" and
    d: "sv_db sv' = (sv_db sv)\<lparr>d_sessions := d_sessions (sv_db sv) @
        [\<lparr>se_hash = token_hash cr tok, se_user = u_id u, se_username = u_name u, se_role = u_role u,
          se_created = now, se_expires = now + session_ttl, se_last_seen = now\<rparr>]\<rparr>"
    and c: "cookie = tok" "name = u_name u" "role = u_role u"
    using assms(1) by (auto simp: start_session_def create_session_def Let_def split: if_splits)
  then have "lookup_row se_hash (token_hash cr tok) (d_sessions (sv_db sv')) =
      Some \<lparr>se_hash = token_hash cr tok, se_user = u_id u, se_username = u_name u, se_role = u_role u,
          se_created = now, se_expires = now + session_ttl, se_last_seen = now\<rparr>"
    by (auto intro: lookup_row_snoc)
  then show "fst (validate_session (token_hash cr) now tok session_ttl (sv_db sv')) = Some (u_id u, u_name u, u_role u)"
    using assms(2) by (simp add: validate_session_def session_ttl_def sec_def)
  show "cookie = tok" "name = u_name u" "role = u_role u" "d_recovery (sv_db sv') = d_recovery (sv_db sv)"
    using c d by simp_all
qed

definition signed_in_as :: "crypt \<Rightarrow> int \<Rightarrow> string \<Rightarrow> server \<Rightarrow> user \<Rightarrow> bool" where
  "signed_in_as cr now tok sv u \<longleftrightarrow>
     fst (validate_session (token_hash cr) now tok session_ttl (sv_db sv)) = Some (u_id u, u_name u, u_role u)"

lemma login_check_SignedIn:
  assumes "login_check cr now tok ip body sv = (SignedIn cookie name role, sv')" "tok \<noteq> []"
  shows "\<exists>req u. body = Some req \<and> factors_ok cr now (lr_username req) req (sv_db sv) (sv_db sv') u \<and>
    cookie = tok \<and> name = u_name u \<and> role = u_role u \<and> signed_in_as cr now tok sv' u"
proof -
  obtain req u where b: "body = Some req" and u: "get_user_by_username (sv_db sv) (lr_username req) = Inr u"
    and pw: "bcrypt_ok cr (u_hash u) (lr_password req)"
    using assms(1) by (auto simp: login_check_def check_password_def Let_def split: option.splits sum.splits if_splits)
  let ?secret = "trim_space (u_totp u)" and ?code = "trim_space (lr_code req)"
  show ?thesis
  proof (cases "?secret \<noteq> [] \<and> \<not> totp_valid cr now ?code ?secret")
    case False
    with assms(1) b u pw have s: "start_session cr now tok ip u sv = (SignedIn cookie name role, sv')"
      by (auto simp: login_check_def check_password_def validate_totp_def Let_def split: if_splits)
    from start_session_SignedIn [OF s assms(2)] False b u pw show ?thesis
      by (intro exI [of _ req] exI [of _ u]) (auto simp: factors_ok_def signed_in_as_def)
  next
    case True
    with assms(1) b u pw obtain d where d: "consume_recovery_code cr (u_id u) ?code (sv_db sv) = (True, d)"
      and s: "start_session cr now tok ip u (sv\<lparr>sv_db := d\<rparr>) = (SignedIn cookie name role, sv')"
      by (auto simp: login_check_def check_password_def validate_totp_def Let_def
          split: if_splits prod.splits bool.splits)
    from consume_recovery_True [OF d] start_session_SignedIn [OF s assms(2)] True b u pw show ?thesis
      by (intro exI [of _ req] exI [of _ u]) (auto simp: factors_ok_def signed_in_as_def spent_code_def)
  qed
qed

lemma next_start_session_Page:
  assumes "next_start_session cr now tok ip u sv = (PageSession cookie dest, sv')"
  shows "\<exists>name role. start_session cr now tok ip u sv = (SignedIn cookie name role, sv')"
  using assms by (auto simp: next_start_session_def split: prod.splits login_reply.splits)

lemma next_login_check_Page:
  assumes "next_login_check cr now tok ip req sv = (PageSession cookie dest, sv')" "tok \<noteq> []"
  shows "\<exists>u. factors_ok cr now (trim_space (lr_username req)) req (sv_db sv) (sv_db sv') u \<and>
    cookie = tok \<and> signed_in_as cr now tok sv' u"
proof -
  obtain u where u: "get_user_by_username (sv_db sv) (trim_space (lr_username req)) = Inr u"
    and pw: "bcrypt_ok cr (u_hash u) (lr_password req)"
    using assms(1) by (auto simp: next_login_check_def check_password_def Let_def split: sum.splits if_splits)
  let ?secret = "trim_space (u_totp u)" and ?code = "trim_space (lr_code req)"
  show ?thesis
  proof (cases "?secret \<noteq> [] \<and> \<not> totp_valid cr now ?code ?secret")
    case False
    with assms(1) u pw have "next_start_session cr now tok ip u sv = (PageSession cookie dest, sv')"
      by (auto simp: next_login_check_def check_password_def validate_totp_def Let_def split: if_splits)
    then obtain name role where s: "start_session cr now tok ip u sv = (SignedIn cookie name role, sv')"
      using next_start_session_Page by blast
    from start_session_SignedIn [OF s assms(2)] False u pw show ?thesis
      by (intro exI [of _ u]) (auto simp: factors_ok_def signed_in_as_def)
  next
    case True
    with assms(1) u pw obtain d where d: "consume_recovery_code cr (u_id u) ?code (sv_db sv) = (True, d)"
      and "next_start_session cr now tok ip u (sv\<lparr>sv_db := d\<rparr>) = (PageSession cookie dest, sv')"
      by (auto simp: next_login_check_def check_password_def validate_totp_def Let_def
          split: if_splits prod.splits bool.splits)
    then obtain name role where s: "start_session cr now tok ip u (sv\<lparr>sv_db := d\<rparr>) = (SignedIn cookie name role, sv')"
      using next_start_session_Page by blast
    from consume_recovery_True [OF d] start_session_SignedIn [OF s assms(2)] True u pw show ?thesis
      by (intro exI [of _ u]) (auto simp: factors_ok_def signed_in_as_def spent_code_def)
  qed
qed

section \<open>Sequences of requests\<close>

datatype server_op =
    LoginJson http_req "login_req option" string
  | LoginForm http_req login_req string
  | LogoutReq http_req
  | BootstrapJson string string "(string \<times> string) option"
  | BootstrapForm string string string "string \<times> string"
  | ConfirmJson http_req totp_random "(string \<times> string) option"
  | ConfirmForm http_req totp_random "string \<times> string"
  | DisableJson http_req "string option"
  | DisableForm http_req string
  | Visit http_req
  | VisitStream http_req

text \<open>The ghost \<open>hist\<close> is, per client, the times of its refused credentials since its last sign-in.\<close>

fun server_step ::
  "crypt \<Rightarrow> int \<Rightarrow> server_op \<Rightarrow> server \<times> (string \<Rightarrow> int list) \<Rightarrow> server \<times> (string \<Rightarrow> int list)" where
  "server_step cr now (LoginJson r body tok) (sv, hist) =
     (case login cr now tok r body sv of
        (rep, sv') \<Rightarrow> (sv', note_outcome now (client_ip r) (json_outcome rep) hist))"
| "server_step cr now (LoginForm r req tok) (sv, hist) =
     (case next_login_post cr now tok r req sv of
        (rep, sv') \<Rightarrow> (sv', note_outcome now (client_ip r) (page_outcome rep) hist))"
| "server_step cr now (LogoutReq r) (sv, hist) = (logout cr r sv, hist)"
| "server_step cr now (BootstrapJson uid salt body) (sv, hist) = (snd (bootstrap cr now uid salt body sv), hist)"
| "server_step cr now (BootstrapForm uid salt tok form) (sv, hist) =
     (snd (next_bootstrap_post cr now uid salt tok form sv), hist)"
| "server_step cr now (ConfirmJson r rnd body) (sv, hist) =
     (case auth_middleware cr now r (sv_db sv) of
        (None, d) \<Rightarrow> (sv\<lparr>sv_db := d\<rparr>, hist)
      | (Some c, d) \<Rightarrow> (sv\<lparr>sv_db := snd (confirm_totp cr now rnd (Some c) body d)\<rparr>, hist))"
| "server_step cr now (ConfirmForm r rnd form) (sv, hist) =
     (case next_auth cr now r (sv_db sv) of
        (None, d) \<Rightarrow> (sv\<lparr>sv_db := d\<rparr>, hist)
      | (Some c, d) \<Rightarrow> (sv\<lparr>sv_db := snd (next_totp_confirm cr now rnd (Some c) form d)\<rparr>, hist))"
| "server_step cr now (DisableJson r body) (sv, hist) =
     (case auth_middleware cr now r (sv_db sv) of
        (None, d) \<Rightarrow> (sv\<lparr>sv_db := d\<rparr>, hist)
      | (Some c, d) \<Rightarrow> (sv\<lparr>sv_db := snd (disable_totp cr (Some c) body d)\<rparr>, hist))"
| "server_step cr now (DisableForm r password) (sv, hist) =
     (case next_auth cr now r (sv_db sv) of
        (None, d) \<Rightarrow> (sv\<lparr>sv_db := d\<rparr>, hist)
      | (Some c, d) \<Rightarrow> (sv\<lparr>sv_db := snd (next_totp_disable cr (Some c) password d)\<rparr>, hist))"
| "server_step cr now (Visit r) (sv, hist) = (sv\<lparr>sv_db := snd (auth_middleware cr now r (sv_db sv))\<rparr>, hist)"
| "server_step cr now (VisitStream r) (sv, hist) =
     (sv\<lparr>sv_db := snd (auth_middleware_flexible cr now r (sv_db sv))\<rparr>, hist)"

definition one_admin :: "db \<Rightarrow> bool" where
  "one_admin d \<longleftrightarrow> length (d_users d) \<le> 1 \<and> (\<forall>u \<in> set (d_users d). u_role u = ''admin'')"

lemma one_admin_users: "d_users d' = d_users d \<Longrightarrow> one_admin d' = one_admin d"
  by (simp add: one_admin_def)

lemma one_admin_sessions [simp]: "one_admin (d\<lparr>d_sessions := x\<rparr>) = one_admin d"
  by (simp add: one_admin_def)

lemma one_admin_update:
  "(\<And>u. u_role (f u) = u_role u) \<Longrightarrow> d_users d' = update_rows p f (d_users d) \<Longrightarrow> one_admin d \<Longrightarrow> one_admin d'"
  by (auto simp: one_admin_def)

lemma save_codes_users [simp]: "d_users (save_recovery_codes now user hs d) = d_users d"
  by (induction now user hs d rule: save_recovery_codes.induct) simp_all

lemma validate_session_users: "d_users (snd (validate_session hs now tok ttl d)) = d_users d"
  by (auto simp: validate_session_def split: option.splits)

lemma validate_token_users: "d_users (snd (validate_api_token hs now tok d)) = d_users d"
  by (auto simp: validate_api_token_def split: option.splits)

lemma session_claims_users: "session_claims cr now r d = (c, d') \<Longrightarrow> d_users d' = d_users d"
  by (auto simp: session_claims_def dest: arg_cong [of _ _ snd]
      intro: validate_session_users [of "token_hash cr" now _ session_ttl d, simplified] split: option.splits prod.splits)
    (metis snd_conv validate_session_users)+

lemma auth_middleware_users: "auth_middleware cr now r d = (c, d') \<Longrightarrow> d_users d' = d_users d"
  by (auto simp: auth_middleware_def Let_def split: prod.splits option.splits if_splits dest!: session_claims_users)
    (metis snd_conv validate_token_users)+

lemma flexible_users: "auth_middleware_flexible cr now r d = (c, d') \<Longrightarrow> d_users d' = d_users d"
  by (auto simp: auth_middleware_flexible_def Let_def split: prod.splits option.splits if_splits dest!: session_claims_users)
    (metis snd_conv validate_token_users)+

lemma enable_totp_admin: "one_admin d \<Longrightarrow> one_admin (snd (enable_totp cr now rnd u s d))"
  by (auto simp: enable_totp_def Let_def set_user_totp_def delete_recovery_codes_def one_admin_def split: option.splits)

lemma confirm_totp_admin: "one_admin d \<Longrightarrow> one_admin (snd (confirm_totp cr now rnd c body d))"
  by (auto simp: confirm_totp_def Let_def enable_totp_admin split: option.splits)

lemma next_totp_confirm_admin: "one_admin d \<Longrightarrow> one_admin (snd (next_totp_confirm cr now rnd c form d))"
  by (auto simp: next_totp_confirm_def Let_def enable_totp_admin split: option.splits)

lemma clear_admin: "one_admin d \<Longrightarrow> one_admin (delete_recovery_codes i (clear_user_totp j d))"
  by (auto simp: one_admin_def delete_recovery_codes_def clear_user_totp_def)

lemma disable_totp_admin: "one_admin d \<Longrightarrow> one_admin (snd (disable_totp cr c body d))"
  by (auto simp: disable_totp_def Let_def clear_admin split: option.splits)

lemma next_totp_disable_admin: "one_admin d \<Longrightarrow> one_admin (snd (next_totp_disable cr c pw d))"
  by (auto simp: next_totp_disable_def Let_def clear_admin split: option.splits)

lemma start_session_users: "start_session cr now tok ip u sv = (rep, sv') \<Longrightarrow> d_users (sv_db sv') = d_users (sv_db sv)"
  by (auto simp: start_session_def create_session_def Let_def split: if_splits)

lemma next_start_session_users:
  "next_start_session cr now tok ip u sv = (rep, sv') \<Longrightarrow> d_users (sv_db sv') = d_users (sv_db sv)"
  by (auto simp: next_start_session_def split: prod.splits login_reply.splits dest!: start_session_users)

lemma consume_users: "consume_recovery_code cr i code d = (b, d') \<Longrightarrow> d_users d' = d_users d"
  using consume_recovery_True [of cr i code d d'] consume_recovery_False [of cr i code d d'] by (cases b) auto

lemma note_failure_users [simp]: "d_users (sv_db (note_failure now ip sv)) = d_users (sv_db sv)"
  by (simp add: note_failure_def)

lemma login_check_users: "login_check cr now tok ip body sv = (rep, sv') \<Longrightarrow> d_users (sv_db sv') = d_users (sv_db sv)"
  unfolding login_check_def Let_def
  by (auto split: prod.splits option.splits if_splits sum.splits bool.splits dest!: start_session_users consume_users)

lemma next_login_check_users:
  "next_login_check cr now tok ip req sv = (rep, sv') \<Longrightarrow> d_users (sv_db sv') = d_users (sv_db sv)"
  unfolding next_login_check_def Let_def
  by (auto split: prod.splits if_splits sum.splits bool.splits dest!: next_start_session_users consume_users)

lemma login_users: "login cr now tok r body sv = (rep, sv') \<Longrightarrow> d_users (sv_db sv') = d_users (sv_db sv)"
  unfolding login_def Let_def
  by (auto split: prod.splits option.splits if_splits dest: login_check_users)

lemma next_login_users: "next_login_post cr now tok r req sv = (rep, sv') \<Longrightarrow> d_users (sv_db sv') = d_users (sv_db sv)"
  unfolding next_login_post_def Let_def
  by (auto split: prod.splits option.splits if_splits dest: next_login_check_users)

lemma create_initial_admin:
  assumes "create_initial_user uid now name ''admin'' hash totp d = Inr d'" "\<not> has_users d"
  shows "one_admin d'"
proof -
  have "trim_space (to_lower ''admin'') = ''admin''" by code_simp
  with assms show ?thesis
    by (auto simp: create_initial_user_def Let_def one_admin_def has_users_def split: if_splits)
qed

lemma bootstrap_admin: "one_admin (sv_db sv) \<Longrightarrow> one_admin (sv_db (snd (bootstrap cr now uid salt body sv)))"
  by (auto simp: bootstrap_def Let_def create_initial_admin split: option.splits sum.splits)

lemma next_bootstrap_admin:
  "one_admin (sv_db sv) \<Longrightarrow> one_admin (sv_db (snd (next_bootstrap_post cr now uid salt tok form sv)))"
  unfolding next_bootstrap_post_def create_session_def Let_def
  by (auto dest: create_initial_admin split: option.split sum.split)

lemma bootstrap_login [simp]: "sv_login (snd (bootstrap cr now uid salt body sv)) = sv_login sv"
  by (auto simp: bootstrap_def Let_def split: option.splits sum.splits)

lemma next_bootstrap_login [simp]: "sv_login (snd (next_bootstrap_post cr now uid salt tok form sv)) = sv_login sv"
  by (auto simp: next_bootstrap_post_def create_session_def Let_def split: option.splits sum.splits if_splits)

definition server_inv :: "int \<Rightarrow> int \<Rightarrow> int \<Rightarrow> server \<times> (string \<Rightarrow> int list) \<Rightarrow> bool" where
  "server_inv m w now s \<longleftrightarrow> one_admin (sv_db (fst s)) \<and> login_inv m w now (sv_login (fst s), snd s)"

lemma server_step_inv:
  assumes "server_inv m w t0 s" "t0 \<le> t" and mw: "0 \<le> m" "0 < w"
  shows "server_inv m w t (server_step cr t e s)"
proof -
  obtain sv hist where s: "s = (sv, hist)" by (metis surj_pair)
  have inv: "one_admin (sv_db sv)" "login_inv m w t0 (sv_login sv, hist)"
    using assms(1) s by (simp_all add: server_inv_def)
  have later: "login_inv m w t (sv_login sv, hist)"
    using login_invD [OF inv(2) assms(2)] by (auto simp: login_inv_def)
  show ?thesis
  proof (cases e)
    case (LoginJson r body tok)
    obtain rep sv' where l: "login cr t tok r body sv = (rep, sv')" by (metis surj_pair)
    from effect_inv [OF inv(2) assms(2) login_effect [OF l] mw] one_admin_users [OF login_users [OF l]] inv(1) show ?thesis
      by (simp add: s LoginJson l server_inv_def)
  next
    case (LoginForm r req tok)
    obtain rep sv' where l: "next_login_post cr t tok r req sv = (rep, sv')" by (metis surj_pair)
    from next_login_effect [OF l]
    have "login_inv m w t (sv_login sv', note_outcome t (client_ip r) (page_outcome rep) hist)"
      using effect_inv [OF inv(2) assms(2) _ mw] later by (auto simp: note_outcome_def)
    with one_admin_users [OF next_login_users [OF l]] inv(1) show ?thesis
      by (simp add: s LoginForm l server_inv_def)
  next
    case (LogoutReq r)
    then show ?thesis using inv(1) later
      by (simp add: s server_inv_def logout_def delete_session_def split: option.split)
  next
    case (BootstrapJson uid salt body)
    then show ?thesis using inv(1) later by (simp add: s server_inv_def bootstrap_admin)
  next
    case (BootstrapForm uid salt tok form)
    then show ?thesis using inv(1) later by (simp add: s server_inv_def next_bootstrap_admin)
  next
    case (ConfirmJson r rnd body)
    obtain c d where a: "auth_middleware cr t r (sv_db sv) = (c, d)" by (metis surj_pair)
    have "one_admin d" using one_admin_users [OF auth_middleware_users [OF a]] inv(1) by simp
    then show ?thesis using later by (simp add: s ConfirmJson a server_inv_def confirm_totp_admin split: option.split)
  next
    case (ConfirmForm r rnd form)
    obtain c d where a: "session_claims cr t r (sv_db sv) = (c, d)" by (metis surj_pair)
    have "one_admin d" using one_admin_users [OF session_claims_users [OF a]] inv(1) by simp
    then show ?thesis using later
      by (simp add: s ConfirmForm a next_auth_def server_inv_def next_totp_confirm_admin split: option.split)
  next
    case (DisableJson r body)
    obtain c d where a: "auth_middleware cr t r (sv_db sv) = (c, d)" by (metis surj_pair)
    have "one_admin d" using one_admin_users [OF auth_middleware_users [OF a]] inv(1) by simp
    then show ?thesis using later by (simp add: s DisableJson a server_inv_def disable_totp_admin split: option.split)
  next
    case (DisableForm r pw)
    obtain c d where a: "session_claims cr t r (sv_db sv) = (c, d)" by (metis surj_pair)
    have "one_admin d" using one_admin_users [OF session_claims_users [OF a]] inv(1) by simp
    then show ?thesis using later
      by (simp add: s DisableForm a next_auth_def server_inv_def next_totp_disable_admin split: option.split)
  next
    case (Visit r)
    obtain c d where a: "auth_middleware cr t r (sv_db sv) = (c, d)" by (metis surj_pair)
    with one_admin_users [OF auth_middleware_users [OF a]] inv(1) later Visit show ?thesis
      by (simp add: s server_inv_def)
  next
    case (VisitStream r)
    obtain c d where a: "auth_middleware_flexible cr t r (sv_db sv) = (c, d)" by (metis surj_pair)
    with one_admin_users [OF flexible_users [OF a]] inv(1) later VisitStream show ?thesis
      by (simp add: s server_inv_def)
  qed
qed

interpretation requests: timed_machine "server_step cr" "\<lambda>now s. 0 \<le> m \<and> 0 < w \<longrightarrow> server_inv m w now s" for cr m w
  by unfold_locales (auto intro: server_step_inv)

text \<open>The limiter and the database of a fresh installation: \<open>NewLoginLimiter(8, 15*time.Minute)\<close>.\<close>

definition lockout_window :: int where
  "lockout_window = 15 * 60 * sec"

definition fresh_server :: server where
  "fresh_server = \<lparr>sv_db = empty_db, sv_login = new_login_limiter 8 lockout_window\<rparr>"

definition serve :: "crypt \<Rightarrow> (int \<times> server_op) list \<Rightarrow> server \<times> (string \<Rightarrow> int list)" where
  "serve cr es = trun (server_step cr) es (fresh_server, \<lambda>_. [])"

lemma serve_inv: "sorted (map fst es) \<Longrightarrow> \<exists>t. server_inv 8 lockout_window t (serve cr es)"
proof (cases es)
  case Nil
  then show ?thesis
    by (auto simp: serve_def server_inv_def fresh_server_def one_admin_def empty_db_def login_inv_init)
next
  case (Cons e es')
  assume so: "sorted (map fst es)"
  have "server_inv 8 lockout_window (fst e) (fresh_server, \<lambda>_. [])"
    by (simp add: server_inv_def fresh_server_def one_admin_def empty_db_def login_inv_init)
  moreover have "sorted (fst e # map fst es)" using so Cons by simp
  ultimately show ?thesis
    using requests.trun_inv [of 8 lockout_window "fst e" "(fresh_server, \<lambda>_. [])" es cr]
    by (auto simp: serve_def lockout_window_def sec_def)
qed

section \<open>Recovery codes\<close>

definition code_char :: "char \<Rightarrow> bool" where
  "code_char c \<longleftrightarrow> c \<in> set recovery_alphabet"

lemma code_char_plain:
  assumes "code_char c"
  shows "plain_char c" "plain_char (lower_char c)" "c \<noteq> CHR ''-''" "lower_char c \<noteq> CHR ''-''" "byte_of c < 128"
    "byte_of (lower_char c) < 128" "upper_char c = c" "upper_char (lower_char c) = c"
proof -
  have "list_all (\<lambda>c. plain_char c \<and> plain_char (lower_char c) \<and> c \<noteq> CHR ''-'' \<and> lower_char c \<noteq> CHR ''-'' \<and>
      byte_of c < 128 \<and> byte_of (lower_char c) < 128 \<and> upper_char c = c \<and> upper_char (lower_char c) = c) recovery_alphabet"
    by code_simp
  with assms show "plain_char c" "plain_char (lower_char c)" "c \<noteq> CHR ''-''" "lower_char c \<noteq> CHR ''-''" "byte_of c < 128"
    "byte_of (lower_char c) < 128" "upper_char c = c" "upper_char (lower_char c) = c"
    by (auto simp: code_char_def list_all_iff)
qed

lemma recovery_char_ok [simp]: "code_char (recovery_char j x)"
proof -
  have "length recovery_alphabet \<noteq> 0" by (simp add: recovery_alphabet_def)
  then show ?thesis by (auto simp: code_char_def recovery_char_def split: option.split intro!: nth_mem)
qed

text \<open>The ways a person types a code: as shown, in lower case, with or without the dash.\<close>

definition spellings :: "string \<Rightarrow> string list" where
  "spellings code = [code, map lower_char code, replace_char (CHR ''-'') [] code,
     map lower_char (replace_char (CHR ''-'') [] code)]"

lemma replace_dash_codes: "list_all code_char s \<Longrightarrow> replace_char (CHR ''-'') [] s = s"
  "list_all code_char s \<Longrightarrow> replace_char (CHR ''-'') [] (map lower_char s) = map lower_char s"
  by (induction s) (auto dest: code_char_plain)

lemma to_upper_codes: "list_all code_char s \<Longrightarrow> to_upper s = s"
  "list_all code_char s \<Longrightarrow> to_upper (map lower_char s) = s"
proof (induction s)
  case (Cons c s)
  case 1
  then have "code_char c" "c \<noteq> CHR 0xC5" "c \<noteq> CHR 0xC4"
    using code_char_plain(5) [of c] by (auto simp: byte_of_def)
  with 1 Cons show ?case by (simp add: code_char_plain)
  case 2
  then have "code_char c" "lower_char c \<noteq> CHR 0xC5" "lower_char c \<noteq> CHR 0xC4"
    using code_char_plain(6) [of c] by (auto simp: byte_of_def)
  with 2 Cons show ?case by (simp add: code_char_plain)
qed simp_all

lemma replace_append: "replace_char c r (x @ y) = replace_char c r x @ replace_char c r y"
  by (simp add: replace_char_def)

lemma lower_dash [simp]: "lower_char (CHR ''-'') = CHR ''-''"
  by code_simp

lemma recovery_code_shape:
  obtains a b where "recovery_code_of draws = a @ ''-'' @ b" "list_all code_char a" "list_all code_char b"
    "length a = 4" "length b = 4"
proof -
  let ?base = "map (\<lambda>j. recovery_char j (draws j)) [0..<8]"
  have "list_all code_char (take 4 ?base)" "list_all code_char (drop 4 ?base)"
    by (auto simp: list_all_iff dest!: in_set_takeD in_set_dropD)
  then show ?thesis by (intro that [of "take 4 ?base" "drop 4 ?base"]) (simp_all add: recovery_code_of_def Let_def)
qed

lemma trim_codes:
  assumes "list_all (\<lambda>c. plain_char c) s"
  shows "trim_space s = s"
  by (rule trim_space_plain) (use assms in \<open>auto simp: list_all_iff\<close>)

lemma spelling_normal:
  assumes "typed \<in> set (spellings (recovery_code_of draws))"
  shows "trim_space typed = typed" "typed \<noteq> []"
    "normalize_recovery typed = replace_char (CHR ''-'') [] (recovery_code_of draws)"
proof -
  obtain a b where c: "recovery_code_of draws = a @ ''-'' @ b" and ab: "list_all code_char a" "list_all code_char b"
    and len: "length a = 4" "length b = 4"
    using recovery_code_shape by blast
  have sp: "typed \<in> {a @ ''-'' @ b, map lower_char a @ ''-'' @ map lower_char b, a @ b, map lower_char (a @ b)}"
    using assms ab by (auto simp: spellings_def c replace_append replace_dash_codes)
  have "plain_char (CHR ''-'')" by code_simp
  then have "list_all plain_char typed"
    using sp ab by (auto simp: list_all_iff code_char_plain)
  then show "trim_space typed = typed" by (rule trim_codes)
  show "typed \<noteq> []" using sp len by auto
  have "list_all code_char (a @ b)" using ab by simp
  then have "to_upper (a @ b) = a @ b" "to_upper (map lower_char (a @ b)) = a @ b"
    using to_upper_codes by blast+
  with sp ab show "normalize_recovery typed = replace_char (CHR ''-'') [] (recovery_code_of draws)"
    by (auto simp: normalize_recovery_def c replace_append replace_dash_codes)
qed

section \<open>Enrolment\<close>

lemma lookup_update_hit:
  "lookup_row k x rows = Some v \<Longrightarrow> (\<And>r. k (f r) = k r) \<Longrightarrow> p v \<Longrightarrow> lookup_row k x (update_rows p f rows) = Some (f v)"
  by (induction rows) (auto simp: lookup_row_def update_rows_def split: if_splits)

lemma enable_totp_users:
  "get_user_by_username d (u_name u) = Inr u \<Longrightarrow>
     \<exists>u'. get_user_by_username (snd (enable_totp cr now rnd u s d)) (u_name u) = Inr u' \<and>
       u_hash u' = u_hash u \<and> u_id u' = u_id u \<and> u_name u' = u_name u \<and> u_role u' = u_role u \<and> u_totp u' = trim_space s"
proof -
  assume g: "get_user_by_username d (u_name u) = Inr u"
  then obtain v where v: "lookup_row u_name (u_name u) (d_users d) = Some v" "u = read_user v"
    by (auto simp: get_user_by_username_def split: option.splits)
  have id: "u_id u = u_id v" "u_name u = u_name v" using v(2) by (simp_all add: read_user_def)
  have l: "lookup_row u_name (u_name u) (update_rows (\<lambda>x. u_id x = u_id u) (u_totp_update (\<lambda>_. trim_space s)) (d_users d)) =
      Some (v\<lparr>u_totp := trim_space s\<rparr>)"
    by (rule lookup_update_hit [OF v(1)]) (simp_all add: id)
  have "d_users (snd (enable_totp cr now rnd u s d)) =
      update_rows (\<lambda>x. u_id x = u_id u) (u_totp_update (\<lambda>_. trim_space s)) (d_users d)"
    by (auto simp: enable_totp_def Let_def set_user_totp_def delete_recovery_codes_def split: option.split)
  with l v(2) show ?thesis
    by (auto simp: get_user_by_username_def read_user_def)
qed

lemma hash_codes_member:
  "hash_codes cr salts i codes = Some hashes \<Longrightarrow> c \<in> set codes \<Longrightarrow>
     \<exists>h s. h \<in> set hashes \<and> bcrypt_gen cr s (replace_char (CHR ''-'') [] c) = Some h"
proof (induction codes arbitrary: i hashes)
  case (Cons a codes)
  then obtain h hs where h: "bcrypt_gen cr (salts i) (replace_char (CHR ''-'') [] a) = Some h"
    "hash_codes cr salts (Suc i) codes = Some hs" "hashes = h # hs"
    by (auto split: option.splits)
  show ?case
  proof (cases "c = a")
    case True
    with h show ?thesis by auto
  next
    case False
    with Cons.prems(2) have "c \<in> set codes" by simp
    from Cons.IH [OF h(2) this] h(3) show ?thesis by auto
  qed
qed simp

lemma save_codes_recovery:
  "d_recovery (save_recovery_codes now user hs d) = d_recovery d @
     map (\<lambda>(uid, h). \<lparr>rc_id = uid, rc_user = user, rc_hash = trim_space h, rc_used = False, rc_created = now\<rparr>)
       (filter (\<lambda>(uid, h). trim_space h \<noteq> []) hs)"
  by (induction now user hs d rule: save_recovery_codes.induct) simp_all

text \<open>What is documented of bcrypt: a hash verifies the password it was made from, and is a non-blank text without surrounding spaces.\<close>

definition bcrypt_law :: "crypt \<Rightarrow> bool" where
  "bcrypt_law cr \<longleftrightarrow>
     (\<forall>s p h. bcrypt_gen cr s p = Some h \<longrightarrow> bcrypt_ok cr h p \<and> trim_space h = h \<and> h \<noteq> [])"

lemma enabled_code_matches:
  assumes law: "bcrypt_law cr" and en: "enable_totp cr now rnd u s d = (TotpEnabled codes, d')"
    and c: "code \<in> set codes" and typed: "typed \<in> set (spellings code)"
  shows "trim_space typed = typed" "typed \<noteq> []" "\<exists>d''. consume_recovery_code cr (u_id u) typed d' = (True, d'')"
proof -
  obtain hashes where h: "hash_codes cr (tr_salts rnd) 0 codes = Some hashes"
    and codes: "codes = generate_recovery_codes (tr_draws rnd) 10"
    and d': "d_recovery d' = d_recovery (delete_recovery_codes (u_id u) (set_user_totp (u_id u) s d)) @
      map (\<lambda>(uid, h). \<lparr>rc_id = uid, rc_user = u_id u, rc_hash = trim_space h, rc_used = False, rc_created = now\<rparr>)
       (filter (\<lambda>(uid, h). trim_space h \<noteq> []) (with_uids (tr_uids rnd) hashes))"
    using en by (auto simp: enable_totp_def Let_def save_codes_recovery split: option.splits)
  obtain draws where dr: "code = recovery_code_of draws"
    using c codes by (auto simp: generate_recovery_codes_def)
  from spelling_normal [of typed draws] typed dr
  show "trim_space typed = typed" "typed \<noteq> []" by auto
  from spelling_normal [of typed draws] typed dr
  have n: "normalize_recovery typed = replace_char (CHR ''-'') [] code" by simp
  obtain hh where hh: "hh \<in> set hashes" "bcrypt_ok cr hh (replace_char (CHR ''-'') [] code)"
      "trim_space hh = hh" "hh \<noteq> []"
    using hash_codes_member [OF h c] law by (auto simp: bcrypt_law_def)
  then obtain i where i: "i < length hashes" "hashes ! i = hh" by (auto simp: in_set_conv_nth)
  then have "(tr_uids rnd i, hh) \<in> set (with_uids (tr_uids rnd) hashes)"
    by (auto simp: with_uids_def in_set_zip intro!: exI [of _ i])
  then have "\<lparr>rc_id = tr_uids rnd i, rc_user = u_id u, rc_hash = hh, rc_used = False, rc_created = now\<rparr>
      \<in> set (get_unused_recovery_codes d' (u_id u))"
    using hh(3,4) by (force simp: get_unused_recovery_codes_def d' image_iff)
  then have "find (\<lambda>rc. bcrypt_ok cr (rc_hash rc) (normalize_recovery typed)) (get_unused_recovery_codes d' (u_id u)) \<noteq> None"
    using hh(2) by (auto simp: find_None_iff n intro!: bexI)
  then show "\<exists>d''. consume_recovery_code cr (u_id u) typed d' = (True, d'')"
    by (auto simp: consume_recovery_code_def)
qed

text \<open>
  The confirmation form replaces the secret of an account whose second factor is on: a session is
  enough, neither the password nor a code of the old secret is asked for.
\<close>

lemma form_replaces_second_factor:
  assumes "request_user c d = Some u" "trim_space secret \<noteq> []" "trim_space code \<noteq> []"
    "validate_base32_secret (trim_space secret)" "totp_valid cr now (trim_space code) (normalize_base32 (trim_space secret))"
  shows "next_totp_confirm cr now rnd c (secret, code) d = enable_totp cr now rnd u (normalize_base32 (trim_space secret)) d"
    "trim_space (u_totp u) \<noteq> [] \<Longrightarrow> confirm_totp cr now rnd c (Some (secret, code)) d =
       (TotpError 400 ''TOTP is already enabled. Disable it before reconfiguring.'', d)"
  using assms by (simp_all add: next_totp_confirm_def confirm_totp_def validate_totp_def Let_def)

section \<open>Properties\<close>

definition toy_crypt :: crypt where
  "toy_crypt = \<lparr>bcrypt_ok = (\<lambda>h p. h = CHR ''#'' # p @ ''#''), bcrypt_gen = (\<lambda>s p. Some (CHR ''#'' # p @ ''#'')),
     totp_valid = (\<lambda>now code secret. code = ''123456''), totp_generate = (\<lambda>r i a. Some r), token_hash = id\<rparr>"

lemma toy_law: "bcrypt_law toy_crypt"
proof -
  have "plain_char (CHR ''#'')" by code_simp
  then show ?thesis by (auto simp: bcrypt_law_def toy_crypt_def intro!: trim_space_plain)
qed

definition toy_user :: user where
  "toy_user = \<lparr>u_id = ''1'', u_name = ''root'', u_role = ''admin'', u_hash = ''#long password#'', u_totp = [], u_created = 0\<rparr>"

definition toy_server :: server where
  "toy_server = \<lparr>sv_db = empty_db\<lparr>d_users := [toy_user]\<rparr>, sv_login = new_login_limiter 8 lockout_window\<rparr>"

definition toy_req :: http_req where
  "toy_req = \<lparr>rq_remote = ''a'', rq_xff = [], rq_real_ip = [], rq_cookie = None, rq_authz = []\<rparr>"

definition toy_login :: login_req where
  "toy_login = \<lparr>lr_username = ''root'', lr_password = ''long password'', lr_code = []\<rparr>"

lemma toy_login_result:
  "fst (login toy_crypt 5 ''tok'' toy_req (Some toy_login) toy_server) = SignedIn ''tok'' ''root'' ''admin''"
  by (simp add: login_def toy_req_def client_ip_def peer_of_def split_host_def trusted_peer_def parse_ip_def Let_def
      login_allowed_def prune_failures_def failures_of_def toy_server_def new_login_limiter_def login_check_def
      get_user_by_username_def lookup_row_def toy_login_def toy_user_def read_user_def check_password_def toy_crypt_def
      start_session_def create_session_def empty_db_def)

text \<open>C1
  The guards are exact: a request gets past \<open>authMiddleware\<close> only with the cookie of a session that
  has not expired, as its user, or with the text of an API token that is not revoked; the dashboard
  only takes the session.\<close>

theorem guards_exact:
  "fst (auth_middleware cr now r d) =
     (case live_session cr now r d of
        Some s \<Rightarrow> Some (claims_of s)
      | None \<Rightarrow>
          if has_prefix (trim_space (rq_authz r)) ''Bearer '' \<and> has_prefix (bearer r) ''pd_'' \<and> live_token cr (bearer r) d
          then Some api_claims else None) \<and>
   fst (auth_middleware_flexible cr now r d) =
     (case live_session cr now r d of
        Some s \<Rightarrow> Some (claims_of s)
      | None \<Rightarrow> if has_prefix (bearer r) ''pd_'' \<and> live_token cr (bearer r) d then Some api_claims else None) \<and>
   fst (next_auth cr now r d) = map_option claims_of (live_session cr now r d)"
  by (simp add: auth_middleware_fst flexible_fst next_auth_def session_claims_live)

text \<open>C2
  Signing in takes every factor: a sign-in through the API or the form is by the password of a
  stored user and, where TOTP is on, by a valid code or by an unused recovery code of that user that
  is used up by it; the cookie is then good for exactly that user.\<close>

theorem sign_in_needs_factors:
  assumes "tok \<noteq> []"
    "login cr now tok r body sv = (SignedIn cookie name role, sv') \<and> body = Some req \<and> n = lr_username req \<or>
     next_login_post cr now tok r req sv = (PageSession cookie dest, sv') \<and> n = trim_space (lr_username req)"
  shows "\<exists>u. factors_ok cr now n req (sv_db sv) (sv_db sv') u \<and> cookie = tok \<and> signed_in_as cr now tok sv' u"
  using assms(2)
proof
  assume l: "login cr now tok r body sv = (SignedIn cookie name role, sv') \<and> body = Some req \<and> n = lr_username req"
  show ?thesis
  proof (cases rule: allowed_cases [of now "client_ip r" "sv_login sv"])
    case (granted ra)
    with l have "login_check cr now tok (client_ip r) body
        (sv\<lparr>sv_login := snd (prune_failures now (client_ip r) (sv_login sv))\<rparr>) = (SignedIn cookie name role, sv')"
      by (auto simp: login_def Let_def)
    from login_check_SignedIn [OF this assms(1)] l show ?thesis by auto
  qed (use l in \<open>auto simp: login_def Let_def split: option.splits\<close>)
next
  assume l: "next_login_post cr now tok r req sv = (PageSession cookie dest, sv') \<and> n = trim_space (lr_username req)"
  then have u: "has_users (sv_db sv)" by (auto simp: next_login_post_def split: if_splits)
  show ?thesis
  proof (cases rule: allowed_cases [of now "client_ip r" "sv_login sv"])
    case (granted ra)
    with l u have "next_login_check cr now tok (client_ip r) req
        (sv\<lparr>sv_login := snd (prune_failures now (client_ip r) (sv_login sv))\<rparr>) = (PageSession cookie dest, sv')"
      by (simp add: next_login_post_def Let_def)
    from next_login_check_Page [OF this assms(1)] l show ?thesis by auto
  qed (use l u in \<open>auto simp: next_login_post_def Let_def split: option.splits\<close>)
qed

theorem sign_in_needs_factors_witness:
  "\<exists>u. factors_ok toy_crypt 5 ''root'' toy_login (sv_db toy_server)
       (sv_db (snd (login toy_crypt 5 ''tok'' toy_req (Some toy_login) toy_server))) u \<and> ''tok'' = ''tok'' \<and>
     signed_in_as toy_crypt 5 ''tok'' (snd (login toy_crypt 5 ''tok'' toy_req (Some toy_login) toy_server)) u"
proof (rule sign_in_needs_factors [where body = "Some toy_login" and name = "''root''" and role = "''admin''" and r = toy_req])
  have "login toy_crypt 5 ''tok'' toy_req (Some toy_login) toy_server =
      (SignedIn ''tok'' ''root'' ''admin'', snd (login toy_crypt 5 ''tok'' toy_req (Some toy_login) toy_server))"
    using toy_login_result by (simp add: prod_eq_iff)
  moreover have "lr_username toy_login = ''root''" by (simp add: toy_login_def)
  ultimately show "login toy_crypt 5 ''tok'' toy_req (Some toy_login) toy_server =
      (SignedIn ''tok'' ''root'' ''admin'', snd (login toy_crypt 5 ''tok'' toy_req (Some toy_login) toy_server)) \<and>
      Some toy_login = Some toy_login \<and> ''root'' = lr_username toy_login \<or>
      next_login_post toy_crypt 5 ''tok'' toy_req toy_login toy_server = (PageSession ''tok'' [], snd (login toy_crypt 5 ''tok'' toy_req (Some toy_login) toy_server)) \<and>
      ''root'' = trim_space (lr_username toy_login)" by simp
qed simp

text \<open>C13
  The password cannot be guessed from one address: over any time-ordered sequence of requests of
  every kind from a fresh installation, a client is told at most eight times in any fifteen minutes
  since its last sign-in that its credentials are wrong.\<close>

theorem guessing_bounded:
  assumes "sorted (map fst es)"
  shows "length (in_window lockout_window u (snd (serve cr es) ip)) \<le> 8"
proof -
  obtain t where "server_inv 8 lockout_window t (serve cr es)" using serve_inv [OF assms] by blast
  then have "login_inv 8 lockout_window t (sv_login (fst (serve cr es)), snd (serve cr es))"
    by (simp add: server_inv_def)
  from login_invD(5) [OF this order_refl, of u ip] show ?thesis by simp
qed

theorem guessing_bounded_witness:
  "length (in_window lockout_window 9 (snd (serve toy_crypt
     [(1, BootstrapJson ''1'' [] (Some (''root'', ''long password''))), (5, LoginJson toy_req (Some toy_login) ''t'')]) ''a'')) \<le> 8"
  by (rule guessing_bounded) simp

text \<open>
  There is never more than one account and it is an admin: no sequence of requests, whatever its
  order, creates a second user or changes the role.\<close>

theorem one_admin_only:
  assumes "sorted (map fst es)"
  shows "length (d_users (sv_db (fst (serve cr es)))) \<le> 1 \<and>
    set (map u_role (d_users (sv_db (fst (serve cr es))))) \<subseteq> {''admin''}"
  using serve_inv [OF assms, of cr] by (auto simp: server_inv_def one_admin_def)

theorem one_admin_only_witness:
  "length (d_users (sv_db (fst (serve toy_crypt
     [(1, BootstrapJson ''1'' [] (Some (''root'', ''long password''))), (5, LoginJson toy_req (Some toy_login) ''t'')])))) \<le> 1 \<and>
   set (map u_role (d_users (sv_db (fst (serve toy_crypt
     [(1, BootstrapJson ''1'' [] (Some (''root'', ''long password''))), (5, LoginJson toy_req (Some toy_login) ''t'')]))))) \<subseteq> {''admin''}"
  by (rule one_admin_only) simp

text \<open>
  Recovery codes work: after TOTP was confirmed, each of the ten codes shown signs the user in with
  the password, in upper or lower case and with or without its dash, even when it is no valid TOTP code.\<close>

theorem recovery_codes_work:
  assumes law: "bcrypt_law cr"
    and user: "get_user_by_username d (u_name u) = Inr u" "trim_space secret = secret" "secret \<noteq> []"
    and en: "enable_totp cr now rnd u secret d = (TotpEnabled codes, d')"
    and c: "code \<in> set codes" "typed \<in> set (spellings code)"
    and pw: "bcrypt_ok cr (u_hash u) password"
    and fresh: "\<forall>s \<in> set (d_sessions d'). se_hash s \<noteq> token_hash cr tok"
  shows "fst (login_check cr t tok ip (Some \<lparr>lr_username = u_name u, lr_password = password, lr_code = typed\<rparr>)
      (sv\<lparr>sv_db := d'\<rparr>)) = SignedIn tok (u_name u) (u_role u)"
proof -
  obtain u' where u': "get_user_by_username d' (u_name u) = Inr u'" "u_hash u' = u_hash u" "u_id u' = u_id u"
      "u_name u' = u_name u" "u_role u' = u_role u" "u_totp u' = secret"
    using enable_totp_users [OF user(1), of cr now rnd secret] en user(2) by auto
  note m = enabled_code_matches [OF law en c]
  obtain d'' where d'': "consume_recovery_code cr (u_id u) typed d' = (True, d'')" using m(3) by blast
  have s: "fst (start_session cr t tok ip u' (sv\<lparr>sv_db := x\<rparr>)) = SignedIn tok (u_name u) (u_role u)"
    if "d_sessions x = d_sessions d'" for x
    using fresh u' that by (auto simp: start_session_def create_session_def Let_def)
  have "d_sessions d'' = d_sessions d'" using consume_recovery_True [OF d''] by simp
  with s [of d''] s [of d'] show ?thesis
    using u' m(1,2) pw d'' user by (auto simp: login_check_def check_password_def Let_def)
qed

lemma save_codes_sessions [simp]: "d_sessions (save_recovery_codes now user hs d) = d_sessions d"
  by (induction now user hs d rule: save_recovery_codes.induct) simp_all

definition toy_random :: totp_random where
  "toy_random = \<lparr>tr_draws = (\<lambda>i j. Some (i + j)), tr_salts = (\<lambda>_. []), tr_uids = itoan\<rparr>"

theorem recovery_codes_work_witness:
  "fst (login_check toy_crypt 9 ''tok'' ''a'' (Some \<lparr>lr_username = u_name toy_user, lr_password = ''long password'', lr_code = ''bcdefghi''\<rparr>)
      (toy_server\<lparr>sv_db := snd (enable_totp toy_crypt 5 toy_random toy_user ''JBSWY3DP'' (sv_db toy_server))\<rparr>)) =
   SignedIn ''tok'' (u_name toy_user) (u_role toy_user)"
proof (rule recovery_codes_work [OF toy_law, where codes = "generate_recovery_codes (tr_draws toy_random) 10" and code = "''BCDE-FGHI''"])
  have "hash_codes toy_crypt salts i cs = Some (map (\<lambda>c. CHR ''#'' # replace_char (CHR ''-'') [] c @ ''#'') cs)" for salts i cs
    by (induction cs arbitrary: i) (simp_all add: toy_crypt_def)
  then show "enable_totp toy_crypt 5 toy_random toy_user ''JBSWY3DP'' (sv_db toy_server) =
      (TotpEnabled (generate_recovery_codes (tr_draws toy_random) 10), snd (enable_totp toy_crypt 5 toy_random toy_user ''JBSWY3DP'' (sv_db toy_server)))"
    by (simp add: enable_totp_def Let_def)
  show "\<forall>s \<in> set (d_sessions (snd (enable_totp toy_crypt 5 toy_random toy_user ''JBSWY3DP'' (sv_db toy_server)))).
      se_hash s \<noteq> token_hash toy_crypt ''tok''"
    by (auto simp: enable_totp_def Let_def set_user_totp_def delete_recovery_codes_def toy_server_def empty_db_def split: option.splits)
  have "recovery_code_of (\<lambda>j. Some (1 + j)) = ''BCDE-FGHI''" by code_simp
  then show "''BCDE-FGHI'' \<in> set (generate_recovery_codes (tr_draws toy_random) 10)"
    by (auto simp: generate_recovery_codes_def toy_random_def Let_def intro!: image_eqI [of _ _ "1 :: nat"])
  show "''bcdefghi'' \<in> set (spellings ''BCDE-FGHI'')" by code_simp
  show "trim_space ''JBSWY3DP'' = ''JBSWY3DP''" by code_simp
qed (simp_all add: toy_server_def toy_user_def get_user_by_username_def lookup_row_def read_user_def empty_db_def toy_crypt_def)

end
