(* ===== verification/HostRows.thy ===== *)
theory HostRows
  imports HostRequests
begin

text \<open>
  What every stored host is after any sequence of host requests: a complete target with a port in
  range, a known login method and policy, and sealed credentials that open to exactly the secrets
  its login method uses.
\<close>

definition secrets_fit :: "string \<Rightarrow> secrets \<Rightarrow> bool" where
  "secrets_fit auth s \<longleftrightarrow>
     (if auth = ''password'' then s_password s \<noteq> [] \<and> s_key s = [] \<and> s_passphrase s = []
      else if auth = ''key'' then s_key s \<noteq> [] \<and> s_password s = []
      else s_password s = [] \<and> s_key s = [] \<and> s_passphrase s = [])"

definition known_auth :: "string \<Rightarrow> bool" where
  "known_auth auth \<longleftrightarrow> auth = ''password'' \<or> auth = ''key'' \<or> auth = auth_app_key"

definition host_ok :: "vault \<Rightarrow> host \<Rightarrow> bool" where
  "host_ok v h \<longleftrightarrow> h_name h \<noteq> [] \<and> h_address h \<noteq> [] \<and> h_ssh_user h \<noteq> [] \<and> 1 \<le> h_port h \<and> h_port h \<le> 65535 \<and>
     known_auth (h_auth_type h) \<and> h_trust_mode h \<in> {''tofu'', ''pinned''} \<and>
     h_policy h \<in> {''manual'', ''scheduled_apply''} \<and> h_key_required h \<and> h_secret h \<noteq> [] \<and>
     (\<exists>s. va_open v (h_secret h) = Some s \<and> secrets_fit (h_auth_type h) s)"

definition hosts_ok :: "vault \<Rightarrow> db \<Rightarrow> bool" where
  "hosts_ok v d \<longleftrightarrow> (\<forall>h \<in> set (d_hosts d). host_ok v h)"

text \<open>What is documented of the encryption: a sealed text is not empty and opens to what was sealed.\<close>

definition vault_law :: "vault \<Rightarrow> bool" where
  "vault_law v \<longleftrightarrow> (\<forall>n s c. va_seal v n s = Some c \<longrightarrow> c \<noteq> [] \<and> va_open v c = Some s)"

section \<open>Statements keep the rows\<close>

lemma plain_literals:
  "trim_space ''manual'' = ''manual''" "to_lower ''manual'' = ''manual''"
  "trim_space ''scheduled_apply'' = ''scheduled_apply''" "to_lower ''scheduled_apply'' = ''scheduled_apply''"
  "trim_space ''tofu'' = ''tofu''" "to_lower ''tofu'' = ''tofu''"
  "trim_space ''pinned'' = ''pinned''" "to_lower ''pinned'' = ''pinned''"
  by code_simp+

lemma hosts_ok_same: "d_hosts d' = d_hosts d \<Longrightarrow> hosts_ok v d' = hosts_ok v d"
  by (simp add: hosts_ok_def)

lemma hosts_ok_rows:
  "hosts_ok v d \<Longrightarrow> (\<And>h. host_ok v h \<Longrightarrow> host_ok v (f h)) \<Longrightarrow> d_hosts d' = update_rows p f (d_hosts d) \<Longrightarrow> hosts_ok v d'"
  by (auto simp: hosts_ok_def)

lemma hosts_ok_row [intro]:
  "hosts_ok v d \<Longrightarrow> (\<And>h. host_ok v h \<Longrightarrow> host_ok v (f h)) \<Longrightarrow> hosts_ok v (update_host_row i f d)"
  by (erule hosts_ok_rows) (auto simp: update_host_row_def)

lemma hosts_ok_one:
  "hosts_ok v d \<Longrightarrow> (\<And>h. host_ok v h \<Longrightarrow> host_ok v (f h)) \<Longrightarrow> update_one_host i f d = Inr d' \<Longrightarrow> hosts_ok v d'"
  by (auto simp: update_one_host_def split: if_splits)

lemma hosts_ok_activity [simp]: "hosts_ok v (record_activity now i n e s d) = hosts_ok v d"
  by (simp add: hosts_ok_def record_activity_def)

lemma hosts_ok_audit [simp]: "hosts_ok v (record_host_key_audit u t i e p n m d) = hosts_ok v d"
  by (simp add: hosts_ok_def record_host_key_audit_def)

lemma hosts_ok_keep: "hosts_ok v d \<Longrightarrow> (\<And>d'. r = Inr d' \<Longrightarrow> hosts_ok v d') \<Longrightarrow> hosts_ok v (keep r d)"
  by (auto simp: keep_def split: sum.split)

lemma tags_ok: "hosts_ok v d \<Longrightarrow> hosts_ok v (keep (update_host_tags i ts d) d)"
  unfolding update_host_tags_def
proof (rule hosts_ok_keep)
  fix d' assume "update_one_host i (h_tags_update (\<lambda>_. ts)) d = Inr d'" "hosts_ok v d"
  then show "hosts_ok v d'" by (rule hosts_ok_one [rotated 2]) (auto simp: host_ok_def)
qed

lemma controls_ok:
  assumes "hosts_ok v d" "trim_space (to_lower p) \<in> {''manual'', ''scheduled_apply''}"
    "update_host_operational_controls i c p d = Inr d'"
  shows "hosts_ok v d'"
  by (rule hosts_ok_one [OF assms(1) _ assms(3) [unfolded update_host_operational_controls_def Let_def]])
    (use assms(2) in \<open>auto simp: host_ok_def\<close>)

lemma key_policy_ok:
  assumes "hosts_ok v d" "m \<in> {''tofu'', ''pinned''}" "update_host_key_policy i True m p d = Inr d'"
  shows "hosts_ok v d'"
  by (rule hosts_ok_one [OF assms(1) _ assms(3) [unfolded update_host_key_policy_def Let_def]])
    (use assms(2) in \<open>auto simp: host_ok_def plain_literals simp del: to_lower.simps\<close>)

lemma form_policy_word: "trim_space (to_lower (form_policy_of p)) \<in> {''manual'', ''scheduled_apply''}"
  by (simp add: form_policy_of_def plain_literals del: to_lower.simps)

lemma delete_ok: "hosts_ok v d \<Longrightarrow> delete_host i d = Inr d' \<Longrightarrow> hosts_ok v d'"
  by (auto simp: delete_host_def reconcile_jobs_after_host_delete_def Let_def hosts_ok_def split: if_splits)

section \<open>Validated requests\<close>

lemma scrub_keeps [simp]:
  "hu_name (scrub_for_auth r) = hu_name r" "hu_address (scrub_for_auth r) = hu_address r"
  "hu_port (scrub_for_auth r) = hu_port r" "hu_user (scrub_for_auth r) = hu_user r"
  "hu_auth (scrub_for_auth r) = hu_auth r" "hu_mode (scrub_for_auth r) = hu_mode r"
  "hu_pinned (scrub_for_auth r) = hu_pinned r" "hu_tags (scrub_for_auth r) = hu_tags r"
  "hu_required (scrub_for_auth r) = hu_required r"
  by (simp_all add: scrub_for_auth_def Let_def)

lemma scrub_idem: "scrub_for_auth (scrub_for_auth r) = scrub_for_auth r"
  by (simp add: scrub_for_auth_def Let_def auth_app_key_def)

lemma valid_iff:
  "validate_host_request r = [] \<longleftrightarrow>
     1 \<le> hu_port r \<and> hu_port r \<le> 65535 \<and> hu_required r \<noteq> Some False \<and>
     hu_name r \<noteq> [] \<and> hu_address r \<noteq> [] \<and> hu_user r \<noteq> [] \<and> known_auth (hu_auth r) \<and>
     (hu_auth r = ''password'' \<longrightarrow> s_password (hu_secrets r) \<noteq> []) \<and>
     (hu_auth r = ''key'' \<longrightarrow> s_key (hu_secrets r) \<noteq> []) \<and>
     (hu_mode r = ''tofu'' \<or> hu_mode r = ''pinned'') \<and> (hu_mode r = ''pinned'' \<longrightarrow> hu_pinned r \<noteq> [])"
proof -
  have if_nil: "(if c then x # xs else ys) = [] \<longleftrightarrow> \<not> c \<and> ys = []" for c x xs and ys :: string
    by simp
  show ?thesis
    unfolding validate_host_request_def if_nil known_auth_def by (simp add: not_less)
qed

lemma valid_fields:
  assumes "validate_host_request r = []"
  shows "1 \<le> hu_port r" "hu_port r \<le> 65535" "hu_name r \<noteq> []" "hu_address r \<noteq> []" "hu_user r \<noteq> []"
    "known_auth (hu_auth r)" "hu_mode r \<in> {''tofu'', ''pinned''}"
    "hu_auth r = ''password'' \<Longrightarrow> s_password (hu_secrets r) \<noteq> []"
    "hu_auth r = ''key'' \<Longrightarrow> s_key (hu_secrets r) \<noteq> []"
  using assms by (auto simp: valid_iff)

lemma valid_secrets_fit:
  assumes "validate_host_request r = []"
  shows "secrets_fit (hu_auth r) (hu_secrets (scrub_for_auth r))"
proof -
  consider "hu_auth r = ''password''" | "hu_auth r = ''key''" | "hu_auth r = auth_app_key"
    using valid_fields(6) [OF assms] by (auto simp: known_auth_def)
  then show ?thesis
    using valid_fields(8,9) [OF assms]
    by cases (simp_all add: secrets_fit_def scrub_for_auth_def Let_def auth_app_key_def)
qed

lemma merge_scrubbed:
  assumes "merge_host_secrets r stored = (removed, r')"
  shows "scrub_for_auth r' = r'"
  using assms by (auto simp: merge_host_secrets_def Let_def scrub_idem)

lemma new_host_ok:
  assumes law: "vault_law v" and val: "validate_host_request r = []"
    and enc: "encrypt_host_secrets v nonce (scrub_for_auth r) = Some enc"
  shows "host_ok v (new_host (scrub_for_auth r) enc)"
  using valid_fields [OF val] valid_secrets_fit [OF val] enc law
  by (auto simp: host_ok_def new_host_def encrypt_host_secrets_def vault_law_def)

lemma create_row_ok:
  assumes "hosts_ok v d" "host_ok v h" "create_host uid now h d = Inr (i, d')"
  shows "hosts_ok v d'"
proof -
  have f: "h_policy h \<in> {''manual'', ''scheduled_apply''}" "h_trust_mode h \<in> {''tofu'', ''pinned''}"
    using assms(2) by (auto simp: host_ok_def)
  have w: "trim_space (h_policy h) = h_policy h" "h_policy h \<noteq> []"
      "to_lower (trim_space (h_trust_mode h)) = h_trust_mode h" "h_trust_mode h \<noteq> []"
    using f by (auto simp: plain_literals simp del: to_lower.simps)
  obtain row where row: "d_hosts d' = d_hosts d @ [row]" "host_ok v row = host_ok v h"
    using assms(3) w by (auto simp: create_host_def Let_def host_ok_def split: if_splits)
  with assms(1,2) show ?thesis by (auto simp: hosts_ok_def)
qed

lemma update_row_ok:
  assumes "hosts_ok v d" "host_ok v h" "update_host h d = Inr d'"
  shows "hosts_ok v d'"
proof -
  have "update_one_host (h_id h) (\<lambda>r. r\<lparr>h_name := h_name h, h_address := h_address h, h_port := h_port h,
      h_ssh_user := h_ssh_user h, h_auth_type := h_auth_type h, h_secret := h_secret h\<rparr>) d = Inr d'"
    using assms(3) by (simp add: update_host_def split: if_splits)
  from hosts_ok_one [OF assms(1) _ this] assms(2) show ?thesis by (auto simp: host_ok_def)
qed

lemma updated_host_ok: "host_ok v (updated_host i r enc) = host_ok v (new_host r enc)"
  by (simp add: updated_host_def host_ok_def)

section \<open>Requests keep the rows\<close>

lemma tag_step_ok:
  "hosts_ok v d \<Longrightarrow> hosts_ok v (case tags of None \<Rightarrow> d | Some ts \<Rightarrow> keep (update_host_tags i ts d) d)"
  by (simp add: tags_ok split: option.split)

lemma create_host_req_ok:
  assumes "vault_law v" "hosts_ok v d"
  shows "hosts_ok v (snd (create_host_req v nonce uid now body d))"
  using assms unfolding create_host_req_def Let_def
  by (auto split: option.splits sum.splits db_err.splits intro!: tags_ok
      dest!: create_row_ok [OF assms(2) new_host_ok [OF assms(1)]])

lemma update_host_req_ok:
  assumes "vault_law v" "hosts_ok v d"
  shows "hosts_ok v (snd (update_host_req v nonce now i body d))"
proof -
  have u: "hosts_ok v d1"
    if "validate_host_request r = []" "encrypt_host_secrets v nonce (scrub_for_auth r) = Some enc"
      "update_host (updated_host i (scrub_for_auth r) enc) d = Inr d1" for r enc d1
    using update_row_ok [OF assms(2) _ that(3)] new_host_ok [OF assms(1) that(1,2)] by (simp add: updated_host_ok)
  show ?thesis
    using assms unfolding update_host_req_def Let_def
    by (auto split: option.splits sum.splits db_err.splits prod.splits intro!: tags_ok
        dest: valid_fields(7) u key_policy_ok [OF u])
qed

lemma next_host_create_ok:
  assumes "vault_law v" "hosts_ok v d"
  shows "hosts_ok v (snd (next_host_create v nonce uid now f d))"
proof -
  have rest: "hosts_ok v (keep (update_host_key_policy i True ''pinned'' [] (keep (update_host_tags i ts
      (keep (update_host_operational_controls i c (form_policy_of p) d1) d1)) (keep (update_host_operational_controls i c (form_policy_of p) d1) d1)))
      (keep (update_host_tags i ts (keep (update_host_operational_controls i c (form_policy_of p) d1) d1))
         (keep (update_host_operational_controls i c (form_policy_of p) d1) d1)))" (is "hosts_ok v (keep _ ?d3)")
    if "hosts_ok v d1" for i ts c p d1
  proof -
    have "hosts_ok v (keep (update_host_operational_controls i c (form_policy_of p) d1) d1)"
      by (rule hosts_ok_keep [OF that]) (use that in \<open>auto intro: controls_ok [OF _ form_policy_word]\<close>)
    then have d3: "hosts_ok v ?d3" by (rule tags_ok)
    then show ?thesis by (rule hosts_ok_keep) (auto intro: key_policy_ok [OF d3])
  qed
  show ?thesis
    using assms unfolding next_host_create_def Let_def
    by (auto split: option.splits sum.splits db_err.splits intro!: rest
        dest!: create_row_ok [OF assms(2) new_host_ok [OF assms(1)]])
qed

lemma valid_dummy_policy:
  "validate_host_request (r\<lparr>hu_mode := ''tofu'', hu_pinned := []\<rparr>) = [] \<Longrightarrow> scrub_for_auth r = r \<Longrightarrow>
     scrub_for_auth (r\<lparr>hu_mode := ''tofu'', hu_pinned := []\<rparr>) = r\<lparr>hu_mode := ''tofu'', hu_pinned := []\<rparr>"
  by (cases r) (simp add: scrub_for_auth_def Let_def auth_app_key_def split: if_splits)

lemma next_host_update_ok:
  assumes "vault_law v" "hosts_ok v d"
  shows "hosts_ok v (snd (next_host_update v nonce now i f d))"
proof -
  have u: "hosts_ok v d1"
    if "merge_host_secrets r0 stored = (removed, r)" "validate_host_request (r\<lparr>hu_mode := ''tofu'', hu_pinned := []\<rparr>) = []"
      "encrypt_host_secrets v nonce (r\<lparr>hu_mode := ''tofu'', hu_pinned := []\<rparr>) = Some enc"
      "update_host (updated_host i (r\<lparr>hu_mode := ''tofu'', hu_pinned := []\<rparr>) enc) d = Inr d1" for r0 stored removed r enc d1
  proof -
    let ?r = "r\<lparr>hu_mode := ''tofu'', hu_pinned := []\<rparr>"
    have s: "scrub_for_auth ?r = ?r" by (rule valid_dummy_policy [OF that(2) merge_scrubbed [OF that(1)]])
    show ?thesis
      using update_row_ok [OF assms(2) _ that(4)] new_host_ok [OF assms(1) that(2), of nonce enc] that(3) s
      by (simp add: updated_host_ok)
  qed
  have rest: "hosts_ok v (keep (update_host_tags i ts (keep (update_host_operational_controls i c (form_policy_of p) d1) d1))
         (keep (update_host_operational_controls i c (form_policy_of p) d1) d1))" if "hosts_ok v d1" for ts c p d1
    by (rule tags_ok, rule hosts_ok_keep [OF that]) (use that in \<open>auto intro: controls_ok [OF _ form_policy_word]\<close>)
  show ?thesis
    using assms unfolding next_host_update_def Let_def
    by (auto split: option.splits sum.splits db_err.splits prod.splits intro!: rest dest: u)
qed

section \<open>Any sequence of host requests\<close>

lemma delete_host_req_ok: "hosts_ok v d \<Longrightarrow> hosts_ok v (snd (delete_host_req now i d))"
  by (auto simp: delete_host_req_def Let_def split: sum.splits db_err.splits intro: delete_ok)

lemma next_host_delete_ok: "hosts_ok v d \<Longrightarrow> hosts_ok v (snd (next_host_delete now i d))"
  by (auto simp: next_host_delete_def Let_def split: sum.splits intro: delete_ok)

lemma put_controls_ok:
  assumes "hosts_ok v d"
  shows "hosts_ok v (snd (put_host_operational_controls i body d))"
proof -
  have u: "hosts_ok v d'" if "update_host_operational_controls i c p d = Inr d'" "p = ''manual'' \<or> p = ''scheduled_apply''" for c p d'
    using controls_ok [OF assms _ that(1)] that(2) by (auto simp: plain_literals simp del: to_lower.simps)
  show ?thesis
    using assms by (auto simp: put_host_operational_controls_def split: sum.splits db_err.splits option.splits prod.splits dest: u)
qed

lemma prefs_ok: "hosts_ok v d \<Longrightarrow> hosts_ok v (upsert_host_notification_prefs i p d)"
  by (simp add: upsert_host_notification_prefs_def hosts_ok_def)

lemma accept_pending_ok:
  assumes "hosts_ok v d" "accept_host_key_pending_fingerprint t i d = Inr d'"
  shows "hosts_ok v d'"
proof -
  have "d_hosts d' = update_rows (\<lambda>r. h_id r = i \<and> sql_trim (h_pending r) \<noteq> [])
      (\<lambda>r. r\<lparr>h_trusted := h_pending r, h_pinned := (if h_trust_mode r = ''pinned'' then h_pending r else h_pinned r),
             h_pending := [], h_verified_at := Some t\<rparr>) (d_hosts d)"
    using assms(2) unfolding accept_host_key_pending_fingerprint_def Let_def by (simp split: if_splits) force
  from hosts_ok_rows [OF assms(1) _ this] show ?thesis by (simp add: host_ok_def)
qed

lemma clear_pending_ok:
  assumes "hosts_ok v d" "clear_host_key_pending_fingerprint i d = Inr d'"
  shows "hosts_ok v d'"
  by (rule hosts_ok_one [OF assms(1) _ assms(2) [unfolded clear_host_key_pending_fingerprint_def]])
    (simp add: host_ok_def)

lemma trust_ok: "hosts_ok v d \<Longrightarrow> hosts_ok v (trust_host_key_first_use t i fp d)"
  by (auto simp: trust_host_key_first_use_def host_ok_def)

lemma pending_ok: "hosts_ok v d \<Longrightarrow> hosts_ok v (set_host_key_pending_fingerprint i fp d)"
  by (auto simp: set_host_key_pending_fingerprint_def host_ok_def)

lemma verified_ok: "hosts_ok v d \<Longrightarrow> hosts_ok v (mark_host_key_verified t i d)"
  by (auto simp: mark_host_key_verified_def host_ok_def)

lemma verify_ok: "hosts_ok v d \<Longrightarrow> hosts_ok v (snd (verify_host_key u t h fp d))"
  by (simp add: verify_host_key_def Let_def block_key_def trust_ok pending_ok verified_ok)

lemma put_policy_ok: "hosts_ok v d \<Longrightarrow> hosts_ok v (snd (put_host_key_policy u t i body d))"
  by (auto simp: put_host_key_policy_def Let_def split: sum.splits option.splits dest: key_policy_ok)

lemma accept_new_ok: "hosts_ok v d \<Longrightarrow> hosts_ok v (snd (accept_host_key_fingerprint u t i body d))"
  unfolding accept_host_key_fingerprint_def Let_def
  by (simp split: sum.split option.split) (metis accept_pending_ok)

lemma deny_new_ok: "hosts_ok v d \<Longrightarrow> hosts_ok v (snd (deny_host_key_fingerprint u t i body d))"
  unfolding deny_host_key_fingerprint_def Let_def
  by (simp split: sum.split option.split) (metis clear_pending_ok)

lemma web_accept_ok: "hosts_ok v d \<Longrightarrow> hosts_ok v (next_host_key_accept u t i d)"
  unfolding next_host_key_accept_def Let_def by (simp split: sum.split) (metis accept_pending_ok)

lemma web_deny_ok: "hosts_ok v d \<Longrightarrow> hosts_ok v (next_host_key_deny u t i d)"
  unfolding next_host_key_deny_def Let_def by (simp split: sum.split) (metis clear_pending_ok)

lemma key_events_ok: "hosts_ok v d \<Longrightarrow> hosts_ok v (key_step e d)"
  by (cases e) (simp_all add: verify_ok put_policy_ok accept_new_ok deny_new_ok web_accept_ok web_deny_ok split: sum.split)

datatype host_req =
    CreateJson string string "host_upsert option"
  | UpdateJson string string "host_upsert option"
  | DeleteJson string
  | ControlsJson string "(bool option \<times> string option) option"
  | PrefsJson string "host_prefs option"
  | CreateForm string string "string \<Rightarrow> string"
  | UpdateForm string string "string \<Rightarrow> string"
  | DeleteForm string
  | PrefsForm string "string \<Rightarrow> string"
  | KeyReq key_op

fun host_req_step :: "vault \<Rightarrow> int \<times> host_req \<Rightarrow> db \<Rightarrow> db" where
  "host_req_step v (t, CreateJson n uid body) d = snd (create_host_req v n uid t body d)"
| "host_req_step v (t, UpdateJson n i body) d = snd (update_host_req v n t i body d)"
| "host_req_step v (t, DeleteJson i) d = snd (delete_host_req t i d)"
| "host_req_step v (t, ControlsJson i body) d = snd (put_host_operational_controls i body d)"
| "host_req_step v (t, PrefsJson i body) d = snd (put_host_notification_prefs i body d)"
| "host_req_step v (t, CreateForm n uid f) d = snd (next_host_create v n uid t f d)"
| "host_req_step v (t, UpdateForm n i f) d = snd (next_host_update v n t i f d)"
| "host_req_step v (t, DeleteForm i) d = snd (next_host_delete t i d)"
| "host_req_step v (t, PrefsForm i f) d = snd (next_host_notif_prefs i f d)"
| "host_req_step v (t, KeyReq e) d = key_step e d"

lemma host_req_step_ok:
  assumes "vault_law v" "hosts_ok v d"
  shows "hosts_ok v (host_req_step v e d)"
proof (cases "(v, e, d)" rule: host_req_step.cases)
  case (5 v' t i body d')
  with assms show ?thesis by (auto simp: put_host_notification_prefs_def prefs_ok split: sum.splits option.splits)
next
  case (9 v' t i f d')
  with assms show ?thesis by (auto simp: next_host_notif_prefs_def prefs_ok split: sum.splits)
qed (use assms in \<open>simp_all add: create_host_req_ok update_host_req_ok delete_host_req_ok put_controls_ok
      next_host_create_ok next_host_update_ok next_host_delete_ok key_events_ok\<close>)

interpretation host_requests: machine "host_req_step v" "\<lambda>_. True" "\<lambda>d. vault_law v \<longrightarrow> hosts_ok v d" for v
  by unfold_locales (simp add: host_req_step_ok)

section \<open>A host added in the dashboard\<close>

lemma update_one_row:
  assumes "host_row i d = Some h"
  shows "\<exists>d'. update_one_host i f d = Inr d'"
proof -
  have "rows_affected (\<lambda>r. h_id r = i) (d_hosts d) \<noteq> 0"
    using lookup_row_Some [OF assms] by (auto simp: rows_affected_0)
  then show ?thesis by (simp add: update_one_host_def)
qed

lemma row_keep_one:
  assumes "\<And>r. h_id (f r) = h_id r"
  shows "host_row i (keep (update_one_host i f d) d) = map_option f (host_row i d)"
proof (cases "rows_affected (\<lambda>r. h_id r = i) (d_hosts d) = 0")
  case True
  then have "host_row i d = None" by (auto simp: rows_affected_0 lookup_row_None)
  with True show ?thesis by (simp add: keep_def update_one_host_def)
next
  case False
  then show ?thesis using assms by (simp add: keep_def update_one_host_def)
qed

lemma row_activity [simp]: "host_row i (record_activity now j n e s d) = host_row i d"
  by (simp add: record_activity_def)

lemma create_row:
  assumes "create_host uid now h d = Inr (i, d1)"
  shows "i = uid" "\<exists>r. host_row uid d1 = Some r \<and> h_trusted r = trim_space (h_trusted h)"
proof -
  show "i = uid" using assms by (auto simp: create_host_def Let_def split: if_splits)
  have n: "\<forall>r \<in> set (d_hosts d). h_id r \<noteq> uid"
    using assms by (auto simp: create_host_def Let_def split: if_splits)
  obtain row where row: "d_hosts d1 = d_hosts d @ [row]" "h_id row = uid" "h_trusted row = trim_space (h_trusted h)"
    using assms by (auto simp: create_host_def Let_def split: if_splits)
  have "lookup_row h_id uid (rows @ [row]) = Some row" if "\<forall>r \<in> set rows. h_id r \<noteq> uid" for rows
    using that row(2) by (induction rows) (auto simp: lookup_row_def)
  from this [OF n] row show "\<exists>r. host_row uid d1 = Some r \<and> h_trusted r = trim_space (h_trusted h)" by auto
qed

lemma next_host_create_row:
  assumes "next_host_create v nonce uid now f d = (GoTo dest, d')"
  shows "\<exists>r. host_row uid d' = Some r \<and> h_trust_mode r = ''pinned'' \<and> h_pinned r = [] \<and> h_trusted r = []"
proof -
  let ?req = "normalize_host_request (form_host_req f)"
  obtain enc i d1 where c: "create_host uid now (new_host (scrub_for_auth ?req) enc) d = Inr (i, d1)"
    and d': "d' = record_activity now i (hu_name (scrub_for_auth ?req)) ''host_added'' (host_added_text (scrub_for_auth ?req))
      (keep (update_host_key_policy i True ''pinned'' []
        (keep (update_host_tags i (tag_list (scrub_for_auth ?req))
          (keep (update_host_operational_controls i (form_checks f) (form_policy_of (form_policy f)) d1) d1))
          (keep (update_host_operational_controls i (form_checks f) (form_policy_of (form_policy f)) d1) d1)))
        (keep (update_host_tags i (tag_list (scrub_for_auth ?req))
          (keep (update_host_operational_controls i (form_checks f) (form_policy_of (form_policy f)) d1) d1))
          (keep (update_host_operational_controls i (form_checks f) (form_policy_of (form_policy f)) d1) d1)))"
    using assms by (auto simp: next_host_create_def Let_def split: if_splits option.splits sum.splits db_err.splits)
  obtain r where i: "i = uid" and r: "host_row uid d1 = Some r" "h_trusted r = []"
    using create_row [OF c] by (auto simp: new_host_def)
  show ?thesis
    unfolding d' i row_activity
    by (simp add: update_host_key_policy_def update_host_tags_def update_host_operational_controls_def Let_def
        row_keep_one r plain_literals del: to_lower.simps)
qed

text \<open>
  An operator's approval: the first key such a host presents is refused and kept for review, and
  once it is approved it is the only key that gets through.
\<close>

lemma sql_trim_blank:
  assumes "sql_trim s = []"
  shows "\<forall>c \<in> set s. c = CHR '' ''"
proof (cases "dropWhile (\<lambda>c. c = CHR '' '') s")
  case Nil
  then show ?thesis by (simp add: dropWhile_eq_Nil_conv)
next
  case (Cons x xs)
  then have "x \<noteq> CHR '' ''" by (simp add: dropWhile_eq_Cons_conv)
  then show ?thesis using assms Cons by (auto simp: sql_trim_def trim_of_def trim_left_of_def trim_right_of_def dropWhile_eq_Nil_conv)
qed

lemma accept_succeeds:
  assumes "r \<in> set (d_hosts d)" "h_id r = i" "sql_trim (h_pending r) \<noteq> []"
  shows "\<exists>d'. accept_host_key_pending_fingerprint t i d = Inr d'"
proof -
  have "rows_affected (\<lambda>r. h_id r = i \<and> sql_trim (h_pending r) \<noteq> []) (d_hosts d) \<noteq> 0"
    using assms by (auto simp: rows_affected_0)
  then show ?thesis by (simp add: accept_host_key_pending_fingerprint_def Let_def)
qed

lemma approved_row:
  assumes r: "host_row i d = Some r" "h_trust_mode r = ''pinned''" "h_pinned r = []" and fp: "trim_space fp \<noteq> []"
    and g: "get_host d i = Inr h"
  shows "\<exists>r'. host_row i (next_host_key_accept u2 t2 i (snd (verify_host_key u t h fp d))) = Some r' \<and>
    h_trust_mode r' = ''pinned'' \<and> h_pinned r' = trim_space fp"
proof -
  have h: "h = read_host d r" using get_host_row [OF g] r(1) by auto
  have id: "h_id h = i" "h_id r = i" using lookup_row_Some [OF r(1)] by (simp_all add: h)
  have "pinned_mode r" using r(2) by (simp add: pinned_mode_def plain_literals del: to_lower.simps)
  then have pm: "pinned_mode h" by (simp add: h)
  have na: "\<not> hk_allow (fst (verify_host_key u t h fp d))"
    using fp r(3) pm by (simp add: verify_allow_iff h)
  let ?d1 = "snd (verify_host_key u t h fp d)"
  have r1: "host_row i ?d1 = Some (r\<lparr>h_pending := trim_space fp\<rparr>)"
    using verify_row [of i u t h fp d] na id fp r(1) by simp
  then have g1: "get_host ?d1 i = Inr (read_host ?d1 (r\<lparr>h_pending := trim_space fp\<rparr>))" by (simp add: get_host_def)
  have st: "sql_trim (trim_space fp) \<noteq> []"
  proof
    assume "sql_trim (trim_space fp) = []"
    then have "\<forall>c \<in> set (trim_space fp). c = CHR '' ''"
      by (rule sql_trim_blank)
    then have "hd (trim_space fp) = CHR '' ''" using fp by simp
    then have "space_len (trim_space fp) \<noteq> 0"
      using fp by (cases "trim_space fp") (auto simp: space_len_eq_0 space_seqs_def)
    then show False by simp
  qed
  have "r\<lparr>h_pending := trim_space fp\<rparr> \<in> set (d_hosts ?d1)" using lookup_row_Some [OF r1] by simp
  then obtain d2 where d2: "accept_host_key_pending_fingerprint t2 i ?d1 = Inr d2"
    using accept_succeeds [of _ ?d1 i t2] st id by force
  from row_accept [OF d2, of i] r1 st
  have "host_row i d2 = Some (r\<lparr>h_pending := [], h_trusted := trim_space fp, h_pinned := trim_space fp, h_verified_at := Some t2\<rparr>)"
    using r(2) by simp
  moreover have "next_host_key_accept u2 t2 i ?d1 = record_host_key_audit u2 t2 i ''host_key_rotation_accepted''
      (h_trusted r) (trim_space fp) ''operator accepted new host key fingerprint (web UI)'' d2"
    using g1 d2 fp by (simp add: next_host_key_accept_def Let_def)
  ultimately show ?thesis using r(2) by simp
qed

section \<open>An update that changes nothing\<close>

definition blank_request :: host_upsert where
  "blank_request = \<lparr>hu_name = [], hu_address = [], hu_port = 0, hu_user = [], hu_auth = [], hu_secrets = no_secrets,
     hu_clear_password = False, hu_clear_key = False, hu_clear_sudo = False, hu_required = None, hu_mode = [],
     hu_pinned = [], hu_tags = None\<rparr>"

lemma trim_blank: "trim_host_request blank_request = blank_request"
  by (simp add: trim_host_request_def blank_request_def trim_secrets_def no_secrets_def)

definition filled :: "host \<Rightarrow> secrets \<Rightarrow> host_upsert" where
  "filled h s = blank_request\<lparr>hu_name := h_name h, hu_address := h_address h, hu_port := h_port h, hu_user := h_ssh_user h,
     hu_auth := h_auth_type h, hu_secrets := s, hu_mode := h_trust_mode h, hu_pinned := h_pinned h\<rparr>"

lemma fit_scrub:
  assumes "secrets_fit (hu_auth r) (hu_secrets r)" "known_auth (hu_auth r)"
  shows "scrub_for_auth r = r"
proof -
  have "s\<lparr>s_key := [], s_passphrase := []\<rparr> = s" if "s_key s = []" "s_passphrase s = []" for s
    using that by (cases s) simp
  moreover have "s\<lparr>s_password := []\<rparr> = s" if "s_password s = []" for s using that by (cases s) simp
  moreover have "s\<lparr>s_password := [], s_key := [], s_passphrase := []\<rparr> = s"
    if "s_password s = []" "s_key s = []" "s_passphrase s = []" for s using that by (cases s) simp
  moreover have "r\<lparr>hu_secrets := hu_secrets r\<rparr> = r" by (cases r) simp
  moreover consider "hu_auth r = ''password''" | "hu_auth r = ''key''" | "hu_auth r = auth_app_key"
    using assms(2) by (auto simp: known_auth_def)
  ultimately show ?thesis
    using assms(1) by cases (simp_all add: secrets_fit_def scrub_for_auth_def Let_def auth_app_key_def)
qed

lemma merge_blank:
  assumes "secrets_fit (h_auth_type h) s" "known_auth (h_auth_type h)"
  shows "merge_host_secrets (fill_from h blank_request) s =
    ([], (filled h s)\<lparr>hu_mode := [], hu_pinned := []\<rparr>)"
proof -
  let ?r = "(filled h s)\<lparr>hu_mode := [], hu_pinned := []\<rparr>"
  have r: "(fill_from h blank_request)\<lparr>hu_secrets := s\<rparr> = ?r"
    by (simp add: fill_from_def blank_request_def filled_def)
  have "scrub_for_auth ?r = ?r" by (rule fit_scrub) (simp_all add: filled_def assms)
  moreover have "(let new_key = s_key (hu_secrets b) \<noteq> []; t = hu_secrets b;
          t = (if s_password t = [] \<and> \<not> hu_clear_password b then t\<lparr>s_password := s_password s\<rparr> else t);
          t = (if \<not> new_key \<and> \<not> hu_clear_key b
               then t\<lparr>s_key := s_key s, s_passphrase := (if s_passphrase t = [] then s_passphrase s else s_passphrase t)\<rparr>
               else t)
      in (if s_sudo t = [] \<and> \<not> hu_clear_sudo b then t\<lparr>s_sudo := s_sudo s\<rparr> else t)) = s"
    if "b = fill_from h blank_request" for b
    by (cases s) (simp add: that fill_from_def blank_request_def no_secrets_def)
  ultimately show ?thesis
    unfolding merge_host_secrets_def Let_def
    by (simp add: r [symmetric] removed_labels_def)
qed

lemma update_host_row_Inr:
  assumes "hosts_unique d" "host_row i d = Some r" "h_id h = i" "host_target h = host_target r"
  shows "\<exists>d'. update_host h d = Inr d' \<and> d_activity d' = d_activity d \<and>
    host_row i d' = Some (r\<lparr>h_name := h_name h, h_address := h_address h, h_port := h_port h,
      h_ssh_user := h_ssh_user h, h_auth_type := h_auth_type h, h_secret := h_secret h\<rparr>)"
proof -
  have r: "r \<in> set (d_hosts d)" "h_id r = i" using lookup_row_Some [OF assms(2)] by auto
  have "\<not> (\<exists>x \<in> set (d_hosts d). h_id x \<noteq> h_id h \<and> host_target x = host_target h)"
    using assms(1,3,4) r by (auto simp: hosts_unique_def distinct_map inj_on_def)
  then have "update_host h d = update_one_host i (\<lambda>r. r\<lparr>h_name := h_name h, h_address := h_address h, h_port := h_port h,
      h_ssh_user := h_ssh_user h, h_auth_type := h_auth_type h, h_secret := h_secret h\<rparr>) d"
    using assms(3) by (auto simp: update_host_def)
  moreover have "rows_affected (\<lambda>r. h_id r = i) (d_hosts d) \<noteq> 0" using r by (auto simp: rows_affected_0)
  ultimately show ?thesis
    using assms(2) by (auto simp: update_one_host_def update_host_row_def [of _ _ d])
      (simp add: lookup_update_rows)
qed

section \<open>Properties\<close>

text \<open>C5
  Hosts are well-formed: after any sequence of host requests, JSON or form, and of connections and
  key decisions, every stored host has a complete target with a port in range, a known login method,
  trust mode and update policy, host key checking on, and sealed credentials that open to exactly
  the secrets its login method uses.\<close>

theorem hosts_well_formed:
  assumes "vault_law v"
  shows "\<forall>h \<in> set (d_hosts (fold (host_req_step v) es empty_db)). host_ok v h"
proof -
  have "vault_law v \<longrightarrow> hosts_ok v empty_db" by (simp add: hosts_ok_def empty_db_def)
  from host_requests.run_inv [OF this, of es] assms show ?thesis
    by (simp add: hosts_ok_def list_all_iff)
qed

definition toy_secrets :: secrets where
  "toy_secrets = \<lparr>s_password = ''pw'', s_key = [], s_passphrase = [], s_sudo = []\<rparr>"

definition toy_vault :: vault where
  "toy_vault = \<lparr>va_seal = (\<lambda>n s. if s = toy_secrets then Some ''sealed'' else None),
     va_open = (\<lambda>c. if c = ''sealed'' then Some toy_secrets else None)\<rparr>"

lemma toy_vault_law: "vault_law toy_vault"
  by (simp add: vault_law_def toy_vault_def)

definition toy_upsert :: host_upsert where
  "toy_upsert = blank_request\<lparr>hu_name := ''a'', hu_address := ''h'', hu_user := ''u'', hu_auth := ''password'',
     hu_secrets := toy_secrets\<rparr>"

theorem hosts_well_formed_witness:
  "list_all (host_ok toy_vault) (d_hosts (fold (host_req_step toy_vault) [(1, CreateJson [] ''7'' (Some toy_upsert))] empty_db))"
  using hosts_well_formed [OF toy_vault_law, of "[(1, CreateJson [] ''7'' (Some toy_upsert))]"]
  by (simp only: list_all_iff)

text \<open>C16
  A host added in the dashboard waits for the operator: the first key it presents is refused and kept
  for review, and once the operator accepts it exactly that key gets through.\<close>

theorem dashboard_host_needs_approval:
  assumes "next_host_create v nonce uid now f d = (GoTo dest, d')" "trim_space fp \<noteq> []"
    and "d1 = key_step (Connect u1 t1 uid fp) d'" "d2 = key_step (WebAccept u2 t2 uid) d1"
  shows "(\<exists>h. get_host d' uid = Inr h \<and> \<not> hk_allow (fst (verify_host_key u1 t1 h fp d'))) \<and>
    (\<exists>h. get_host d2 uid = Inr h \<and>
       (hk_allow (fst (verify_host_key u3 t3 h presented d2)) \<longleftrightarrow> trim_space presented = trim_space fp))"
proof -
  obtain r where r: "host_row uid d' = Some r" "h_trust_mode r = ''pinned''" "h_pinned r = []" "h_trusted r = []"
    using next_host_create_row [OF assms(1)] by blast
  let ?h = "read_host d' r"
  have g: "get_host d' uid = Inr ?h" using r(1) by (simp add: get_host_def)
  have pm: "pinned_mode x" if "h_trust_mode x = ''pinned''" for x
    using that by (simp add: pinned_mode_def plain_literals del: to_lower.simps)
  have one: "\<not> hk_allow (fst (verify_host_key u1 t1 ?h fp d'))"
    using assms(2) r pm by (simp add: verify_allow_iff)
  have d1: "d1 = snd (verify_host_key u1 t1 ?h fp d')" using assms(3) g by simp
  obtain r' where r': "host_row uid d2 = Some r'" "h_trust_mode r' = ''pinned''" "h_pinned r' = trim_space fp"
    using approved_row [OF r(1-3) assms(2) g, of u2 t2 u1 t1] assms(4) d1 by auto
  then have "get_host d2 uid = Inr (read_host d2 r')" by (simp add: get_host_def)
  moreover have "hk_allow (fst (verify_host_key u3 t3 (read_host d2 r') presented d2)) \<longleftrightarrow> trim_space presented = trim_space fp"
    using r' pm assms(2) by (auto simp: verify_allow_iff)
  ultimately show ?thesis using one g by blast
qed

text \<open>
  A blank update is no change: an update whose fields are all blank, of a host that is not waiting for
  approval, succeeds, keeps every column and the secrets, and logs nothing.\<close>

theorem blank_update_keeps_host:
  assumes law: "vault_law v" and ok: "hosts_ok v d" "hosts_unique d" and r: "host_row i d = Some r"
    and s: "va_open v (h_secret r) = Some s" "va_seal v nonce s = Some c"
    and ready: "h_trust_mode r = ''tofu'' \<or> h_pinned r \<noteq> []"
  shows "fst (update_host_req v nonce now i (Some blank_request) d) = (200, ''host updated'') \<and>
    host_row i (snd (update_host_req v nonce now i (Some blank_request) d)) =
      Some (r\<lparr>h_secret := c, h_pinned := trim_space (h_pinned r)\<rparr>) \<and>
    va_open v c = va_open v (h_secret r) \<and>
    d_activity (snd (update_host_req v nonce now i (Some blank_request) d)) = d_activity d"
proof -
  have rok: "host_ok v r" using ok(1) lookup_row_Some [OF r] by (auto simp: hosts_ok_def)
  have id: "h_id r = i" using lookup_row_Some [OF r] by simp
  have fit: "secrets_fit (h_auth_type r) s" "known_auth (h_auth_type r)" "h_secret r \<noteq> []"
    using rok s(1) by (auto simp: host_ok_def)
  let ?h = "read_host d r"
  have mode: "trim_space (h_trust_mode r) = h_trust_mode r" "to_lower (h_trust_mode r) = h_trust_mode r" "h_trust_mode r \<noteq> []"
    using rok by (auto simp: host_ok_def plain_literals simp del: to_lower.simps)
  have rh: "h_name ?h = h_name r" "h_address ?h = h_address r" "h_port ?h = h_port r" "h_ssh_user ?h = h_ssh_user r"
      "h_auth_type ?h = h_auth_type r" "h_secret ?h = h_secret r" "h_trust_mode ?h = h_trust_mode r" "h_pinned ?h = h_pinned r"
    using mode by (simp_all add: read_host_def)
  let ?req = "filled ?h s"
  have merge: "merge_host_secrets (fill_from ?h blank_request) s = ([], ?req\<lparr>hu_mode := [], hu_pinned := []\<rparr>)"
    using merge_blank [of ?h s] fit by (simp add: rh)
  have fill: "fill_key_policy ?h (?req\<lparr>hu_mode := [], hu_pinned := []\<rparr>) = ?req"
    using mode by (simp add: fill_key_policy_def filled_def rh Let_def blank_request_def)
  have val: "validate_host_request ?req = []"
    using rok fit ready unfolding valid_iff
    by (auto simp: filled_def rh host_ok_def blank_request_def secrets_fit_def)
  have scr: "scrub_for_auth ?req = ?req" by (rule fit_scrub) (simp_all add: filled_def rh fit)
  obtain d1 where d1: "update_host (updated_host i ?req c) d = Inr d1" "d_activity d1 = d_activity d"
    and row1: "host_row i d1 = Some (r\<lparr>h_secret := c\<rparr>)"
    using update_host_row_Inr [OF ok(2) r, of "updated_host i ?req c"]
    by (auto simp: updated_host_def new_host_def filled_def rh host_target_def)
  obtain d2 where d2: "update_host_key_policy i True (h_trust_mode r) (h_pinned r) d1 = Inr d2"
    using update_one_row [OF row1] by (auto simp: update_host_key_policy_def Let_def)
  have act: "d_activity d2 = d_activity d1"
    using d2 by (auto simp: update_host_key_policy_def update_one_host_def update_host_row_def Let_def split: if_splits)
  have row2: "host_row i d2 = Some (r\<lparr>h_secret := c, h_pinned := trim_space (h_pinned r)\<rparr>)"
    using row_policy [OF d2, of i] row1 mode rok by (simp add: host_ok_def)
  have "update_host_req v nonce now i (Some blank_request) d = ((200, ''host updated''), d2)"
    using r fit(3) s d1(1) d2
    by (simp add: update_host_req_def get_host_def trim_blank decode_host_secrets_def rh merge fill val scr Let_def
        encrypt_host_secrets_def) (simp add: filled_def blank_request_def rh)
  with row2 act d1(2) law s show ?thesis by (auto simp: vault_law_def)
qed

definition toy_form :: "string \<Rightarrow> string" where
  "toy_form f = (if f = ''name'' then ''a'' else if f = ''address'' then ''h'' else if f = ''ssh_user'' then ''u''
     else if f = ''auth_type'' then ''password'' else if f = ''password'' then ''pw'' else [])"

lemma toy_form_req: "normalize_host_request (form_host_req toy_form) =
    \<lparr>hu_name = ''a'', hu_address = ''h'', hu_port = 22, hu_user = ''u'', hu_auth = ''password'', hu_secrets = toy_secrets,
     hu_clear_password = False, hu_clear_key = False, hu_clear_sudo = False, hu_required = None, hu_mode = ''tofu'',
     hu_pinned = [], hu_tags = Some []\<rparr>"
proof -
  have "trim_space ''a'' = ''a''" "trim_space ''h'' = ''h''" "trim_space ''u'' = ''u''"
    "trim_space ''password'' = ''password''" "trim_space ''pw'' = ''pw''" "atoi_value [] = 0"
    by code_simp+
  then show ?thesis
    by (simp add: normalize_host_request_def trim_host_request_def form_host_req_def toy_form_def trim_secrets_def
        toy_secrets_def split_tags_def Let_def)
qed

lemma toy_create: "fst (next_host_create toy_vault [] ''7'' 1 toy_form empty_db) = GoTo ''/''"
proof -
  let ?r = "normalize_host_request (form_host_req toy_form)"
  have "validate_host_request ?r = []" by (simp add: valid_iff toy_form_req known_auth_def toy_secrets_def)
  moreover have "scrub_for_auth ?r = ?r"
    by (rule fit_scrub) (simp_all add: toy_form_req known_auth_def secrets_fit_def toy_secrets_def)
  moreover have "encrypt_host_secrets toy_vault [] ?r = Some ''sealed''"
    by (simp add: encrypt_host_secrets_def toy_vault_def toy_form_req)
  moreover have "\<exists>d. create_host ''7'' 1 (new_host ?r ''sealed'') empty_db = Inr (''7'', d)"
    by (simp add: create_host_def Let_def empty_db_def)
  ultimately show ?thesis by (auto simp: next_host_create_def Let_def)
qed

theorem dashboard_host_needs_approval_witness:
  "let d' = snd (next_host_create toy_vault [] ''7'' 1 toy_form empty_db);
       d1 = key_step (Connect ''e1'' 2 ''7'' ''SHA256:x'') d'; d2 = key_step (WebAccept ''e2'' 3 ''7'') d1
   in (\<exists>h. get_host d' ''7'' = Inr h \<and> \<not> hk_allow (fst (verify_host_key ''e1'' 2 h ''SHA256:x'' d'))) \<and>
      (\<exists>h. get_host d2 ''7'' = Inr h \<and> (hk_allow (fst (verify_host_key [] 4 h ''SHA256:y'' d2)) \<longleftrightarrow>
         trim_space ''SHA256:y'' = trim_space ''SHA256:x''))"
proof -
  have "next_host_create toy_vault [] ''7'' 1 toy_form empty_db =
      (GoTo ''/'', snd (next_host_create toy_vault [] ''7'' 1 toy_form empty_db))"
    using toy_create by (simp add: prod_eq_iff)
  moreover have "trim_space ''SHA256:x'' \<noteq> []" by code_simp
  ultimately show ?thesis
    unfolding Let_def by (rule dashboard_host_needs_approval [OF _ _ refl refl])
qed

definition toy_host_row :: host where
  "toy_host_row = (new_host (normalize_host_request (form_host_req toy_form)) ''sealed'')\<lparr>h_id := ''7''\<rparr>"

theorem blank_update_keeps_host_witness:
  "fst (update_host_req toy_vault [] 5 ''7'' (Some blank_request) (empty_db\<lparr>d_hosts := [toy_host_row]\<rparr>)) = (200, ''host updated'')"
proof -
  have f: "trim_space [] = []" by simp
  have "host_ok toy_vault toy_host_row"
    by (simp add: toy_host_row_def new_host_def toy_form_req host_ok_def known_auth_def toy_vault_def secrets_fit_def toy_secrets_def)
  then show ?thesis
    by (intro blank_update_keeps_host [OF toy_vault_law, of _ "''7''" toy_host_row toy_secrets "[]" "''sealed''" 5, THEN conjunct1])
      (simp_all add: hosts_ok_def hosts_unique_def lookup_row_def toy_host_row_def new_host_def toy_form_req toy_vault_def)
qed

end
