(* ===== verification/HostTrust.thy ===== *)
theory HostTrust
  imports HostRows
begin

text \<open>
  Which keys can come to be trusted: the table of hosts under everything that writes it, that is the requests
  of \<open>HostRows\<close> (host requests by JSON and by form, connections and key decisions) and the switch that keeps a
  host out of fleet actions, with the fingerprints an operator vouched for on the way.
\<close>

datatype trust_event = HostEvent host_req | ExcludeEvent string bool

fun trust_db :: "vault \<Rightarrow> int \<times> trust_event \<Rightarrow> db \<Rightarrow> db" where
  "trust_db v (t, HostEvent e) d = host_req_step v (t, e) d"
| "trust_db v (t, ExcludeEvent j b) d = set_host_exclude_from_bulk j b d"

text \<open>The fingerprints an operator vouches for with an event: a pin that is sent, or a key that is accepted.\<close>

fun vouched_by :: "string \<Rightarrow> int \<times> trust_event \<Rightarrow> db \<Rightarrow> string set" where
  "vouched_by i (t, HostEvent (UpdateJson n j (Some req))) d = (if i = j then {trim_space (hu_pinned req)} else {})"
| "vouched_by i (t, HostEvent (KeyReq e)) d = vouched i e d"
| "vouched_by i _ d = {}"

definition trust_step :: "vault \<Rightarrow> string \<Rightarrow> int \<times> trust_event \<Rightarrow> db \<times> string set \<Rightarrow> db \<times> string set" where
  "trust_step v i e s = (case s of (d, known) \<Rightarrow> (trust_db v e d, known \<union> vouched_by i e d))"

text \<open>The ids of new hosts are random: none of them is that of the host in question.\<close>

fun fresh_id :: "string \<Rightarrow> int \<times> trust_event \<Rightarrow> bool" where
  "fresh_id i (t, HostEvent (CreateJson n uid body)) \<longleftrightarrow> uid \<noteq> i"
| "fresh_id i (t, HostEvent (CreateForm n uid f)) \<longleftrightarrow> uid \<noteq> i"
| "fresh_id i _ \<longleftrightarrow> True"

section \<open>What a request does to the keys of a host\<close>

text \<open>A host that is there afterwards was there before, with the same trusted key, and its pin is the old one or in \<open>S\<close>.\<close>

definition keys_kept :: "string set \<Rightarrow> string \<Rightarrow> db \<Rightarrow> db \<Rightarrow> bool" where
  "keys_kept S i d d' \<longleftrightarrow>
     (\<forall>r'. host_row i d' = Some r' \<longrightarrow>
        (\<exists>r. host_row i d = Some r \<and> h_trusted r' = h_trusted r \<and>
           (trim_space (h_pinned r') = trim_space (h_pinned r) \<or> trim_space (h_pinned r') \<in> S)))"

lemma keys_kept_same: "host_row i d' = host_row i d \<Longrightarrow> keys_kept S i d d'"
  by (auto simp: keys_kept_def)

lemma keys_kept_refl [simp]: "keys_kept S i d d"
  by (rule keys_kept_same) simp

lemma keys_kept_trans: "keys_kept S i d d1 \<Longrightarrow> keys_kept S i d1 d2 \<Longrightarrow> keys_kept S i d d2"
  unfolding keys_kept_def by fastforce

lemma keys_kept_keep: "keys_kept S i d0 d \<Longrightarrow> (\<And>d'. r = Inr d' \<Longrightarrow> keys_kept S i d d') \<Longrightarrow> keys_kept S i d0 (keep r d)"
  by (auto simp: keep_def split: sum.split intro: keys_kept_trans)

lemma keys_kept_activity [simp]: "keys_kept S i d (record_activity now j n e s d') = keys_kept S i d d'"
  by (simp add: keys_kept_def)

lemma row_one:
  assumes "update_one_host j f d = Inr d'" "\<And>r. h_id (f r) = h_id r"
  shows "host_row i d' = (if i = j then map_option f (host_row i d) else host_row i d)"
  using assms by (auto simp: update_one_host_def split: if_splits)

lemma keys_kept_one:
  assumes "update_one_host j f d = Inr d'" "\<And>r. h_id (f r) = h_id r" "\<And>r. h_trusted (f r) = h_trusted r"
    "\<And>r. h_pinned (f r) = h_pinned r"
  shows "keys_kept S i d d'"
  using row_one [OF assms(1,2), of i] assms(3,4) by (auto simp: keys_kept_def)

lemma keys_kept_tags: "keys_kept S i d (keep (update_host_tags j ts d) d)"
  by (rule keys_kept_keep) (auto simp: update_host_tags_def intro: keys_kept_one)

lemma keys_kept_controls: "update_host_operational_controls j c p d = Inr d' \<Longrightarrow> keys_kept S i d d'"
  unfolding update_host_operational_controls_def Let_def by (erule keys_kept_one) simp_all

lemma keys_kept_update: "update_host h d = Inr d' \<Longrightarrow> keys_kept S i d d'"
  unfolding update_host_def by (auto split: if_splits elim!: keys_kept_one)

lemma keys_kept_tag_step: "keys_kept S i d (case tags of None \<Rightarrow> d | Some ts \<Rightarrow> keep (update_host_tags j ts d) d)"
  by (simp add: keys_kept_tags split: option.split)

lemma keys_kept_policy:
  assumes "update_host_key_policy j req m p d = Inr d'"
    "\<And>r. i = j \<Longrightarrow> host_row i d = Some r \<Longrightarrow> trim_space p = trim_space (h_pinned r) \<or> trim_space p \<in> S"
  shows "keys_kept S i d d'"
  using row_policy [OF assms(1), of i] assms(2) by (auto simp: keys_kept_def split: if_splits)

lemma keys_kept_policy_other:
  assumes "j \<noteq> i"
  shows "keys_kept S i d (keep (update_host_key_policy j req m p d) d)"
  by (rule keys_kept_keep) (use assms row_policy [of j req m p d _ i] in \<open>auto intro: keys_kept_same\<close>)

lemma keys_kept_create:
  assumes "create_host uid now h d = Inr (j, d')" "uid \<noteq> i"
  shows "j = uid" "keys_kept S i d d'"
proof -
  have app: "lookup_row h_id i (rows @ [row]) = lookup_row h_id i rows" if "h_id row \<noteq> i" for rows and row :: host
    using that by (induction rows) (auto simp: lookup_row_def)
  obtain row where "d_hosts d' = d_hosts d @ [row]" "h_id row = uid"
    using assms(1) by (auto simp: create_host_def Let_def split: if_splits)
  then have "host_row i d' = host_row i d" using app [of row] assms(2) by simp
  then show "keys_kept S i d d'" by (rule keys_kept_same)
  show "j = uid" using assms(1) by (auto simp: create_host_def Let_def split: if_splits)
qed

lemma keys_kept_delete:
  assumes "delete_host j d = Inr d'"
  shows "keys_kept S i d d'"
proof -
  have "lookup_row h_id i (delete_rows (\<lambda>r. h_id r = j) rows) = (if i = j then None else lookup_row h_id i rows)" for rows
    by (induction rows) (auto simp: lookup_row_def delete_rows_def)
  from this [of "d_hosts d"] have "host_row i d' = (if i = j then None else host_row i d)"
    by (simp only: delete_host_tables(1) [OF assms])
  then show ?thesis by (simp add: keys_kept_def)
qed

section \<open>Every request\<close>

lemma create_req_kept: "uid \<noteq> i \<Longrightarrow> keys_kept S i d (snd (create_host_req v n uid t body d))"
  unfolding create_host_req_def Let_def
  by (auto split: option.splits sum.splits db_err.splits dest: keys_kept_create(2) [where S = S and i = i]
      intro: keys_kept_trans [OF _ keys_kept_tags])

lemma create_form_kept: "uid \<noteq> i \<Longrightarrow> keys_kept S i d (snd (next_host_create v n uid t f d))"
proof -
  assume uid: "uid \<noteq> i"
  have rest: "keys_kept S i d d1 \<Longrightarrow> keys_kept S i d (keep (update_host_key_policy uid r m p
      (keep (update_host_tags uid ts (keep (update_host_operational_controls uid c q d1) d1))
        (keep (update_host_operational_controls uid c q d1) d1)))
      (keep (update_host_tags uid ts (keep (update_host_operational_controls uid c q d1) d1))
        (keep (update_host_operational_controls uid c q d1) d1)))" for r m p ts c q d1
    by (blast intro: keys_kept_trans keys_kept_policy_other [OF uid] keys_kept_tags keys_kept_keep keys_kept_controls)
  show ?thesis
    unfolding next_host_create_def Let_def
    using uid by (auto split: option.splits sum.splits db_err.splits
        dest: keys_kept_create(1) keys_kept_create(2) [where S = S and i = i] intro!: rest)
qed

lemma merge_pinned: "merge_host_secrets r s = (x, r') \<Longrightarrow> hu_pinned r' = hu_pinned r"
  by (auto simp: merge_host_secrets_def Let_def)

lemma fill_pinned: "hu_pinned (fill_key_policy h r) = (if hu_pinned r = [] then h_pinned h else hu_pinned r)"
  by (simp add: fill_key_policy_def Let_def)

lemma filled_pinned: "hu_pinned (fill_from h (trim_host_request r)) = trim_space (hu_pinned r)"
  by (simp add: fill_from_def trim_host_request_def)

lemma update_req_kept:
  "keys_kept (vouched_by i (t, HostEvent (UpdateJson n j body)) d) i d (snd (update_host_req v n t j body d))"
proof (cases "\<exists>h req. get_host d j = Inr h \<and> body = Some req")
  case False
  then show ?thesis by (auto simp: update_host_req_def split: sum.split option.split)
next
  case True
  then obtain h req where h: "get_host d j = Inr h" "body = Some req" by blast
  let ?S = "vouched_by i (t, HostEvent (UpdateJson n j body)) d"
  have pol: "keys_kept ?S i d d2"
    if d1: "update_host x d = Inr d1" and d2: "update_host_key_policy j True m p d1 = Inr d2"
      and p: "p = (if trim_space (hu_pinned req) = [] then h_pinned h else trim_space (hu_pinned req))" for x d1 d2 m p
  proof (rule keys_kept_trans)
    show "keys_kept ?S i d d1" by (rule keys_kept_update [OF d1])
    show "keys_kept ?S i d1 d2"
    proof (rule keys_kept_policy [OF d2])
      fix r assume i: "i = j" and r: "host_row i d1 = Some r"
      from keys_kept_update [OF d1, of "{}" i] r obtain r0 where r0: "host_row i d = Some r0"
        "trim_space (h_pinned r) = trim_space (h_pinned r0)" by (auto simp: keys_kept_def)
      have "h = read_host d r0" using get_host_row [OF h(1)] r0(1) i by auto
      then show "trim_space p = trim_space (h_pinned r) \<or> trim_space p \<in> ?S"
        using r0(2) p h(2) i by (auto split: if_splits)
    qed
  qed
  note step = update_host_req_def [of v n t j body d, unfolded Let_def h sum.case option.case]
  show ?thesis
  proof (cases "\<exists>stored x r enc d1 d2. decode_host_secrets v (h_secret h) = Some stored \<and>
      merge_host_secrets (fill_from h (trim_host_request req)) stored = (x, r) \<and> validate_host_request (fill_key_policy h r) = [] \<and>
      encrypt_host_secrets v n (scrub_for_auth (fill_key_policy h r)) = Some enc \<and>
      update_host (updated_host j (scrub_for_auth (fill_key_policy h r)) enc) d = Inr d1 \<and>
      update_host_key_policy j True (hu_mode (fill_key_policy h r)) (hu_pinned (fill_key_policy h r)) d1 = Inr d2")
    case False
    then show ?thesis
      unfolding h(2) step [unfolded h(2)]
      by (auto split: option.split sum.split db_err.split prod.split intro: keys_kept_update)
  next
    case True
    then obtain stored x r enc d1 d2 where g: "decode_host_secrets v (h_secret h) = Some stored"
      "merge_host_secrets (fill_from h (trim_host_request req)) stored = (x, r)" "validate_host_request (fill_key_policy h r) = []"
      "encrypt_host_secrets v n (scrub_for_auth (fill_key_policy h r)) = Some enc"
      "update_host (updated_host j (scrub_for_auth (fill_key_policy h r)) enc) d = Inr d1"
      "update_host_key_policy j True (hu_mode (fill_key_policy h r)) (hu_pinned (fill_key_policy h r)) d1 = Inr d2" by blast
    have "keys_kept ?S i d d2"
      by (rule pol [OF g(5,6)]) (simp add: fill_pinned merge_pinned [OF g(2)] filled_pinned)
    then have "keys_kept ?S i d (case tags of None \<Rightarrow> d2 | Some ts \<Rightarrow> keep (update_host_tags j ts d2) d2)" for tags
      using keys_kept_tag_step by (rule keys_kept_trans)
    then show ?thesis unfolding h(2) step [unfolded h(2)] by (simp add: g)
  qed
qed

lemma update_form_kept: "keys_kept S i d (snd (next_host_update v n t j f d))"
proof -
  have rest: "update_host x d = Inr d1 \<Longrightarrow> keys_kept S i d
      (keep (update_host_tags j ts (keep (update_host_operational_controls j c q d1) d1))
        (keep (update_host_operational_controls j c q d1) d1))" for x ts c q d1
    by (blast intro: keys_kept_trans keys_kept_tags keys_kept_keep keys_kept_controls keys_kept_update)
  show ?thesis
    unfolding next_host_update_def Let_def
    by (auto split: option.splits sum.splits db_err.splits prod.splits intro!: rest)
qed

lemma other_kept:
  "keys_kept S i d (snd (delete_host_req t j d))" "keys_kept S i d (snd (next_host_delete t j d))"
  "keys_kept S i d (snd (put_host_operational_controls j cbody d))"
  "keys_kept S i d (snd (put_host_notification_prefs j pbody d))" "keys_kept S i d (snd (next_host_notif_prefs j f d))"
  "keys_kept S i d (set_host_exclude_from_bulk j b d)"
proof -
  show "keys_kept S i d (snd (delete_host_req t j d))" "keys_kept S i d (snd (next_host_delete t j d))"
    by (auto simp: delete_host_req_def next_host_delete_def Let_def split: sum.split db_err.split intro: keys_kept_delete)
  show "keys_kept S i d (snd (put_host_operational_controls j cbody d))"
    by (auto simp: put_host_operational_controls_def split: sum.split db_err.split option.split prod.split intro: keys_kept_controls)
  show "keys_kept S i d (snd (put_host_notification_prefs j pbody d))" "keys_kept S i d (snd (next_host_notif_prefs j f d))"
    by (auto simp: put_host_notification_prefs_def next_host_notif_prefs_def upsert_host_notification_prefs_def
        split: sum.split option.split intro: keys_kept_same)
  show "keys_kept S i d (set_host_exclude_from_bulk j b d)"
    by (auto simp: set_host_exclude_from_bulk_def keys_kept_def)
qed

text \<open>Key decisions make no host appear.\<close>

lemma key_step_gone:
  assumes "host_row i d = None"
  shows "host_row i (key_step e d) = None"
proof (cases e)
  case (Connect u t j fp)
  have "host_row i (snd (verify_host_key u t h fp d)) = None" for h
    using assms by (cases "h_id h = i") (auto simp: verify_row)
  then show ?thesis using assms by (simp add: Connect split: sum.split)
next
  case (SetPolicy u t j body)
  from policy_handler_cases [of i u t j body d] show ?thesis
    using assms row_policy [of j True _ _ d _ i] by (auto simp: SetPolicy)
next
  case (AcceptNew u t j body)
  from accept_handler_cases(1) [of i u t j body d] show ?thesis
    using assms row_accept [of t j d _ i] by (auto simp: AcceptNew)
next
  case (DenyNew u t j body)
  from deny_handler_cases(1) [of i u t j body d] show ?thesis
    using assms row_clear [of j d _ i] by (auto simp: DenyNew)
next
  case (WebAccept u t j)
  from accept_handler_cases(2) [of i u t j d] show ?thesis
    using assms row_accept [of t j d _ i] by (auto simp: WebAccept)
next
  case (WebDeny u t j)
  from deny_handler_cases(2) [of i u t j d] show ?thesis
    using assms row_clear [of j d _ i] by (auto simp: WebDeny)
qed

section \<open>The invariant\<close>

definition trust_inv :: "string \<Rightarrow> db \<times> string set \<Rightarrow> bool" where
  "trust_inv i s \<longleftrightarrow> (case s of (d, known) \<Rightarrow> \<forall>r. host_row i d = Some r \<longrightarrow> key_row_ok known r)"

lemma trust_inv_kept:
  assumes "trust_inv i (d, known)" "keys_kept S i d d'"
  shows "trust_inv i (d', known \<union> S)"
  unfolding trust_inv_def prod.case
proof (intro allI impI)
  fix r' assume "host_row i d' = Some r'"
  with assms(2) obtain r where "host_row i d = Some r" "h_trusted r' = h_trusted r"
    "trim_space (h_pinned r') = trim_space (h_pinned r) \<or> trim_space (h_pinned r') \<in> S"
    unfolding keys_kept_def by blast
  with assms(1) show "key_row_ok (known \<union> S) r'" by (auto simp: trust_inv_def key_row_ok_def)
qed

lemma trust_event_kept:
  assumes "fresh_id i e" "\<And>t q. e \<noteq> (t, HostEvent (KeyReq q))"
  shows "keys_kept (vouched_by i e d) i d (trust_db v e d)"
proof -
  obtain t x where e: "e = (t, x)" by (cases e)
  show ?thesis
  proof (cases x)
    case (ExcludeEvent j b)
    then show ?thesis by (simp add: e other_kept)
  next
    case (HostEvent q)
    show ?thesis
    proof (cases q)
      case (KeyReq k)
      then show ?thesis using assms(2) [of t k] e HostEvent by simp
    qed (use assms(1) in \<open>simp_all add: e HostEvent create_req_kept create_form_kept update_form_kept other_kept
           update_req_kept del: vouched_by.simps(1)\<close>)
  qed
qed

lemma trust_step_inv:
  assumes "trust_inv i s" "fresh_id i e"
  shows "trust_inv i (trust_step v i e s)"
proof (cases "\<exists>t q. e = (t, HostEvent (KeyReq q))")
  case False
  with assms trust_event_kept [OF assms(2), of "fst s" v] show ?thesis
    by (cases s) (auto simp: trust_step_def intro: trust_inv_kept)
next
  case True
  then obtain t q where e: "e = (t, HostEvent (KeyReq q))" by blast
  obtain d known where s: "s = (d, known)" by (cases s)
  show ?thesis
  proof (cases "host_row i d")
    case None
    then show ?thesis using key_step_gone by (simp add: e s trust_step_def trust_inv_def)
  next
    case (Some r)
    then have "key_row_ok known r" using assms(1) by (simp add: s trust_inv_def)
    from key_step_ok [OF Some this, of q] show ?thesis by (auto simp: e s trust_step_def trust_inv_def)
  qed
qed

interpretation trust: machine "trust_step v i" "fresh_id i" "trust_inv i" for v i
  by unfold_locales (rule trust_step_inv)


section \<open>Properties\<close>

text \<open>C4
  No key nobody vouched for: from a host that has a trusted key, after any sequence of connections (with
  whatever keys the network presents), host requests by JSON or by form, policy changes, accepts and denials
  on any hosts, a connection is let through only with the original key, the original pin, or a fingerprint
  that an operator sent as a pin of this host or accepted for it on the way. New hosts get fresh ids.\<close>

theorem only_vouched_keys:
  assumes "host_row i d0 = Some h0" "trim_space (h_trusted h0) \<noteq> []" "list_all (fresh_id i) es"
    and "fold (trust_step v i) es (d0, {trim_space (h_trusted h0), trim_space (h_pinned h0)}) = (d, known)"
    and "get_host d i = Inr h" "hk_allow (fst (verify_host_key u t h fp d))"
  shows "trim_space fp \<in> known"
proof -
  have "trust_inv i (d0, {trim_space (h_trusted h0), trim_space (h_pinned h0)})"
    using assms(1,2) by (simp add: trust_inv_def key_row_ok_def)
  from trust.run_inv [OF this assms(3), of v] have inv: "trust_inv i (d, known)" by (simp only: assms(4))
  obtain r where "host_row i d = Some r" "h = read_host d r" using get_host_row [OF assms(5)] by blast
  with inv have "key_row_ok known h" by (simp add: trust_inv_def key_row_ok_def)
  with assms(6) show ?thesis by (auto simp: verify_allow_iff key_row_ok_def split: if_splits)
qed

definition is_allowed :: "db \<Rightarrow> string \<Rightarrow> string \<Rightarrow> bool" where
  "is_allowed d i fp = (case get_host d i of Inl _ \<Rightarrow> False | Inr h \<Rightarrow> hk_allow (fst (verify_host_key ''u'' 0 h fp d)))"

definition trust_example :: "(int \<times> trust_event) list" where
  "trust_example = [(0, HostEvent (KeyReq (Connect ''u'' 1 ''a'' ''k2''))), (2, ExcludeEvent ''a'' True),
     (3, HostEvent (DeleteJson ''b'')), (4, HostEvent (KeyReq (WebAccept ''u'' 4 ''a'')))]"

theorem only_vouched_keys_witness:
  "trim_space ''k2'' \<in> snd (fold (trust_step toy_vault ''a'') trust_example (tofu_db ''k1'', {trim_space ''k1'', []}))"
proof -
  let ?h = "(sample_host ''a'' ''alpha'')\<lparr>h_trusted := ''k1''\<rparr>"
  let ?s = "fold (trust_step toy_vault ''a'') trust_example (tofu_db ''k1'', {trim_space ''k1'', []})"
  have row: "host_row ''a'' (tofu_db ''k1'') = Some ?h"
    by (simp add: tofu_db_def lookup_row_def sample_host_def)
  have keys: "trim_space (h_trusted ?h) = trim_space ''k1''" "trim_space (h_pinned ?h) = []"
    by (simp_all add: sample_host_def)
  have ne: "trim_space ''k1'' \<noteq> []" and fresh: "list_all (fresh_id ''a'') trust_example" by code_simp+
  have fst_s: "fst ?s = fold (trust_db toy_vault) trust_example (tofu_db ''k1'')"
    by (simp only: trust_example_def fold_simps trust_step_def prod.case fst_conv id_apply comp_apply)
  have "is_allowed (fold (trust_db toy_vault) trust_example (tofu_db ''k1'')) ''a'' ''k2''" by code_simp
  then obtain h where h: "get_host (fst ?s) ''a'' = Inr h" "hk_allow (fst (verify_host_key ''u'' 0 h ''k2'' (fst ?s)))"
    unfolding fst_s by (auto simp: is_allowed_def split: sum.splits)
  show ?thesis
    by (rule only_vouched_keys [OF row _ fresh _ h]) (simp_all only: keys ne prod.collapse not_False_eq_True simp_thms)
qed

end
