(* ===== verification/SealBox.thy ===== *)
theory SealBox
  imports GoStrings
begin

text \<open>
  \<open>internal/crypto/sealbox.go\<close>: secrets are sealed with AES-GCM under a key derived from the master
  key, and stored as base64 text of the nonce followed by the sealed bytes. The two cryptographic
  functions are parameters of the model; base64 (\<open>encoding/base64\<close>, standard alphabet, padded, bits
  left over in the last character ignored, line breaks skipped) is written out.
\<close>

section \<open>Base64\<close>

definition b64_char :: "nat \<Rightarrow> char" where
  "b64_char n = char_of (if n < 26 then 65 + n else if n < 52 then 71 + n else if n < 62 then n - 4 else if n = 62 then 43 else 47)"

definition b64_val :: "char \<Rightarrow> nat option" where
  "b64_val c = (let b = byte_of c in
     if 65 \<le> b \<and> b \<le> 90 then Some (b - 65) else if 97 \<le> b \<and> b \<le> 122 then Some (b - 71)
     else if 48 \<le> b \<and> b \<le> 57 then Some (b + 4) else if b = 43 then Some 62 else if b = 47 then Some 63 else None)"

fun b64_encode :: "string \<Rightarrow> string" where
  "b64_encode [] = []"
| "b64_encode [a] = (let n = byte_of a in [b64_char (n div 4), b64_char (16 * (n mod 4)), CHR ''='', CHR ''=''])"
| "b64_encode [a, b] = (let n = 256 * byte_of a + byte_of b in
     [b64_char (n div 1024), b64_char (n div 16 mod 64), b64_char (4 * (n mod 16)), CHR ''=''])"
| "b64_encode (a # b # c # s) = (let n = 65536 * byte_of a + 256 * byte_of b + byte_of c in
     b64_char (n div 262144) # b64_char (n div 4096 mod 64) # b64_char (n div 64 mod 64) # b64_char (n mod 64) # b64_encode s)"

fun b64_quanta :: "string \<Rightarrow> string option" where
  "b64_quanta [] = Some []"
| "b64_quanta (a # b # c # d # s) = do {
     x \<leftarrow> b64_val a; y \<leftarrow> b64_val b;
     if c = CHR ''='' then (if d = CHR ''='' \<and> s = [] then Some [char_of ((64 * x + y) div 16)] else None)
     else do {
       z \<leftarrow> b64_val c;
       if d = CHR ''='' then
         (if s = [] then (let n = 4096 * x + 64 * y + z in Some [char_of (n div 1024), char_of (n div 4 mod 256)]) else None)
       else do {
         w \<leftarrow> b64_val d; r \<leftarrow> b64_quanta s;
         let n = 262144 * x + 4096 * y + 64 * z + w in
           Some (char_of (n div 65536) # char_of (n div 256 mod 256) # char_of (n mod 256) # r) } } }"
| "b64_quanta s = None"

definition b64_decode :: "string \<Rightarrow> string option" where
  "b64_decode s = b64_quanta (filter (\<lambda>c. c \<noteq> CHR 0x0A \<and> c \<noteq> CHR 0x0D) s)"

lemma byte_of_char_of: "n < 256 \<Longrightarrow> byte_of (char_of n) = n"
  by (simp add: byte_of_def)

lemma byte_of_less [simp]: "byte_of c < 256"
  by (simp add: byte_of_def)

lemma char_of_byte_of [simp]: "char_of (byte_of c) = c"
  by (simp add: byte_of_def)

lemma b64_val_char [simp]: "n < 64 \<Longrightarrow> b64_val (b64_char n) = Some n"
  by (auto simp: b64_val_def b64_char_def byte_of_char_of Let_def)

text \<open>A character of the alphabet is neither the padding nor a line break.\<close>

lemma b64_char_plain [simp]:
  assumes "n < 64"
  shows "b64_char n \<noteq> CHR ''=''" "b64_char n \<noteq> CHR 0x0A" "b64_char n \<noteq> CHR 0x0D"
proof -
  have "b64_val (CHR ''='') = None" "b64_val (CHR 0x0A) = None" "b64_val (CHR 0x0D) = None"
    by code_simp+
  with b64_val_char [OF assms] show "b64_char n \<noteq> CHR ''=''" "b64_char n \<noteq> CHR 0x0A" "b64_char n \<noteq> CHR 0x0D"
    by force+
qed

text \<open>Bytes and six-bit groups of a number.\<close>

lemma div_digit: "n < k * m \<Longrightarrow> n div k < (m::nat)"
  by (simp add: less_mult_imp_div_less mult.commute)

lemma sextets:
  "64 * (n div 64) + n mod 64 = (n::nat)"
  "4096 * (n div 4096) + 64 * (n div 64 mod 64) + n mod 64 = n"
  "262144 * (n div 262144) + 4096 * (n div 4096 mod 64) + 64 * (n div 64 mod 64) + n mod 64 = n"
proof -
  have d: "n div 4096 = n div 64 div 64" "n div 262144 = n div 4096 div 64" by (simp_all add: div_mult2_eq [symmetric])
  note * = mult_div_mod_eq [of 64 n] mult_div_mod_eq [of 64 "n div 64"] mult_div_mod_eq [of 64 "n div 4096"]
  show "64 * (n div 64) + n mod 64 = n" by (rule mult_div_mod_eq)
  show "4096 * (n div 4096) + 64 * (n div 64 mod 64) + n mod 64 = n" using * d by linarith
  show "262144 * (n div 262144) + 4096 * (n div 4096 mod 64) + 64 * (n div 64 mod 64) + n mod 64 = n" using * d by linarith
qed

lemma octets:
  assumes "c < 256" "b < 256"
  shows "(256 * b + c) div 256 = (b::nat)" "(256 * b + c) mod 256 = c"
    "(65536 * a + 256 * b + c) div 65536 = a" "(65536 * a + 256 * b + c) div 256 mod 256 = b" "(65536 * a + 256 * b + c) mod 256 = c"
proof -
  show "(256 * b + c) div 256 = b" "(256 * b + c) mod 256 = c" using assms by simp_all
  define q where "q = 256 * a + b"
  have e: "65536 * a + 256 * b + c = q * 256 + c" by (simp add: q_def)
  have d: "(65536 * a + 256 * b + c) div 256 = 256 * a + b" unfolding e q_def [symmetric] using assms by simp
  show "(65536 * a + 256 * b + c) mod 256 = c" unfolding e using assms by simp
  show "(65536 * a + 256 * b + c) div 256 mod 256 = b" unfolding d using assms by simp
  have "(65536 * a + 256 * b + c) div 65536 = (65536 * a + 256 * b + c) div 256 div 256" by (simp add: div_mult2_eq [symmetric])
  then show "(65536 * a + 256 * b + c) div 65536 = a" unfolding d using assms by simp
qed

lemma char_of_byte: "m mod 256 = byte_of c \<Longrightarrow> char_of m = c"
proof -
  assume m: "m mod 256 = byte_of c"
  have "char_of m = char_of (m mod 256)" by simp
  also have "\<dots> = c" unfolding m by simp
  finally show "char_of m = c" .
qed

text \<open>One quantum of each kind is read back.\<close>

lemma quantum_one:
  "b64_quanta (b64_encode [a]) = Some [a]"
proof -
  have "byte_of a div 4 < 64" "16 * (byte_of a mod 4) < 64" by (auto intro: div_digit)
  moreover have "(64 * (byte_of a div 4) + 16 * (byte_of a mod 4)) div 16 = byte_of a"
    using mult_div_mod_eq [of 4 "byte_of a"] by simp
  ultimately show ?thesis by (simp add: Let_def)
qed

lemma quantum_two: "b64_quanta (b64_encode [a, b]) = Some [a, b]"
proof -
  define n where "n = 256 * byte_of a + byte_of b"
  have "n < 65536" using byte_of_less [of a] byte_of_less [of b] unfolding n_def by linarith
  then have r: "n div 1024 < 64" "n div 16 mod 64 < 64" "4 * (n mod 16) < 64" by (auto intro: div_digit)
  have "n div 1024 = n div 16 div 64" by (simp add: div_mult2_eq [symmetric])
  then have m: "4096 * (n div 1024) + 64 * (n div 16 mod 64) + 4 * (n mod 16) = 4 * n"
    using mult_div_mod_eq [of 64 "n div 16"] mult_div_mod_eq [of 16 n] by linarith
  have "4 * n div 1024 = n div 256" by (simp add: div_mult2_eq [symmetric])
  moreover have "n div 256 = byte_of a" "n mod 256 = byte_of b"
    unfolding n_def by (rule octets; simp)+
  ultimately have "char_of ((4096 * (n div 1024) + 64 * (n div 16 mod 64) + 4 * (n mod 16)) div 1024) = a"
    "char_of ((4096 * (n div 1024) + 64 * (n div 16 mod 64) + 4 * (n mod 16)) div 4) = b"
    unfolding m by (simp_all add: char_of_byte)
  with r show ?thesis by (simp add: Let_def flip: n_def)
qed

lemma quantum_three: "b64_quanta (b64_encode (a # b # c # s)) = map_option (\<lambda>r. a # b # c # r) (b64_quanta (b64_encode s))"
proof -
  define n where "n = 65536 * byte_of a + 256 * byte_of b + byte_of c"
  have "n < 16777216" using byte_of_less [of a] byte_of_less [of b] byte_of_less [of c] unfolding n_def by linarith
  then have r: "n div 262144 < 64" "n div 4096 mod 64 < 64" "n div 64 mod 64 < 64" "n mod 64 < 64" by (auto intro: div_digit)
  have "n div 65536 = byte_of a" "n div 256 mod 256 = byte_of b" "n mod 256 = byte_of c"
    unfolding n_def by (rule octets; simp)+
  then have o: "char_of (n div 65536) = a" "char_of (n div 256) = b" "char_of n = c"
    by (simp_all add: char_of_byte)
  have e: "b64_encode (a # b # c # s) = b64_char (n div 262144) # b64_char (n div 4096 mod 64) # b64_char (n div 64 mod 64) #
      b64_char (n mod 64) # b64_encode s"
    by (simp add: Let_def n_def)
  show ?thesis
    unfolding e using r by (simp add: Let_def sextets(3) o map_option_case split: option.split)
qed

lemma b64_char_ex: "n < 64 \<Longrightarrow> \<exists>m < 64. b64_char n = b64_char m"
  by blast

lemma b64_encode_chars: "c \<in> set (b64_encode s) \<Longrightarrow> c = CHR ''='' \<or> (\<exists>n < 64. c = b64_char n)"
proof (induction s rule: b64_encode.induct)
  case (2 a)
  have "byte_of a div 4 < 64" by (auto intro: div_digit)
  with 2 show ?case by (auto simp: Let_def intro!: b64_char_ex)
next
  case (3 a b)
  have "256 * byte_of a + byte_of b < 65536" using byte_of_less [of a] byte_of_less [of b] by linarith
  then have "(256 * byte_of a + byte_of b) div 1024 < 64" by (auto intro: div_digit)
  with 3 show ?case by (auto simp: Let_def intro!: b64_char_ex)
next
  case (4 a b c' s)
  have "65536 * byte_of a + 256 * byte_of b + byte_of c' < 16777216"
    using byte_of_less [of a] byte_of_less [of b] byte_of_less [of c'] by linarith
  then have "(65536 * byte_of a + 256 * byte_of b + byte_of c') div 262144 < 64" by (auto intro: div_digit)
  with 4 show ?case by (auto simp: Let_def intro!: b64_char_ex)
qed simp

theorem b64_round_trip: "b64_decode (b64_encode s) = Some s"
proof -
  have "filter (\<lambda>c. c \<noteq> CHR 0x0A \<and> c \<noteq> CHR 0x0D) (b64_encode s) = b64_encode s"
    by (rule filter_True) (auto dest!: b64_encode_chars)
  moreover have "b64_quanta (b64_encode s) = Some s"
    by (induction s rule: b64_encode.induct) (simp_all only: quantum_one quantum_two quantum_three option.map, simp)
  ultimately show ?thesis by (simp add: b64_decode_def)
qed

section \<open>The box\<close>

text \<open>
  HKDF-SHA256 of the master key under the program's fixed salt and info, and AES-256-GCM: sealing
  with a key and a nonce, and opening, which fails when the bytes were not sealed so.
\<close>

record aead =
  ae_derive :: "string \<Rightarrow> string"
  ae_seal :: "string \<Rightarrow> string \<Rightarrow> string \<Rightarrow> string"
  ae_open :: "string \<Rightarrow> string \<Rightarrow> string \<Rightarrow> string option"

definition nonce_size :: nat where
  "nonce_size = 12"

record seal_box =
  sb_key :: string

definition new_seal_box :: "aead \<Rightarrow> string \<Rightarrow> seal_box option" where
  "new_seal_box ae master = (if length master < 32 then None else Some \<lparr>sb_key = ae_derive ae master\<rparr>)"

definition encrypt :: "aead \<Rightarrow> seal_box \<Rightarrow> string \<Rightarrow> string \<Rightarrow> string" where
  "encrypt ae sb nonce plain = b64_encode (nonce @ ae_seal ae (sb_key sb) nonce plain)"

definition decrypt :: "aead \<Rightarrow> seal_box \<Rightarrow> string \<Rightarrow> string option" where
  "decrypt ae sb text = do {
     raw \<leftarrow> b64_decode text;
     if length raw < nonce_size then None
     else ae_open ae (sb_key sb) (take nonce_size raw) (drop nonce_size raw) }"

text \<open>What AES-GCM promises: what was sealed opens under the same key and nonce, nothing else does.\<close>

definition aead_law :: "aead \<Rightarrow> bool" where
  "aead_law ae \<longleftrightarrow> (\<forall>k n p c. ae_open ae k n c = Some p \<longleftrightarrow> c = ae_seal ae k n p)"

lemma decrypt_encrypt: "aead_law ae \<Longrightarrow> length nonce = nonce_size \<Longrightarrow> decrypt ae sb (encrypt ae sb nonce plain) = Some plain"
  by (simp add: decrypt_def encrypt_def b64_round_trip aead_law_def)

end
