(* ===== verification/Simulation.thy ===== *)
theory Simulation
  imports Main
begin

text \<open>
  Refinement of an abstract specification: operations of the program, which may fail, against total
  operations on an abstract state. A component proves the diagram for one operation; runs of any
  length follow. A failing operation ends the run.
\<close>

fun orun :: "('e \<Rightarrow> 's \<Rightarrow> 's option) \<Rightarrow> 'e list \<Rightarrow> 's \<Rightarrow> 's option" where
  "orun step [] s = Some s"
| "orun step (e # es) s = (case step e s of None \<Rightarrow> None | Some t \<Rightarrow> orun step es t)"

locale simulation =
  fixes cstep :: "'e \<Rightarrow> 's \<Rightarrow> 's option"
    and astep :: "'e \<Rightarrow> 'a \<Rightarrow> 'a"
    and abs :: "'s \<Rightarrow> 'a"
    and inv :: "'s \<Rightarrow> bool"
    and ok :: "'e \<Rightarrow> bool"
  assumes diagram: "inv s \<Longrightarrow> ok e \<Longrightarrow> \<exists>t. cstep e s = Some t \<and> inv t \<and> abs t = astep e (abs s)"
begin

lemma run_refines:
  "inv s \<Longrightarrow> list_all ok es \<Longrightarrow> \<exists>t. orun cstep es s = Some t \<and> inv t \<and> abs t = fold astep es (abs s)"
proof (induction es arbitrary: s)
  case (Cons e es)
  obtain t where "cstep e s = Some t" "inv t" "abs t = astep e (abs s)"
    using diagram [of s e] Cons.prems by auto
  with Cons.IH [of t] Cons.prems(2) show ?case by simp
qed simp

end

text \<open>Operations that cannot fail: the abstraction commutes with every run.\<close>

locale total_simulation =
  fixes step :: "'e \<Rightarrow> 's \<Rightarrow> 's"
    and spec :: "'e \<Rightarrow> 'a \<Rightarrow> 'a"
    and abstract :: "'s \<Rightarrow> 'a"
  assumes commutes: "abstract (step e s) = spec e (abstract s)"
begin

lemma run_abs: "abstract (fold step es s) = fold spec es (abstract s)"
  by (induction es arbitrary: s) (simp_all add: commutes)

end

sublocale total_simulation \<subseteq> simulation "\<lambda>e s. Some (step e s)" spec abstract "\<lambda>_. True" "\<lambda>_. True"
  by unfold_locales (simp add: commutes)

end
