(* ===== verification/AppKey.thy ===== *)
theory AppKey
  imports SealBox Timestamp DbSettings Simulation
begin

text \<open>
  \<open>internal/appkey/appkey.go\<close>: Patchdeck's own SSH keypair and its rotation. The private keys are
  values of a type of their own; the SSH library that prints, reads and describes them is a
  parameter, and so are the fresh key and nonce of each generation. The in-memory store and the
  database are passed on together, as the code changes both under its lock.
\<close>

section \<open>The SSH library\<close>

text \<open>
  \<open>ssh.MarshalPrivateKey\<close> with PEM encoding, \<open>ssh.ParsePrivateKey\<close>, and of a public key the trimmed
  \<open>authorized_keys\<close> line and the SHA256 fingerprint.
\<close>

record 'p keylib =
  kl_marshal :: "'p \<Rightarrow> string \<Rightarrow> string"
  kl_parse :: "string \<Rightarrow> 'p option"
  kl_public :: "'p \<Rightarrow> string"
  kl_fingerprint :: "'p \<Rightarrow> string"

text \<open>What the library promises: a key that was printed is read back, and is not printed as nothing.\<close>

definition keylib_law :: "'p keylib \<Rightarrow> bool" where
  "keylib_law lib \<longleftrightarrow> (\<forall>p c. kl_parse lib (kl_marshal lib p c) = Some p)"

record 'p app_key =
  k_signer :: 'p
  k_line :: string
  k_fingerprint :: string
  k_created :: int

definition key_comment :: "int \<Rightarrow> string" where
  "key_comment t = ''patchdeck-'' @ format_compact t"

definition key_of :: "'p keylib \<Rightarrow> 'p \<Rightarrow> int \<Rightarrow> 'p app_key" where
  "key_of lib p t = \<lparr>k_signer = p, k_line = kl_public lib p @ '' '' @ key_comment t,
     k_fingerprint = kl_fingerprint lib p, k_created = t\<rparr>"

section \<open>The store\<close>

record 'p key_store =
  ks_cur :: "'p app_key"
  ks_next :: "'p app_key option"

text \<open>What a generation draws: the time in nanoseconds, the private key and the nonce of the seal.\<close>

type_synonym 'p draw = "int \<times> 'p \<times> string"

definition generate_key :: "'p keylib \<Rightarrow> aead \<Rightarrow> seal_box \<Rightarrow> 'p draw \<Rightarrow> 'p app_key \<times> string" where
  "generate_key lib ae sb = (\<lambda>(now, p, nonce).
     let created = now div 1000000000
     in (key_of lib p created, encrypt ae sb nonce (kl_marshal lib p (key_comment created))))"

definition load_key :: "'p keylib \<Rightarrow> aead \<Rightarrow> seal_box \<Rightarrow> string \<Rightarrow> string \<Rightarrow> 'p app_key option" where
  "load_key lib ae sb cipher created = do {
     plain \<leftarrow> decrypt ae sb cipher;
     p \<leftarrow> kl_parse lib plain;
     Some (key_of lib p (case parse_rfc3339 created of None \<Rightarrow> zero_time | Some t \<Rightarrow> t)) }"

definition persist_keys :: "'p app_key \<Rightarrow> string \<Rightarrow> ('p app_key \<times> string) option \<Rightarrow> db \<Rightarrow> db" where
  "persist_keys cur cur_cipher nxt d = put_app_key_state
     \<lparr>ak_current = cur_cipher, ak_current_created = format_rfc3339 (k_created cur),
      ak_next = (case nxt of None \<Rightarrow> [] | Some (k, c) \<Rightarrow> c),
      ak_next_created = (case nxt of None \<Rightarrow> [] | Some (k, c) \<Rightarrow> format_rfc3339 (k_created k))\<rparr> d"

text \<open>\<open>Open\<close>: the store, whether a first key was made, and the database; or the message of its error.\<close>

definition open_keys :: "'p keylib \<Rightarrow> aead \<Rightarrow> seal_box \<Rightarrow> 'p draw \<Rightarrow> db \<Rightarrow> string + 'p key_store \<times> bool \<times> db" where
  "open_keys lib ae sb draw d =
     (let st = get_app_key_state d in
      if ak_current st = [] then
        (let (k, cipher) = generate_key lib ae sb draw
         in Inr (\<lparr>ks_cur = k, ks_next = None\<rparr>, True, persist_keys k cipher None d))
      else case load_key lib ae sb (ak_current st) (ak_current_created st) of
          None \<Rightarrow> Inl ''load current SSH key''
        | Some cur \<Rightarrow>
            if ak_next st = [] then Inr (\<lparr>ks_cur = cur, ks_next = None\<rparr>, False, d)
            else (case load_key lib ae sb (ak_next st) (ak_next_created st) of
                None \<Rightarrow> Inl ''load next SSH key''
              | Some n \<Rightarrow> Inr (\<lparr>ks_cur = cur, ks_next = Some n\<rparr>, False, d)))"

text \<open>The keys a host is offered.\<close>

definition key_signers :: "'p key_store \<Rightarrow> 'p list" where
  "key_signers s = k_signer (ks_cur s) # (case ks_next s of None \<Rightarrow> [] | Some n \<Rightarrow> [k_signer n])"

definition err_rotating :: string where
  "err_rotating = ''a key rotation is already in progress''"

definition err_not_rotating :: string where
  "err_not_rotating = ''no key rotation is in progress''"

definition start_rotation_store ::
  "'p keylib \<Rightarrow> aead \<Rightarrow> seal_box \<Rightarrow> 'p draw \<Rightarrow> 'p key_store \<times> db \<Rightarrow> (string + 'p app_key) \<times> 'p key_store \<times> db" where
  "start_rotation_store lib ae sb draw = (\<lambda>(s, d).
     if ks_next s \<noteq> None then (Inl err_rotating, s, d)
     else let st = get_app_key_state d; (n, cipher) = generate_key lib ae sb draw
          in (Inr n, s\<lparr>ks_next := Some n\<rparr>, persist_keys (ks_cur s) (ak_current st) (Some (n, cipher)) d))"

definition finish_rotation_store :: "'p key_store \<times> db \<Rightarrow> (string + 'p app_key) \<times> 'p key_store \<times> db" where
  "finish_rotation_store = (\<lambda>(s, d).
     case ks_next s of None \<Rightarrow> (Inl err_not_rotating, s, d)
     | Some n \<Rightarrow> (Inr (ks_cur s), \<lparr>ks_cur = n, ks_next = None\<rparr>, persist_keys n (ak_next (get_app_key_state d)) None d))"

definition cancel_rotation_store :: "'p key_store \<times> db \<Rightarrow> (string + 'p app_key) \<times> 'p key_store \<times> db" where
  "cancel_rotation_store = (\<lambda>(s, d).
     case ks_next s of None \<Rightarrow> (Inl err_not_rotating, s, d)
     | Some n \<Rightarrow> (Inr n, s\<lparr>ks_next := None\<rparr>, persist_keys (ks_cur s) (ak_current (get_app_key_state d)) None d))"

section \<open>The rotation as a specification\<close>

text \<open>
  What a client sees of it: the keys in use, of which the first is the one hosts are expected to
  trust. A restart of the server is no change.
\<close>

datatype 'k rotation = Stable 'k | Rotating 'k 'k

datatype 'p key_op = StartOp "'p draw" | FinishOp | CancelOp | RestartOp "'p draw"

fun rotation_spec :: "('p draw \<Rightarrow> 'k) \<Rightarrow> 'p key_op \<Rightarrow> 'k rotation \<Rightarrow> 'k rotation" where
  "rotation_spec new (StartOp w) (Stable k) = Rotating k (new w)"
| "rotation_spec new FinishOp (Rotating k n) = Stable n"
| "rotation_spec new CancelOp (Rotating k n) = Stable k"
| "rotation_spec new _ r = r"

fun rotation_keys :: "'k rotation \<Rightarrow> 'k list" where
  "rotation_keys (Stable k) = [k]"
| "rotation_keys (Rotating k n) = [k, n]"

definition abs_rotation :: "'p key_store \<Rightarrow> 'p app_key rotation" where
  "abs_rotation s = (case ks_next s of None \<Rightarrow> Stable (ks_cur s) | Some n \<Rightarrow> Rotating (ks_cur s) n)"

text \<open>One operation of the program; a restart opens the store anew and fails with \<open>None\<close>.\<close>

fun key_store_op :: "'p keylib \<Rightarrow> aead \<Rightarrow> seal_box \<Rightarrow> 'p key_op \<Rightarrow> 'p key_store \<times> db \<Rightarrow> ('p key_store \<times> db) option" where
  "key_store_op lib ae sb (StartOp w) x = Some (snd (start_rotation_store lib ae sb w x))"
| "key_store_op lib ae sb FinishOp x = Some (snd (finish_rotation_store x))"
| "key_store_op lib ae sb CancelOp x = Some (snd (cancel_rotation_store x))"
| "key_store_op lib ae sb (RestartOp w) x =
     (case open_keys lib ae sb w (snd x) of Inl _ \<Rightarrow> None | Inr (s, _, d) \<Rightarrow> Some (s, d))"

text \<open>The draws the operations can meet: a nonce of the right size and a time the calendar knows.\<close>

definition draw_ok :: "'p draw \<Rightarrow> bool" where
  "draw_ok = (\<lambda>(now, p, nonce). length nonce = nonce_size \<and> time_ok (now div 1000000000))"

fun key_op_ok :: "'p key_op \<Rightarrow> bool" where
  "key_op_ok (StartOp w) = draw_ok w"
| "key_op_ok _ = True"

section \<open>The database holds the store\<close>

text \<open>A stored key: its cipher opens to a printed private key from which it was made.\<close>

definition key_stored :: "'p keylib \<Rightarrow> aead \<Rightarrow> seal_box \<Rightarrow> string \<Rightarrow> string \<Rightarrow> 'p app_key \<Rightarrow> bool" where
  "key_stored lib ae sb cipher created k \<longleftrightarrow> cipher \<noteq> [] \<and> time_ok (k_created k) \<and>
     created = format_rfc3339 (k_created k) \<and> load_key lib ae sb cipher created = Some k"

definition store_ok :: "'p keylib \<Rightarrow> aead \<Rightarrow> seal_box \<Rightarrow> 'p key_store \<times> db \<Rightarrow> bool" where
  "store_ok lib ae sb = (\<lambda>(s, d). let st = get_app_key_state d in
     key_stored lib ae sb (ak_current st) (ak_current_created st) (ks_cur s) \<and>
     (case ks_next s of None \<Rightarrow> ak_next st = [] | Some n \<Rightarrow> key_stored lib ae sb (ak_next st) (ak_next_created st) n))"

lemma b64_encode_Nil [simp]: "b64_encode s = [] \<longleftrightarrow> s = []"
  by (cases s rule: b64_encode.cases) (simp_all add: Let_def)

lemma encrypt_ne: "length nonce = nonce_size \<Longrightarrow> encrypt ae sb nonce p \<noteq> []"
  by (auto simp: encrypt_def nonce_size_def)

lemma generate_stored:
  assumes law: "keylib_law lib" "aead_law ae" and w: "draw_ok w" and g: "generate_key lib ae sb w = (k, cipher)"
  shows "key_stored lib ae sb cipher (format_rfc3339 (k_created k)) k"
proof -
  obtain now p nonce where w': "w = (now, p, nonce)" by (cases w)
  have k: "k = key_of lib p (now div 1000000000)"
    "cipher = encrypt ae sb nonce (kl_marshal lib p (key_comment (now div 1000000000)))"
    using g by (auto simp: generate_key_def Let_def w')
  have "length nonce = nonce_size" "time_ok (now div 1000000000)"
    using w by (simp_all add: draw_ok_def w')
  with law show ?thesis
    unfolding k key_stored_def
    by (simp add: load_key_def decrypt_encrypt encrypt_ne keylib_law_def parse_format_rfc3339 key_of_def)
qed

lemma persist_state [simp]:
  "ak_current (get_app_key_state (persist_keys cur c n d)) = c"
  "ak_current_created (get_app_key_state (persist_keys cur c n d)) = format_rfc3339 (k_created cur)"
  "ak_next (get_app_key_state (persist_keys cur c n d)) = (case n of None \<Rightarrow> [] | Some (k, x) \<Rightarrow> x)"
  "ak_next_created (get_app_key_state (persist_keys cur c n d)) = (case n of None \<Rightarrow> [] | Some (k, x) \<Rightarrow> format_rfc3339 (k_created k))"
  by (simp_all add: persist_keys_def)

lemma stored_again: "key_stored lib ae sb c t k \<Longrightarrow> key_stored lib ae sb c (format_rfc3339 (k_created k)) k"
  by (auto simp: key_stored_def)

text \<open>Opening the database of a store gives that store.\<close>

lemma reopen: "store_ok lib ae sb (s, d) \<Longrightarrow> open_keys lib ae sb w d = Inr (s, False, d)"
  by (auto simp: store_ok_def open_keys_def key_stored_def Let_def split: option.splits)

lemma first_open:
  assumes "keylib_law lib" "aead_law ae" "draw_ok w" "ak_current (get_app_key_state d) = []"
  obtains s d' where "open_keys lib ae sb w d = Inr (s, True, d')" "store_ok lib ae sb (s, d')"
    "abs_rotation s = Stable (fst (generate_key lib ae sb w))"
proof -
  obtain k c where g: "generate_key lib ae sb w = (k, c)" by force
  note st = generate_stored [OF assms(1-3) g]
  show ?thesis
    by (rule that [of "\<lparr>ks_cur = k, ks_next = None\<rparr>" "persist_keys k c None d"])
      (use assms(4) g st in \<open>simp_all add: open_keys_def store_ok_def abs_rotation_def\<close>)
qed

lemma key_op_diagram:
  assumes law: "keylib_law lib" "aead_law ae" and inv: "store_ok lib ae sb x" and e: "key_op_ok e"
  shows "\<exists>y. key_store_op lib ae sb e x = Some y \<and> store_ok lib ae sb y \<and>
    abs_rotation (fst y) = rotation_spec (\<lambda>w. fst (generate_key lib ae sb w)) e (abs_rotation (fst x))"
proof -
  obtain s d where x: "x = (s, d)" by (cases x)
  show ?thesis
  proof (cases e)
    case (StartOp w)
    obtain k c where g: "generate_key lib ae sb w = (k, c)" by force
    from e StartOp have "draw_ok w" by simp
    note st = generate_stored [OF law this g]
    show ?thesis
      using inv st
      by (auto simp: StartOp x start_rotation_store_def g store_ok_def abs_rotation_def Let_def intro: stored_again split: option.splits)
  next
    case FinishOp
    then show ?thesis using inv
      by (auto simp: x finish_rotation_store_def store_ok_def abs_rotation_def Let_def intro: stored_again split: option.splits)
  next
    case CancelOp
    then show ?thesis using inv
      by (auto simp: x cancel_rotation_store_def store_ok_def abs_rotation_def Let_def intro: stored_again split: option.splits)
  next
    case (RestartOp w)
    then show ?thesis using inv reopen [of lib ae sb s d w]
      by (auto simp: x abs_rotation_def split: option.splits)
  qed
qed

text \<open>The program refines the specification.\<close>

interpretation rotation: simulation "key_store_op lib ae sb"
  "\<lambda>e. rotation_spec (\<lambda>w. fst (generate_key lib ae sb w)) e"
  "\<lambda>x. abs_rotation (fst x)" "\<lambda>x. keylib_law lib \<and> aead_law ae \<and> store_ok lib ae sb x" key_op_ok
  for lib :: "'p keylib" and ae sb
  by unfold_locales (use key_op_diagram in blast)

section \<open>Properties\<close>

text \<open>C8
  The rotation refines its specification across restarts: from a database without a key, any
  sequence of rotations started, finished and cancelled and of restarts of the server runs without
  failure, its keys are those the specification of a two-phase rotation gives, the hosts are offered
  exactly them, and the server that starts next reads the same store back, keys, dates and all.\<close>

theorem rotation_survives_restarts:
  assumes law: "keylib_law lib" "aead_law ae"
    and start: "ak_current (get_app_key_state d0) = []" "draw_ok w0" "open_keys lib ae sb w0 d0 = Inr (s0, g, d1)"
    and es: "list_all key_op_ok es"
  shows "\<exists>s d. orun (key_store_op lib ae sb) es (s0, d1) = Some (s, d) \<and>
    abs_rotation s = fold (rotation_spec (\<lambda>w. fst (generate_key lib ae sb w))) es (Stable (fst (generate_key lib ae sb w0))) \<and>
    key_signers s = map k_signer (rotation_keys (abs_rotation s)) \<and>
    open_keys lib ae sb w d = Inr (s, False, d)"
proof -
  obtain ok: "store_ok lib ae sb (s0, d1)" and a: "abs_rotation s0 = Stable (fst (generate_key lib ae sb w0))"
    using first_open [OF law start(2,1)] start(3) by (metis Inr_inject Pair_inject)
  have "\<exists>y. orun (key_store_op lib ae sb) es (s0, d1) = Some y \<and> (keylib_law lib \<and> aead_law ae \<and> store_ok lib ae sb y) \<and>
      abs_rotation (fst y) = fold (rotation_spec (\<lambda>w. fst (generate_key lib ae sb w))) es (abs_rotation (fst (s0, d1)))"
    by (rule rotation.run_refines) (use law ok es in auto)
  then obtain s d where run: "orun (key_store_op lib ae sb) es (s0, d1) = Some (s, d)" "store_ok lib ae sb (s, d)"
    "abs_rotation s = fold (rotation_spec (\<lambda>w. fst (generate_key lib ae sb w))) es (abs_rotation s0)"
    by auto
  moreover have "key_signers s = map k_signer (rotation_keys (abs_rotation s))"
    by (simp add: key_signers_def abs_rotation_def split: option.split)
  ultimately show ?thesis using reopen [OF run(2)] a by auto
qed

text \<open>A library whose keys are their own print, and a box whose seal is the key and nonce in front.\<close>

definition toy_keylib :: "string keylib" where
  "toy_keylib = \<lparr>kl_marshal = (\<lambda>p c. p), kl_parse = Some, kl_public = (\<lambda>p. ''ssh '' @ p), kl_fingerprint = (\<lambda>p. ''SHA256:'' @ p)\<rparr>"

definition toy_aead :: aead where
  "toy_aead = \<lparr>ae_derive = (\<lambda>m. m), ae_seal = (\<lambda>k n p. k @ n @ p),
     ae_open = (\<lambda>k n c. if take (length (k @ n)) c = k @ n then Some (drop (length (k @ n)) c) else None)\<rparr>"

definition toy_box :: seal_box where
  "toy_box = \<lparr>sb_key = ''m''\<rparr>"

definition toy_draw :: "string \<Rightarrow> string draw" where
  "toy_draw p = (0, p, replicate nonce_size (CHR ''n''))"

lemma toy_key_laws: "keylib_law toy_keylib" "aead_law toy_aead"
proof -
  show "keylib_law toy_keylib" by (simp add: keylib_law_def toy_keylib_def)
  have "(if take (length (k @ n)) c = k @ n then Some (drop (length (k @ n)) c) else None) = Some p \<longleftrightarrow> c = k @ n @ p"
    for k n c p :: string
    by (metis append.assoc append_eq_conv_conj append_take_drop_id option.distinct(1) option.inject)
  then show "aead_law toy_aead" by (simp add: aead_law_def toy_aead_def)
qed

lemma toy_draw_ok: "draw_ok (toy_draw p)"
  by (simp add: draw_ok_def toy_draw_def time_ok_def zero_time_def)

lemma toy_generate: "k_signer (fst (generate_key toy_keylib toy_aead toy_box (toy_draw p))) = p"
  by (simp add: generate_key_def toy_draw_def key_of_def Let_def)

lemma no_key_yet: "ak_current (get_app_key_state empty_db) = []"
  by code_simp

theorem rotation_survives_restarts_witness:
  "\<exists>s0 d1 s d. open_keys toy_keylib toy_aead toy_box (toy_draw ''old'') empty_db = Inr (s0, True, d1) \<and>
     orun (key_store_op toy_keylib toy_aead toy_box) [StartOp (toy_draw ''new''), RestartOp (toy_draw ''x''), FinishOp] (s0, d1) = Some (s, d) \<and>
     key_signers s = [''new'']"
proof -
  obtain s0 d1 where o: "open_keys toy_keylib toy_aead toy_box (toy_draw ''old'') empty_db = Inr (s0, True, d1)"
    using first_open [OF toy_key_laws toy_draw_ok no_key_yet] by metis
  let ?es = "[StartOp (toy_draw ''new''), RestartOp (toy_draw ''x''), FinishOp]"
  have "list_all key_op_ok ?es" by (simp add: toy_draw_ok)
  from rotation_survives_restarts [OF toy_key_laws no_key_yet toy_draw_ok o this, where w = "toy_draw ''x''"]
  obtain s d where r: "orun (key_store_op toy_keylib toy_aead toy_box) ?es (s0, d1) = Some (s, d)"
    "abs_rotation s = Stable (fst (generate_key toy_keylib toy_aead toy_box (toy_draw ''new'')))"
    "key_signers s = map k_signer (rotation_keys (abs_rotation s))"
    by (auto simp del: orun.simps)
  then have "key_signers s = [''new'']" by (simp add: toy_generate)
  with o r(1) show ?thesis by blast
qed

end
