(* ===== verification/Activity.thy ===== *)
theory Activity
  imports DbSettings Timestamp
begin

text \<open>
  The audit log as users see it: the list and the CSV export of \<open>cmd/server/main.go\<close>, and the pages of
  \<open>cmd/server/spike_activity.go\<close>. \<open>csv_parse\<close> is a reader of comma-separated values after RFC 4180, to
  say what a spreadsheet makes of the export.
\<close>

section \<open>The list\<close>

definition positive_query :: "int \<Rightarrow> int \<Rightarrow> string \<Rightarrow> int" where
  "positive_query low fallback raw =
     (let raw = trim_space raw in
      if raw \<noteq> [] then (case atoi raw of Some n \<Rightarrow> if n \<ge> low then n else fallback | None \<Rightarrow> fallback) else fallback)"

definition list_activity_req :: "string \<Rightarrow> string \<Rightarrow> string \<Rightarrow> db \<Rightarrow> activity_entry list" where
  "list_activity_req host limit offset d = list_activity d (positive_query 1 50 limit) (positive_query 0 0 offset) (trim_space host)"

section \<open>The export\<close>

text \<open>Quotes doubled, and a first character that a spreadsheet takes for a formula hidden behind an apostrophe.\<close>

definition formula_start :: "char \<Rightarrow> bool" where
  "formula_start c \<longleftrightarrow> c \<in> set ''=+-@'' \<or> c = TAB \<or> c = CHR 0x0D"

definition guard_formula :: "string \<Rightarrow> string" where
  "guard_formula s = (if s \<noteq> [] \<and> formula_start (hd s) then CHR 0x27 # s else s)"

definition double_quotes :: "string \<Rightarrow> string" where
  "double_quotes s = replace_char (CHR 0x22) [CHR 0x22, CHR 0x22] s"

definition csv_field :: "string \<Rightarrow> string" where
  "csv_field s = double_quotes (guard_formula s)"

definition csv_row :: "activity_entry \<Rightarrow> string" where
  "csv_row e =
     itoa (ac_id e) @ '','' @ format_rfc3339 (ac_created e div 1000000000) @ '','' @ ac_host e @ '','' @
     [CHR 0x22] @ csv_field (ac_host_name e) @ [CHR 0x22] @ '','' @ ac_event e @ '','' @
     [CHR 0x22] @ csv_field (ac_summary e) @ [CHR 0x22] @ [NL]"

definition csv_header :: string where
  "csv_header = ''id,timestamp,host_id,host_name,event_type,summary'' @ [NL]"

definition csv_file :: "activity_entry list \<Rightarrow> string" where
  "csv_file es = csv_header @ concat (map csv_row es)"

definition csv_filename :: "int \<Rightarrow> string" where
  "csv_filename now =
     (let ((y, m, i), _) = civil_time (now div 1000000000)
      in ''patchdeck-activity-'' @ pad 4 y @ ''-'' @ pad 2 m @ ''-'' @ pad 2 i @ ''.csv'')"

text \<open>\<open>time.Parse\<close> is the parameter; a bound that does not parse is no bound.\<close>

definition time_bound :: "(string \<Rightarrow> int option) \<Rightarrow> string \<Rightarrow> int option" where
  "time_bound parse raw = (if trim_space raw \<noteq> [] then parse (trim_space raw) else None)"

definition export_activity_req ::
  "(string \<Rightarrow> int option) \<Rightarrow> int \<Rightarrow> string \<Rightarrow> string \<Rightarrow> string \<Rightarrow> string \<Rightarrow> db \<Rightarrow> string \<times> string" where
  "export_activity_req parse now host event from until d =
     (csv_filename now,
      csv_file (export_activity d (trim_space host) (trim_space event) (time_bound parse from) (time_bound parse until)))"

section \<open>The pages\<close>

definition event_tone :: "string \<Rightarrow> string" where
  "event_tone t =
     (if has_suffix t ''_fail'' then ''err''
      else if has_suffix t ''_interrupted'' \<or> t = ''host_deleted'' \<or> contains t ''mismatch'' \<or> contains t ''denied'' then ''warn''
      else ''ok'')"

definition event_labels :: "(string \<times> string) list" where
  "event_labels =
     [(''scan_ok'', ''Scan''), (''scan_fail'', ''Scan failed''), (''apply_ok'', ''Apply''), (''apply_fail'', ''Apply failed''),
      (''apply_interrupted'', ''Apply interrupted''), (''restart_ok'', ''Services restarted''), (''restart_fail'', ''Restart failed''),
      (''reboot_ok'', ''Reboot''), (''reboot_fail'', ''Reboot failed''), (''shutdown_ok'', ''Shutdown''),
      (''shutdown_fail'', ''Shutdown failed''), (''host_added'', ''Host added''), (''host_updated'', ''Host updated''),
      (''host_deleted'', ''Host deleted''), (''host_key_rotation_accepted'', ''Host key accepted''),
      (''host_key_mismatch_denied'', ''Host key denied''), (''ssh_key_generated'', ''SSH key created''),
      (''ssh_key_rotation_started'', ''SSH key rotation started''), (''ssh_key_rotated'', ''SSH key rotated''),
      (''ssh_key_rotation_cancelled'', ''SSH key rotation cancelled'')]"

text \<open>The first byte of an unknown type in upper case; a byte that is no character on its own becomes the replacement character.\<close>

definition upper_byte :: "char \<Rightarrow> string" where
  "upper_byte c = (if byte_of c < 128 then [upper_char c] else [CHR 0xEF, CHR 0xBF, CHR 0xBD])"

definition event_label :: "string \<Rightarrow> string" where
  "event_label t =
     (case map_of event_labels t of
        Some l \<Rightarrow> l
      | None \<Rightarrow>
          if t = [] then ''Event''
          else (let s = replace_char (CHR ''_'') '' '' t in upper_byte (hd s) @ tl s))"

definition activity_page :: int where
  "activity_page = 50"

record activity_rows =
  aw_entries :: "activity_entry list"
  aw_next :: int
  aw_more :: bool
  aw_host :: string

definition next_activity :: "string \<Rightarrow> db \<Rightarrow> activity_rows" where
  "next_activity host d =
     (let entries = list_activity d activity_page 0 (trim_space host)
      in \<lparr>aw_entries = entries, aw_next = activity_page, aw_more = (int (length entries) = activity_page), aw_host = trim_space host\<rparr>)"

definition next_activity_rows :: "string \<Rightarrow> string \<Rightarrow> db \<Rightarrow> activity_rows" where
  "next_activity_rows raw_offset host d =
     (let offset = atoi_value (trim_space raw_offset); offset = (if offset < 0 then 0 else offset);
          entries = list_activity d activity_page offset (trim_space host)
      in \<lparr>aw_entries = entries, aw_next = offset + activity_page, aw_more = (int (length entries) = activity_page),
          aw_host = trim_space host\<rparr>)"

text \<open>The browser asks for the next rows as long as there are more; \<open>n\<close> bounds how often.\<close>

fun all_pages :: "nat \<Rightarrow> int \<Rightarrow> string \<Rightarrow> db \<Rightarrow> activity_entry list" where
  "all_pages 0 offset host d = []"
| "all_pages (Suc n) offset host d =
     (let p = next_activity_rows (itoa offset) host d
      in aw_entries p @ (if aw_more p then all_pages n (aw_next p) host d else []))"

section \<open>Reading the export\<close>

datatype csv_mode = FieldStart | Unquoted | Quoted | QuoteSeen

fun csv_read :: "csv_mode \<Rightarrow> string \<Rightarrow> string list \<Rightarrow> string \<Rightarrow> string list list" where
  "csv_read m f fs [] = (if m = FieldStart \<and> fs = [] then [] else [fs @ [f]])"
| "csv_read Quoted f fs (c # r) =
     (if c = CHR 0x22 then csv_read QuoteSeen f fs r else csv_read Quoted (f @ [c]) fs r)"
| "csv_read m f fs (c # r) =
     (if c = CHR '','' then csv_read FieldStart [] (fs @ [f]) r
      else if c = NL then (fs @ [f]) # csv_read FieldStart [] [] r
      else if c = CHR 0x22 \<and> m = FieldStart then csv_read Quoted [] fs r
      else if c = CHR 0x22 \<and> m = QuoteSeen then csv_read Quoted (f @ [c]) fs r
      else csv_read Unquoted (f @ [c]) fs r)"

definition csv_parse :: "string \<Rightarrow> string list list" where
  "csv_parse = csv_read FieldStart [] []"

text \<open>A value that needs no quotes.\<close>

definition csv_plain :: "string \<Rightarrow> bool" where
  "csv_plain = list_all (\<lambda>c. c \<noteq> CHR '','' \<and> c \<noteq> NL \<and> c \<noteq> CHR 0x22)"

lemma NL_comma [simp]: "NL \<noteq> CHR '',''" "NL \<noteq> CHR 0x22" "CHR '','' \<noteq> NL" "CHR 0x22 \<noteq> NL"
  by (simp_all add: NL_def)

lemma csv_unquoted: "csv_plain p \<Longrightarrow> csv_read Unquoted f fs (p @ r) = csv_read Unquoted (f @ p) fs r"
  by (induction p arbitrary: f) (auto simp: csv_plain_def)

lemma csv_unquoted_end:
  "csv_read m f fs (CHR '','' # r) = csv_read FieldStart [] (fs @ [f]) r"
  "csv_read m f fs (NL # r) = (fs @ [f]) # csv_read FieldStart [] [] r" if "m \<noteq> Quoted"
  using that by (cases m; simp)+

lemma csv_plain_field: "csv_plain p \<Longrightarrow> csv_read FieldStart [] fs (p @ CHR '','' # r) = csv_read FieldStart [] (fs @ [p]) r"
proof (cases p)
  case (Cons c q)
  assume "csv_plain p"
  then have "csv_plain q" "c \<noteq> CHR '',''" "c \<noteq> NL" "c \<noteq> CHR 0x22" by (auto simp: Cons csv_plain_def)
  then show ?thesis by (simp add: Cons csv_unquoted csv_unquoted_end)
qed (simp add: csv_unquoted_end)

lemma csv_quoted: "csv_read Quoted f fs (double_quotes s @ r) = csv_read Quoted (f @ s) fs r"
proof (induction s arbitrary: f)
  case (Cons c s)
  show ?case
  proof (cases "c = CHR 0x22")
    case True
    have "csv_read Quoted f fs (double_quotes (c # s) @ r) = csv_read QuoteSeen f fs (CHR 0x22 # double_quotes s @ r)"
      by (simp add: double_quotes_def replace_char_def True)
    also have "\<dots> = csv_read Quoted (f @ [c]) fs (double_quotes s @ r)" by (simp add: True)
    finally show ?thesis using Cons.IH [of "f @ [c]"] by simp
  next
    case False
    then show ?thesis using Cons.IH [of "f @ [c]"] by (simp add: double_quotes_def replace_char_def)
  qed
qed (simp add: double_quotes_def replace_char_def)

lemma csv_plain_digits: "list_all is_digit s \<Longrightarrow> csv_plain s"
  by (auto simp: csv_plain_def list_all_iff is_digit_def byte_of_def NL_def)

lemma csv_plain_itoa: "csv_plain (itoa n)"
  using csv_plain_digits [OF digits_all [of "nat n"]] csv_plain_digits [OF digits_all [of "nat (- n)"]]
  by (simp add: itoa_def csv_plain_def NL_def)

lemma csv_plain_time: "csv_plain (format_rfc3339 t)"
  using csv_plain_digits [OF digits_pad]
  by (auto simp: format_rfc3339_def csv_plain_def NL_def split: prod.split)

definition csv_values :: "activity_entry \<Rightarrow> string list" where
  "csv_values e = [itoa (ac_id e), format_rfc3339 (ac_created e div 1000000000), ac_host e, guard_formula (ac_host_name e),
     ac_event e, guard_formula (ac_summary e)]"

lemma csv_read_row:
  assumes "csv_plain (ac_host e)" "csv_plain (ac_event e)"
  shows "csv_read FieldStart [] [] (csv_row e @ r) = csv_values e # csv_read FieldStart [] [] r"
  using assms
  by (simp add: csv_row_def csv_field_def csv_plain_field csv_plain_itoa csv_plain_time csv_quoted csv_values_def)

lemma csv_read_rows:
  "list_all (\<lambda>e. csv_plain (ac_host e) \<and> csv_plain (ac_event e)) es \<Longrightarrow>
     csv_read FieldStart [] [] (concat (map csv_row es)) = map csv_values es"
  by (induction es) (simp_all add: csv_read_row)

text \<open>C34
  The export is read back exactly: whatever the names of hosts and the summaries contain, quotes, commas
  and line breaks included, the file has one record per entry with the fields of the entry, and no
  free text in it starts like a formula.\<close>

theorem csv_export_exact:
  assumes "list_all (\<lambda>e. csv_plain (ac_host e) \<and> csv_plain (ac_event e)) es"
  shows "csv_parse (csv_file es) =
      [''id'', ''timestamp'', ''host_id'', ''host_name'', ''event_type'', ''summary''] # map csv_values es \<and>
    (\<forall>s. guard_formula s = [] \<or> \<not> formula_start (hd (guard_formula s)))"
proof
  have "csv_read FieldStart [] [] (csv_header @ r) =
      [''id'', ''timestamp'', ''host_id'', ''host_name'', ''event_type'', ''summary''] # csv_read FieldStart [] [] r" for r
    by (simp add: csv_header_def) (simp add: NL_def)
  then show "csv_parse (csv_file es) =
      [''id'', ''timestamp'', ''host_id'', ''host_name'', ''event_type'', ''summary''] # map csv_values es"
    by (simp add: csv_parse_def csv_file_def csv_read_rows [OF assms])
  show "\<forall>s. guard_formula s = [] \<or> \<not> formula_start (hd (guard_formula s))"
    by (auto simp: guard_formula_def formula_start_def TAB_def)
qed

theorem csv_export_exact_witness:
  "\<exists>e. csv_parse (csv_file [e]) = [[''id'', ''timestamp'', ''host_id'', ''host_name'', ''event_type'', ''summary''], csv_values e] \<and>
     hd (ac_summary e) = CHR ''='' \<and> NL \<in> set (ac_host_name e)"
proof -
  let ?e = "\<lparr>ac_id = 1, ac_host = ''h1'', ac_host_name = ''a'' @ [NL, CHR 0x22, CHR '','']  , ac_event = ''scan_ok'',
     ac_summary = ''=cmd'', ac_created = 0\<rparr>"
  have "list_all (\<lambda>e. csv_plain (ac_host e) \<and> csv_plain (ac_event e)) [?e]" by (simp add: csv_plain_def NL_def)
  from csv_export_exact [OF this] show ?thesis by (intro exI [of _ ?e]) simp
qed

section \<open>Paging\<close>

lemma atoi_value_offset: "0 \<le> o' \<Longrightarrow> o' < 2 ^ 63 \<Longrightarrow> atoi_value (trim_space (itoa o')) = o'"
proof -
  assume "0 \<le> o'" "o' < 2 ^ 63"
  have "trim_space (itoa o') = itoa o'"
    using trim_space_digits [OF digits_all [of "nat o'"]] \<open>0 \<le> o'\<close> by (simp add: itoa_def)
  then show ?thesis using atoi_value_itoa [of o'] \<open>0 \<le> o'\<close> \<open>o' < 2 ^ 63\<close> by (simp add: int64_range_def)
qed

definition log_rows :: "string \<Rightarrow> db \<Rightarrow> activity_entry list" where
  "log_rows host d =
     order_desc (\<lambda>e. (ac_created e, ac_id e))
       (if trim_space host \<noteq> [] then filter (\<lambda>e. ac_host e = trim_space host) (d_activity d) else d_activity d)"

lemma page_rows:
  "0 \<le> off \<Longrightarrow> list_activity d activity_page off (trim_space host) = take 50 (drop (nat off) (log_rows host d))"
  by (auto simp: list_activity_def log_rows_def activity_page_def Let_def)

text \<open>
  Paging through the log shows every entry once, newest first: the pages the browser fetches until
  there are no more make up the whole log, and it fetches at most one page more than the log has.\<close>

theorem paging_complete:
  assumes "int (length (d_activity d)) + 50 < 2 ^ 63" "length (d_activity d) < 50 * n"
  shows "all_pages n 0 host d = log_rows host d"
proof -
  have len: "length (log_rows host d) \<le> length (d_activity d)" by (auto simp: log_rows_def intro: order_trans [OF length_filter_le])
  have "all_pages n (int (50 * k)) host d = drop (50 * k) (log_rows host d)"
    if "length (log_rows host d) < 50 * (n + k)" "50 * k \<le> length (d_activity d)" for k n
    using that
  proof (induction n arbitrary: k)
    case (Suc n)
    let ?p = "take 50 (drop (50 * k) (log_rows host d))"
    have off: "atoi_value (trim_space (itoa (int (50 * k)))) = int (50 * k)"
      by (rule atoi_value_offset) (use Suc.prems(2) assms(1) in auto)
    have page: "next_activity_rows (itoa (int (50 * k))) host d =
        \<lparr>aw_entries = ?p, aw_next = int (50 * k) + 50, aw_more = (int (length ?p) = 50), aw_host = trim_space host\<rparr>"
      unfolding next_activity_rows_def off Let_def
      using page_rows [of "int (50 * k)" d host] by (simp add: activity_page_def nat_mult_distrib)
    show ?case
    proof (cases "length ?p = 50")
      case True
      then have k: "50 * Suc k \<le> length (log_rows host d)" by simp
      have "all_pages n (int (50 * Suc k)) host d = drop (50 * Suc k) (log_rows host d)"
        using Suc.IH [of "Suc k"] Suc.prems(1) k len by simp
      moreover have "?p @ drop (50 * Suc k) (log_rows host d) = drop (50 * k) (log_rows host d)"
        using append_take_drop_id [of 50 "drop (50 * k) (log_rows host d)"] by (simp add: add.commute)
      ultimately show ?thesis using True unfolding all_pages.simps(2) page Let_def by (simp add: add.commute)
    next
      case False
      then show ?thesis unfolding all_pages.simps(2) page Let_def by simp
    qed
  qed simp
  from this [of n 0] assms(2) len show ?thesis by simp
qed

theorem paging_complete_witness:
  "all_pages 1 0 [] (record_activity 5 ''h'' ''n'' ''scan_ok'' ''s'' empty_db) = log_rows [] (record_activity 5 ''h'' ''n'' ''scan_ok'' ''s'' empty_db)"
  by (rule paging_complete) (simp_all add: record_activity_def empty_db_def)

end
