(* ===== verification/HostForms.thy ===== *)
theory HostForms
  imports HostRows AppKey Activity
begin

text \<open>
  The add and edit forms of \<open>cmd/server/spike_hosts.go\<close>: the values a form is rendered with, and what the
  browser posts back when it is submitted as it was shown. Saving an edit form untouched keeps the host.
\<close>

section \<open>The values of a form\<close>

record host_form =
  hf_mode :: string
  hf_id :: string
  hf_name :: string
  hf_address :: string
  hf_port :: int
  hf_user :: string
  hf_auth :: string
  hf_trust :: string
  hf_pinned :: string
  hf_policy :: string
  hf_tags :: string
  hf_checks :: bool
  hf_err :: string
  hf_has_password :: bool
  hf_has_key :: bool
  hf_has_sudo :: bool
  hf_key_pub :: string
  hf_key_fp :: string

definition empty_form :: host_form where
  "empty_form = \<lparr>hf_mode = [], hf_id = [], hf_name = [], hf_address = [], hf_port = 0, hf_user = [], hf_auth = [], hf_trust = [],
     hf_pinned = [], hf_policy = [], hf_tags = [], hf_checks = False, hf_err = [], hf_has_password = False,
     hf_has_key = False, hf_has_sudo = False, hf_key_pub = [], hf_key_fp = []\<rparr>"

definition with_stored :: "host_form \<Rightarrow> secrets \<Rightarrow> host_form" where
  "with_stored v s = v\<lparr>hf_has_password := (s_password s \<noteq> []), hf_has_key := (s_key s \<noteq> []), hf_has_sudo := (s_sudo s \<noteq> [])\<rparr>"

text \<open>The current public key is shown when the server has its keypair.\<close>

definition render_host_form :: "'p key_store option \<Rightarrow> host_form \<Rightarrow> host_form" where
  "render_host_form keys v =
     (case keys of
        None \<Rightarrow> v
      | Some s \<Rightarrow> v\<lparr>hf_key_pub := k_line (ks_cur s), hf_key_fp := k_fingerprint (ks_cur s)\<rparr>)"

definition form_view_from_req :: "string \<Rightarrow> string \<Rightarrow> host_upsert \<Rightarrow> bool \<Rightarrow> string \<Rightarrow> string \<Rightarrow> host_form" where
  "form_view_from_req mode i req checks policy err =
     empty_form\<lparr>hf_mode := mode, hf_id := i, hf_name := hu_name req, hf_address := hu_address req, hf_port := hu_port req,
       hf_user := hu_user req, hf_auth := hu_auth req, hf_trust := hu_mode req, hf_pinned := hu_pinned req,
       hf_tags := join '', '' (tag_list req), hf_checks := checks, hf_policy := policy, hf_err := err\<rparr>"

definition next_host_new :: "'p key_store option \<Rightarrow> host_form" where
  "next_host_new keys = render_host_form keys
     (empty_form\<lparr>hf_mode := ''new'', hf_port := 22, hf_auth := ''key'', hf_trust := ''tofu'', hf_checks := True, hf_policy := ''manual''\<rparr>)"

text \<open>Credentials that cannot be read count as none.\<close>

definition next_host_edit :: "vault \<Rightarrow> 'p key_store option \<Rightarrow> string \<Rightarrow> db \<Rightarrow> host_form option" where
  "next_host_edit v keys i d =
     (case get_host d i of
        Inl _ \<Rightarrow> None
      | Inr h \<Rightarrow>
          (let policy = to_lower (trim_space (h_policy h)); policy = (if policy = [] then ''manual'' else policy);
               mode = trim_space (h_trust_mode h); mode = (if mode = [] then ''tofu'' else mode);
               stored = (case decode_host_secrets v (h_secret h) of Some s \<Rightarrow> s | None \<Rightarrow> no_secrets)
           in Some (render_host_form keys (with_stored
                (empty_form\<lparr>hf_mode := ''edit'', hf_id := h_id h, hf_name := h_name h, hf_address := h_address h,
                   hf_port := h_port h, hf_user := h_ssh_user h, hf_auth := h_auth_type h, hf_trust := mode,
                   hf_pinned := h_pinned h, hf_tags := join '', '' (h_tags h), hf_checks := h_checks h, hf_policy := policy\<rparr>)
                stored))))"

definition next_host_delete_confirm :: "string \<Rightarrow> db \<Rightarrow> (string \<times> string) option" where
  "next_host_delete_confirm i d = (case get_host d i of Inl _ \<Rightarrow> None | Inr h \<Rightarrow> Some (h_id h, h_name h))"

section \<open>Submitting a form as shown\<close>

text \<open>What the browser posts: secrets are never filled in, an unchecked box is not sent.\<close>

definition posted :: "host_form \<Rightarrow> string \<Rightarrow> string" where
  "posted v field =
     (if field = ''name'' then hf_name v
      else if field = ''address'' then hf_address v
      else if field = ''port'' then itoa (hf_port v)
      else if field = ''ssh_user'' then hf_user v
      else if field = ''auth_type'' then hf_auth v
      else if field = ''tags'' then hf_tags v
      else if field = ''checks_enabled'' then (if hf_checks v then ''1'' else [])
      else if field = ''auto_update_policy'' then hf_policy v
      else [])"

lemma posted_fields [simp]:
  "posted v ''name'' = hf_name v" "posted v ''address'' = hf_address v" "posted v ''port'' = itoa (hf_port v)"
  "posted v ''ssh_user'' = hf_user v" "posted v ''auth_type'' = hf_auth v" "posted v ''tags'' = hf_tags v"
  "posted v ''checks_enabled'' = (if hf_checks v then ''1'' else [])" "posted v ''auto_update_policy'' = hf_policy v"
  "posted v ''password'' = []" "posted v ''private_key_pem'' = []" "posted v ''passphrase'' = []"
  "posted v ''sudo_password'' = []" "posted v ''clear_password'' = []" "posted v ''clear_private_key'' = []"
  "posted v ''clear_sudo_password'' = []" "posted v ''host_key_trust_mode'' = []"
  "posted v ''host_key_pinned_fingerprint'' = []"
  by (simp_all add: posted_def)

section \<open>Tags survive the input line\<close>

definition tags_plain :: "string list \<Rightarrow> bool" where
  "tags_plain ts \<longleftrightarrow> list_all (\<lambda>t. t \<noteq> [] \<and> trim_space t = t \<and> CHR '','' \<notin> set t) ts \<and> distinct (map to_lower ts)"

lemma split_join_tags:
  "ts \<noteq> [] \<Longrightarrow> \<forall>t \<in> set ts. CHR '','' \<notin> set t \<Longrightarrow>
     split_on (CHR '','') (join '', '' ts) = hd ts # map (\<lambda>t. CHR '' '' # t) (tl ts)"
proof (induction ts)
  case (Cons t ts)
  show ?case
  proof (cases ts)
    case Nil
    then show ?thesis using Cons.prems by (simp add: split_on_no_sep)
  next
    case (Cons u us)
    have "split_on (CHR '','') (CHR '' '' # join '', '' ts) = (CHR '' '' # u) # map (\<lambda>t. CHR '' '' # t) us"
      using Cons.IH Cons.prems \<open>ts = u # us\<close> by simp
    with Cons.prems \<open>ts = u # us\<close> show ?thesis by (simp add: join_Cons split_on_append)
  qed
qed simp

lemma trim_space_blank: "trim_space (CHR '' '' # t) = trim_space t"
proof -
  have "space_len (CHR '' '' # t) = 1" by (simp add: space_len_def space_seqs_def)
  then have "trim_left (CHR '' '' # t) = trim_left t" by (subst trim_left.simps) simp
  then show ?thesis by (simp add: trim_space_def)
qed

lemma split_tags_trimmed:
  "\<forall>p \<in> set ps. trim_space p \<noteq> [] \<and> to_lower (trim_space p) \<notin> set seen \<Longrightarrow>
     distinct (map (\<lambda>p. to_lower (trim_space p)) ps) \<Longrightarrow> split_tags_from seen ps = map trim_space ps"
proof (induction ps arbitrary: seen)
  case (Cons p ps)
  have "split_tags_from (to_lower (trim_space p) # seen) ps = map trim_space ps"
  proof (rule Cons.IH)
    show "\<forall>q \<in> set ps. trim_space q \<noteq> [] \<and> to_lower (trim_space q) \<notin> set (to_lower (trim_space p) # seen)"
      using Cons.prems by (simp add: image_iff) metis
  qed (use Cons.prems in simp)
  with Cons.prems show ?case by (simp add: Let_def)
qed simp

lemma split_tags_join: "tags_plain ts \<Longrightarrow> split_tags (join '', '' ts) = ts"
proof (cases "ts = []")
  case True
  then show ?thesis by (simp add: split_tags_def)
next
  case False
  assume plain: "tags_plain ts"
  then have "split_on (CHR '','') (join '', '' ts) = hd ts # map (\<lambda>t. CHR '' '' # t) (tl ts)"
    by (intro split_join_tags False) (auto simp: tags_plain_def list_all_iff)
  moreover have "map trim_space (hd ts # map (\<lambda>t. CHR '' '' # t) (tl ts)) = ts"
    using plain False by (cases ts) (auto simp: tags_plain_def list_all_iff trim_space_blank intro: map_idI)
  moreover have "split_tags_from [] ps = map trim_space ps"
    if "map trim_space ps = ts" for ps
    using plain that by (intro split_tags_trimmed) (auto simp: tags_plain_def list_all_iff comp_def)
  ultimately show ?thesis unfolding split_tags_def by (simp only: simp_thms)
qed

section \<open>An untouched form\<close>

lemma merge_kept:
  assumes "hu_secrets q = no_secrets" "\<not> hu_clear_password q" "\<not> hu_clear_key q" "\<not> hu_clear_sudo q"
    and "secrets_fit (hu_auth q) s" "known_auth (hu_auth q)"
  shows "merge_host_secrets q s = ([], q\<lparr>hu_secrets := s\<rparr>)"
proof -
  have "scrub_for_auth (q\<lparr>hu_secrets := s\<rparr>) = q\<lparr>hu_secrets := s\<rparr>"
    by (rule fit_scrub) (simp_all add: assms(5,6))
  moreover have "(let t = no_secrets;
          t = (if s_password t = [] \<and> \<not> hu_clear_password q then t\<lparr>s_password := s_password s\<rparr> else t);
          t = (if \<not> s_key no_secrets \<noteq> [] \<and> \<not> hu_clear_key q
               then t\<lparr>s_key := s_key s, s_passphrase := (if s_passphrase t = [] then s_passphrase s else s_passphrase t)\<rparr>
               else t)
      in (if s_sudo t = [] \<and> \<not> hu_clear_sudo q then t\<lparr>s_sudo := s_sudo s\<rparr> else t)) = s"
    using assms(2-4) by (cases s) (simp add: no_secrets_def)
  ultimately show ?thesis
    unfolding merge_host_secrets_def Let_def assms(1) by (simp add: removed_labels_def)
qed

text \<open>Tags that come from a form are plain.\<close>

lemma split_tags_from_plain:
  "\<forall>t \<in> set ts. CHR '','' \<notin> set t \<Longrightarrow> tags_plain (split_tags_from seen ts) \<and> (\<forall>t \<in> set (split_tags_from seen ts). to_lower t \<notin> set seen)"
proof (induction ts arbitrary: seen)
  case (Cons t ts)
  then show ?case
    using Cons.IH [of seen] Cons.IH [of "to_lower (trim_space t) # seen"] set_trim_space [of t]
    by (auto simp: tags_plain_def Let_def)
qed (simp add: tags_plain_def)

lemma form_tags_plain: "tags_plain (split_tags s)"
  unfolding split_tags_def by (rule split_tags_from_plain [THEN conjunct1]) (simp add: split_on_parts)

text \<open>Tags that only the JSON handlers store do not survive the form.\<close>

lemma json_tags_change:
  "split_tags (join '', '' [''a,b'']) = [''a'', ''b'']" "split_tags (join '', '' [''db'', ''DB'']) = [''db'']"
  "split_tags (join '', '' [''db '']) = [''db'']"
  by code_simp+

text \<open>C39
  Saving an edit form as it was shown changes nothing: for a well-formed host whose name, address and user have
  no padding and whose tags are plain (\<open>tags_plain\<close>: not empty, no padding, no comma, distinct whatever the
  case) the update succeeds and keeps every column, tags and switches included, and the secrets, which the form
  never showed. Tags of the form are always plain; the JSON handlers store tags as sent, and then saving the
  form changes them (\<open>json_tags_change\<close>).\<close>

theorem edit_form_round_trip:
  assumes law: "vault_law v" and ok: "hosts_ok v d" "hosts_unique d" and r: "host_row i d = Some r"
    and s: "va_open v (h_secret r) = Some s" "va_seal v nonce s = Some c"
    and plain: "list_all (\<lambda>x. trim_space x = x) [h_name r, h_address r, h_ssh_user r]" "tags_plain (h_tags r)"
    and form: "next_host_edit v keys i d = Some w"
  shows "fst (next_host_update v nonce now i (posted w) d) = GoTo (''/hosts/'' @ i) \<and>
    host_row i (snd (next_host_update v nonce now i (posted w) d)) = Some (r\<lparr>h_secret := c\<rparr>) \<and>
    va_open v c = va_open v (h_secret r)"
proof -
  have rok: "host_ok v r" using ok(1) lookup_row_Some [OF r] by (auto simp: hosts_ok_def)
  have id: "h_id r = i" using lookup_row_Some [OF r] by simp
  have fit: "secrets_fit (h_auth_type r) s" "known_auth (h_auth_type r)" "h_secret r \<noteq> []"
    using rok s(1) by (auto simp: host_ok_def)
  let ?h = "read_host d r"
  have get: "get_host d i = Inr ?h" using r by (simp add: get_host_def)
  have sec: "h_secret ?h = h_secret r" by (simp add: read_host_def)
  have dec: "decode_host_secrets v (h_secret r) = Some s" using fit(3) s(1) by (simp add: decode_host_secrets_def)
  have policy: "to_lower (trim_space (h_policy r)) = h_policy r" "trim_space (h_policy r) = h_policy r" "h_policy r \<noteq> []"
    "to_lower (h_policy r) = h_policy r" "form_policy_of (h_policy r) = h_policy r"
    using rok by (auto simp: host_ok_def plain_literals form_policy_of_def simp del: to_lower.simps)
  have mode: "trim_space (h_trust_mode r) = h_trust_mode r" "h_trust_mode r \<noteq> []"
    using rok by (auto simp: host_ok_def plain_literals)
  have w: "hf_name w = h_name r" "hf_address w = h_address r" "hf_port w = h_port r" "hf_user w = h_ssh_user r"
    "hf_auth w = h_auth_type r" "hf_tags w = join '', '' (h_tags r)" "hf_checks w = h_checks r" "hf_policy w = h_policy r"
    using form by (auto simp: next_host_edit_def get read_host_def policy Let_def render_host_form_def with_stored_def
        simp del: to_lower.simps split: option.splits)
  let ?q = "\<lparr>hu_name = h_name r, hu_address = h_address r, hu_port = h_port r, hu_user = h_ssh_user r,
     hu_auth = h_auth_type r, hu_secrets = no_secrets, hu_clear_password = False, hu_clear_key = False, hu_clear_sudo = False,
     hu_required = None, hu_mode = [], hu_pinned = [], hu_tags = Some (h_tags r)\<rparr>"
  have port: "atoi_value (trim_space (itoa (h_port r))) = h_port r" "h_port r \<noteq> 0"
    using rok atoi_value_offset [of "h_port r"] by (auto simp: host_ok_def)
  have auth: "trim_space (h_auth_type r) = h_auth_type r"
    using fit(2) by (auto simp: known_auth_def auth_app_key_def intro!: trim_space_plain) code_simp+
  have fill: "fill_from ?h (trim_host_request (form_host_req (posted w))) = ?q"
    using plain(1) rok
    by (simp add: fill_from_def trim_host_request_def form_host_req_def w port auth split_tags_join [OF plain(2)]
        trim_secrets_def no_secrets_def read_host_def)
  have merge: "merge_host_secrets ?q s = ([], ?q\<lparr>hu_secrets := s\<rparr>)"
    by (rule merge_kept) (simp_all add: fit)
  let ?u = "?q\<lparr>hu_secrets := s, hu_mode := ''tofu'', hu_pinned := []\<rparr>"
  have val: "validate_host_request ?u = []"
    using rok fit(1,2) unfolding valid_iff by (auto simp: host_ok_def secrets_fit_def)
  obtain d1 where d1: "update_host (updated_host i ?u c) d = Inr d1"
    and row1: "host_row i d1 = Some (r\<lparr>h_secret := c\<rparr>)"
    using update_host_row_Inr [OF ok(2) r, of "updated_host i ?u c"]
    by (auto simp: updated_host_def new_host_def host_target_def)
  let ?d2 = "keep (update_host_operational_controls i (h_checks r) (h_policy r) d1) d1"
  let ?d3 = "keep (update_host_tags i (h_tags r) ?d2) ?d2"
  have "host_row i ?d2 = Some (r\<lparr>h_secret := c\<rparr>)"
    by (simp add: update_host_operational_controls_def policy row_keep_one row1 del: to_lower.simps)
  then have row3: "host_row i ?d3 = Some (r\<lparr>h_secret := c\<rparr>)"
    by (simp add: update_host_tags_def row_keep_one)
  have "form_checks (posted w) = h_checks r" "form_policy (posted w) = h_policy r"
    by (simp_all add: form_checks_def form_policy_def w policy)
  then have "next_host_update v nonce now i (posted w) d =
      (GoTo (''/hosts/'' @ i), record_activity now i (h_name r) ''host_updated'' (''Host '' @ h_name r @ '' updated'') ?d3)"
    using dec merge val d1 s(2)
    by (simp add: next_host_update_def get sec fill Let_def encrypt_host_secrets_def policy tag_list_def del: to_lower.simps)
  with row3 law s show ?thesis by (auto simp: vault_law_def)
qed

section \<open>A witness\<close>

definition tagged_row :: host where
  "tagged_row = toy_host_row\<lparr>h_tags := [''prod'', ''db'']\<rparr>"

theorem edit_form_round_trip_witness:
  "\<exists>w. next_host_edit toy_vault (None :: unit key_store option) ''7'' (empty_db\<lparr>d_hosts := [tagged_row]\<rparr>) = Some w \<and>
    hf_tags w = ''prod, db'' \<and>
    fst (next_host_update toy_vault [] 5 ''7'' (posted w) (empty_db\<lparr>d_hosts := [tagged_row]\<rparr>)) = GoTo ''/hosts/7''"
proof -
  let ?d = "empty_db\<lparr>d_hosts := [tagged_row]\<rparr>"
  note row = tagged_row_def toy_host_row_def new_host_def toy_form_req
  have get: "get_host ?d ''7'' = Inr (read_host ?d tagged_row)" by (simp add: get_host_def lookup_row_def row)
  have tags: "join '', '' (h_tags tagged_row) = ''prod, db''"
    by (simp only: tagged_row_def host.simps) code_simp
  have "\<exists>w. next_host_edit toy_vault (None :: unit key_store option) ''7'' ?d = Some w \<and> hf_tags w = join '', '' (h_tags tagged_row)"
    by (simp add: next_host_edit_def get Let_def render_host_form_def with_stored_def read_host_def)
  then obtain w where w: "next_host_edit toy_vault (None :: unit key_store option) ''7'' ?d = Some w" "hf_tags w = ''prod, db''"
    using tags by auto
  have "host_ok toy_vault tagged_row"
    by (simp add: row host_ok_def known_auth_def toy_vault_def secrets_fit_def toy_secrets_def)
  then have ok: "hosts_ok toy_vault ?d" "hosts_unique ?d" by (simp_all add: hosts_ok_def hosts_unique_def)
  have plain: "list_all (\<lambda>x. trim_space x = x) [''a'', ''h'', ''u'']" "tags_plain [''prod'', ''db'']" by code_simp+
  have fields: "host_row ''7'' ?d = Some tagged_row" "va_open toy_vault (h_secret tagged_row) = Some toy_secrets"
    "va_seal toy_vault [] toy_secrets = Some ''sealed''"
    "list_all (\<lambda>x. trim_space x = x) [h_name tagged_row, h_address tagged_row, h_ssh_user tagged_row]" "tags_plain (h_tags tagged_row)"
    using plain by (simp_all add: row lookup_row_def toy_vault_def)
  from edit_form_round_trip [OF toy_vault_law ok fields w(1), of 5] w show ?thesis by simp
qed

end
