(* ===== verification/Oidc.thy ===== *)
theory Oidc
  imports Accounts DbSettings
begin

text \<open>
  Single sign-on: \<open>internal/oidc/oidc.go\<close> and \<open>cmd/server/oidc.go\<close>. What the OIDC library does with the
  provider is the record \<open>idp\<close>: discovery, which may fail, and the exchange of a code, which yields the
  verified claims and the nonce of the ID token. \<open>seal_text\<close> and \<open>open_text\<close> encrypt and decrypt the client
  secret, and \<open>http_url\<close> is the test of \<open>isHTTPURL\<close>, which is \<open>url.Parse\<close>.
\<close>

section \<open>Settings of the provider\<close>

record oidc_settings =
  os_enabled :: bool
  os_issuer :: string
  os_client_id :: string
  os_client_secret :: string
  os_base_url :: string
  os_allowed :: string
  os_label :: string

record identity =
  id_subject :: string
  id_email :: string
  id_verified :: bool
  id_name :: string
  id_username :: string
  id_groups :: "string list"

record idp =
  discover :: "string \<Rightarrow> bool"
  redeem :: "string \<Rightarrow> string \<Rightarrow> string \<Rightarrow> string \<Rightarrow> string \<Rightarrow> string \<Rightarrow> (identity \<times> string) option"
  seal_text :: "string \<Rightarrow> string \<Rightarrow> string option"
  open_text :: "string \<Rightarrow> string option"
  http_url :: "string \<Rightarrow> bool"

definition oidc_label :: "oidc_settings \<Rightarrow> string" where
  "oidc_label s = (let l = trim_space (os_label s) in if l \<noteq> [] then l else ''Sign in with SSO'')"

definition first_hop :: "string \<Rightarrow> string" where
  "first_hop h = trim_space (case index_of h '','' of Some i \<Rightarrow> take i h | None \<Rightarrow> h)"

text \<open>\<open>tls\<close>, \<open>host\<close>, \<open>proto\<close> and \<open>fwd_host\<close> are the request's TLS state, host and forwarding headers.\<close>

definition callback_url :: "oidc_settings \<Rightarrow> bool \<Rightarrow> string \<Rightarrow> string \<Rightarrow> string \<Rightarrow> string" where
  "callback_url s tls host proto fwd_host =
     (let b = trim_space (os_base_url s) in
      if b \<noteq> [] then trim_right_of b ''/'' @ ''/auth/oidc/callback''
      else
        let scheme = (if tls then ''https'' else ''http'');
            p = trim_space proto;
            scheme = (if p \<noteq> [] then first_hop p else scheme);
            h = trim_space fwd_host;
            host = (if h \<noteq> [] then first_hop h else host)
        in scheme @ ''://'' @ host @ ''/auth/oidc/callback'')"

definition allow_entries :: "string \<Rightarrow> string list" where
  "allow_entries raw = filter (\<lambda>e. e \<noteq> []) (map (\<lambda>e. to_lower (trim_space e)) (split_on (CHR '','') raw))"

definition oidc_allow :: "oidc_settings \<Rightarrow> string \<Rightarrow> bool \<Rightarrow> string list \<Rightarrow> bool" where
  "oidc_allow s email verified groups =
     (let raw = trim_space (os_allowed s) in
      if raw = [] then True
      else
        let allow = allow_entries raw; e = to_lower (trim_space email) in
        if verified \<and> e \<noteq> [] \<and> e \<in> set allow then True
        else list_ex (\<lambda>g. to_lower (trim_space g) \<noteq> [] \<and> to_lower (trim_space g) \<in> set allow) groups)"

text \<open>\<open>New\<close>: refused without an issuer and a client id, and when the discovery of the issuer fails.\<close>

definition new_authenticator :: "idp \<Rightarrow> oidc_settings \<Rightarrow> bool" where
  "new_authenticator p s \<longleftrightarrow>
     (let issuer = trim_right_of (trim_space (os_issuer s)) ''/'' in
      issuer \<noteq> [] \<and> trim_space (os_client_id s) \<noteq> [] \<and> discover p issuer)"

definition exchange :: "idp \<Rightarrow> oidc_settings \<Rightarrow> string \<Rightarrow> string \<Rightarrow> string \<Rightarrow> (identity \<times> string) option" where
  "exchange p s redirect code verifier =
     redeem p (trim_right_of (trim_space (os_issuer s)) ''/'') (os_client_id s) (os_client_secret s) redirect code verifier"

section \<open>The configuration of the server\<close>

definition oidc_settings_of :: "idp \<Rightarrow> db \<Rightarrow> oidc_settings option \<times> oidc_config" where
  "oidc_settings_of p d =
     (let cfg = get_oidc_config d;
          s = \<lparr>os_enabled = oc_enabled cfg, os_issuer = oc_issuer cfg, os_client_id = oc_client_id cfg,
               os_client_secret = [], os_base_url = oc_base_url cfg, os_allowed = oc_allowed cfg, os_label = oc_label cfg\<rparr>
      in if trim_space (oc_secret_enc cfg) \<noteq> []
         then (case open_text p (oc_secret_enc cfg) of
                 None \<Rightarrow> (None, cfg)
               | Some plain \<Rightarrow> (Some (s\<lparr>os_client_secret := plain\<rparr>), cfg))
         else (Some s, cfg))"

definition oidc_configured :: "oidc_config \<Rightarrow> bool" where
  "oidc_configured cfg \<longleftrightarrow> oc_enabled cfg \<and> trim_space (oc_issuer cfg) \<noteq> [] \<and> trim_space (oc_client_id cfg) \<noteq> [] \<and>
     trim_space (oc_secret_enc cfg) \<noteq> []"

definition oidc_status :: "db \<Rightarrow> bool \<times> string" where
  "oidc_status d =
     (let cfg = get_oidc_config d; l = trim_space (oc_label cfg) in
      (oidc_configured cfg, if l \<noteq> [] then l else ''Sign in with SSO''))"

record oidc_req =
  oq_enabled :: bool
  oq_issuer :: string
  oq_client_id :: string
  oq_client_secret :: string
  oq_clear :: bool
  oq_base_url :: string
  oq_allowed :: string
  oq_label :: string

definition put_oidc_settings :: "idp \<Rightarrow> string \<Rightarrow> oidc_req option \<Rightarrow> db \<Rightarrow> (nat \<times> string) \<times> db" where
  "put_oidc_settings p nonce body d =
     (case body of
        None \<Rightarrow> ((400, ''invalid json''), d)
      | Some req \<Rightarrow>
          let existing = get_oidc_config d;
              issuer = trim_space (oq_issuer req); client = trim_space (oq_client_id req); base = trim_space (oq_base_url req)
          in
          if issuer \<noteq> [] \<and> \<not> http_url p issuer then ((400, ''Issuer must be an absolute http(s) URL''), d)
          else if base \<noteq> [] \<and> \<not> http_url p base then ((400, ''Public base URL must be an absolute http(s) URL''), d)
          else
            (case (if oq_clear req then Some []
                   else if trim_space (oq_client_secret req) \<noteq> [] then seal_text p nonce (trim_space (oq_client_secret req))
                   else Some (oc_secret_enc existing)) of
               None \<Rightarrow> ((500, ''Failed to encrypt client secret''), d)
             | Some enc \<Rightarrow>
                 if oq_enabled req \<and> (issuer = [] \<or> client = [] \<or> enc = [])
                 then ((400, ''Issuer, Client ID, and Client Secret are all required to enable SSO''), d)
                 else ((200, ''OIDC settings updated''),
                   set_oidc_config \<lparr>oc_enabled = oq_enabled req, oc_issuer = issuer, oc_client_id = client, oc_secret_enc = enc,
                     oc_base_url = base, oc_allowed = trim_space (oq_allowed req), oc_label = trim_space (oq_label req)\<rparr> d)))"

text \<open>The form: the same rules, the existing configuration read first.\<close>

definition next_oidc_save :: "idp \<Rightarrow> string \<Rightarrow> (string \<Rightarrow> string) \<Rightarrow> db \<Rightarrow> string \<times> db" where
  "next_oidc_save p nonce f d =
     (let existing = get_oidc_config d;
          enabled = (f ''enabled'' \<noteq> []);
          issuer = trim_space (f ''issuer''); client = trim_space (f ''client_id''); base = trim_space (f ''base_url'')
      in
      if issuer \<noteq> [] \<and> \<not> http_url p issuer then (''Issuer must be an absolute http(s) URL.'', d)
      else if base \<noteq> [] \<and> \<not> http_url p base then (''Public base URL must be an absolute http(s) URL.'', d)
      else
        (case (if f ''clear_secret'' \<noteq> [] then Some []
               else if trim_space (f ''client_secret'') \<noteq> [] then seal_text p nonce (trim_space (f ''client_secret''))
               else Some (oc_secret_enc existing)) of
           None \<Rightarrow> (''Failed to encrypt client secret.'', d)
         | Some enc \<Rightarrow>
             if enabled \<and> (issuer = [] \<or> client = [] \<or> enc = [])
             then (''Issuer, Client ID, and Client Secret are all required to enable SSO.'', d)
             else (''Saved.'',
               set_oidc_config \<lparr>oc_enabled = enabled, oc_issuer = issuer, oc_client_id = client, oc_secret_enc = enc,
                 oc_base_url = base, oc_allowed = trim_space (f ''allowed''), oc_label = trim_space (f ''button_label'')\<rparr> d)))"

section \<open>The flow\<close>

text \<open>The redirect to the provider with what is put into the cookies, or the reason of the failure.\<close>

datatype oidc_reply =
    SsoFail string
  | ToProvider string string string
  | SsoSession string

definition oidc_login :: "idp \<Rightarrow> string option \<Rightarrow> string option \<Rightarrow> string \<Rightarrow> db \<Rightarrow> oidc_reply" where
  "oidc_login p state nonce verifier d =
     (case oidc_settings_of p d of
        (None, cfg) \<Rightarrow> SsoFail ''sso_disabled''
      | (Some s, cfg) \<Rightarrow>
          if \<not> oidc_configured cfg then SsoFail ''sso_disabled''
          else if \<not> new_authenticator p s then SsoFail ''sso_unavailable''
          else (case (state, nonce) of
                  (Some st, Some no) \<Rightarrow> ToProvider st no verifier
                | _ \<Rightarrow> SsoFail ''sso_error''))"

record callback_req =
  cb_error :: string
  cb_state :: string
  cb_code :: string
  cb_state_cookie :: "string option"
  cb_nonce_cookie :: "string option"
  cb_verifier_cookie :: "string option"
  cb_redirect :: string

fun first_label :: "string list \<Rightarrow> string" where
  "first_label [] = ''unknown''"
| "first_label (v # vs) = (let s = trim_space v in if s \<noteq> [] then s else first_label vs)"

definition oidc_identity_label :: "identity \<Rightarrow> string" where
  "oidc_identity_label c = first_label [id_email c, id_username c, id_subject c]"

definition grant_admin :: "crypt \<Rightarrow> int \<Rightarrow> string \<Rightarrow> identity \<Rightarrow> db \<Rightarrow> oidc_reply \<times> db" where
  "grant_admin cr now tok c d =
     (case get_primary_admin d of
        Inl _ \<Rightarrow> (SsoFail ''sso_no_admin'', d)
      | Inr admin \<Rightarrow>
          (case create_session (token_hash cr) tok now (u_id admin) (u_name admin) (u_role admin) session_ttl d of
             Inl _ \<Rightarrow> (SsoFail ''sso_error'', d)
           | Inr (cookie, d') \<Rightarrow>
               (SsoSession cookie,
                record_activity now [] [] ''login_sso'' (''SSO sign-in via OIDC ('' @ oidc_identity_label c @ '')'') d')))"

definition oidc_callback :: "idp \<Rightarrow> crypt \<Rightarrow> int \<Rightarrow> string \<Rightarrow> callback_req \<Rightarrow> db \<Rightarrow> oidc_reply \<times> db" where
  "oidc_callback p cr now tok r d =
     (if trim_space (cb_error r) \<noteq> [] then (SsoFail ''sso_denied'', d)
      else case (cb_state_cookie r, cb_nonce_cookie r, cb_verifier_cookie r) of
        (Some state, Some nonce, Some verifier) \<Rightarrow>
          if cb_code r = [] then (SsoFail ''sso_expired'', d)
          else if cb_state r \<noteq> state then (SsoFail ''sso_state'', d)
          else (case oidc_settings_of p d of
              (None, cfg) \<Rightarrow> (SsoFail ''sso_disabled'', d)
            | (Some s, cfg) \<Rightarrow>
                if \<not> oidc_configured cfg then (SsoFail ''sso_disabled'', d)
                else if \<not> new_authenticator p s then (SsoFail ''sso_unavailable'', d)
                else (case exchange p s (cb_redirect r) (cb_code r) verifier of
                    None \<Rightarrow> (SsoFail ''sso_verify'', d)
                  | Some (c, token_nonce) \<Rightarrow>
                      if token_nonce \<noteq> nonce then (SsoFail ''sso_nonce'', d)
                      else if \<not> oidc_allow s (id_email c) (id_verified c) (id_groups c) then (SsoFail ''sso_forbidden'', d)
                      else grant_admin cr now tok c d))
      | _ \<Rightarrow> (SsoFail ''sso_expired'', d))"

section \<open>Facts\<close>

lemma oidc_allow_iff:
  "oidc_allow s email verified groups \<longleftrightarrow> trim_space (os_allowed s) = [] \<or>
     (verified \<and> to_lower (trim_space email) \<noteq> [] \<and> to_lower (trim_space email) \<in> set (allow_entries (trim_space (os_allowed s)))) \<or>
     (\<exists>g \<in> set groups. to_lower (trim_space g) \<in> set (allow_entries (trim_space (os_allowed s))))"
proof -
  have ne: "x \<in> set (allow_entries raw) \<Longrightarrow> x \<noteq> []" for x raw by (auto simp: allow_entries_def)
  show ?thesis unfolding oidc_allow_def Let_def list_ex_iff by (simp) (blast dest: ne)
qed

lemma grant_admin_SsoSession:
  assumes "grant_admin cr now tok c d = (SsoSession cookie, d')" "tok \<noteq> []"
  shows "\<exists>u. get_primary_admin d = Inr u \<and> cookie = tok \<and>
    fst (validate_session (token_hash cr) now tok session_ttl d') = Some (u_id u, u_name u, u_role u)"
proof -
  obtain u d1 where u: "get_primary_admin d = Inr u"
    and cs: "create_session (token_hash cr) tok now (u_id u) (u_name u) (u_role u) session_ttl d = Inr (cookie, d1)"
    and d': "d' = record_activity now [] [] ''login_sso'' (''SSO sign-in via OIDC ('' @ oidc_identity_label c @ '')'') d1"
    using assms(1) by (auto simp: grant_admin_def split: sum.splits prod.splits)
  let ?sv = "\<lparr>sv_db = d, sv_login = new_login_limiter 0 0\<rparr>"
  have "start_session cr now tok ip u ?sv = (SignedIn cookie (u_name u) (u_role u), ?sv\<lparr>sv_login := reset_failures ip (sv_login ?sv), sv_db := d1\<rparr>)" for ip
    using cs by (simp add: start_session_def Let_def)
  from start_session_SignedIn(1,5) [OF this assms(2)]
  have "cookie = tok" "fst (validate_session (token_hash cr) now tok session_ttl d1) = Some (u_id u, u_name u, u_role u)" by auto
  moreover have "d_sessions d' = d_sessions d1" by (simp add: d' record_activity_def)
  ultimately show ?thesis
    using u by (auto simp: validate_session_def split: option.splits if_splits)
qed

section \<open>Properties\<close>

text \<open>C12
  A single sign-on session needs the whole flow: the callback signs in only when the state matches
  the browser's cookie, the configured provider redeems the code with the cookie's verifier for a
  token carrying the cookie's nonce, and the identity is allowed, by a verified email or a group when
  there is a list; the session is the primary admin's.\<close>

theorem sso_needs_whole_flow:
  assumes "oidc_callback p cr now tok r d = (SsoSession cookie, d')" "tok \<noteq> []"
  shows "\<exists>s c u verifier nonce.
    cb_state_cookie r = Some (cb_state r) \<and> cb_verifier_cookie r = Some verifier \<and> cb_nonce_cookie r = Some nonce \<and>
    fst (oidc_settings_of p d) = Some s \<and> oidc_configured (get_oidc_config d) \<and>
    exchange p s (cb_redirect r) (cb_code r) verifier = Some (c, nonce) \<and>
    (trim_space (os_allowed s) = [] \<or>
     (id_verified c \<and> to_lower (trim_space (id_email c)) \<in> set (allow_entries (trim_space (os_allowed s)))) \<or>
     (\<exists>g \<in> set (id_groups c). to_lower (trim_space g) \<in> set (allow_entries (trim_space (os_allowed s))))) \<and>
    get_primary_admin d = Inr u \<and> cookie = tok \<and>
    fst (validate_session (token_hash cr) now tok session_ttl d') = Some (u_id u, u_name u, u_role u)"
proof -
  obtain state nonce verifier where ck: "cb_state_cookie r = Some state" "cb_nonce_cookie r = Some nonce"
      "cb_verifier_cookie r = Some verifier"
    using assms(1) by (auto simp: oidc_callback_def split: if_splits option.splits)
  obtain so cfg where os: "oidc_settings_of p d = (so, cfg)" by (metis surj_pair)
  have cfg: "cfg = get_oidc_config d" using os by (auto simp: oidc_settings_of_def Let_def split: if_splits option.splits)
  from assms(1) ck os obtain s c tn where s: "so = Some s" "oidc_configured cfg"
      and ex: "exchange p s (cb_redirect r) (cb_code r) verifier = Some (c, tn)" "tn = nonce" "cb_state r = state"
      and al: "oidc_allow s (id_email c) (id_verified c) (id_groups c)"
      and g: "grant_admin cr now tok c d = (SsoSession cookie, d')"
    by (auto simp: oidc_callback_def split: if_splits option.splits prod.splits)
  from grant_admin_SsoSession [OF g assms(2)] s ex ck os cfg al [unfolded oidc_allow_iff] show ?thesis by auto
qed

definition toy_identity :: identity where
  "toy_identity = \<lparr>id_subject = ''7'', id_email = ''Ann@x.org'', id_verified = True, id_name = [], id_username = [], id_groups = []\<rparr>"

definition toy_idp :: idp where
  "toy_idp = \<lparr>discover = (\<lambda>i. i = ''https://idp''),
     redeem = (\<lambda>i c s redirect code v. if code = ''c'' \<and> v = ''ver'' then Some (toy_identity, ''n'') else None),
     seal_text = (\<lambda>n t. Some t), open_text = (\<lambda>t. Some t), http_url = (\<lambda>_. True)\<rparr>"

definition toy_oidc_db :: db where
  "toy_oidc_db = empty_db\<lparr>d_users := [toy_user],
     d_settings := [''oidc_enabled'' \<mapsto> ''true'', ''oidc_issuer'' \<mapsto> ''https://idp/'', ''oidc_client_id'' \<mapsto> ''id'',
       ''oidc_client_secret'' \<mapsto> ''enc'', ''oidc_allowed'' \<mapsto> ''ops, ann@x.org'']\<rparr>"

definition toy_callback :: callback_req where
  "toy_callback = \<lparr>cb_error = [], cb_state = ''s'', cb_code = ''c'', cb_state_cookie = Some ''s'', cb_nonce_cookie = Some ''n'',
     cb_verifier_cookie = Some ''ver'', cb_redirect = ''https://p/auth/oidc/callback''\<rparr>"

lemma toy_config:
  "get_oidc_config toy_oidc_db = \<lparr>oc_enabled = True, oc_issuer = ''https://idp/'', oc_client_id = ''id'', oc_secret_enc = ''enc'',
     oc_base_url = [], oc_allowed = ''ops, ann@x.org'', oc_label = []\<rparr>"
  by (simp add: get_oidc_config_def get_app_setting_def setting_get_def toy_oidc_db_def)

lemma toy_sign_in: "fst (oidc_callback toy_idp toy_crypt 5 ''tok'' toy_callback toy_oidc_db) = SsoSession ''tok''"
proof -
  have t: "trim_space ''https://idp/'' = ''https://idp/''" "trim_space ''id'' = ''id''" "trim_space ''enc'' = ''enc''"
    "trim_space ''ops, ann@x.org'' = ''ops, ann@x.org''" "trim_right_of ''https://idp/'' ''/'' = ''https://idp''"
    "to_lower (trim_space ''Ann@x.org'') = ''ann@x.org''" "''ann@x.org'' \<in> set (allow_entries ''ops, ann@x.org'')"
    by code_simp+
  have s: "oidc_settings_of toy_idp toy_oidc_db = (Some \<lparr>os_enabled = True, os_issuer = ''https://idp/'', os_client_id = ''id'',
      os_client_secret = ''enc'', os_base_url = [], os_allowed = ''ops, ann@x.org'', os_label = []\<rparr>, get_oidc_config toy_oidc_db)"
    by (simp add: oidc_settings_of_def toy_config t toy_idp_def)
  have a: "get_primary_admin toy_oidc_db = Inr toy_user"
    by (simp add: get_primary_admin_def toy_oidc_db_def toy_user_def sql_lower_def lower_char_def is_upper_def byte_of_def read_user_def)
  have "d_sessions toy_oidc_db = []" by (simp add: toy_oidc_db_def empty_db_def)
  then have "fst (grant_admin toy_crypt 5 ''tok'' c toy_oidc_db) = SsoSession ''tok''" for c
    by (simp add: grant_admin_def a create_session_def)
  moreover have "discover toy_idp ''https://idp''" by (simp add: toy_idp_def)
  moreover have "redeem toy_idp ''https://idp'' i s u ''c'' ''ver'' = Some (toy_identity, ''n'')" for i s u
    by (simp add: toy_idp_def)
  moreover have "id_email toy_identity = ''Ann@x.org''" "id_verified toy_identity" by (simp_all add: toy_identity_def)
  ultimately show ?thesis
    using t by (simp add: oidc_callback_def toy_callback_def s toy_config oidc_configured_def new_authenticator_def exchange_def
        oidc_allow_iff Let_def)
qed

theorem sso_needs_whole_flow_witness:
  "\<exists>s c u verifier nonce.
    cb_state_cookie toy_callback = Some (cb_state toy_callback) \<and> cb_verifier_cookie toy_callback = Some verifier \<and>
    cb_nonce_cookie toy_callback = Some nonce \<and> fst (oidc_settings_of toy_idp toy_oidc_db) = Some s \<and>
    oidc_configured (get_oidc_config toy_oidc_db) \<and>
    exchange toy_idp s (cb_redirect toy_callback) (cb_code toy_callback) verifier = Some (c, nonce) \<and>
    (trim_space (os_allowed s) = [] \<or>
     (id_verified c \<and> to_lower (trim_space (id_email c)) \<in> set (allow_entries (trim_space (os_allowed s)))) \<or>
     (\<exists>g \<in> set (id_groups c). to_lower (trim_space g) \<in> set (allow_entries (trim_space (os_allowed s))))) \<and>
    get_primary_admin toy_oidc_db = Inr u \<and> ''tok'' = ''tok'' \<and>
    fst (validate_session (token_hash toy_crypt) 5 ''tok'' session_ttl
      (snd (oidc_callback toy_idp toy_crypt 5 ''tok'' toy_callback toy_oidc_db))) = Some (u_id u, u_name u, u_role u)"
proof (rule sso_needs_whole_flow)
  show "oidc_callback toy_idp toy_crypt 5 ''tok'' toy_callback toy_oidc_db =
      (SsoSession ''tok'', snd (oidc_callback toy_idp toy_crypt 5 ''tok'' toy_callback toy_oidc_db))"
    using toy_sign_in by (simp add: prod_eq_iff)
qed simp

end
