(* ===== verification/JobRequests.thy ===== *)
theory JobRequests
  imports HostRequests Cron JobRun
begin

text \<open>
  The requests that create, switch and delete scheduled jobs: \<open>cmd/server/main.go\<close> and the form of
  \<open>spike_schedules.go\<close>. The list views add the last run and the next run of each job.
\<close>

section \<open>Creating a job\<close>

definition validate_job_mode :: "host \<Rightarrow> string \<Rightarrow> string" where
  "validate_job_mode h mode =
     (let mode = to_lower (trim_space mode) in
      if mode = [] \<or> mode = ''scan'' then []
      else if \<not> h_checks h then ''cannot schedule apply job while host checks are disabled''
      else if to_lower (trim_space (h_policy h)) = ''manual''
      then ''cannot schedule apply job while host auto_update_policy is manual''
      else [])"

record job_req =
  jq_host :: string
  jq_hosts :: "string list"
  jq_tag :: string
  jq_name :: string
  jq_cron :: string
  jq_mode :: string
  jq_enabled :: "bool option"

definition clean_ids :: "string list \<Rightarrow> string list" where
  "clean_ids ids = filter (\<lambda>i. i \<noteq> []) (map trim_space ids)"

definition known_mode :: "string \<Rightarrow> bool" where
  "known_mode m \<longleftrightarrow> m = ''scan'' \<or> m = ''apply'' \<or> m = ''scan_apply''"

definition job_of :: "string \<Rightarrow> string list \<Rightarrow> string \<Rightarrow> string \<Rightarrow> string \<Rightarrow> string \<Rightarrow> bool \<Rightarrow> job" where
  "job_of host hosts tag name cron mode enabled =
     \<lparr>j_id = [], j_host = host, j_hosts = hosts, j_tag = tag, j_name = name, j_cron = cron, j_mode = mode, j_enabled = enabled\<rparr>"

text \<open>The test of a single target: its refusal, or nothing.\<close>

definition single_host_check :: "string \<Rightarrow> string list \<Rightarrow> string \<Rightarrow> db \<Rightarrow> response option" where
  "single_host_check host hosts mode d =
     (if host \<noteq> [] \<and> hosts = [] then
        (case get_host d host of
           Inl NoRows \<Rightarrow> Some (404, ''host not found'')
         | Inl _ \<Rightarrow> Some (500, ''Failed to load host'')
         | Inr h \<Rightarrow>
             if mode = ''apply'' \<or> mode = ''scan_apply'' then
               (let msg = validate_job_mode h ''apply'' in if msg \<noteq> [] then Some (409, msg) else None)
             else None)
      else None)"

definition create_job_req :: "string \<Rightarrow> job_req option \<Rightarrow> db \<Rightarrow> response \<times> db" where
  "create_job_req uid body d =
     (case body of
        None \<Rightarrow> ((400, ''invalid json''), d)
      | Some req \<Rightarrow>
          let host = trim_space (jq_host req); tag = trim_space (jq_tag req); name = trim_space (jq_name req);
              cron = trim_space (jq_cron req); mode = trim_space (jq_mode req); hosts = clean_ids (jq_hosts req)
          in
          if cron = [] then ((400, ''cron_expr required''), d)
          else if host = [] \<and> hosts = [] \<and> tag = []
          then ((400, ''at least one of host_id, host_ids, or tag_filter is required''), d)
          else if validate_cron_expression cron \<noteq> [] then ((400, validate_cron_expression cron), d)
          else
            let mode = (if mode = [] then ''scan'' else mode) in
            if \<not> known_mode mode then ((400, ''mode must be scan|apply|scan_apply''), d)
            else (case single_host_check host hosts mode d of
                Some refusal \<Rightarrow> (refusal, d)
              | None \<Rightarrow>
                  ((201, ''scheduled''),
                   create_job uid (job_of host hosts tag name cron mode
                     (case jq_enabled req of None \<Rightarrow> True | Some b \<Rightarrow> b)) d)))"

definition set_job_enabled_req :: "string \<Rightarrow> bool option \<Rightarrow> db \<Rightarrow> response \<times> db" where
  "set_job_enabled_req i body d =
     (case body of
        None \<Rightarrow> ((400, ''invalid json''), d)
      | Some b \<Rightarrow>
          (case update_job_enabled i b d of
             Inl NoRows \<Rightarrow> ((404, ''job not found''), d)
           | Inl _ \<Rightarrow> ((500, ''Failed to update job''), d)
           | Inr d' \<Rightarrow> ((200, ''updated''), d')))"

definition delete_job_req :: "string \<Rightarrow> db \<Rightarrow> response \<times> db" where
  "delete_job_req i d =
     (case delete_job i d of
        Inl NoRows \<Rightarrow> ((404, ''job not found''), d)
      | Inl _ \<Rightarrow> ((500, ''Failed to delete job''), d)
      | Inr d' \<Rightarrow> ((200, ''deleted''), d'))"

section \<open>The form\<close>

text \<open>\<open>ids\<close> are the values of the repeated field \<open>host_ids\<close>. The result is the message of the form, or nothing.\<close>

definition form_targets :: "(string \<Rightarrow> string) \<Rightarrow> string list \<Rightarrow> string \<Rightarrow> db \<Rightarrow> string + (string \<times> string list \<times> string)" where
  "form_targets f ids mode d =
     (let target = trim_space (f ''target''); target = (if target = [] then ''one'' else target);
          host = trim_space (f ''host_id''); tag = trim_space (f ''tag_filter'')
      in
      if target = ''tag'' then (if tag = [] then Inl ''Pick a tag to target.'' else Inr ([], [], tag))
      else if target = ''multi'' then
        (if clean_ids ids = [] then Inl ''Pick at least one host.'' else Inr ([], clean_ids ids, []))
      else if target = ''all'' then
        (let hs = map h_id (list_hosts d) in
         if hs = [] then Inl ''There are no hosts to schedule.'' else Inr ([], hs, []))
      else if host = [] then Inl ''Pick a host to run this on.''
      else (case get_host d host of
          Inl _ \<Rightarrow> Inl ''That host no longer exists.''
        | Inr h \<Rightarrow>
            if (mode = ''apply'' \<or> mode = ''scan_apply'') \<and> validate_job_mode h ''apply'' \<noteq> []
            then Inl (validate_job_mode h ''apply'') else Inr (host, [], [])))"

definition next_schedule_create :: "string \<Rightarrow> (string \<Rightarrow> string) \<Rightarrow> string list \<Rightarrow> db \<Rightarrow> string option \<times> db" where
  "next_schedule_create uid f ids d =
     (let name = trim_space (f ''name''); cron = trim_space (f ''cron_expr''); mode = trim_space (f ''mode'') in
      if cron = [] then (Some ''A cron expression is required (e.g. 0 3 * * *).'', d)
      else if validate_cron_expression cron \<noteq> [] then (Some (validate_cron_expression cron), d)
      else
        let mode = (if mode = [] then ''scan'' else mode) in
        if \<not> known_mode mode then (Some ''Mode must be scan, apply, or scan + apply.'', d)
        else (case form_targets f ids mode d of
            Inl msg \<Rightarrow> (Some msg, d)
          | Inr (host, hosts, tag) \<Rightarrow> (None, create_job uid (job_of host hosts tag name cron mode True) d)))"

definition next_schedule_toggle :: "string \<Rightarrow> (string \<Rightarrow> string) \<Rightarrow> db \<Rightarrow> db" where
  "next_schedule_toggle i f d = keep (update_job_enabled i (f ''enabled'' = ''1'') d) d"

definition next_schedule_delete :: "string \<Rightarrow> db \<Rightarrow> db" where
  "next_schedule_delete i d = keep (delete_job i d) d"

section \<open>The lists\<close>

text \<open>A job with its host's name, its last run and the next time it is due.\<close>

definition list_jobs_view :: "(int \<Rightarrow> civil) \<Rightarrow> int \<Rightarrow> db \<Rightarrow> (job \<times> string \<times> job_run option \<times> int option) list" where
  "list_jobs_view civil_of now d =
     map (\<lambda>(j, name). (j, name, get_last_job_run d (j_id j), next_run (j_cron j) civil_of now)) (list_jobs d)"

definition load_jobs :: "(int \<Rightarrow> civil) \<Rightarrow> int \<Rightarrow> db \<Rightarrow> (job \<times> string \<times> job_run option \<times> int option) list" where
  "load_jobs civil_of now d =
     map (\<lambda>(j, name).
       (j, if j_host j \<noteq> [] \<and> trim_space name = []
           then (case get_host d (j_host j) of Inl _ \<Rightarrow> name | Inr h \<Rightarrow> h_name h) else name,
        get_last_job_run d (j_id j), next_run (j_cron j) civil_of now)) (list_jobs d)"

definition list_job_runs_req :: "db \<Rightarrow> string \<Rightarrow> string \<Rightarrow> job_run list" where
  "list_job_runs_req d i raw_limit =
     (let raw = trim_space raw_limit;
          limit = (if raw = [] then 20 else (case atoi raw of None \<Rightarrow> 20 | Some v \<Rightarrow> if v > 0 then v else 20))
      in list_job_runs d i limit)"

section \<open>Stored jobs can run\<close>

definition job_ok :: "job \<Rightarrow> bool" where
  "job_ok j \<longleftrightarrow> validate_cron_expression (j_cron j) = [] \<and> j_cron j \<noteq> [] \<and> known_mode (j_mode j) \<and>
     (trim_space (j_tag j) \<noteq> [] \<or> j_hosts j \<noteq> [] \<or> j_host j \<noteq> [])"

definition jobs_ok :: "db \<Rightarrow> bool" where
  "jobs_ok d \<longleftrightarrow> (\<forall>j \<in> set (d_jobs d). job_ok j)"

lemma create_job_ok:
  assumes "jobs_ok d" "job_ok j" "trim_space (j_host j) = j_host j"
  shows "jobs_ok (create_job uid j d)"
proof -
  have m: "j_mode j \<noteq> []" using assms(2) by (auto simp: job_ok_def known_mode_def)
  show ?thesis
    using assms m by (auto simp: create_job_def Let_def jobs_ok_def job_ok_def)
qed

lemma trim_ne: "trim_space (trim_space s) = trim_space s"
  by simp

lemma create_job_req_ok: "jobs_ok d \<Longrightarrow> jobs_ok (snd (create_job_req uid body d))"
  unfolding create_job_req_def Let_def
  by (auto split: option.splits intro!: create_job_ok simp: job_ok_def job_of_def)

lemma form_targets_ok:
  assumes "form_targets f ids mode d = Inr (host, hosts, tag)"
  shows "trim_space host = host" "trim_space tag \<noteq> [] \<or> hosts \<noteq> [] \<or> host \<noteq> []"
proof -
  show "trim_space host = host"
    using assms unfolding form_targets_def Let_def by (auto split: if_splits sum.splits)
  show "trim_space tag \<noteq> [] \<or> hosts \<noteq> [] \<or> host \<noteq> []"
    using assms unfolding form_targets_def Let_def by (auto split: if_splits sum.splits)
qed

lemma next_schedule_create_ok: "jobs_ok d \<Longrightarrow> jobs_ok (snd (next_schedule_create uid f ids d))"
  unfolding next_schedule_create_def Let_def
  by (auto split: sum.splits prod.splits intro!: create_job_ok dest: form_targets_ok simp: job_ok_def job_of_def)

text \<open>A deletion of a host leaves the jobs that still have a target, and those can run.\<close>

lemma reconcile_job_ok:
  assumes "job_ok j" "reconcile_job i j = Some j'"
  shows "job_ok j'"
proof (cases "trim_space (j_tag j) \<noteq> []")
  case True
  with assms show ?thesis by (simp add: reconcile_job_def)
next
  case False
  have "j_cron j' = j_cron j" "j_mode j' = j_mode j" using reconcile_job_fields [OF assms(2)] by auto
  moreover have "j' = j \<or> j_hosts j' \<noteq> [] \<or> j_host j' \<noteq> []"
    using assms(2) False by (auto simp: reconcile_job_def Let_def split: if_splits)
  ultimately show ?thesis using assms(1) by (auto simp: job_ok_def)
qed

lemma delete_host_jobs_ok: "jobs_ok d \<Longrightarrow> delete_host i d = Inr d' \<Longrightarrow> jobs_ok d'"
  by (auto simp: jobs_ok_def delete_host_tables(4) set_map_filter intro: reconcile_job_ok)

lemma keep_jobs_ok: "jobs_ok d \<Longrightarrow> (\<And>d'. r = Inr d' \<Longrightarrow> jobs_ok d') \<Longrightarrow> jobs_ok (keep r d)"
  by (auto simp: keep_def split: sum.split)

lemma enabled_jobs_ok: "jobs_ok d \<Longrightarrow> update_job_enabled i b d = Inr d' \<Longrightarrow> jobs_ok d'"
  by (auto simp: update_job_enabled_def jobs_ok_def job_ok_def split: if_splits)

lemma delete_jobs_ok: "jobs_ok d \<Longrightarrow> delete_job i d = Inr d' \<Longrightarrow> jobs_ok d'"
  by (auto simp: delete_job_def jobs_ok_def split: if_splits)

datatype job_op =
    NewJob string "job_req option"
  | NewJobForm string "string \<Rightarrow> string" "string list"
  | SwitchJob string "bool option"
  | SwitchJobForm string "string \<Rightarrow> string"
  | DropJob string
  | DropJobForm string
  | DropHost int string
  | DropHostForm int string

fun job_op_step :: "job_op \<Rightarrow> db \<Rightarrow> db" where
  "job_op_step (NewJob uid body) d = snd (create_job_req uid body d)"
| "job_op_step (NewJobForm uid f ids) d = snd (next_schedule_create uid f ids d)"
| "job_op_step (SwitchJob i body) d = snd (set_job_enabled_req i body d)"
| "job_op_step (SwitchJobForm i f) d = next_schedule_toggle i f d"
| "job_op_step (DropJob i) d = snd (delete_job_req i d)"
| "job_op_step (DropJobForm i) d = next_schedule_delete i d"
| "job_op_step (DropHost t i) d = snd (delete_host_req t i d)"
| "job_op_step (DropHostForm t i) d = snd (next_host_delete t i d)"

lemma jobs_ok_activity [simp]: "jobs_ok (record_activity now i n e s d) = jobs_ok d"
  by (simp add: jobs_ok_def record_activity_def)

lemma job_op_step_ok: "jobs_ok d \<Longrightarrow> jobs_ok (job_op_step e d)"
proof (cases e)
  case (SwitchJob i body)
  assume "jobs_ok d"
  then show ?thesis unfolding SwitchJob
    by (auto simp: set_job_enabled_req_def split: option.split sum.split db_err.split intro: enabled_jobs_ok)
next
  case (DropJob i)
  assume "jobs_ok d"
  then show ?thesis unfolding DropJob
    by (auto simp: delete_job_req_def split: sum.split db_err.split intro: delete_jobs_ok)
next
  case (DropHost t i)
  assume "jobs_ok d"
  then show ?thesis unfolding DropHost
    by (auto simp: delete_host_req_def Let_def split: sum.split db_err.split intro: delete_host_jobs_ok)
next
  case (DropHostForm t i)
  assume "jobs_ok d"
  then show ?thesis unfolding DropHostForm
    by (auto simp: next_host_delete_def Let_def split: sum.split intro: delete_host_jobs_ok)
qed (auto simp: create_job_req_ok next_schedule_create_ok next_schedule_toggle_def next_schedule_delete_def
      intro: keep_jobs_ok enabled_jobs_ok delete_jobs_ok)

interpretation job_requests: machine job_op_step "\<lambda>_. True" jobs_ok
  by unfold_locales (rule job_op_step_ok)

section \<open>Properties\<close>

text \<open>C27
  Every stored job can run: after any sequence of job requests, by JSON or form, and of host
  deletions, each job has a cron expression the scheduler understands, a known mode and a target.\<close>

theorem stored_jobs_can_run:
  "list_all job_ok (d_jobs (fold job_op_step es empty_db))"
proof -
  have "jobs_ok empty_db" by (simp add: jobs_ok_def empty_db_def)
  from job_requests.run_inv [OF this, of es] show ?thesis by (simp add: jobs_ok_def list_all_iff)
qed

text \<open>
  An upgrade job for one host is only scheduled on a host that takes part: its checks are on and its
  update policy is not manual.\<close>

theorem single_upgrade_respects_policy:
  assumes "create_job_req uid (Some req) d = ((201, msg), d')"
    and "trim_space (jq_host req) \<noteq> []" "clean_ids (jq_hosts req) = []"
    and "trim_space (jq_mode req) = ''apply'' \<or> trim_space (jq_mode req) = ''scan_apply''"
  shows "\<exists>h. get_host d (trim_space (jq_host req)) = Inr h \<and> h_checks h \<and>
    to_lower (trim_space (h_policy h)) \<noteq> ''manual'' \<and>
    d_jobs d' = d_jobs d @ [(job_of (trim_space (jq_host req)) [] (trim_space (jq_tag req)) (trim_space (jq_name req))
      (trim_space (jq_cron req)) (trim_space (jq_mode req)) (case jq_enabled req of None \<Rightarrow> True | Some b \<Rightarrow> b))\<lparr>j_id := uid\<rparr>]"
proof -
  let ?host = "trim_space (jq_host req)" and ?mode = "trim_space (jq_mode req)"
  have m: "?mode \<noteq> []" using assms(4) by auto
  have "single_host_check ?host [] ?mode d \<noteq> Some (201, msg)"
    by (auto simp: single_host_check_def Let_def split: sum.split db_err.split)
  then have none: "single_host_check ?host [] ?mode d = None"
    using assms(1,3) m unfolding create_job_req_def Let_def by (auto split: if_splits option.splits)
  have "to_lower (trim_space ''apply'') = ''apply''" by code_simp
  with none obtain h where h: "get_host d ?host = Inr h" "h_checks h" "to_lower (trim_space (h_policy h)) \<noteq> ''manual''"
    using assms(2,4) unfolding single_host_check_def validate_job_mode_def Let_def
    by (auto split: sum.splits db_err.splits if_splits)
  have "d' = create_job uid (job_of ?host [] (trim_space (jq_tag req)) (trim_space (jq_name req))
      (trim_space (jq_cron req)) ?mode (case jq_enabled req of None \<Rightarrow> True | Some b \<Rightarrow> b)) d"
    using assms(1,3) m none unfolding create_job_req_def Let_def by (auto split: if_splits)
  with h m show ?thesis by (simp add: create_job_def job_of_def)
qed

text \<open>
  The policy is not asked for a list of hosts or a tag: the same job sent with \<open>host_ids\<close> is
  scheduled on a manual host, and the run upgrades it.
\<close>

definition manual_db :: db where
  "manual_db = empty_db\<lparr>d_hosts := [(sample_host ''a'' ''h'')\<lparr>h_policy := ''manual''\<rparr>]\<rparr>"

definition upgrade_req :: "string \<Rightarrow> string list \<Rightarrow> job_req" where
  "upgrade_req host hosts = \<lparr>jq_host = host, jq_hosts = hosts, jq_tag = [], jq_name = [], jq_cron = ''@daily'',
     jq_mode = ''apply'', jq_enabled = None\<rparr>"

definition scheduled_db :: db where
  "scheduled_db = empty_db\<lparr>d_hosts := [(sample_host ''a'' ''h'')\<lparr>h_policy := ''scheduled_apply''\<rparr>]\<rparr>"

theorem single_upgrade_respects_policy_witness:
  "\<exists>h. get_host scheduled_db ''a'' = Inr h \<and> h_checks h \<and> to_lower (trim_space (h_policy h)) \<noteq> ''manual''"
proof -
  have t: "trim_space ''a'' = ''a''" "trim_space ''@daily'' = ''@daily''" "trim_space ''apply'' = ''apply''"
    "validate_cron_expression ''@daily'' = []" "to_lower ''apply'' = ''apply''"
    "to_lower ''scheduled_apply'' = ''scheduled_apply''" "trim_space ''scheduled_apply'' = ''scheduled_apply''" by code_simp+
  have "single_host_check ''a'' [] ''apply'' scheduled_db = None"
    by (simp add: single_host_check_def get_host_def scheduled_db_def lookup_row_def sample_host_def validate_job_mode_def
        read_host_def t Let_def del: to_lower.simps)
  then have "create_job_req ''j'' (Some (upgrade_req ''a'' [])) scheduled_db =
      ((201, ''scheduled''), snd (create_job_req ''j'' (Some (upgrade_req ''a'' [])) scheduled_db))"
    by (simp add: create_job_req_def upgrade_req_def t known_mode_def clean_ids_def Let_def)
  from single_upgrade_respects_policy [OF this] show ?thesis
    by (auto simp: upgrade_req_def t clean_ids_def)
qed

lemma manual_host_scheduled_by_list:
  "fst (create_job_req ''j'' (Some (upgrade_req ''a'' [])) manual_db) =
     (409, ''cannot schedule apply job while host auto_update_policy is manual'')"
  "fst (create_job_req ''j'' (Some (upgrade_req [] [''a''])) manual_db) = (201, ''scheduled'')"
proof -
  have t: "trim_space ''a'' = ''a''" "trim_space ''@daily'' = ''@daily''" "trim_space ''apply'' = ''apply''"
    "validate_cron_expression ''@daily'' = []" "to_lower ''apply'' = ''apply''"
    "to_lower ''manual'' = ''manual''" "trim_space ''manual'' = ''manual''" by code_simp+
  show "fst (create_job_req ''j'' (Some (upgrade_req [] [''a''])) manual_db) = (201, ''scheduled'')"
    by (simp add: create_job_req_def upgrade_req_def t known_mode_def clean_ids_def single_host_check_def Let_def)
  have "single_host_check ''a'' [] ''apply'' manual_db = Some (409, ''cannot schedule apply job while host auto_update_policy is manual'')"
    by (simp add: single_host_check_def get_host_def manual_db_def lookup_row_def sample_host_def validate_job_mode_def
        read_host_def t Let_def del: to_lower.simps)
  then show "fst (create_job_req ''j'' (Some (upgrade_req ''a'' [])) manual_db) =
     (409, ''cannot schedule apply job while host auto_update_policy is manual'')"
    by (simp add: create_job_req_def upgrade_req_def t known_mode_def clean_ids_def Let_def)
qed

end
