(* ===== verification/Config.thy ===== *)
theory Config
  imports SealBox "HOL-Library.Word"
begin

text \<open>
  \<open>internal/config/config.go\<close>: the configuration read from the environment. The environment is a
  function that gives the empty string for a variable that is not set. A duration is a signed 64-bit
  number of nanoseconds, and a product that does not fit wraps around.
\<close>

type_synonym environ = "string \<Rightarrow> string"

record config =
  c_version :: string
  c_port :: int
  c_db_path :: string
  c_master_key :: string
  c_ssh_timeout :: int
  c_exec_timeout :: int
  c_connectivity_timeout :: int
  c_apprise_url :: string
  c_apprise_timeout :: int
  c_tls :: bool
  c_tls_cert :: string
  c_tls_key :: string
  c_bulk_concurrency :: int
  c_apply_stagger :: int

text \<open>\<open>time.Duration(v) * time.Second\<close> at 64 bits.\<close>

definition duration_seconds :: "int \<Rightarrow> int" where
  "duration_seconds v = sint (word_of_int v * word_of_int 1000000000 :: 64 word)"

definition env_or :: "environ \<Rightarrow> string \<Rightarrow> string \<Rightarrow> string" where
  "env_or env key fallback = (if env key \<noteq> [] then env key else fallback)"

text \<open>A number from the environment, kept only when \<open>keep\<close> accepts it.\<close>

definition env_int :: "environ \<Rightarrow> string \<Rightarrow> (int \<Rightarrow> bool) \<Rightarrow> int \<Rightarrow> int" where
  "env_int env key keep dflt =
     (if env key = [] then dflt
      else case atoi (env key) of None \<Rightarrow> dflt | Some v \<Rightarrow> if keep v then v else dflt)"

definition tls_enabled :: "environ \<Rightarrow> bool" where
  "tls_enabled env = (let v = to_lower (trim_space (env ''PATCHDECK_TLS'')) in \<not> (v = ''false'' \<or> v = ''0''))"

definition load_config :: "environ \<Rightarrow> string + config" where
  "load_config env =
     (let cfg = \<lparr>
        c_version = env_or env ''PATCHDECK_VERSION'' ''2.9.1'',
        c_port = env_int env ''PATCHDECK_PORT'' (\<lambda>_. True) 6070,
        c_db_path = env_or env ''PATCHDECK_DB_PATH'' ''/data/patchdeck.db'',
        c_master_key = env ''PATCHDECK_MASTER_KEY'',
        c_ssh_timeout = duration_seconds (env_int env ''PATCHDECK_SSH_TIMEOUT_SECONDS'' (\<lambda>_. True) 20),
        c_exec_timeout = duration_seconds (env_int env ''PATCHDECK_EXEC_TIMEOUT_SECONDS'' (\<lambda>v. v > 0) 600),
        c_connectivity_timeout = duration_seconds (env_int env ''PATCHDECK_CONNECTIVITY_TIMEOUT_SECONDS'' (\<lambda>v. v > 0) 15),
        c_apprise_url = env ''PATCHDECK_APPRISE_URL'',
        c_apprise_timeout = duration_seconds (env_int env ''PATCHDECK_APPRISE_TIMEOUT_SECONDS'' (\<lambda>_. True) 10),
        c_tls = tls_enabled env,
        c_tls_cert = env_or env ''PATCHDECK_TLS_CERT'' ''/data/tls/cert.pem'',
        c_tls_key = env_or env ''PATCHDECK_TLS_KEY'' ''/data/tls/key.pem'',
        c_bulk_concurrency = env_int env ''PATCHDECK_BULK_CONCURRENCY'' (\<lambda>_. True) 4,
        c_apply_stagger = env_int env ''PATCHDECK_APPLY_STAGGER_SECONDS'' (\<lambda>v. v > 0) 0\<rparr>
      in if length (c_master_key cfg) < 32 then Inl ''PATCHDECK_MASTER_KEY must be set to 32+ characters'' else Inr cfg)"

section \<open>Bounds\<close>

lemma duration_seconds_exact:
  assumes "0 \<le> v" "v \<le> 9223372036"
  shows "duration_seconds v = 1000000000 * v"
proof -
  have "duration_seconds v = sint (word_of_int (1000000000 * v) :: 64 word)"
    by (simp add: duration_seconds_def mult.commute)
  also have "\<dots> = 1000000000 * v"
    unfolding sint_sbintrunc' using assms by (subst signed_take_bit_int_eq_self) auto
  finally show ?thesis .
qed

lemma env_int_keep: "keep dflt \<Longrightarrow> keep (env_int env key keep dflt)"
  by (simp add: env_int_def split: option.split)

text \<open>The number of seconds in a variable, where it is one, fits into a duration.\<close>

definition small_env :: "environ \<Rightarrow> string \<Rightarrow> bool" where
  "small_env env key \<longleftrightarrow> (case atoi (env key) of None \<Rightarrow> True | Some v \<Rightarrow> v \<le> 9223372036)"

lemma positive_timeout:
  assumes "small_env env key" "0 < dflt" "dflt \<le> 9223372036"
  shows "1000000000 \<le> duration_seconds (env_int env key (\<lambda>v. v > 0) dflt)"
proof -
  let ?v = "env_int env key (\<lambda>v. v > 0) dflt"
  have "0 < ?v" using assms(2) by (rule env_int_keep)
  moreover have "?v \<le> 9223372036" using assms by (auto simp: env_int_def small_env_def split: option.split)
  ultimately show ?thesis by (simp add: duration_seconds_exact)
qed

text \<open>
  A configuration the server starts with works: it has a master key the seal box takes, and command
  and reachability timeouts of at least one second and a stagger that is not negative, as long as
  the two timeouts are below 292 years.\<close>

theorem config_usable:
  assumes "load_config env = Inr c"
    and "small_env env ''PATCHDECK_EXEC_TIMEOUT_SECONDS''" "small_env env ''PATCHDECK_CONNECTIVITY_TIMEOUT_SECONDS''"
  shows "new_seal_box ae (c_master_key c) \<noteq> None \<and> 1000000000 \<le> c_exec_timeout c \<and>
    1000000000 \<le> c_connectivity_timeout c \<and> 0 \<le> c_apply_stagger c"
proof -
  have c: "c_exec_timeout c = duration_seconds (env_int env ''PATCHDECK_EXEC_TIMEOUT_SECONDS'' (\<lambda>v. v > 0) 600)"
    "c_connectivity_timeout c = duration_seconds (env_int env ''PATCHDECK_CONNECTIVITY_TIMEOUT_SECONDS'' (\<lambda>v. v > 0) 15)"
    "c_apply_stagger c = env_int env ''PATCHDECK_APPLY_STAGGER_SECONDS'' (\<lambda>v. v > 0) 0" "\<not> length (c_master_key c) < 32"
    using assms(1) unfolding load_config_def Let_def by (auto split: if_splits)
  have "0 \<le> c_apply_stagger c" unfolding c(3) by (auto simp: env_int_def split: option.split)
  with c(4) show ?thesis
    unfolding c(1,2) using positive_timeout [OF assms(2)] positive_timeout [OF assms(3)] by (simp add: new_seal_box_def)
qed

text \<open>Beyond that the timeout wraps around: one second more makes it negative.\<close>

lemma exec_timeout_wraps: "duration_seconds 9223372037 < 0"
  by code_simp

text \<open>A concurrency of zero is kept as it is.\<close>

lemma zero_concurrency_kept: "env_int (\<lambda>_. ''0'') ''PATCHDECK_BULK_CONCURRENCY'' (\<lambda>_. True) 4 = 0"
  by code_simp

definition sample_env :: environ where
  "sample_env key = (if key = ''PATCHDECK_MASTER_KEY'' then replicate 32 (CHR ''k'')
     else if key = ''PATCHDECK_EXEC_TIMEOUT_SECONDS'' then ''90'' else [])"

theorem config_usable_witness:
  "\<exists>c. load_config sample_env = Inr c \<and> c_exec_timeout c = 90000000000 \<and> 0 \<le> c_apply_stagger c"
proof -
  obtain c where c: "load_config sample_env = Inr c" "c_exec_timeout c = duration_seconds 90"
  proof -
    have "atoi ''90'' = Some 90" by code_simp
    with that show ?thesis unfolding load_config_def Let_def by (auto simp: sample_env_def env_int_def)
  qed
  have "small_env sample_env ''PATCHDECK_EXEC_TIMEOUT_SECONDS''" "small_env sample_env ''PATCHDECK_CONNECTIVITY_TIMEOUT_SECONDS''"
    by code_simp+
  with config_usable [OF c(1)] c show ?thesis by (auto simp: duration_seconds_exact)
qed

end
