(* ===== verification/KeyRotation.thy ===== *)
theory KeyRotation
  imports AppKey DbHosts Machine
begin

text \<open>
  \<open>cmd/server/sshkey.go\<close>: the rotation of Patchdeck's key as the dashboard and the API drive it.
  Whether a host accepts a key is asked by a connection of its own; that answer, \<open>None\<close> or the text
  of an error, is a parameter. The checks run at the same time in the code and are sorted by the
  names of the hosts afterwards.
\<close>

section \<open>Checking the next key\<close>

record key_check =
  kc_host :: string
  kc_ok :: bool
  kc_error :: string

type_synonym 'p key_probe = "host \<Rightarrow> 'p \<Rightarrow> string option"

definition app_key_hosts :: "db \<Rightarrow> host list" where
  "app_key_hosts d = filter (\<lambda>h. h_auth_type h = auth_app_key) (list_hosts d)"

definition key_check_of :: "'p key_probe \<Rightarrow> 'p \<Rightarrow> host \<Rightarrow> key_check" where
  "key_check_of probe p h = (case probe h p of
     None \<Rightarrow> \<lparr>kc_host = h_name h, kc_ok = True, kc_error = []\<rparr>
   | Some e \<Rightarrow> \<lparr>kc_host = h_name h, kc_ok = False, kc_error = e\<rparr>)"

definition check_next_key :: "'p key_probe \<Rightarrow> 'p key_store \<times> db \<Rightarrow> string + key_check list" where
  "check_next_key probe = (\<lambda>(s, d). case ks_next s of
     None \<Rightarrow> Inl err_not_rotating
   | Some n \<Rightarrow> Inr (sort_key kc_host (map (key_check_of probe (k_signer n)) (app_key_hosts d))))"

definition all_ok :: "key_check list \<Rightarrow> bool" where
  "all_ok cs = list_all kc_ok cs"

section \<open>The three steps\<close>

definition key_activity :: "int \<Rightarrow> string \<Rightarrow> string \<Rightarrow> 'p key_store \<times> db \<Rightarrow> 'p key_store \<times> db" where
  "key_activity now event summary = (\<lambda>(s, d). (s, record_activity now [] ''Patchdeck'' event summary d))"

definition key_dash :: string where
  "key_dash = '' '' @ em_dash @ '' ''"

definition start_rotation ::
  "'p keylib \<Rightarrow> aead \<Rightarrow> seal_box \<Rightarrow> 'p draw \<Rightarrow> int \<Rightarrow> 'p key_store \<times> db \<Rightarrow> (string + 'p app_key) \<times> 'p key_store \<times> db" where
  "start_rotation lib ae sb draw now x =
     (case start_rotation_store lib ae sb draw x of
        (Inl e, y) \<Rightarrow> (Inl e, y)
      | (Inr k, y) \<Rightarrow> (Inr k, key_activity now ''ssh_key_rotation_started''
          (''SSH key rotation started'' @ key_dash @ ''new key '' @ k_fingerprint k @ '' ('' @ key_comment (k_created k) @ '')'') y))"

definition err_not_ready :: string where
  "err_not_ready = ''some hosts don'' @ [CHR 0x27] @ ''t accept the new key yet''"

text \<open>The second half of finishing, after the checks.\<close>

definition promote_key :: "int \<Rightarrow> bool \<Rightarrow> 'p key_store \<times> db \<Rightarrow> string option \<times> 'p key_store \<times> db" where
  "promote_key now force x =
     (case finish_rotation_store x of
        (Inl e, y) \<Rightarrow> (Some e, y)
      | (Inr retired, y) \<Rightarrow> (None, key_activity now ''ssh_key_rotated''
          (''SSH key rotated'' @ (if force then '' (forced)'' else []) @ key_dash @ ''now '' @ k_fingerprint (ks_cur (fst y)) @
           ''; retired '' @ k_fingerprint retired @ '' ('' @ key_comment (k_created retired) @ '')'') y))"

definition finish_rotation ::
  "'p key_probe \<Rightarrow> int \<Rightarrow> bool \<Rightarrow> 'p key_store \<times> db \<Rightarrow> key_check list \<times> string option \<times> 'p key_store \<times> db" where
  "finish_rotation probe now force x =
     (if force then ([], promote_key now force x)
      else case check_next_key probe x of
          Inl e \<Rightarrow> ([], Some e, x)
        | Inr checks \<Rightarrow> if all_ok checks then (checks, promote_key now force x) else (checks, Some err_not_ready, x))"

definition cancel_rotation :: "int \<Rightarrow> 'p key_store \<times> db \<Rightarrow> string option \<times> 'p key_store \<times> db" where
  "cancel_rotation now x =
     (case cancel_rotation_store x of
        (Inl e, y) \<Rightarrow> (Some e, y)
      | (Inr dropped, y) \<Rightarrow> (None, key_activity now ''ssh_key_rotation_cancelled''
          (''SSH key rotation cancelled'' @ key_dash @ ''discarded '' @ k_fingerprint dropped) y))"

section \<open>The settings card\<close>

record key_card =
  cd_flash :: string
  cd_err :: string
  cd_checks :: "key_check list"
  cd_need_force :: bool

definition card_error :: "string \<Rightarrow> key_card" where
  "card_error e = \<lparr>cd_flash = [], cd_err = e, cd_checks = [], cd_need_force = False\<rparr>"

definition card_flash :: "string \<Rightarrow> key_card" where
  "card_flash m = \<lparr>cd_flash = m, cd_err = [], cd_checks = [], cd_need_force = False\<rparr>"

definition next_key_rotate ::
  "'p keylib \<Rightarrow> aead \<Rightarrow> seal_box \<Rightarrow> 'p draw \<Rightarrow> int \<Rightarrow> 'p key_store \<times> db \<Rightarrow> key_card \<times> 'p key_store \<times> db" where
  "next_key_rotate lib ae sb draw now x =
     (case start_rotation lib ae sb draw now x of
        (Inl e, y) \<Rightarrow> (card_error e, y)
      | (Inr _, y) \<Rightarrow> (card_flash ''New key created. Install its public key, then Check hosts and Finish.'', y))"

definition next_key_check :: "'p key_probe \<Rightarrow> 'p key_store \<times> db \<Rightarrow> key_card" where
  "next_key_check probe x =
     (case check_next_key probe x of
        Inl e \<Rightarrow> card_error e
      | Inr checks \<Rightarrow>
          if checks = [] then card_flash (''No hosts use Patchdeck'' @ [CHR 0x27] @ ''s key yet'' @ key_dash @ ''nothing to check.'')
          else \<lparr>cd_flash = [], cd_err = [], cd_checks = checks, cd_need_force = False\<rparr>)"

definition not_finished_text :: string where
  "not_finished_text = ''Not finished: these hosts still reject the new key. Install it there, or finish anyway (they'' @ [CHR 0x27] @ ''ll lose access until you do).''"

definition finished_text :: string where
  "finished_text = ''Rotation finished. The old key is destroyed'' @ key_dash @ ''remove its line from authorized_keys / your Warpgate user.''"

definition next_key_finish :: "'p key_probe \<Rightarrow> int \<Rightarrow> string \<Rightarrow> 'p key_store \<times> db \<Rightarrow> key_card \<times> 'p key_store \<times> db" where
  "next_key_finish probe now force x =
     (case finish_rotation probe now (force \<noteq> []) x of
        (checks, None, y) \<Rightarrow> (card_flash finished_text, y)
      | (checks, Some e, y) \<Rightarrow>
          (if e = err_not_ready then \<lparr>cd_flash = [], cd_err = not_finished_text, cd_checks = checks, cd_need_force = True\<rparr>
           else card_error e, y))"

definition next_key_cancel :: "int \<Rightarrow> 'p key_store \<times> db \<Rightarrow> key_card \<times> 'p key_store \<times> db" where
  "next_key_cancel now x =
     (case cancel_rotation now x of
        (Some e, y) \<Rightarrow> (card_error e, y)
      | (None, y) \<Rightarrow> (card_flash ''Rotation cancelled. The current key is unchanged.'', y))"

section \<open>The JSON interface\<close>

datatype key_json = KeyError string | KeysNotReady string "key_check list" | CurrentKey "string \<times> string \<times> string"
  | RotationKey "string \<times> string \<times> string" | KeyChecks bool "key_check list"

definition key_view :: "'p app_key \<Rightarrow> string \<times> string \<times> string" where
  "key_view k = (k_line k, k_fingerprint k, format_rfc3339 (k_created k))"

definition get_ssh_key :: "'p key_store \<times> db \<Rightarrow> (string \<times> string \<times> string) \<times> (string \<times> string \<times> string) option \<times> string list" where
  "get_ssh_key = (\<lambda>(s, d). (key_view (ks_cur s), map_option key_view (ks_next s), map h_name (app_key_hosts d)))"

definition api_key_rotate ::
  "'p keylib \<Rightarrow> aead \<Rightarrow> seal_box \<Rightarrow> 'p draw \<Rightarrow> int \<Rightarrow> 'p key_store \<times> db \<Rightarrow> (nat \<times> key_json) \<times> 'p key_store \<times> db" where
  "api_key_rotate lib ae sb draw now x =
     (case start_rotation lib ae sb draw now x of
        (Inl e, y) \<Rightarrow> ((409, KeyError e), y)
      | (Inr k, y) \<Rightarrow> ((200, RotationKey (key_view k)), y))"

definition api_key_check :: "'p key_probe \<Rightarrow> 'p key_store \<times> db \<Rightarrow> nat \<times> key_json" where
  "api_key_check probe x =
     (case check_next_key probe x of Inl e \<Rightarrow> (409, KeyError e) | Inr checks \<Rightarrow> (200, KeyChecks (all_ok checks) checks))"

text \<open>The body: \<open>None\<close> where it is refused as JSON, and without force where it is empty.\<close>

definition api_key_finish :: "'p key_probe \<Rightarrow> int \<Rightarrow> bool option \<Rightarrow> 'p key_store \<times> db \<Rightarrow> (nat \<times> key_json) \<times> 'p key_store \<times> db" where
  "api_key_finish probe now body x =
     (case body of None \<Rightarrow> ((400, KeyError ''invalid json''), x)
      | Some force \<Rightarrow>
          (case finish_rotation probe now force x of
             (checks, None, y) \<Rightarrow> ((200, CurrentKey (key_view (ks_cur (fst y)))), y)
           | (checks, Some e, y) \<Rightarrow> ((409, if e = err_not_ready then KeysNotReady e checks else KeyError e), y)))"

definition api_key_cancel :: "int \<Rightarrow> 'p key_store \<times> db \<Rightarrow> (nat \<times> key_json) \<times> 'p key_store \<times> db" where
  "api_key_cancel now x =
     (case cancel_rotation now x of
        (Some e, y) \<Rightarrow> ((409, KeyError e), y)
      | (None, y) \<Rightarrow> ((200, CurrentKey (key_view (ks_cur (fst y)))), y))"

section \<open>Runs with the hosts around them\<close>

text \<open>
  Which keys the operator has installed where, and the requests that change the keys, none of them
  forced, with restarts of the server in between.
\<close>

datatype 'p rotation_event = Rotate "'p draw" int | Finish int | Cancel int | Install string 'p | Restarted "'p draw"

type_synonym 'p world = "(string \<Rightarrow> 'p set) \<times> 'p key_store \<times> db"

definition installed_probe :: "(string \<Rightarrow> 'p set) \<Rightarrow> 'p key_probe" where
  "installed_probe w h p = (if p \<in> w (h_id h) then None else Some ''permission denied'')"

fun rotation_step :: "'p keylib \<Rightarrow> aead \<Rightarrow> seal_box \<Rightarrow> 'p rotation_event \<Rightarrow> 'p world \<Rightarrow> 'p world" where
  "rotation_step lib ae sb (Rotate draw now) (w, x) = (w, snd (start_rotation lib ae sb draw now x))"
| "rotation_step lib ae sb (Finish now) (w, x) = (w, snd (snd (finish_rotation (installed_probe w) now False x)))"
| "rotation_step lib ae sb (Cancel now) (w, x) = (w, snd (cancel_rotation now x))"
| "rotation_step lib ae sb (Install i p) (w, x) = (w(i := insert p (w i)), x)"
| "rotation_step lib ae sb (Restarted draw) (w, s, d) =
     (w, case open_keys lib ae sb draw d of Inl _ \<Rightarrow> (s, d) | Inr (s', _, d') \<Rightarrow> (s', d'))"

fun rotation_event_ok :: "'p rotation_event \<Rightarrow> bool" where
  "rotation_event_ok (Rotate draw now) = draw_ok draw"
| "rotation_event_ok _ = True"

text \<open>Every host that logs in with Patchdeck's key accepts the current one.\<close>

definition hosts_open :: "'p world \<Rightarrow> bool" where
  "hosts_open x \<longleftrightarrow> (\<forall>h \<in> set (app_key_hosts (snd (snd x))). k_signer (ks_cur (fst (snd x))) \<in> fst x (h_id h))"

lemma app_key_state_activity [simp]: "get_app_key_state (record_activity now i n e m d) = get_app_key_state d"
  by (simp add: record_activity_def get_app_key_state_def get_app_setting_def setting_get_def)

lemma put_settings_tables: "d_hosts (put_settings kvs d) = d_hosts d \<and> d_prefs (put_settings kvs d) = d_prefs d"
  unfolding put_settings_def by (induction kvs arbitrary: d) (auto simp: setting_put_def split: prod.splits)

lemma app_key_hosts_tables: "d_hosts d = d_hosts d' \<Longrightarrow> d_prefs d = d_prefs d' \<Longrightarrow> app_key_hosts d = app_key_hosts d'"
  by (simp add: app_key_hosts_def list_hosts_def read_host_def get_host_notification_prefs_def cong: map_cong)

lemma app_key_hosts_frame [simp]:
  "app_key_hosts (record_activity now i n e m d) = app_key_hosts d"
  "app_key_hosts (persist_keys cur c k d) = app_key_hosts d"
proof -
  show "app_key_hosts (record_activity now i n e m d) = app_key_hosts d"
    by (rule app_key_hosts_tables) (simp_all add: record_activity_def)
  show "app_key_hosts (persist_keys cur c k d) = app_key_hosts d"
    by (rule app_key_hosts_tables) (simp_all add: persist_keys_def put_app_key_state_def put_settings_tables)
qed

lemma store_ok_activity [simp]: "store_ok lib ae sb (s, record_activity now i n e m d) = store_ok lib ae sb (s, d)"
  by (simp add: store_ok_def)

lemma store_ok_steps:
  assumes "keylib_law lib" "aead_law ae" "store_ok lib ae sb x"
  shows "draw_ok w \<Longrightarrow> store_ok lib ae sb (snd (start_rotation_store lib ae sb w x))"
    "store_ok lib ae sb (snd (finish_rotation_store x))" "store_ok lib ae sb (snd (cancel_rotation_store x))"
  using key_op_diagram [OF assms, of "StartOp w"] key_op_diagram [OF assms, of FinishOp]
    key_op_diagram [OF assms, of CancelOp] by auto

text \<open>The checks of an unforced finish passed, or nothing changed.\<close>

lemma all_ok_checks:
  assumes "check_next_key probe (s, d) = Inr checks" "all_ok checks"
  obtains n where "ks_next s = Some n" "\<forall>h \<in> set (app_key_hosts d). probe h (k_signer n) = None"
proof -
  from assms(1) obtain n where n: "ks_next s = Some n"
    "checks = sort_key kc_host (map (key_check_of probe (k_signer n)) (app_key_hosts d))"
    by (auto simp: check_next_key_def split: option.splits)
  moreover have "probe h (k_signer n) = None" if "h \<in> set (app_key_hosts d)" for h
    using assms(2) that unfolding n(2) all_ok_def list_all_iff
    by (auto simp: key_check_of_def split: option.splits)
  ultimately show ?thesis by (intro that) auto
qed

lemma promote_key_next:
  assumes "ks_next s = Some n" "promote_key now force (s, d) = (e, s', d')"
  shows "e = None" "s' = \<lparr>ks_cur = n, ks_next = None\<rparr>" "app_key_hosts d' = app_key_hosts d"
    "store_ok lib ae sb (s', d') = store_ok lib ae sb (snd (finish_rotation_store (s, d)))"
  using assms by (auto simp: promote_key_def finish_rotation_store_def key_activity_def)

lemma unforced_finish:
  assumes "finish_rotation probe now False (s, d) = (checks, e, s', d')"
  shows "(e \<noteq> None \<and> s' = s \<and> d' = d) \<or>
    (\<exists>n. e = None \<and> ks_next s = Some n \<and> s' = \<lparr>ks_cur = n, ks_next = None\<rparr> \<and> app_key_hosts d' = app_key_hosts d \<and>
       (\<forall>h \<in> set (app_key_hosts d). probe h (k_signer n) = None) \<and>
       (\<forall>lib ae sb. store_ok lib ae sb (s', d') = store_ok lib ae sb (snd (finish_rotation_store (s, d)))))"
proof (cases "\<exists>checks. check_next_key probe (s, d) = Inr checks \<and> all_ok checks")
  case True
  then obtain cs where cs: "check_next_key probe (s, d) = Inr cs" "all_ok cs" by blast
  then obtain n where n: "ks_next s = Some n" "\<forall>h \<in> set (app_key_hosts d). probe h (k_signer n) = None"
    by (rule all_ok_checks)
  have "promote_key now False (s, d) = (e, s', d')"
    using assms cs by (simp add: finish_rotation_def)
  from promote_key_next [OF n(1) this] n show ?thesis by auto
next
  case False
  with assms show ?thesis by (auto simp: finish_rotation_def split: sum.splits if_splits)
qed

definition rotation_inv :: "'p keylib \<Rightarrow> aead \<Rightarrow> seal_box \<Rightarrow> 'p world \<Rightarrow> bool" where
  "rotation_inv lib ae sb x \<longleftrightarrow> keylib_law lib \<and> aead_law ae \<and> store_ok lib ae sb (snd x) \<and> hosts_open x"

lemma start_cur:
  "ks_cur (fst (snd (start_rotation_store lib ae sb w (s, d)))) = ks_cur s"
  "app_key_hosts (snd (snd (start_rotation_store lib ae sb w (s, d)))) = app_key_hosts d"
  by (simp_all add: start_rotation_store_def Let_def split: prod.split)

lemma cancel_cur:
  "ks_cur (fst (snd (cancel_rotation_store (s, d)))) = ks_cur s"
  "app_key_hosts (snd (snd (cancel_rotation_store (s, d)))) = app_key_hosts d"
  by (simp_all add: cancel_rotation_store_def split: option.split)

lemma activity_same:
  "ks_cur (fst (key_activity now ev m x)) = ks_cur (fst x)"
  "app_key_hosts (snd (key_activity now ev m x)) = app_key_hosts (snd x)"
  "store_ok lib ae sb (key_activity now ev m x) = store_ok lib ae sb x"
  by (cases x; simp add: key_activity_def)+

lemma start_rotation_same:
  "ks_cur (fst (snd (start_rotation lib ae sb w now x))) = ks_cur (fst (snd (start_rotation_store lib ae sb w x)))"
  "app_key_hosts (snd (snd (start_rotation lib ae sb w now x))) = app_key_hosts (snd (snd (start_rotation_store lib ae sb w x)))"
  "store_ok lib' ae' sb' (snd (start_rotation lib ae sb w now x)) = store_ok lib' ae' sb' (snd (start_rotation_store lib ae sb w x))"
  unfolding start_rotation_def by (simp_all add: activity_same split: prod.split sum.split)

lemma cancel_rotation_same:
  "ks_cur (fst (snd (cancel_rotation now x))) = ks_cur (fst (snd (cancel_rotation_store x)))"
  "app_key_hosts (snd (snd (cancel_rotation now x))) = app_key_hosts (snd (snd (cancel_rotation_store x)))"
  "store_ok lib' ae' sb' (snd (cancel_rotation now x)) = store_ok lib' ae' sb' (snd (cancel_rotation_store x))"
  unfolding cancel_rotation_def by (simp_all add: activity_same split: prod.split sum.split)

lemma rotation_step_inv:
  assumes "rotation_inv lib ae sb x" "rotation_event_ok e"
  shows "rotation_inv lib ae sb (rotation_step lib ae sb e x)"
proof -
  obtain w s d where x: "x = (w, s, d)" by (cases x)
  have law: "keylib_law lib" "aead_law ae" and ok: "store_ok lib ae sb (s, d)" and acc: "hosts_open (w, s, d)"
    using assms(1) by (auto simp: rotation_inv_def x)
  note st = store_ok_steps [OF law ok]
  show ?thesis
  proof (cases e)
    case (Rotate draw now)
    with assms(2) st(1) [of draw] law acc show ?thesis
      by (simp add: x Rotate rotation_inv_def hosts_open_def start_rotation_same start_cur)
  next
    case (Finish now)
    obtain checks er s' d' where f: "finish_rotation (installed_probe w) now False (s, d) = (checks, er, s', d')"
      by (metis prod_cases4)
    with unforced_finish [OF f] st(2) law ok acc show ?thesis
      by (auto simp: x Finish rotation_inv_def hosts_open_def installed_probe_def split: if_splits)
  next
    case (Cancel now)
    with st(3) law acc show ?thesis
      by (simp add: x Cancel rotation_inv_def hosts_open_def cancel_rotation_same cancel_cur)
  next
    case (Install i p)
    with law ok acc show ?thesis by (auto simp: x rotation_inv_def hosts_open_def)
  next
    case (Restarted draw)
    with reopen [OF ok, of draw] law ok acc show ?thesis by (simp add: x rotation_inv_def)
  qed
qed

interpretation key_rotation: machine "rotation_step lib ae sb" rotation_event_ok "rotation_inv lib ae sb"
  for lib :: "'p keylib" and ae sb
  by unfold_locales (rule rotation_step_inv)

section \<open>Properties\<close>

text \<open>C10
  A rotation locks no host out: while every host that logs in with Patchdeck's key accepts the
  current one, any sequence of rotations started, finished without force and cancelled, of new keys
  installed and of restarts of the server leaves every one of them accepting the key that is
  current then.\<close>

theorem no_host_locked_out:
  assumes "keylib_law lib" "aead_law ae"
    and "open_keys lib ae sb draw d0 = Inr (s, g, d)" "ak_current (get_app_key_state d0) = []" "draw_ok draw"
    and "\<forall>h \<in> set (app_key_hosts d). k_signer (ks_cur s) \<in> w (h_id h)"
    and "list_all rotation_event_ok es" "fold (rotation_step lib ae sb) es (w, s, d) = (w', s', d')"
  shows "\<forall>h \<in> set (app_key_hosts d'). k_signer (ks_cur s') \<in> w' (h_id h)"
proof -
  have "store_ok lib ae sb (s, d)"
    using first_open [OF assms(1,2,5,4)] assms(3) by (metis Inr_inject Pair_inject)
  with assms(1,2,6) have "rotation_inv lib ae sb (w, s, d)"
    by (simp add: rotation_inv_def hosts_open_def)
  from key_rotation.run_inv [OF this assms(7)] show ?thesis
    by (simp add: assms(8) rotation_inv_def hosts_open_def)
qed

text \<open>
  An unforced finish is all or nothing: it either promotes the very key that every host that logs in
  with Patchdeck's key has just accepted, which is then the only one offered, or it changes neither
  the keys nor the database.\<close>

theorem finish_all_or_nothing:
  assumes "finish_rotation probe now False (s, d) = (checks, e, s', d')"
  shows "(e \<noteq> None \<and> s' = s \<and> d' = d) \<or>
    (e = None \<and> (\<exists>n. ks_next s = Some n \<and> key_signers s' = [k_signer n] \<and>
       (\<forall>h \<in> set (app_key_hosts d). probe h (k_signer n) = None)))"
  using unforced_finish [OF assms] by (auto simp: key_signers_def)

text \<open>
  The checks and the promotion are two critical sections: when another request cancels the rotation
  and starts a new one in between, the promoted key is one no host was asked about.
\<close>

lemma unchecked_key_promoted:
  assumes "ks_next s = Some n"
  shows "ks_cur (fst (snd (promote_key t3 False (snd (start_rotation lib ae sb draw t2 (snd (cancel_rotation t1 (s, d))))))))
    = fst (generate_key lib ae sb draw)"
  using assms
  by (simp add: promote_key_def finish_rotation_store_def start_rotation_def start_rotation_store_def cancel_rotation_def
      cancel_rotation_store_def key_activity_def Let_def split: prod.split)

definition toy_key_db :: db where
  "toy_key_db = empty_db\<lparr>d_hosts := [(sample_host ''1'' ''web'')\<lparr>h_auth_type := ''app_key''\<rparr>]\<rparr>"

lemma toy_key_open:
  obtains s d where "open_keys toy_keylib toy_aead toy_box (toy_draw ''old'') toy_key_db = Inr (s, True, d)"
    "k_signer (ks_cur s) = ''old''" "map h_id (app_key_hosts d) = [''1'']" "ak_current (get_app_key_state toy_key_db) = []"
proof -
  have no: "ak_current (get_app_key_state toy_key_db) = []" by code_simp
  have hosts: "map h_id (app_key_hosts toy_key_db) = [''1'']" by code_simp
  obtain k c where g: "generate_key toy_keylib toy_aead toy_box (toy_draw ''old'') = (k, c)" by force
  with toy_generate [of "''old''"] have "k_signer k = ''old''" by simp
  with no hosts g show ?thesis
    by (intro that [of "\<lparr>ks_cur = k, ks_next = None\<rparr>" "persist_keys k c None toy_key_db"]) (simp_all add: open_keys_def)
qed

theorem no_host_locked_out_witness:
  "\<exists>s d. open_keys toy_keylib toy_aead toy_box (toy_draw ''old'') toy_key_db = Inr (s, True, d) \<and>
     (let (w', s', d') = fold (rotation_step toy_keylib toy_aead toy_box)
        [Rotate (toy_draw ''new'') 1, Finish 2, Install ''1'' ''new'', Restarted (toy_draw ''x''), Finish 3] (\<lambda>_. {''old''}, s, d)
      in list_all (\<lambda>h. k_signer (ks_cur s') \<in> w' (h_id h)) (app_key_hosts d'))"
proof -
  obtain s d where o: "open_keys toy_keylib toy_aead toy_box (toy_draw ''old'') toy_key_db = Inr (s, True, d)"
    "k_signer (ks_cur s) = ''old''" "ak_current (get_app_key_state toy_key_db) = []"
    by (rule toy_key_open)
  let ?es = "[Rotate (toy_draw ''new'') 1, Finish 2, Install ''1'' ''new'', Restarted (toy_draw ''x''), Finish 3]"
  obtain w' s' d' where r: "fold (rotation_step toy_keylib toy_aead toy_box) ?es (\<lambda>_. {''old''}, s, d) = (w', s', d')"
    by (metis prod_cases3)
  have "list_all rotation_event_ok ?es" by (simp add: toy_draw_ok)
  from no_host_locked_out [OF toy_key_laws o(1,3) toy_draw_ok _ this r]
  have "list_all (\<lambda>h. k_signer (ks_cur s') \<in> w' (h_id h)) (app_key_hosts d')" by (simp add: o(2) list_all_iff)
  with o(1) r show ?thesis by (auto simp del: fold_simps)
qed

theorem finish_all_or_nothing_witness:
  "\<exists>checks s' d'. finish_rotation (\<lambda>h p. None) 1 False
     (\<lparr>ks_cur = key_of toy_keylib ''old'' 0, ks_next = Some (key_of toy_keylib ''new'' 0)\<rparr>, toy_key_db) = (checks, None, s', d') \<and>
     key_signers s' = [''new'']"
proof -
  let ?s = "\<lparr>ks_cur = key_of toy_keylib ''old'' 0, ks_next = Some (key_of toy_keylib ''new'' 0)\<rparr>"
  obtain checks e s' d' where f: "finish_rotation (\<lambda>h p. None) 1 False (?s, toy_key_db) = (checks, e, s', d')"
    by (metis prod_cases4)
  have "e = None"
    using f by (auto simp: finish_rotation_def check_next_key_def all_ok_def list_all_iff key_check_of_def promote_key_def
        finish_rotation_store_def key_activity_def split: if_splits)
  with finish_all_or_nothing [OF f] f show ?thesis by (auto simp: key_of_def)
qed

end
