(* ===== verification/HostOps.thy ===== *)
theory HostOps
  imports Session JobRun Coalescer RateLimit Restart
begin

text \<open>
  The operations on one host in \<open>cmd/server/main.go\<close>: scan, apply, the three restarts and power, with
  the cooldown in front of them, the notifications and the audit log after them. The SSH client is a
  way to run privileged commands that may also change the database, since the verification of a host
  key writes to it; the detached upgrade is a function of its own (\<open>Apply\<close>). A scan whose output
  makes the parser panic ends the request and leaves the state of that moment.
\<close>

section \<open>State\<close>

record 'w ops_env =
  oe_priv :: "host \<Rightarrow> ('w \<times> db) priv"
  oe_apply :: "host \<Rightarrow> 'w \<times> db \<Rightarrow> ('w \<times> db) \<times> apply_result \<times> apply_err option"
  oe_now :: "'w \<Rightarrow> int"
  oe_uid :: "'w \<Rightarrow> 'w \<times> string"
  oe_apprise_url :: string

record 'w ops =
  op_world :: 'w
  op_db :: db
  op_limiter :: host_limiter
  op_coalescer :: "coalescer option"
  op_sent :: "(string \<times> string) list"

datatype op_reply = Failed nat string | Limited int | KeyRefused string string string | ScanDone scan_result
  | ApplyDone apply_result | RestartDone restart_result | Message string | Panicked

definition in_ops_db :: "'w ops_env \<Rightarrow> (int \<Rightarrow> db \<Rightarrow> db) \<Rightarrow> 'w ops \<Rightarrow> 'w ops" where
  "in_ops_db env f s = s\<lparr>op_db := f (oe_now env (op_world s)) (op_db s)\<rparr>"

definition ops_activity :: "'w ops_env \<Rightarrow> host \<Rightarrow> string \<Rightarrow> string \<Rightarrow> 'w ops \<Rightarrow> 'w ops" where
  "ops_activity env h event text = in_ops_db env (\<lambda>now. record_activity now (h_id h) (h_name h) event text)"

section \<open>Notifications\<close>

text \<open>The server's own copy of the toggles.\<close>

definition notification_enabled :: "db \<Rightarrow> string \<Rightarrow> string \<Rightarrow> bool" where
  "notification_enabled d host key =
     (let s = get_notification_settings d; p = get_host_notification_prefs d host in
      if key = ''updates_available'' then ns_updates s \<and> hp_updates p
      else if key = ''auto_apply_success'' then ns_apply_ok s \<and> hp_apply_ok p
      else if key = ''auto_apply_failure'' then ns_apply_fail s \<and> hp_apply_fail p
      else if key = ''scan_failure'' then ns_scan_fail s \<and> hp_scan_fail p
      else True)"

definition current_apprise_url :: "'w ops_env \<Rightarrow> db \<Rightarrow> string" where
  "current_apprise_url env d =
     (let u = ns_url (get_notification_settings d) in if trim_space u \<noteq> [] then u else oe_apprise_url env)"

definition notify_host :: "'w ops_env \<Rightarrow> string \<Rightarrow> string \<Rightarrow> string \<Rightarrow> (digest \<Rightarrow> digest) \<Rightarrow> 'w ops \<Rightarrow> 'w ops" where
  "notify_host env host key legacy add s =
     (if \<not> notification_enabled (op_db s) host key then s
      else case (ns_delivery (get_notification_settings (op_db s)) = delivery_per_host, op_coalescer s) of
          (False, Some c) \<Rightarrow> s\<lparr>op_coalescer := Some (coalescer_add (oe_now env (op_world s)) add c)\<rparr>
        | _ \<Rightarrow> if legacy \<noteq> [] then s\<lparr>op_sent := op_sent s @ [(current_apprise_url env (op_db s), legacy)]\<rparr> else s)"

definition notify_scan_failure :: "'w ops_env \<Rightarrow> host \<Rightarrow> string \<Rightarrow> string \<Rightarrow> 'w ops \<Rightarrow> 'w ops" where
  "notify_scan_failure env h legacy reason = notify_host env (h_id h) ''scan_failure'' legacy (add_failed (h_name h) ''scan'' reason)"

definition notify_apply_failure :: "'w ops_env \<Rightarrow> host \<Rightarrow> string \<Rightarrow> 'w ops \<Rightarrow> 'w ops" where
  "notify_apply_failure env h err =
     notify_host env (h_id h) ''auto_apply_failure'' (''Patchdeck: apply FAILED on '' @ h_name h @ '' ('' @ err @ '')'')
       (add_failed (h_name h) ''apply'' err)"

definition notify_applied :: "'w ops_env \<Rightarrow> host \<Rightarrow> apply_result \<Rightarrow> 'w ops \<Rightarrow> 'w ops" where
  "notify_applied env h res =
     notify_host env (h_id h) ''auto_apply_success''
       (''Patchdeck: updates applied on '' @ h_name h @ ''. '' @ itoa (ar_changed res) @ '' packages changed'')
       (add_applied \<lparr>ah_name = h_name h, ah_changed = ar_changed res, ah_reboot = ar_needs_reboot res, ah_interrupted = False\<rparr>)"

definition notify_if_new_updates :: "'w ops_env \<Rightarrow> host \<Rightarrow> package_info list \<Rightarrow> scan_result \<Rightarrow> 'w ops \<Rightarrow> 'w ops" where
  "notify_if_new_updates env h prev res s =
     (let curr = sr_packages res in
      if length curr = 0 \<or> \<not> has_new_updates prev curr then s
      else notify_host env (h_id h) ''updates_available''
        (''Patchdeck: updates available on '' @ h_name h @ '' ('' @ itoan (length curr) @ '' packages)'')
        (\<lambda>d. d\<lparr>dg_pending := dg_pending d @
           [\<lparr>ph_name = h_name h, ph_packages = int (length curr), ph_security = security_count curr, ph_new = True,
             ph_reboot = sr_needs_reboot res, ph_restarts = int (length (sr_needs_restart res))\<rparr>]\<rparr>) s)"

section \<open>Guards\<close>

text \<open>The cooldown of an operation of a host, then the host itself.\<close>

definition with_cooldown ::
  "'w ops_env \<Rightarrow> string \<Rightarrow> ('w ops \<Rightarrow> op_reply \<times> 'w ops) \<Rightarrow> 'w ops \<Rightarrow> op_reply \<times> 'w ops" where
  "with_cooldown env key k s =
     (case host_allow (oe_now env (op_world s)) key (op_limiter s) of
        ((False, retry), l) \<Rightarrow> (Limited retry, s\<lparr>op_limiter := l\<rparr>)
      | ((True, _), l) \<Rightarrow> k (s\<lparr>op_limiter := l\<rparr>))"

definition with_host :: "string \<Rightarrow> (host \<Rightarrow> 'w ops \<Rightarrow> op_reply \<times> 'w ops) \<Rightarrow> 'w ops \<Rightarrow> op_reply \<times> 'w ops" where
  "with_host i k s = (case get_host (op_db s) i of Inl _ \<Rightarrow> (Failed 404 ''host not found'', s) | Inr h \<Rightarrow> k h s)"

definition parse_bool_query :: "string \<Rightarrow> bool" where
  "parse_bool_query v \<longleftrightarrow> to_lower (trim_space v) \<in> set [''1'', ''true'', ''yes'', ''on'']"

definition checks_disabled_text :: string where
  "checks_disabled_text = ''host checks are disabled for this host; enable checks or retry with force=true''"

text \<open>What a handler answers to a refused host key.\<close>

fun key_refused :: "ssh_err \<Rightarrow> op_reply" where
  "key_refused (HostKeyErr i n m expected presented) = KeyRefused m expected presented"
| "key_refused e = Failed 500 (err_text e)"

section \<open>Scan\<close>

definition client_scan :: "'w ops_env \<Rightarrow> host \<Rightarrow> 'w ops \<Rightarrow> (ssh_err + scan_result option) \<times> 'w ops" where
  "client_scan env h s =
     (case scan_host (oe_priv env h) (op_world s, op_db s) of ((w, d), r) \<Rightarrow> (r, s\<lparr>op_world := w, op_db := d\<rparr>))"

definition ops_save_scan :: "'w ops_env \<Rightarrow> host \<Rightarrow> scan_result \<Rightarrow> 'w ops \<Rightarrow> 'w ops" where
  "ops_save_scan env h res s =
     (case oe_uid env (op_world s) of (w, uid) \<Rightarrow>
        s\<lparr>op_world := w, op_db := snd (upsert_scan_result uid (oe_now env w) (h_id h) res (op_db s))\<rparr>)"

definition previous_packages :: "db \<Rightarrow> string \<Rightarrow> package_info list" where
  "previous_packages d i = (case get_scan_snapshot d i of None \<Rightarrow> [] | Some (_, sn) \<Rightarrow> sn_packages sn)"

definition scan_succeeded :: "'w ops_env \<Rightarrow> host \<Rightarrow> package_info list \<Rightarrow> scan_result \<Rightarrow> 'w ops \<Rightarrow> 'w ops" where
  "scan_succeeded env h prev res s =
     notify_if_new_updates env h prev res
       (ops_activity env h ''scan_ok'' (''Scan completed: '' @ itoan (length (sr_packages res)) @ '' packages available'')
         (ops_save_scan env h res s))"

definition ops_scan_failed :: "'w ops_env \<Rightarrow> host \<Rightarrow> ssh_err \<Rightarrow> 'w ops \<Rightarrow> 'w ops" where
  "ops_scan_failed env h e s =
     ops_activity env h ''scan_fail'' (''Scan failed: '' @ err_text e)
       (notify_scan_failure env h (''Patchdeck: scan FAILED on '' @ h_name h @ '' ('' @ err_text e @ '')'') (err_text e) s)"

definition scan_host_req :: "'w ops_env \<Rightarrow> string \<Rightarrow> string \<Rightarrow> 'w ops \<Rightarrow> op_reply \<times> 'w ops" where
  "scan_host_req env i force =
     with_cooldown env (i @ '':scan'') (with_host i (\<lambda>h s.
       if \<not> h_checks h \<and> \<not> parse_bool_query force then (Failed 409 checks_disabled_text, s)
       else case client_scan env h s of
           (Inl e, s) \<Rightarrow> (key_refused e, ops_scan_failed env h e s)
         | (Inr None, s) \<Rightarrow> (Panicked, s)
         | (Inr (Some res), s) \<Rightarrow> (ScanDone res, scan_succeeded env h (previous_packages (op_db s) (h_id h)) res s)))"

text \<open>All hosts one after the other; a refused cooldown, a missing host and a failed scan are results.\<close>

record scan_all_result =
  sa_host :: string
  sa_name :: string
  sa_success :: bool
  sa_packages :: nat
  sa_error :: string

definition scan_all_failed :: "host \<Rightarrow> string \<Rightarrow> scan_all_result" where
  "scan_all_failed h e = \<lparr>sa_host = h_id h, sa_name = h_name h, sa_success = False, sa_packages = 0, sa_error = e\<rparr>"

definition scan_all_one :: "'w ops_env \<Rightarrow> host \<Rightarrow> 'w ops \<Rightarrow> scan_all_result option \<times> 'w ops" where
  "scan_all_one env h s =
     (case host_allow (oe_now env (op_world s)) (h_id h @ '':scan'') (op_limiter s) of
        ((False, _), l) \<Rightarrow> (Some (scan_all_failed h ''rate limited''), s\<lparr>op_limiter := l\<rparr>)
      | ((True, _), l) \<Rightarrow>
          (let s = s\<lparr>op_limiter := l\<rparr> in
           case get_host (op_db s) (h_id h) of
             Inl e \<Rightarrow> (Some (scan_all_failed h (db_err_text e)), s)
           | Inr full \<Rightarrow>
               (case client_scan env full s of
                  (Inl e, s) \<Rightarrow> (Some (scan_all_failed h (err_text e)), s)
                | (Inr None, s) \<Rightarrow> (None, s)
                | (Inr (Some res), s) \<Rightarrow>
                    (Some \<lparr>sa_host = h_id h, sa_name = h_name h, sa_success = True,
                       sa_packages = length (sr_packages res), sa_error = []\<rparr>, ops_save_scan env h res s))))"

fun scan_all_loop :: "'w ops_env \<Rightarrow> host list \<Rightarrow> scan_all_result list \<Rightarrow> 'w ops \<Rightarrow> scan_all_result list option \<times> 'w ops" where
  "scan_all_loop env [] acc s = (Some acc, s)"
| "scan_all_loop env (h # hs) acc s =
     (if \<not> h_checks h then scan_all_loop env hs acc s
      else case scan_all_one env h s of
          (None, s) \<Rightarrow> (None, s)
        | (Some r, s) \<Rightarrow> scan_all_loop env hs (acc @ [r]) s)"

definition scan_all_hosts :: "'w ops_env \<Rightarrow> 'w ops \<Rightarrow> scan_all_result list option \<times> 'w ops" where
  "scan_all_hosts env s = scan_all_loop env (list_hosts (op_db s)) [] s"

section \<open>Apply\<close>

definition client_apply :: "'w ops_env \<Rightarrow> host \<Rightarrow> 'w ops \<Rightarrow> (apply_result \<times> apply_err option) \<times> 'w ops" where
  "client_apply env h s =
     (case oe_apply env h (op_world s, op_db s) of ((w, d), r) \<Rightarrow> (r, s\<lparr>op_world := w, op_db := d\<rparr>))"

definition apply_updates_req :: "'w ops_env \<Rightarrow> string \<Rightarrow> string \<Rightarrow> 'w ops \<Rightarrow> op_reply \<times> 'w ops" where
  "apply_updates_req env i force =
     with_cooldown env (i @ '':apply'') (with_host i (\<lambda>h s.
       if \<not> h_checks h \<and> \<not> parse_bool_query force then (Failed 409 checks_disabled_text, s)
       else case client_apply env h s of
           ((res, None), s) \<Rightarrow>
             (ApplyDone res,
              ops_activity env h ''apply_ok'' (''Applied updates: '' @ itoa (ar_changed res) @ '' packages changed'')
                (notify_applied env h res s))
         | ((res, Some e), s) \<Rightarrow>
             (case e of
                ApplyErr (HostKeyErr _ _ m expected presented) \<Rightarrow> (KeyRefused m expected presented, s)
              | _ \<Rightarrow>
                  (Failed 500 (apply_err_text e),
                   notify_apply_failure env h (apply_err_text e)
                     (ops_activity env h ''apply_fail'' (''Apply failed: '' @ apply_err_text e) s)))))"

section \<open>Restarts\<close>

text \<open>The characters of a unit name; every other byte, non-ASCII ones included, is refused.\<close>

definition unit_char :: "char \<Rightarrow> bool" where
  "unit_char c \<longleftrightarrow> is_lower c \<or> is_upper c \<or> is_digit c \<or> c \<in> set ''._-@:''"

definition valid_service_name :: "string \<Rightarrow> bool" where
  "valid_service_name s = (let s = trim_space s in \<not> (s = [] \<or> length s > 256) \<and> list_all unit_char s)"

text \<open>The first name of a request that is refused.\<close>

definition bad_service :: "string list \<Rightarrow> string option" where
  "bad_service services = find (\<lambda>s. \<not> valid_service_name s) services"

definition client_restart ::
  "'w ops_env \<Rightarrow> host \<Rightarrow> (('w \<times> db) priv \<Rightarrow> 'w \<times> db \<Rightarrow> ('w \<times> db) \<times> restart_result \<times> ssh_err option) \<Rightarrow> 'w ops \<Rightarrow>
     (restart_result \<times> ssh_err option) \<times> 'w ops" where
  "client_restart env h f s =
     (case f (oe_priv env h) (op_world s, op_db s) of ((w, d), r) \<Rightarrow> (r, s\<lparr>op_world := w, op_db := d\<rparr>))"

text \<open>What all three restarts do with the client's result.\<close>

definition end_restart ::
  "'w ops_env \<Rightarrow> host \<Rightarrow> string \<Rightarrow> (restart_result \<Rightarrow> string) \<Rightarrow> (restart_result \<times> ssh_err option) \<times> 'w ops \<Rightarrow> op_reply \<times> 'w ops" where
  "end_restart env h failed_text ok_text = (\<lambda>((res, err), s).
     case err of
       None \<Rightarrow> (RestartDone res, ops_activity env h ''restart_ok'' (ok_text res) s)
     | Some e \<Rightarrow> if is_host_key_err (Some e) then (key_refused e, s)
         else (Failed 500 (err_text e), ops_activity env h ''restart_fail'' (failed_text @ err_text e) s))"

definition restart_ok_text :: "string list \<Rightarrow> restart_result \<Rightarrow> string" where
  "restart_ok_text services res =
     ''Restarted '' @ itoan (length services) @ '' service(s): '' @ join '', '' services @
     (if length (rr_reboot_required res) > 0
      then dash @ itoan (length (rr_reboot_required res)) @ '' require a reboot to apply: '' @ join '', '' (rr_reboot_required res)
      else [])"

definition deferred_ok_text :: "string list \<Rightarrow> restart_result \<Rightarrow> string" where
  "deferred_ok_text services res =
     ''Restarted '' @ itoan (length services) @ '' deferred service(s) detached: '' @ join '', '' services @
     (if length (rr_reboot_required res) > 0
      then dash @ itoan (length (rr_reboot_required res)) @ '' require a reboot: '' @ join '', '' (rr_reboot_required res)
      else [])"

definition invalid_name_text :: "(string \<Rightarrow> string) \<Rightarrow> string \<Rightarrow> string" where
  "invalid_name_text quoted s = ''invalid service name: '' @ quoted s"

text \<open>The verb \<open>%q\<close>, which quotes the refused name in the answer, is the parameter \<open>quoted\<close>.\<close>

definition restart_services_req :: "'w ops_env \<Rightarrow> (string \<Rightarrow> string) \<Rightarrow> string \<Rightarrow> string list option \<Rightarrow> 'w ops \<Rightarrow> op_reply \<times> 'w ops" where
  "restart_services_req env quoted i body =
     with_cooldown env (i @ '':restart'') (with_host i (\<lambda>h s.
       case body of
         None \<Rightarrow> (Failed 400 ''invalid json'', s)
       | Some services \<Rightarrow>
           if length services > 100 then (Failed 400 ''too many services in one request'', s)
           else (case bad_service services of
               Some x \<Rightarrow> (Failed 400 (invalid_name_text quoted x), s)
             | None \<Rightarrow>
                 end_restart env h ''Service restart failed: '' (restart_ok_text services)
                   (client_restart env h (\<lambda>priv w. restart_services priv w services) s))))"

definition restart_all_req :: "'w ops_env \<Rightarrow> string \<Rightarrow> 'w ops \<Rightarrow> op_reply \<times> 'w ops" where
  "restart_all_req env i =
     with_cooldown env (i @ '':restart'') (with_host i (\<lambda>h s.
       end_restart env h ''needrestart restart-all failed: '' (\<lambda>_. ''Ran needrestart coordinated restart (all safe services)'')
         (client_restart env h restart_all_via_needrestart s)))"

definition restart_deferred_req :: "'w ops_env \<Rightarrow> (string \<Rightarrow> string) \<Rightarrow> string \<Rightarrow> string list option \<Rightarrow> 'w ops \<Rightarrow> op_reply \<times> 'w ops" where
  "restart_deferred_req env quoted i body =
     with_cooldown env (i @ '':restart'') (with_host i (\<lambda>h s.
       case body of
         None \<Rightarrow> (Failed 400 ''invalid json'', s)
       | Some services \<Rightarrow>
           if length services = 0 \<or> length services > 100 then (Failed 400 ''invalid services list'', s)
           else (case bad_service services of
               Some x \<Rightarrow> (Failed 400 (invalid_name_text quoted x), s)
             | None \<Rightarrow>
                 end_restart env h ''Detached restart failed: '' (deferred_ok_text services)
                   (client_restart env h (\<lambda>priv w. restart_deferred_detached priv w services) s))))"

section \<open>Power\<close>

text \<open>\<open>strings.Title\<close> of the two words it is used on.\<close>

definition title_word :: "string \<Rightarrow> string" where
  "title_word s = (case s of [] \<Rightarrow> [] | c # r \<Rightarrow> upper_char c # r)"

text \<open>\<open>Power\<close> drops every error, so its own error is always \<open>None\<close>.\<close>

definition client_power :: "'w ops_env \<Rightarrow> host \<Rightarrow> string \<Rightarrow> 'w ops \<Rightarrow> ssh_err option \<times> 'w ops" where
  "client_power env h action s =
     (case oe_priv env h (op_world s, op_db s) (power_command action) of ((w, d), _, _) \<Rightarrow> (None, s\<lparr>op_world := w, op_db := d\<rparr>))"

definition power_action_req :: "'w ops_env \<Rightarrow> string \<Rightarrow> string option \<Rightarrow> 'w ops \<Rightarrow> op_reply \<times> 'w ops" where
  "power_action_req env i body =
     with_cooldown env (i @ '':power'') (with_host i (\<lambda>h s.
       case body of
         None \<Rightarrow> (Failed 400 ''invalid json'', s)
       | Some action \<Rightarrow>
           if action \<noteq> ''reboot'' \<and> action \<noteq> ''shutdown'' then (Failed 400 ''action must be reboot|shutdown'', s)
           else (case client_power env h action s of
               (Some e, s) \<Rightarrow>
                 if is_host_key_err (Some e) then (key_refused e, s)
                 else (Failed 500 (err_text e),
                   ops_activity env h (action @ ''_fail'') (title_word action @ '' failed: '' @ err_text e) s)
             | (None, s) \<Rightarrow>
                 (Message ''ok'', ops_activity env h (action @ ''_ok'') (title_word action @ '' initiated on '' @ h_name h) s))))"

section \<open>Requests\<close>

datatype op_req = ReqScan string string | ReqScanAll | ReqApply string string
  | ReqRestart string "string list option" | ReqRestartAll string | ReqDeferred string "string list option"
  | ReqPower string "string option"

definition scan_all_reply :: "scan_all_result list option \<Rightarrow> op_reply" where
  "scan_all_reply r = (case r of None \<Rightarrow> Panicked | Some rs \<Rightarrow> Message (itoan (length rs)))"

definition op_request :: "'w ops_env \<Rightarrow> (string \<Rightarrow> string) \<Rightarrow> op_req \<Rightarrow> 'w ops \<Rightarrow> op_reply \<times> 'w ops" where
  "op_request env quoted r s =
     (case r of
        ReqScan i force \<Rightarrow> scan_host_req env i force s
      | ReqScanAll \<Rightarrow> apfst scan_all_reply (scan_all_hosts env s)
      | ReqApply i force \<Rightarrow> apply_updates_req env i force s
      | ReqRestart i b \<Rightarrow> restart_services_req env quoted i b s
      | ReqRestartAll i \<Rightarrow> restart_all_req env i s
      | ReqDeferred i b \<Rightarrow> restart_deferred_req env quoted i b s
      | ReqPower i b \<Rightarrow> power_action_req env i b s)"

text \<open>The key a request is counted under.\<close>

fun op_key :: "op_req \<Rightarrow> string option" where
  "op_key (ReqScan i _) = Some (i @ '':scan'')"
| "op_key ReqScanAll = None"
| "op_key (ReqApply i _) = Some (i @ '':apply'')"
| "op_key (ReqRestart i _) = Some (i @ '':restart'')"
| "op_key (ReqRestartAll i) = Some (i @ '':restart'')"
| "op_key (ReqDeferred i _) = Some (i @ '':restart'')"
| "op_key (ReqPower i _) = Some (i @ '':power'')"

abbreviation ops_now :: "'w ops_env \<Rightarrow> 'w ops \<Rightarrow> int" where
  "ops_now env s \<equiv> oe_now env (op_world s)"

text \<open>Requests one after the other; the world moves on by itself before each, but not back in time.\<close>

fun ops_run :: "'w ops_env \<Rightarrow> (string \<Rightarrow> string) \<Rightarrow> ('w \<times> op_req) list \<Rightarrow> 'w ops \<Rightarrow> 'w ops" where
  "ops_run env quoted [] s = s"
| "ops_run env quoted ((w, r) # es) s = ops_run env quoted es (snd (op_request env quoted r (s\<lparr>op_world := w\<rparr>)))"

fun ops_in_time :: "'w ops_env \<Rightarrow> (string \<Rightarrow> string) \<Rightarrow> ('w \<times> op_req) list \<Rightarrow> 'w ops \<Rightarrow> bool" where
  "ops_in_time env quoted [] s \<longleftrightarrow> True"
| "ops_in_time env quoted ((w, r) # es) s \<longleftrightarrow>
     ops_now env s \<le> oe_now env w \<and> ops_in_time env quoted es (snd (op_request env quoted r (s\<lparr>op_world := w\<rparr>)))"

text \<open>What the SSH client and the generator of identifiers do does not turn the clock back.\<close>

definition clock_runs :: "'w ops_env \<Rightarrow> bool" where
  "clock_runs env \<longleftrightarrow>
     (\<forall>h x c. oe_now env (fst x) \<le> oe_now env (fst (fst (oe_priv env h x c)))) \<and>
     (\<forall>h x. oe_now env (fst x) \<le> oe_now env (fst (fst (oe_apply env h x)))) \<and>
     (\<forall>w. oe_now env w \<le> oe_now env (fst (oe_uid env w)))"

section \<open>What an operation keeps\<close>

text \<open>What every privileged command keeps, each operation of the SSH client keeps.\<close>

locale priv_client =
  fixes priv :: "'w priv" and keep :: "'w \<Rightarrow> bool"
  assumes priv_keeps: "keep w \<Longrightarrow> keep (fst (priv w c))"
begin

lemma priv_eq: "priv w c = (w', r) \<Longrightarrow> keep w \<Longrightarrow> keep w'"
  using priv_keeps [of w c] by simp

lemma scan_keeps: "keep w \<Longrightarrow> keep (fst (scan_host priv w))"
  by (auto simp: scan_host_def split: prod.split option.split dest: priv_eq)

lemma restart_one_keeps: "keep w \<Longrightarrow> keep (fst (restart_one priv w svc acc))"
  by (auto simp: restart_one_def Let_def split: prod.split dest: priv_eq)

lemma restart_loop_keeps: "keep w \<Longrightarrow> keep (fst (restart_loop priv w svcs acc))"
proof (induction svcs arbitrary: w acc)
  case (Cons svc svcs)
  with restart_one_keeps [of w svc acc] show ?case
    by (cases "restart_one priv w svc acc") (auto split: sum.split)
qed simp

lemma restart_services_keeps: "keep w \<Longrightarrow> keep (fst (restart_services priv w svcs))"
  using restart_loop_keeps [of w svcs empty_acc]
  by (cases "restart_loop priv w svcs empty_acc") (auto simp: restart_services_def Let_def split: sum.split)

lemma restart_all_keeps: "keep w \<Longrightarrow> keep (fst (restart_all_via_needrestart priv w))"
  using priv_keeps [of w restart_all_cmd]
  by (cases "priv w restart_all_cmd") (auto simp: restart_all_via_needrestart_def Let_def)

lemma run_batch_keeps: "keep w \<Longrightarrow> keep (fst (run_batch priv w ss a))"
  by (auto simp: run_batch_def Let_def split: prod.split dest: priv_eq)

lemma run_special_keeps: "keep w \<Longrightarrow> keep (fst (run_special priv w ss a))"
proof (induction ss arbitrary: w a)
  case (Cons s ss)
  with priv_keeps [of w "deferred_restart_cmd s"] show ?case
    by (cases "priv w (deferred_restart_cmd s)") simp
qed simp

lemma deferred_keeps:
  assumes "keep w"
  shows "keep (fst (restart_deferred_detached priv w ss))"
proof -
  obtain b sp where sp: "split_restart_batch ss = (b, sp)" by fastforce
  obtain w1 r where b: "run_batch priv w b empty_deferred = (w1, r)" by fastforce
  then have "keep w1" using run_batch_keeps [OF assms, of b empty_deferred] by simp
  then show ?thesis
    using assms run_special_keeps [of w1 sp "projr r"]
    by (cases r; cases "run_special priv w1 sp (projr r)")
       (auto simp: restart_deferred_detached_def sp b Let_def split: sum.split)
qed

end

text \<open>The clock never goes back during an operation, and no operation touches the cooldown by itself.\<close>

definition after :: "'w ops_env \<Rightarrow> 'w ops \<Rightarrow> 'w ops \<Rightarrow> bool" where
  "after env s s' \<longleftrightarrow> op_limiter s' = op_limiter s \<and> (clock_runs env \<longrightarrow> ops_now env s \<le> ops_now env s')"

interpretation clocked: priv_client "oe_priv env h" "\<lambda>x. clock_runs env \<longrightarrow> t \<le> oe_now env (fst x)"
  for env :: "'w ops_env" and h t
  by unfold_locales (auto simp: clock_runs_def intro: order_trans)

lemma after_refl [simp]: "after env s s"
  by (simp add: after_def)

lemma after_trans: "after env s s' \<Longrightarrow> after env s' s'' \<Longrightarrow> after env s s''"
  by (auto simp: after_def)

lemma after_db [intro]: "after env s0 s \<Longrightarrow> after env s0 (in_ops_db env f s)" "after env s0 s \<Longrightarrow> after env s0 (ops_activity env h e x s)"
  by (auto simp: after_def in_ops_db_def ops_activity_def)

lemma after_notify [intro]: "after env s0 s \<Longrightarrow> after env s0 (notify_host env h k l a s)"
  by (auto simp: after_def notify_host_def Let_def split: bool.split option.split)

lemmas notify_defs = notify_scan_failure_def notify_apply_failure_def notify_applied_def notify_if_new_updates_def

lemma after_save [intro]: "after env s0 s \<Longrightarrow> after env s0 (ops_save_scan env h res s)"
  by (auto simp: after_def ops_save_scan_def clock_runs_def split: prod.split intro: order_trans)
     (metis fst_conv order_trans)

lemma after_outcomes [intro]:
  "after env s0 s \<Longrightarrow> after env s0 (scan_succeeded env h prev res s)"
  "after env s0 s \<Longrightarrow> after env s0 (ops_scan_failed env h e s)"
  "after env s0 s \<Longrightarrow> after env s0 (notify_applied env h ares s)"
  "after env s0 s \<Longrightarrow> after env s0 (notify_apply_failure env h err s)"
  unfolding scan_succeeded_def ops_scan_failed_def notify_defs Let_def by (auto simp: if_distrib)

lemma after_scan: "client_scan env h s = (r, s') \<Longrightarrow> after env s s'"
  using clocked.scan_keeps [of env "ops_now env s" "(op_world s, op_db s)" h]
  by (auto simp: client_scan_def after_def split: prod.splits)

lemma after_apply: "client_apply env h s = (r, s') \<Longrightarrow> after env s s'"
  by (auto simp: client_apply_def after_def clock_runs_def split: prod.splits) (metis fst_conv)

lemma after_power: "client_power env h a s = (r, s') \<Longrightarrow> after env s s'"
  using clocked.priv_keeps [of env "ops_now env s" "(op_world s, op_db s)" h "power_command a"]
  by (auto simp: client_power_def after_def split: prod.splits)

lemma after_end_restart:
  assumes "\<And>x. (clock_runs env \<longrightarrow> ops_now env s \<le> oe_now env (fst x)) \<Longrightarrow>
    clock_runs env \<longrightarrow> ops_now env s \<le> oe_now env (fst (fst (f (oe_priv env h) x)))"
  shows "after env s (snd (end_restart env h ft ot (client_restart env h f s)))"
  using assms [of "(op_world s, op_db s)"]
  by (auto simp: client_restart_def end_restart_def after_def in_ops_db_def ops_activity_def split: prod.splits option.split)

lemma after_restarts:
  "after env s (snd (end_restart env h ft ot (client_restart env h (\<lambda>priv w. restart_services priv w svcs) s)))"
  "after env s (snd (end_restart env h ft ot (client_restart env h restart_all_via_needrestart s)))"
  "after env s (snd (end_restart env h ft ot (client_restart env h (\<lambda>priv w. restart_deferred_detached priv w svcs) s)))"
  by (rule after_end_restart, erule clocked.restart_services_keeps)
     (rule after_end_restart, erule clocked.restart_all_keeps,
      rule after_end_restart, erule clocked.deferred_keeps)

text \<open>A request with a key asks the cooldown once, at its start; the rest is one of these.\<close>

definition cooled :: "'w ops_env \<Rightarrow> string \<Rightarrow> 'w ops \<Rightarrow> op_reply \<times> 'w ops \<Rightarrow> bool" where
  "cooled env key s r \<longleftrightarrow>
     (case host_allow (ops_now env s) key (op_limiter s) of
        ((ok, retry), l) \<Rightarrow> op_limiter (snd r) = l \<and> (clock_runs env \<longrightarrow> ops_now env s \<le> ops_now env (snd r)) \<and>
          (\<not> ok \<longrightarrow> r = (Limited retry, s\<lparr>op_limiter := l\<rparr>)) \<and> (ok \<longrightarrow> (\<forall>n. fst r \<noteq> Limited n)))"

fun answered :: "op_reply \<Rightarrow> bool" where
  "answered (Limited _) \<longleftrightarrow> False"
| "answered _ \<longleftrightarrow> True"

text \<open>A continuation that stays in time and is not itself an answer of the cooldown.\<close>

definition sound_step :: "'w ops_env \<Rightarrow> ('w ops \<Rightarrow> op_reply \<times> 'w ops) \<Rightarrow> bool" where
  "sound_step env k \<longleftrightarrow> (\<forall>s. after env s (snd (k s)) \<and> answered (fst (k s)))"

lemma sound_step_I: "(\<And>s. after env s (snd (k s))) \<Longrightarrow> (\<And>s. answered (fst (k s))) \<Longrightarrow> sound_step env k"
  by (simp add: sound_step_def)

lemma cooldown_step:
  assumes "sound_step env k"
  shows "cooled env key s (with_cooldown env key k s)"
proof -
  obtain ok retry l where a: "host_allow (ops_now env s) key (op_limiter s) = ((ok, retry), l)" by (metis prod.exhaust)
  show ?thesis using assms [unfolded sound_step_def, rule_format, of "s\<lparr>op_limiter := l\<rparr>"]
    by (cases ok) (auto simp: cooled_def with_cooldown_def a after_def)
qed

lemma sound_with_host: "(\<And>h. sound_step env (k h)) \<Longrightarrow> sound_step env (with_host i k)"
  by (simp add: sound_step_def with_host_def split: sum.split)

lemma key_refused_granted [simp]: "answered (key_refused e)"
  by (cases e) simp_all

lemma end_restart_granted [simp]: "answered (fst (end_restart env h ft ot r))"
  by (auto simp: end_restart_def split: prod.split option.split)

lemma request_step:
  assumes "op_key r = Some key"
  shows "cooled env key s (op_request env quoted r s)"
proof (cases r)
  case (ReqScan i force)
  have "cooled env (i @ '':scan'') s (scan_host_req env i force s)"
    unfolding scan_host_req_def
    by (intro cooldown_step sound_with_host sound_step_I)
       (auto split: prod.split sum.split option.split intro: after_scan)
  with assms ReqScan show ?thesis by (simp add: op_request_def)
next
  case (ReqApply i force)
  have "cooled env (i @ '':apply'') s (apply_updates_req env i force s)"
    unfolding apply_updates_req_def
    by (intro cooldown_step sound_with_host sound_step_I)
       (auto split: prod.split option.split apply_err.split ssh_err.split intro: after_apply)
  with assms ReqApply show ?thesis by (simp add: op_request_def)
next
  case (ReqRestart i b)
  have "cooled env (i @ '':restart'') s (restart_services_req env quoted i b s)"
    unfolding restart_services_req_def
    by (intro cooldown_step sound_with_host sound_step_I) (auto split: option.split intro: after_restarts)
  with assms ReqRestart show ?thesis by (simp add: op_request_def)
next
  case (ReqRestartAll i)
  have "cooled env (i @ '':restart'') s (restart_all_req env i s)"
    unfolding restart_all_req_def
    by (intro cooldown_step sound_with_host sound_step_I) (auto intro: after_restarts)
  with assms ReqRestartAll show ?thesis by (simp add: op_request_def)
next
  case (ReqDeferred i b)
  have "cooled env (i @ '':restart'') s (restart_deferred_req env quoted i b s)"
    unfolding restart_deferred_req_def
    by (intro cooldown_step sound_with_host sound_step_I) (auto split: option.split intro: after_restarts)
  with assms ReqDeferred show ?thesis by (simp add: op_request_def)
next
  case (ReqPower i b)
  have "cooled env (i @ '':power'') s (power_action_req env i b s)"
    unfolding power_action_req_def
    by (intro cooldown_step sound_with_host sound_step_I) (auto split: option.split prod.split intro: after_power)
  with assms ReqPower show ?thesis by (simp add: op_request_def)
qed (use assms in simp)

text \<open>Scanning all hosts asks for each of them, at later and later times.\<close>

definition granted_since :: "int \<Rightarrow> string \<Rightarrow> host_limiter \<Rightarrow> bool" where
  "granted_since t key l \<longleftrightarrow> (\<exists>u. hl_last l key = Some u \<and> t \<le> u)"

lemma granted_since_allow:
  "granted_since t key l \<Longrightarrow> t \<le> now \<Longrightarrow> host_allow now k l = (r, l') \<Longrightarrow>
     granted_since t key l' \<and> hl_cooldown l' = hl_cooldown l"
  using host_allow_last [of now k l key] host_allow_cooldown [of now k l] by (auto simp: granted_since_def)

definition waits :: "'w ops_env \<Rightarrow> int \<Rightarrow> int \<Rightarrow> string \<Rightarrow> 'w ops \<Rightarrow> bool" where
  "waits env c t key s \<longleftrightarrow> granted_since t key (op_limiter s) \<and> hl_cooldown (op_limiter s) = c \<and> t \<le> ops_now env s"

lemma waits_after: "clock_runs env \<Longrightarrow> waits env c t key s \<Longrightarrow> after env s s' \<Longrightarrow> waits env c t key s'"
  by (auto simp: waits_def after_def)

lemma waits_scan_one:
  assumes "clock_runs env" "waits env c t key s" "scan_all_one env h s = (r, s')"
  shows "waits env c t key s'"
proof -
  obtain ok retry l where a: "host_allow (ops_now env s) (h_id h @ '':scan'') (op_limiter s) = ((ok, retry), l)"
    by (metis prod.exhaust)
  let ?s = "s\<lparr>op_limiter := l\<rparr>"
  have w: "waits env c t key ?s"
    using assms(2) granted_since_allow [OF _ _ a] by (auto simp: waits_def)
  have "after env ?s s' \<or> s' = ?s"
    using assms(3) by (cases ok) (auto simp: scan_all_one_def a Let_def split: sum.splits prod.splits option.splits intro: after_scan)
  with waits_after [OF assms(1) w] w show ?thesis by blast
qed

lemma waits_scan_loop:
  "clock_runs env \<Longrightarrow> waits env c t key s \<Longrightarrow> waits env c t key (snd (scan_all_loop env hs acc s))"
  by (induction env hs acc s rule: scan_all_loop.induct)
     (auto split: prod.split option.split dest: waits_scan_one)

lemma waits_request:
  assumes "clock_runs env" "waits env c t key s"
  shows "waits env c t key (snd (op_request env quoted r s))"
proof (cases "op_key r")
  case None
  then have "r = ReqScanAll" by (cases r) auto
  then show ?thesis using waits_scan_loop [OF assms] by (simp add: op_request_def scan_all_hosts_def)
next
  case (Some k)
  obtain ok retry l where a: "host_allow (ops_now env s) k (op_limiter s) = ((ok, retry), l)" by (metis prod.exhaust)
  show ?thesis
    using request_step [OF Some, of env s quoted] assms granted_since_allow [OF _ _ a, of t key]
    by (auto simp: cooled_def a waits_def)
qed

lemma waits_run:
  "clock_runs env \<Longrightarrow> waits env c t key s \<Longrightarrow> ops_in_time env quoted es s \<Longrightarrow> waits env c t key (ops_run env quoted es s)"
proof (induction es arbitrary: s)
  case (Cons e es)
  obtain w r where e: "e = (w, r)" by (cases e)
  have "waits env c t key (s\<lparr>op_world := w\<rparr>)" using Cons.prems(2,3) by (auto simp: waits_def e)
  from waits_request [OF Cons.prems(1) this] Cons show ?case by (simp add: e)
qed simp

section \<open>Properties\<close>

text \<open>C14
  The cooldown of the host operations: once a request was let through, every request under the same
  key within the cooldown, whatever happens in between, only answers the seconds to wait, changes
  nothing and contacts nobody, and the seconds it names are enough. Scans, upgrades, power actions and
  the three kinds of restart together have one key each per host.\<close>

theorem cooldown_holds:
  assumes clock: "clock_runs env"
    and first: "op_request env quoted r s = (reply, s1)" "op_key r = Some key" "answered reply"
    and between: "ops_in_time env quoted (es @ [(w, r')]) s1"
    and again: "op_key r' = Some key" "oe_now env w < ops_now env s + hl_cooldown (op_limiter s)"
  shows "\<exists>n s2. s2 = (ops_run env quoted es s1)\<lparr>op_world := w\<rparr> \<and> op_request env quoted r' s2 = (Limited n, s2) \<and>
    1 \<le> n \<and> ops_now env s + hl_cooldown (op_limiter s) < oe_now env w + n * second_ns"
proof -
  let ?c = "hl_cooldown (op_limiter s)" and ?t = "ops_now env s" and ?r = "ops_run env quoted es s1"
  have in_time: "ops_in_time env quoted (es @ fs) x \<longleftrightarrow> ops_in_time env quoted es x \<and> ops_in_time env quoted fs (ops_run env quoted es x)"
    for fs x by (induction es arbitrary: x) auto
  have allow_cooldown: "host_allow n k l = (x, l') \<Longrightarrow> hl_cooldown l' = hl_cooldown l" for n k l x l'
    using host_allow_cooldown [of n k l] by simp
  have "waits env ?c ?t key s1"
    using request_step [OF first(2), of env s quoted] first clock host_allow_last [of ?t key "op_limiter s" key]
      allow_cooldown
    by (auto simp: cooled_def waits_def granted_since_def split: prod.splits)
  then have "waits env ?c ?t key ?r"
    using waits_run [OF clock] between by (simp add: in_time)
  then obtain u where u: "hl_last (op_limiter ?r) key = Some u" "?t \<le> u" "hl_cooldown (op_limiter ?r) = ?c"
    by (auto simp: waits_def granted_since_def)
  let ?rem = "?c - (oe_now env w - u)"
  have pos: "0 < ?rem" using u(2) again(2) by simp
  have "host_allow (oe_now env w) key (op_limiter ?r) = ((False, retry_secs ?rem), op_limiter ?r)"
    using u pos by (simp add: host_allow_def Let_def)
  then have "op_request env quoted r' (?r\<lparr>op_world := w\<rparr>) = (Limited (retry_secs ?rem), ?r\<lparr>op_world := w\<rparr>)"
    using request_step [OF again(1), of env "?r\<lparr>op_world := w\<rparr>" quoted] by (simp add: cooled_def)
  then show ?thesis
    using retry_secs_pos [of ?rem] retry_secs_enough [OF pos] u(2) by fastforce
qed

text \<open>A granted scan that came through.\<close>

lemma scan_done:
  assumes "scan_host_req env i force s = (ScanDone res, s')"
  obtains h s1 s2 where "get_host (op_db s) i = Inr h" "h_id h = i" "op_db s1 = op_db s" "op_sent s1 = op_sent s"
    "op_coalescer s1 = op_coalescer s" "client_scan env h s1 = (Inr (Some res), s2)"
    "s' = scan_succeeded env h (previous_packages (op_db s2) i) res s2"
proof -
  obtain ok retry l where a: "host_allow (ops_now env s) (i @ '':scan'') (op_limiter s) = ((ok, retry), l)" by (metis prod.exhaust)
  obtain h where h: "get_host (op_db s) i = Inr h"
    using assms by (cases ok) (auto simp: scan_host_req_def with_cooldown_def a with_host_def split: sum.splits)
  obtain r s2 where c: "client_scan env h (s\<lparr>op_limiter := l\<rparr>) = (r, s2)" by fastforce
  have [simp]: "key_refused e \<noteq> ScanDone res" for e by (cases e) simp_all
  have i: "h_id h = i" using h by (auto simp: get_host_def dest: lookup_row_Some split: option.splits)
  have "r = Inr (Some res) \<and> s' = scan_succeeded env h (previous_packages (op_db s2) i) res s2"
    using assms
    by (cases ok; cases r)
       (auto simp: scan_host_req_def with_cooldown_def a with_host_def h c i split: if_splits option.splits)
  with that [of h "s\<lparr>op_limiter := l\<rparr>" s2] h i c show thesis by simp
qed

text \<open>The SSH client only writes key columns: no scan, and no host appears or disappears.\<close>

definition client_keeps_rows :: "'w ops_env \<Rightarrow> bool" where
  "client_keeps_rows env \<longleftrightarrow>
     (\<forall>h x c. d_scans (snd (fst (oe_priv env h x c))) = d_scans (snd x) \<and>
        map h_id (d_hosts (snd (fst (oe_priv env h x c)))) = map h_id (d_hosts (snd x)))"

interpretation rows: priv_client "oe_priv env h"
  "\<lambda>x. client_keeps_rows env \<longrightarrow> d_scans (snd x) = sc \<and> map h_id (d_hosts (snd x)) = hs"
  for env :: "'w ops_env" and h sc hs
  by unfold_locales (auto simp: client_keeps_rows_def)

lemma scan_keeps_rows:
  assumes "client_scan env h s = (r, s')" "client_keeps_rows env"
  shows "d_scans (op_db s') = d_scans (op_db s)" "map h_id (d_hosts (op_db s')) = map h_id (d_hosts (op_db s))"
    "op_sent s' = op_sent s" "op_coalescer s' = op_coalescer s"
  using assms rows.scan_keeps [of env "(op_world s, op_db s)" "d_scans (op_db s)" "map h_id (d_hosts (op_db s))" h]
  by (auto simp: client_scan_def split: prod.splits)

lemma lookup_id_None: "lookup_row h_id i rows = None \<longleftrightarrow> i \<notin> set (map h_id rows)"
  by (simp add: lookup_row_None)

lemma previous_packages_row:
  "i \<in> set (map h_id (d_hosts d)) \<Longrightarrow>
     previous_packages d i = (case lookup_row sn_host i (d_scans d) of None \<Rightarrow> [] | Some sn \<Rightarrow> sn_packages sn)"
  using lookup_row_None [of h_id i "d_hosts d"]
  by (cases "lookup_row h_id i (d_hosts d)")
     (auto simp: previous_packages_def get_scan_snapshot_def split: option.split)

lemma record_activity_scans [simp]: "d_scans (record_activity a b c e f d) = d_scans d"
  by (simp add: record_activity_def Let_def)

lemma notify_host_db [simp]: "op_db (notify_host env i k l a s) = op_db s"
  by (auto simp: notify_host_def Let_def split: bool.split option.split)

lemma scan_stored:
  "h_id h = i \<Longrightarrow> \<exists>sn. lookup_row sn_host i (d_scans (op_db (scan_succeeded env h prev res s))) = Some sn \<and> sn_packages sn = sr_packages res"
proof -
  assume "h_id h = i"
  obtain w uid where u: "oe_uid env (op_world s) = (w, uid)" by fastforce
  have "d_scans (op_db (scan_succeeded env h prev res s)) =
      d_scans (snd (upsert_scan_result uid (oe_now env w) i res (op_db s)))"
    using \<open>h_id h = i\<close>
    by (simp add: scan_succeeded_def notify_if_new_updates_def Let_def ops_activity_def in_ops_db_def ops_save_scan_def u)
  moreover obtain sn where "lookup_row sn_host i (d_scans (snd (upsert_scan_result uid (oe_now env w) i res (op_db s)))) = Some sn"
    "sn_packages sn = sr_packages res"
    using snapshot_after_upsert [where i = i and d = "op_db s" and sr = res and uid = uid and now = "oe_now env w"]
    by (auto simp: snapshot_row_def)
  ultimately show ?thesis by auto
qed

text \<open>
  No repeated alert: when a scan finds only updates that the scan before it already found, it sends
  nothing and adds nothing to the pending message, whatever else changed in between.\<close>

theorem no_repeat_alert:
  assumes rows: "client_keeps_rows env"
    and first: "scan_host_req env i force s = (ScanDone res, s1)"
    and between: "d_scans (op_db s2) = d_scans (op_db s1)"
    and again: "scan_host_req env i force' s2 = (ScanDone res', s3)"
    and old: "update_key ` set (sr_packages res') \<subseteq> update_key ` set (sr_packages res)"
  shows "op_sent s3 = op_sent s2 \<and> op_coalescer s3 = op_coalescer s2"
proof -
  obtain h x y where 1: "h_id h = i" "s1 = scan_succeeded env h (previous_packages (op_db y) i) res y"
    using scan_done [OF first] by metis
  obtain h' x' y' where 2: "get_host (op_db s2) i = Inr h'" "op_db x' = op_db s2" "op_sent x' = op_sent s2"
      "op_coalescer x' = op_coalescer s2" "client_scan env h' x' = (Inr (Some res'), y')"
      "s3 = scan_succeeded env h' (previous_packages (op_db y') i) res' y'"
    using scan_done [OF again] by metis
  note keep = scan_keeps_rows [OF 2(5) rows]
  have "i \<in> set (map h_id (d_hosts (op_db s2)))"
    using 2(1) lookup_row_Some [of h_id i "d_hosts (op_db s2)"] by (auto simp: get_host_def image_iff split: option.splits)
  then have "previous_packages (op_db y') i = sr_packages res"
    using keep 2(2) between scan_stored [OF 1(1), of env "previous_packages (op_db y) i" res y] 1(2)
    by (auto simp: previous_packages_row simp del: set_map)
  then have "\<not> has_new_updates (previous_packages (op_db y') i) (sr_packages res')"
    using old by (auto simp: has_new_updates_iff)
  then have "s3 = ops_activity env h' ''scan_ok'' (''Scan completed: '' @ itoan (length (sr_packages res')) @ '' packages available'')
      (ops_save_scan env h' res' y')"
    by (simp add: 2(6) scan_succeeded_def notify_if_new_updates_def Let_def)
  then show ?thesis
    using keep 2(3,4) by (simp add: ops_activity_def in_ops_db_def ops_save_scan_def split: prod.split)
qed

text \<open>The two copies of the notification toggles agree.\<close>

lemma notification_enabled_eq: "notification_enabled d i k = event_enabled d i k"
  by (simp add: notification_enabled_def event_enabled_def global_event_enabled_def host_event_enabled_def Let_def)

text \<open>
  An accepted unit name without surrounding spaces is one word of the restart command, so no request
  can run another command or restart another unit with it.\<close>

theorem service_name_one_word:
  assumes "valid_service_name s" "trim_space s = s"
  shows "shell_words (''systemctl restart '' @ s) = Some [''systemctl'', ''restart'', s]"
proof -
  have "unit_char c \<Longrightarrow> c \<noteq> CHR '' '' \<and> c \<noteq> TAB \<and> c \<noteq> squote \<and> c \<noteq> dquote \<and> \<not> shell_special c" for c
    by (auto simp: unit_char_def is_lower_def is_upper_def is_digit_def byte_of_def TAB_def squote_def dquote_def
        shell_special_def NL_def)
  then have "plain_word s" using assms by (auto simp: plain_word_def valid_service_name_def list_all_iff)
  moreover have "plain_word ''systemctl''" "plain_word ''restart''" by code_simp+
  ultimately show ?thesis
    using words_plain_space [of "''systemctl''" "''restart '' @ s"] words_plain_space [of "''restart''" s] words_plain [of s "[]"]
    by (simp add: shell_words_def)
qed

text \<open>The check trims the name, the command does not: a line feed before it is a second command.\<close>

lemma untrimmed_name_runs_command:
  "valid_service_name (NL # ''reboot'') \<and> restart_services (logged_priv (\<lambda>w cmd. (w, [], None))) ((), []) [NL # ''reboot''] =
     (((), [''systemctl restart '' @ NL # ''reboot'']), snd (restart_services (logged_priv (\<lambda>w cmd. (w, [], None))) ((), []) [NL # ''reboot'']))"
  by code_simp

section \<open>Sample runs\<close>

definition sample_ops_env :: "int ops_env" where
  "sample_ops_env = \<lparr>oe_priv = (\<lambda>h x c. ((fst x + 1, snd x), ''vim/stable 2 amd64 [upgradable from: 1]'', None)),
     oe_apply = (\<lambda>h x. (x, (\<lparr>ar_changed = 0, ar_raw = [], ar_needs_reboot = False\<rparr>, None))),
     oe_now = (\<lambda>w. w), oe_uid = (\<lambda>w. (w, ''u'')), oe_apprise_url = []\<rparr>"

definition sample_ops :: "int ops" where
  "sample_ops = \<lparr>op_world = 0, op_db = sample_db, op_limiter = new_host_limiter 30, op_coalescer = None, op_sent = []\<rparr>"

lemma sample_env_laws [simp]: "clock_runs sample_ops_env" "client_keeps_rows sample_ops_env"
  by (simp_all add: sample_ops_env_def clock_runs_def client_keeps_rows_def)

lemma sample_scan_found:
  "case scan_host_req sample_ops_env ''a'' [] sample_ops of (ScanDone r, s) \<Rightarrow>
       map p_name (sr_packages r) = [''vim''] \<and> length (op_sent s) = 1 \<and>
       (case scan_host_req sample_ops_env ''a'' [] (s\<lparr>op_world := 100\<rparr>) of
          (ScanDone r', s') \<Rightarrow> map update_key (sr_packages r') = map update_key (sr_packages r) | _ \<Rightarrow> False)
     | _ \<Rightarrow> False"
  by code_simp

theorem cooldown_holds_witness:
  "\<exists>n s1 s2. op_request sample_ops_env id (ReqPower ''a'' (Some ''reboot'')) sample_ops = (Message ''ok'', s1) \<and>
     s2 = (ops_run sample_ops_env id [(5, ReqScan ''b'' [])] s1)\<lparr>op_world := 29\<rparr> \<and>
     op_request sample_ops_env id (ReqPower ''a'' (Some ''shutdown'')) s2 = (Limited n, s2) \<and> 30 < 29 + n * second_ns"
proof -
  let ?e = sample_ops_env and ?r = "ReqPower ''a'' (Some ''reboot'')"
  obtain r s1 where 1: "op_request ?e id ?r sample_ops = (r, s1)" by fastforce
  have "case op_request ?e id ?r sample_ops of (Message m, _) \<Rightarrow> m = ''ok'' | _ \<Rightarrow> False" by code_simp
  then have r: "r = Message ''ok''" using 1 by (auto split: op_reply.splits)
  have "ops_in_time ?e id [(5, ReqScan ''b'' []), (29, ReqPower ''a'' (Some ''shutdown''))] (snd (op_request ?e id ?r sample_ops))"
    by code_simp
  then have t: "ops_in_time ?e id ([(5, ReqScan ''b'' [])] @ [(29, ReqPower ''a'' (Some ''shutdown''))]) s1"
    using 1 by simp
  have c: "oe_now ?e 29 < ops_now ?e sample_ops + hl_cooldown (op_limiter sample_ops)"
    by (simp add: sample_ops_env_def sample_ops_def new_host_limiter_def)
  have k: "op_key ?r = Some ''a:power''" "op_key (ReqPower ''a'' (Some ''shutdown'')) = Some ''a:power''" by simp_all
  show ?thesis
    using cooldown_holds [OF sample_env_laws(1) 1 k(1) _ t k(2) c] 1 r
    by (auto simp: sample_ops_env_def sample_ops_def new_host_limiter_def)
qed

theorem no_repeat_alert_witness:
  "\<exists>res s1 res' s3. scan_host_req sample_ops_env ''a'' [] sample_ops = (ScanDone res, s1) \<and> length (op_sent s1) = 1 \<and>
     scan_host_req sample_ops_env ''a'' [] (s1\<lparr>op_world := 100\<rparr>) = (ScanDone res', s3) \<and> op_sent s3 = op_sent s1"
proof -
  let ?scan = "scan_host_req sample_ops_env ''a'' []"
  obtain r s1 where 1: "?scan sample_ops = (r, s1)" by fastforce
  obtain r' s3 where 2: "?scan (s1\<lparr>op_world := 100\<rparr>) = (r', s3)" by fastforce
  obtain res res' where r: "r = ScanDone res" "r' = ScanDone res'" "length (op_sent s1) = 1"
      "map update_key (sr_packages res') = map update_key (sr_packages res)"
    using sample_scan_found 1 2 by (auto split: op_reply.splits)
  have old: "update_key ` set (sr_packages res') \<subseteq> update_key ` set (sr_packages res)"
    using r(4) by (metis list.set_map order_refl)
  have "op_sent s3 = op_sent s1"
    using no_repeat_alert [OF sample_env_laws(2) 1 [unfolded r(1)] _ 2 [unfolded r(2)] old] by simp
  with 1 2 r show ?thesis by blast
qed

theorem service_name_one_word_witness:
  "shell_words ''systemctl restart getty@tty1.service'' = Some [''systemctl'', ''restart'', ''getty@tty1.service'']"
proof -
  have "valid_service_name ''getty@tty1.service''" "trim_space ''getty@tty1.service'' = ''getty@tty1.service''" by code_simp+
  from service_name_one_word [OF this] show ?thesis by simp
qed

end
