(* ===== verification/EventStream.thy ===== *)
theory EventStream
  imports GoStrings
begin

text \<open>
  The bytes of an event stream: \<open>sseWrite\<close> of \<open>cmd/server/main.go\<close>, the lines of HTML the dashboard's
  streams write in \<open>cmd/server/spike.go\<close>, and \<open>html.EscapeString\<close>. What the browser makes of the
  bytes is \<open>sse_events\<close>, the processing of an event stream by the HTML standard; the fields \<open>id\<close> and
  \<open>retry\<close> and comments, which nothing here sends, are ignored like unknown fields.
\<close>

definition CR :: char where
  "CR = CHR 0x0D"

lemma CR_NL [simp]: "CR \<noteq> NL" "NL \<noteq> CR"
  by (simp_all add: CR_def NL_def)

section \<open>The browser\<close>

text \<open>A line ends at a line feed, a carriage return, or both in this order.\<close>

fun sse_breaks :: "string \<Rightarrow> string" where
  "sse_breaks [] = []"
| "sse_breaks [c] = [if c = CR then NL else c]"
| "sse_breaks (c # d # r) =
     (if c = CR then NL # sse_breaks (if d = NL then r else d # r) else c # sse_breaks (d # r))"

text \<open>An event is its type and its data; the pending type and the data lines are the state.\<close>

type_synonym sse_state = "string \<times> string list \<times> (string \<times> string) list"

definition sse_value :: "string \<Rightarrow> string" where
  "sse_value v = trim_prefix v '' ''"

definition sse_field :: "string \<Rightarrow> string \<times> string" where
  "sse_field l = (takeWhile (\<lambda>c. c \<noteq> CHR '':'') l, sse_value (drop 1 (dropWhile (\<lambda>c. c \<noteq> CHR '':'') l)))"

definition sse_line :: "string \<Rightarrow> sse_state \<Rightarrow> sse_state" where
  "sse_line l s =
     (case s of (ev, data, out) \<Rightarrow>
        if l = [] then
          (if data = [] then ([], [], out) else ([], [], out @ [(if ev = [] then ''message'' else ev, join [NL] data)]))
        else (case sse_field l of (name, v) \<Rightarrow>
          if name = ''event'' then (v, data, out)
          else if name = ''data'' then (ev, data @ [v], out) else s))"

definition sse_events :: "string \<Rightarrow> (string \<times> string) list" where
  "sse_events s = snd (snd (fold sse_line (butlast (split_on NL (sse_breaks s))) ([], [], [])))"

section \<open>The server\<close>

text \<open>\<open>sseWrite\<close>, after the encoding of its value.\<close>

definition sse_write :: "string \<Rightarrow> string \<Rightarrow> string" where
  "sse_write event data = ''event: '' @ event @ [NL] @ ''data: '' @ data @ [NL, NL]"

text \<open>\<open>html.EscapeString\<close>.\<close>

definition html_escape_char :: "char \<Rightarrow> string" where
  "html_escape_char c =
     (if c = CHR ''&'' then ''&amp;'' else if c = CHR 0x27 then ''&#39;'' else if c = CHR ''<'' then ''&lt;''
      else if c = CHR ''>'' then ''&gt;'' else if c = CHR 0x22 then ''&#34;'' else [c])"

definition html_escape :: "string \<Rightarrow> string" where
  "html_escape s = concat (map html_escape_char s)"

text \<open>A line of the dashboard's streams, and their end.\<close>

definition html_line_data :: "string \<Rightarrow> string \<Rightarrow> string" where
  "html_line_data cls text = ''<div class='' @ [CHR 0x22] @ ''ln '' @ cls @ [CHR 0x22] @ ''>'' @ html_escape text @ ''</div>''"

datatype html_frame = HtmlLine string string | HtmlDone

fun html_event :: "html_frame \<Rightarrow> string \<times> string" where
  "html_event (HtmlLine cls text) = (''line'', html_line_data cls text)"
| "html_event HtmlDone = (''done'', ''{}'')"

definition frame_bytes :: "html_frame \<Rightarrow> string" where
  "frame_bytes f = sse_write (fst (html_event f)) (snd (html_event f))"

definition stream_bytes :: "html_frame list \<Rightarrow> string" where
  "stream_bytes fs = concat (map frame_bytes fs)"

section \<open>Framing\<close>

abbreviation unbroken :: "string \<Rightarrow> bool" where
  "unbroken s \<equiv> list_all (\<lambda>c. c \<noteq> NL \<and> c \<noteq> CR) s"

lemma sse_breaks_id: "list_all (\<lambda>c. c \<noteq> CR) s \<Longrightarrow> sse_breaks s = s"
  by (induction s rule: sse_breaks.induct) auto

lemma sse_field_named: "list_all (\<lambda>c. c \<noteq> CHR '':'') n \<Longrightarrow> sse_field (n @ '': '' @ v) = (n, v)"
proof -
  assume n: "list_all (\<lambda>c. c \<noteq> CHR '':'') n"
  then have "takeWhile (\<lambda>c. c \<noteq> CHR '':'') (n @ '': '' @ v) = n" "dropWhile (\<lambda>c. c \<noteq> CHR '':'') (n @ '': '' @ v) = '': '' @ v"
    by (induction n) auto
  then show ?thesis by (simp add: sse_field_def sse_value_def trim_prefix_def)
qed

lemma fold_sse_write:
  assumes "e \<noteq> []"
  shows "fold sse_line [''event: '' @ e, ''data: '' @ d, []] ([], [], out) = ([], [], out @ [(e, d)])"
proof -
  have "sse_field (''event'' @ '': '' @ e) = (''event'', e)" "sse_field (''data'' @ '': '' @ d) = (''data'', d)"
    by (rule sse_field_named, simp)+
  then show ?thesis using assms by (simp add: sse_line_def)
qed

lemma split_sse_write:
  assumes "unbroken e" "unbroken d"
  shows "split_on NL (sse_write e d @ s) = [''event: '' @ e, ''data: '' @ d, []] @ split_on NL s"
proof -
  have e: "NL \<notin> set (''event: '' @ e)" and d: "NL \<notin> set (''data: '' @ d)"
    using assms by (auto simp: list_all_iff NL_def)
  have "sse_write e d @ s = (''event: '' @ e) @ NL # (''data: '' @ d) @ NL # NL # s" by (simp add: sse_write_def)
  then show ?thesis using split_on_append [OF e] split_on_append [OF d] by simp
qed

lemma sse_write_all:
  assumes "list_all (\<lambda>(e, d). e \<noteq> [] \<and> unbroken e \<and> unbroken d) es"
  shows "fold sse_line (butlast (split_on NL (concat (map (\<lambda>(e, d). sse_write e d) es)))) ([], [], out) = ([], [], out @ es)"
  using assms
proof (induction es arbitrary: out)
  case (Cons x es)
  obtain e d where x: "x = (e, d)" by (cases x)
  let ?r = "concat (map (\<lambda>(e, d). sse_write e d) es)"
  have ok: "e \<noteq> []" "unbroken e" "unbroken d" using Cons.prems by (auto simp: x)
  have "butlast (split_on NL (sse_write e d @ ?r)) = [''event: '' @ e, ''data: '' @ d, []] @ butlast (split_on NL ?r)"
    by (simp add: split_sse_write [OF ok(2,3)] del: append.simps) simp
  then show ?case using Cons.IH [of "out @ [x]"] Cons.prems fold_sse_write [OF ok(1), of d out] by (simp add: x)
qed simp

lemma unbroken_write: "unbroken e \<Longrightarrow> unbroken d \<Longrightarrow> list_all (\<lambda>c. c \<noteq> CR) (sse_write e d)"
  by (auto simp: sse_write_def list_all_iff CR_def NL_def)

text \<open>What is written event by event is read event by event.\<close>

lemma sse_round_trip:
  assumes "list_all (\<lambda>(e, d). e \<noteq> [] \<and> unbroken e \<and> unbroken d) es"
  shows "sse_events (concat (map (\<lambda>(e, d). sse_write e d) es)) = es"
proof -
  have "list_all (\<lambda>c. c \<noteq> CR) (concat (map (\<lambda>(e, d). sse_write e d) es))"
    using assms by (induction es) (auto intro: unbroken_write)
  then show ?thesis using sse_write_all [OF assms] by (simp add: sse_events_def sse_breaks_id)
qed

section \<open>Escaping\<close>

lemma unbroken_escape: "unbroken s \<Longrightarrow> unbroken (html_escape s)"
  by (induction s) (auto simp: html_escape_def html_escape_char_def NL_def CR_def)

text \<open>The escaped text has no character that ends it in the page, and reads back as the text.\<close>

lemma html_escape_safe: "list_all (\<lambda>c. c \<noteq> CHR ''<'' \<and> c \<noteq> CHR ''>'' \<and> c \<noteq> CHR 0x22 \<and> c \<noteq> CHR 0x27) (html_escape s)"
  by (induction s) (auto simp: html_escape_def html_escape_char_def)

fun html_read :: "string \<Rightarrow> string" where
  "html_read [] = []"
| "html_read (c # r) =
     (if has_prefix (c # r) ''&amp;'' then CHR ''&'' # html_read (drop 4 r)
      else if has_prefix (c # r) ''&#39;'' then CHR 0x27 # html_read (drop 4 r)
      else if has_prefix (c # r) ''&lt;'' then CHR ''<'' # html_read (drop 3 r)
      else if has_prefix (c # r) ''&gt;'' then CHR ''>'' # html_read (drop 3 r)
      else if has_prefix (c # r) ''&#34;'' then CHR 0x22 # html_read (drop 4 r)
      else c # html_read r)"

lemma html_read_escape: "html_read (html_escape s) = s"
proof (induction s)
  case (Cons c s)
  then show ?case by (auto simp: html_escape_def html_escape_char_def has_prefix_def)
qed (simp add: html_escape_def)

fun frame_ok :: "html_frame \<Rightarrow> bool" where
  "frame_ok (HtmlLine cls text) \<longleftrightarrow> unbroken cls \<and> unbroken text"
| "frame_ok HtmlDone \<longleftrightarrow> True"

lemma stream_events:
  assumes "list_all frame_ok fs"
  shows "sse_events (stream_bytes fs) = map html_event fs"
proof -
  have "fst (html_event f) \<noteq> [] \<and> unbroken (fst (html_event f)) \<and> unbroken (snd (html_event f))" if "frame_ok f" for f
    using that unbroken_escape by (cases f) (auto simp: html_line_data_def NL_def CR_def)
  then have "list_all (\<lambda>(e, d). e \<noteq> [] \<and> unbroken e \<and> unbroken d) (map html_event fs)"
    unfolding list.pred_map comp_def split_def by (intro list.pred_mono_strong [OF assms]) blast
  from sse_round_trip [OF this] show ?thesis
    by (simp add: stream_bytes_def frame_bytes_def [abs_def] comp_def split_def)
qed

text \<open>
  A carriage return in a line of the host, which escaping keeps, ends the browser's line: the host can
  make the dashboard see events that the server never sent.
\<close>

lemma carriage_return_injects:
  "map fst (sse_events (frame_bytes (HtmlLine [] (''x'' @ [CR, CR] @ ''event: done'' @ [CR] @ ''data: {}'' @ [CR, CR])))) = [''line'', ''done'']"
  by code_simp

end
