(* ===== verification/Streams.thy ===== *)
theory Streams
  imports EventStream HostOps
begin

text \<open>
  The handlers that stream a scan or an upgrade to the browser: \<open>scanHostStream\<close> and \<open>applyStream\<close> of
  \<open>cmd/server/main.go\<close> with events of JSON, and \<open>nextScanStream\<close> and \<open>nextApplyStream\<close> of
  \<open>cmd/server/spike.go\<close> with lines of HTML. The streaming SSH client is a function that also returns
  the lines it passed to the handler; the handler's function for a line only writes to the response.
  \<open>st_gone\<close> says whether the browser has left, and the percentage, which Go computes with floating
  point numbers, is the parameter \<open>st_percent\<close>. The server's response writer can always be flushed.
\<close>

record 'w stream_env =
  st_ops :: "'w ops_env"
  st_scan :: "host \<Rightarrow> 'w \<times> db \<Rightarrow> ('w \<times> db) \<times> string list \<times> (ssh_err + scan_result option)"
  st_apply :: "host \<Rightarrow> 'w \<times> db \<Rightarrow> ('w \<times> db) \<times> string list \<times> apply_result \<times> apply_err option"
  st_gone :: "'w \<Rightarrow> bool"
  st_percent :: "nat \<Rightarrow> nat \<Rightarrow> int"

datatype stream_event = EvStart string string string | EvLine string nat | EvPreparing
  | EvUnpacking string nat | EvConfiguring int string nat nat
  | EvKeyRefused string string string | EvError string | EvInterrupted string int
  | EvScan scan_result | EvApply apply_result | EvDone

datatype 'e stream_reply = NotStreamed nat string | Streamed "'e list" | StreamPanic "'e list"

text \<open>The name an event is sent under; its data is the JSON of its fields, the parameter \<open>json\<close>.\<close>

fun event_name :: "stream_event \<Rightarrow> string" where
  "event_name (EvStart _ _ _) = ''start''"
| "event_name (EvLine _ _) = ''line''"
| "event_name EvPreparing = ''progress''"
| "event_name (EvUnpacking _ _) = ''progress''"
| "event_name (EvConfiguring _ _ _ _) = ''progress''"
| "event_name (EvKeyRefused _ _ _) = ''error''"
| "event_name (EvError _) = ''error''"
| "event_name (EvInterrupted _ _) = ''interrupted''"
| "event_name (EvScan _) = ''result''"
| "event_name (EvApply _) = ''result''"
| "event_name EvDone = ''done''"

definition json_stream :: "(stream_event \<Rightarrow> string) \<Rightarrow> stream_event list \<Rightarrow> string" where
  "json_stream json evs = concat (map (\<lambda>e. sse_write (event_name e) (json e)) evs)"

section \<open>The client\<close>

definition client_stream_scan ::
  "'w stream_env \<Rightarrow> host \<Rightarrow> 'w ops \<Rightarrow> string list \<times> (ssh_err + scan_result option) \<times> 'w ops" where
  "client_stream_scan env h s =
     (case st_scan env h (op_world s, op_db s) of ((w, d), ls, r) \<Rightarrow> (ls, r, s\<lparr>op_world := w, op_db := d\<rparr>))"

definition client_stream_apply ::
  "'w stream_env \<Rightarrow> host \<Rightarrow> 'w ops \<Rightarrow> string list \<times> (apply_result \<times> apply_err option) \<times> 'w ops" where
  "client_stream_apply env h s =
     (case st_apply env h (op_world s, op_db s) of ((w, d), ls, r) \<Rightarrow> (ls, r, s\<lparr>op_world := w, op_db := d\<rparr>))"

section \<open>The stream of a scan\<close>

definition numbered_lines :: "string list \<Rightarrow> stream_event list" where
  "numbered_lines ls = map (\<lambda>(l, n). EvLine l n) (zip ls [1..<length ls + 1])"

fun error_event :: "ssh_err \<Rightarrow> stream_event" where
  "error_event (HostKeyErr _ _ m expected presented) = EvKeyRefused m expected presented"
| "error_event e = EvError (err_text e)"

definition scan_host_stream :: "'w stream_env \<Rightarrow> string \<Rightarrow> string \<Rightarrow> 'w ops \<Rightarrow> stream_event stream_reply \<times> 'w ops" where
  "scan_host_stream env i force s =
     (case get_host (op_db s) i of
        Inl _ \<Rightarrow> (NotStreamed 404 ''host not found'', s)
      | Inr h \<Rightarrow>
          if \<not> h_checks h \<and> \<not> parse_bool_query force then (NotStreamed 409 checks_disabled_text, s)
          else case client_stream_scan env h s of (ls, r, s) \<Rightarrow>
            (let evs = EvStart (h_id h) (h_name h) ''scan'' # numbered_lines ls in
             case r of
               Inl e \<Rightarrow>
                 if st_gone env (op_world s) then (Streamed evs, s)
                 else (Streamed (evs @ [error_event e, EvDone]),
                   notify_scan_failure (st_ops env) h (''Patchdeck: scan FAILED on '' @ h_name h @ '' ('' @ err_text e @ '')'')
                     (err_text e) s)
             | Inr None \<Rightarrow> (StreamPanic evs, s)
             | Inr (Some res) \<Rightarrow>
                 (Streamed (evs @ [EvScan res, EvDone]),
                  scan_succeeded (st_ops env) h (previous_packages (op_db s) (h_id h)) res s)))"

section \<open>The stream of an upgrade\<close>

text \<open>The lines so far, and the packages unpacked and set up.\<close>

type_synonym progress = "nat \<times> nat \<times> nat"

definition progress_line :: "'w stream_env \<Rightarrow> progress \<Rightarrow> string \<Rightarrow> stream_event list \<times> progress" where
  "progress_line env c line =
     (case c of (lines, unpacked, configured) \<Rightarrow>
        let lines = lines + 1; ev = EvLine line lines; trimmed = trim_space line in
        if has_prefix trimmed ''Reading package lists'' then ([ev, EvPreparing], (lines, unpacked, configured))
        else if has_prefix trimmed ''Unpacking '' then ([ev, EvUnpacking trimmed (unpacked + 1)], (lines, unpacked + 1, configured))
        else if has_prefix trimmed ''Setting up '' then
          (let configured = configured + 1; total = (if unpacked = 0 then configured else unpacked)
           in ([ev, EvConfiguring (st_percent env configured total) trimmed configured total], (lines, unpacked, configured)))
        else ([ev], (lines, unpacked, configured)))"

fun progress_events :: "'w stream_env \<Rightarrow> progress \<Rightarrow> string list \<Rightarrow> stream_event list" where
  "progress_events env c [] = []"
| "progress_events env c (l # ls) = (case progress_line env c l of (evs, c) \<Rightarrow> evs @ progress_events env c ls)"

definition add_interrupted :: "host \<Rightarrow> int \<Rightarrow> digest \<Rightarrow> digest" where
  "add_interrupted h changed =
     add_applied \<lparr>ah_name = h_name h, ah_changed = changed, ah_reboot = False, ah_interrupted = True\<rparr>"

definition applied_text :: "apply_result \<Rightarrow> string" where
  "applied_text res = ''Applied updates: '' @ itoa (ar_changed res) @ '' packages changed''"

definition stream_lost_text :: "int \<Rightarrow> string" where
  "stream_lost_text n =
     ''Lost the running upgrade and couldn'' @ [squote] @ ''t reattach within 5 min ('' @ itoa n @
     '' package(s) seen set up)'' @ dash @ ''host may be rebooting or unreachable; verifying''"

definition apply_stream :: "'w stream_env \<Rightarrow> string \<Rightarrow> string \<Rightarrow> 'w ops \<Rightarrow> stream_event stream_reply \<times> 'w ops" where
  "apply_stream env i force s =
     (case get_host (op_db s) i of
        Inl _ \<Rightarrow> (NotStreamed 404 ''host not found'', s)
      | Inr h \<Rightarrow>
          if \<not> h_checks h \<and> \<not> parse_bool_query force then (NotStreamed 409 checks_disabled_text, s)
          else case client_stream_apply env h s of (ls, (res, err), s) \<Rightarrow>
            (let oe = st_ops env; evs = EvStart (h_id h) (h_name h) ''apply'' # progress_events env (0, 0, 0) ls in
             case err of
               None \<Rightarrow>
                 (Streamed (evs @ [EvApply res, EvDone]),
                  ops_activity oe h ''apply_ok'' (applied_text res) (notify_applied oe h res s))
             | Some (ApplyErr (HostKeyErr j n m expected presented)) \<Rightarrow>
                 (Streamed (evs @ [EvKeyRefused m expected presented, EvDone]), s)
             | Some (ApplyInterrupted t n started) \<Rightarrow>
                 (Streamed (evs @ [EvInterrupted (h_id h) n, EvDone]),
                  ops_activity oe h ''apply_interrupted'' (stream_lost_text n)
                    (notify_host oe (h_id h) ''auto_apply_success'' [] (add_interrupted h n) s))
             | Some e \<Rightarrow>
                 (Streamed (evs @ [EvError (apply_err_text e), EvDone]),
                  ops_activity oe h ''apply_fail'' (''Apply failed: '' @ apply_err_text e)
                    (notify_apply_failure oe h (apply_err_text e) s))))"

section \<open>The dashboard's streams\<close>

definition next_scan_stream :: "'w stream_env \<Rightarrow> string \<Rightarrow> 'w ops \<Rightarrow> html_frame stream_reply \<times> 'w ops" where
  "next_scan_stream env i s =
     (case get_host (op_db s) i of
        Inl _ \<Rightarrow> (NotStreamed 404 ''host not found'', s)
      | Inr h \<Rightarrow>
          (let prev = previous_packages (op_db s) (h_id h) in
           case client_stream_scan env h s of (ls, r, s) \<Rightarrow>
             (let fs = HtmlLine [] (''Connecting to '' @ h_name h @ ellipsis) # map (HtmlLine []) ls in
              case r of
                Inl e \<Rightarrow>
                  if st_gone env (op_world s) then (Streamed fs, s)
                  else (Streamed (fs @ [HtmlLine ''err'' (''Scan failed: '' @ err_text e), HtmlDone]), ops_scan_failed (st_ops env) h e s)
              | Inr None \<Rightarrow> (StreamPanic fs, s)
              | Inr (Some res) \<Rightarrow>
                  (Streamed (fs @ [HtmlLine ''ok''
                     (''Scan complete'' @ dash @ itoan (length (sr_packages res)) @ '' update(s) available.''), HtmlDone]),
                   scan_succeeded (st_ops env) h prev res s))))"

definition next_lost_text :: "int \<Rightarrow> string" where
  "next_lost_text n =
     ''Lost the running upgrade and couldn'' @ [squote] @ ''t reattach within 5 min ('' @ itoa n @
     '' changed so far)'' @ dash @ ''host may be rebooting or unreachable''"

definition next_lost_line :: string where
  "next_lost_line =
     ''Couldn'' @ [squote] @ ''t reattach to the running upgrade for 5 minutes'' @ dash @
     ''the host may be rebooting or unreachable. Re-scan to verify.''"

text \<open>The scan after an upgrade: its lines are dropped and its failure is no error.\<close>

definition rescan :: "'w stream_env \<Rightarrow> host \<Rightarrow> html_frame list \<Rightarrow> 'w ops \<Rightarrow> html_frame stream_reply \<times> 'w ops" where
  "rescan env h fs s =
     (case client_stream_scan env h s of
        (_, Inl _, s) \<Rightarrow> (Streamed (fs @ [HtmlDone]), s)
      | (_, Inr None, s) \<Rightarrow> (StreamPanic fs, s)
      | (_, Inr (Some res), s) \<Rightarrow>
          (Streamed (fs @ [HtmlLine ''ok'' (''Now '' @ itoan (length (sr_packages res)) @ '' update(s) remaining.''), HtmlDone]),
           ops_save_scan (st_ops env) h res s))"

definition next_apply_stream :: "'w stream_env \<Rightarrow> string \<Rightarrow> 'w ops \<Rightarrow> html_frame stream_reply \<times> 'w ops" where
  "next_apply_stream env i s =
     (case get_host (op_db s) i of
        Inl _ \<Rightarrow> (NotStreamed 404 ''host not found'', s)
      | Inr h \<Rightarrow>
          (case client_stream_apply env h s of (ls, (res, err), s) \<Rightarrow>
             (let oe = st_ops env;
                  fs = HtmlLine [] (''Applying updates on '' @ h_name h @ ellipsis) # map (HtmlLine []) ls in
              case err of
                Some (ApplyInterrupted t n started) \<Rightarrow>
                  (Streamed (fs @ [HtmlLine ''ok'' next_lost_line, HtmlDone]),
                   ops_activity oe h ''apply_interrupted'' (next_lost_text n) s)
              | Some e \<Rightarrow>
                  (Streamed (fs @ [HtmlLine ''err'' (''Apply failed: '' @ apply_err_text e), HtmlDone]),
                   ops_activity oe h ''apply_fail'' (''Apply failed: '' @ apply_err_text e) s)
              | None \<Rightarrow>
                  rescan env h (fs @ [HtmlLine ''ok''
                      (''Applied'' @ dash @ itoa (ar_changed res) @ '' package(s) changed. Re-scanning'' @ ellipsis)])
                    (ops_activity oe h ''apply_ok'' (applied_text res) s))))"

section \<open>What the browser sees\<close>

text \<open>The outcome line of a scan, and whether the stream is closed with it.\<close>

definition scan_outcome_line :: "ssh_err + scan_result option \<Rightarrow> html_frame list" where
  "scan_outcome_line r =
     (case r of
        Inl e \<Rightarrow> [HtmlLine ''err'' (''Scan failed: '' @ err_text e), HtmlDone]
      | Inr None \<Rightarrow> []
      | Inr (Some res) \<Rightarrow> [HtmlLine ''ok'' (''Scan complete'' @ dash @ itoan (length (sr_packages res)) @ '' update(s) available.''), HtmlDone])"

lemma unbroken_itoa: "unbroken (itoa n)"
  using digits_all [of "nat n"] digits_all [of "nat (- n)"]
  by (auto simp: itoa_def list_all_iff is_digit_def byte_of_def NL_def CR_def)

lemma unbroken_marks: "unbroken ellipsis" "unbroken dash"
  by code_simp+

text \<open>C28
  The live scan shows exactly what happened: when the host's name, its lines and the error hold no line
  break, the browser reads one event per line of the host, in order, between the line that opens the
  stream and the one with the outcome, and then the end; the text of each event reads back as the line.\<close>

theorem scan_stream_exact:
  assumes "next_scan_stream env i s = (Streamed fs, s')"
    and "get_host (op_db s) i = Inr h" "client_stream_scan env h s = (ls, r, s1)"
    and "unbroken (h_name h)" "list_all unbroken ls" "case r of Inl e \<Rightarrow> unbroken (err_text e) | Inr _ \<Rightarrow> True"
  shows "\<exists>out. sse_events (stream_bytes fs) =
       map (\<lambda>l. (''line'', html_line_data [] l)) ((''Connecting to '' @ h_name h @ ellipsis) # ls) @ map html_event out \<and>
     (out = scan_outcome_line r \<or> (\<exists>e. r = Inl e \<and> st_gone env (op_world s1) \<and> out = [])) \<and>
     (\<forall>l. html_read (html_escape l) = l)"
proof -
  obtain out where fs: "fs = map (HtmlLine []) ((''Connecting to '' @ h_name h @ ellipsis) # ls) @ out"
    and out: "out = scan_outcome_line r \<or> (\<exists>e. r = Inl e \<and> st_gone env (op_world s1) \<and> out = [])"
    using assms(1-3) by (auto simp: next_scan_stream_def scan_outcome_line_def Let_def split: sum.splits option.splits if_splits)
  have "unbroken (''Scan failed: '')" "unbroken (''Scan complete'')" "unbroken ('' update(s) available.'')" "unbroken ''err''" "unbroken ''ok''"
    "unbroken (''Connecting to '')" by (simp_all add: NL_def CR_def)
  then have "list_all frame_ok out" "unbroken (''Connecting to '' @ h_name h @ ellipsis)"
    using out assms(4,6) unbroken_itoa unbroken_marks
    by (auto simp: scan_outcome_line_def split: sum.splits option.splits)
  then have "list_all frame_ok fs" using assms(5) by (simp add: fs list.pred_map comp_def)
  from stream_events [OF this] out show ?thesis by (auto simp: fs comp_def html_read_escape)
qed

section \<open>The audit log of upgrades\<close>

text \<open>The kind of entry an upgrade leaves.\<close>

fun upgrade_event :: "apply_err option \<Rightarrow> string" where
  "upgrade_event None = ''apply_ok''"
| "upgrade_event (Some (ApplyInterrupted _ _ _)) = ''apply_interrupted''"
| "upgrade_event (Some _) = ''apply_fail''"

fun key_refusal :: "apply_err option \<Rightarrow> bool" where
  "key_refusal (Some (ApplyErr (HostKeyErr _ _ _ _ _))) \<longleftrightarrow> True"
| "key_refusal _ \<longleftrightarrow> False"

definition logged_one :: "string \<Rightarrow> string \<Rightarrow> db \<Rightarrow> db \<Rightarrow> bool" where
  "logged_one host event d d' \<longleftrightarrow>
     (\<exists>e rest. d_activity d' = d_activity d @ e # rest \<and> ac_event e = event \<and> ac_host e = trim_space host)"

text \<open>The SSH client may add entries about host keys, but removes none.\<close>

definition log_only_grows :: "'w stream_env \<Rightarrow> bool" where
  "log_only_grows env \<longleftrightarrow>
     (\<forall>h x. prefix (d_activity (snd x)) (d_activity (snd (fst (st_scan env h x)))))"

lemma logged_activity:
  "trim_space event = event \<Longrightarrow> logged_one (h_id h) event (op_db s) (op_db (ops_activity oe h event text s))"
  by (simp add: logged_one_def ops_activity_def in_ops_db_def record_activity_def)

lemma save_scan_log [simp]: "d_activity (op_db (ops_save_scan oe h res s)) = d_activity (op_db s)"
  by (simp add: ops_save_scan_def upsert_scan_result_def Let_def reconcile_restart_marks_def split: prod.split)

lemma rescan_logged:
  assumes "log_only_grows env" "logged_one i e d (op_db s)" "rescan env h fs s = (r, s')"
  shows "logged_one i e d (op_db s')"
proof -
  have "prefix (d_activity (op_db s)) (d_activity (op_db s'))"
    using assms(1) [unfolded log_only_grows_def, rule_format, of "(op_world s, op_db s)" h] assms(3)
    by (auto simp: rescan_def client_stream_scan_def split: prod.splits sum.splits option.splits)
  with assms(2) show ?thesis by (auto simp: logged_one_def prefix_def)
qed

text \<open>C29
  No upgrade goes unrecorded: whichever way an upgrade was streamed, once it was run on the host the
  audit log has an entry of that host that says how it ended; the only exception is an upgrade refused
  because of the host's key on the API's stream.\<close>

theorem streamed_upgrade_logged:
  assumes "log_only_grows env" and h: "get_host (op_db s) i = Inr h" "client_stream_apply env h s = (ls, (res, err), s1)"
  shows "(apply_stream env i force s = (Streamed evs, s') \<and> \<not> key_refusal err \<longrightarrow>
            logged_one (h_id h) (upgrade_event err) (op_db s1) (op_db s')) \<and>
         (next_apply_stream env i s = (r, s'') \<longrightarrow> logged_one (h_id h) (upgrade_event err) (op_db s1) (op_db s''))"
proof (intro conjI impI; (elim conjE)?)
  have e [simp]: "trim_space ''apply_ok'' = ''apply_ok''" "trim_space ''apply_fail'' = ''apply_fail''"
    "trim_space ''apply_interrupted'' = ''apply_interrupted''" by code_simp+
  have db [simp]: "op_db (notify_applied oe h res s1) = op_db s1" "op_db (notify_apply_failure oe h x s1) = op_db s1" for oe x
    by (simp_all add: notify_defs)
  have l: "logged_one (h_id h) ev (op_db s1) (op_db (ops_activity oe h ev t x))"
    if "op_db x = op_db s1" "trim_space ev = ev" for oe ev t x
    using logged_activity [OF that(2), of h x oe t] that(1) by simp
  show "logged_one (h_id h) (upgrade_event err) (op_db s1) (op_db s')"
    if "apply_stream env i force s = (Streamed evs, s')" "\<not> key_refusal err"
    using that
    by (cases err) (auto simp: apply_stream_def h Let_def l split: if_splits apply_err.splits ssh_err.splits)
  show "logged_one (h_id h) (upgrade_event err) (op_db s1) (op_db s'')" if "next_apply_stream env i s = (r, s'')"
    using that
    by (cases err)
       (auto simp: next_apply_stream_def h Let_def l split: apply_err.splits elim!: rescan_logged [OF assms(1), rotated])
qed

text \<open>
  A scan that the browser leaves is nobody's failure: it leaves no entry in the audit log, stores no
  scan, sends nothing and queues nothing.\<close>

theorem abandoned_scan_silent:
  assumes "get_host (op_db s) i = Inr h" "client_stream_scan env h s = (ls, Inl e, s1)" "st_gone env (op_world s1)"
    and "scan_host_stream env i force s = (r, s')" "next_scan_stream env i s = (r', s'')"
  shows "op_db s' \<in> {op_db s, op_db s1} \<and> op_sent s' = op_sent s \<and> op_coalescer s' = op_coalescer s \<and>
    s'' = s1 \<and> op_sent s'' = op_sent s \<and> op_coalescer s'' = op_coalescer s"
  using assms
  by (auto simp: scan_host_stream_def next_scan_stream_def Let_def client_stream_scan_def split: if_splits prod.splits)

section \<open>Numbers in a stream\<close>

fun line_numbers :: "stream_event list \<Rightarrow> nat list" where
  "line_numbers [] = []"
| "line_numbers (EvLine _ n # es) = n # line_numbers es"
| "line_numbers (_ # es) = line_numbers es"

lemma line_numbers_append [simp]: "line_numbers (es @ fs) = line_numbers es @ line_numbers fs"
  by (induction es rule: line_numbers.induct) auto

text \<open>The lines of an upgrade's stream are numbered from one on, without a gap, whatever else is sent.\<close>

lemma progress_numbers: "line_numbers (progress_events env (n, u, c) ls) = [n + 1..<n + length ls + 1]"
proof (induction ls arbitrary: n u c)
  case (Cons l ls)
  obtain evs n' u' c' where p: "progress_line env (n, u, c) l = (evs, n', u', c')" by (cases "progress_line env (n, u, c) l")
  then have n: "n' = n + 1" "line_numbers evs = [n + 1]"
    by (auto simp: progress_line_def Let_def split: if_splits)
  have "[n + 1..<n + length (l # ls) + 1] = (n + 1) # [n + 2..<n + length (l # ls) + 1]" by (subst upt_rec) simp
  with Cons.IH [of "n + 1" u' c'] p n show ?case by simp
qed simp

text \<open>A package that is set up without being unpacked in this stream lifts the percentage above 100.\<close>

lemma percent_over_100:
  "EvConfiguring 200 ''Setting up b'' 2 1 \<in> set (progress_events (env\<lparr>st_percent := (\<lambda>s t. int (100 * s div t))\<rparr>) (0, 0, 0)
     [''Unpacking a'', ''Setting up a'', ''Setting up b''])"
proof -
  have t: "trim_space ''Unpacking a'' = ''Unpacking a''" "trim_space ''Setting up a'' = ''Setting up a''"
    "trim_space ''Setting up b'' = ''Setting up b''" by code_simp+
  show ?thesis by (simp add: progress_line_def Let_def t has_prefix_def)
qed

section \<open>Sample runs\<close>

definition sample_stream_env :: "int stream_env" where
  "sample_stream_env = \<lparr>st_ops = sample_ops_env, st_scan = (\<lambda>h x. (x, [''Hit:1 <stable>''], Inl (PlainErr ''no route''))),
     st_apply = (\<lambda>h x. (x, [''Setting up vim''], empty_apply, Some (ApplyInterrupted ''gone'' 1 True))),
     st_gone = (\<lambda>_. False), st_percent = (\<lambda>s t. int (100 * s div t))\<rparr>"

lemma sample_host_found: "get_host (op_db sample_ops) ''a'' = Inr (read_host sample_db (sample_host ''a'' ''alpha''))"
  by (simp add: get_host_def sample_ops_def sample_db_def lookup_row_def sample_host_def)

theorem scan_stream_exact_witness:
  "\<exists>fs s'. next_scan_stream sample_stream_env ''a'' sample_ops = (Streamed fs, s') \<and>
     map fst (sse_events (stream_bytes fs)) = [''line'', ''line'', ''line'', ''done'']"
proof -
  let ?h = "read_host sample_db (sample_host ''a'' ''alpha'')"
  obtain r s1 where c: "client_stream_scan sample_stream_env ?h sample_ops = ([''Hit:1 <stable>''], Inl (PlainErr ''no route''), s1)"
    by (simp add: client_stream_scan_def sample_stream_env_def)
  obtain fs s' where n: "next_scan_stream sample_stream_env ''a'' sample_ops = (Streamed fs, s')"
    using c by (simp add: next_scan_stream_def sample_host_found Let_def sample_stream_env_def)
  have "unbroken (h_name ?h)" "list_all unbroken [''Hit:1 <stable>'']" "unbroken ''no route''"
    by (simp_all add: read_host_def sample_host_def NL_def CR_def)
  then have "map fst (sse_events (stream_bytes fs)) = [''line'', ''line'', ''line'', ''done'']"
    using scan_stream_exact [OF n sample_host_found c]
    by (auto simp: scan_outcome_line_def sample_stream_env_def)
  with n show ?thesis by (intro exI [of _ fs] exI [of _ s'] conjI)
qed

theorem streamed_upgrade_logged_witness:
  "\<exists>h s1 r s''. client_stream_apply sample_stream_env h sample_ops = ([''Setting up vim''], (empty_apply, Some (ApplyInterrupted ''gone'' 1 True)), s1) \<and>
     next_apply_stream sample_stream_env ''a'' sample_ops = (r, s'') \<and>
     logged_one ''a'' ''apply_interrupted'' (op_db s1) (op_db s'')"
proof -
  let ?h = "read_host sample_db (sample_host ''a'' ''alpha'')"
  obtain s1 where c: "client_stream_apply sample_stream_env ?h sample_ops =
      ([''Setting up vim''], (empty_apply, Some (ApplyInterrupted ''gone'' 1 True)), s1)"
    by (simp add: client_stream_apply_def sample_stream_env_def)
  obtain r s'' where n: "next_apply_stream sample_stream_env ''a'' sample_ops = (r, s'')" by fastforce
  have "log_only_grows sample_stream_env" by (simp add: log_only_grows_def sample_stream_env_def)
  from streamed_upgrade_logged [OF this sample_host_found c] n c show ?thesis
    by (fastforce simp: read_host_def sample_host_def)
qed

end
