(* ===== verification/Connectivity.thy ===== *)
theory Connectivity
  imports Streams Session
begin

text \<open>
  Whether hosts answer, in \<open>cmd/server/main.go\<close>: one probe, the probes of all hosts by concurrent
  goroutines that share six slots, and the stream that waits for a host to come back after a reboot.
  The goroutines are a step relation: each is waiting for a slot, probing, or has written its row.
\<close>

record connectivity_status =
  cs_host :: string
  cs_connected :: bool
  cs_checked :: string
  cs_error :: string
  cs_source :: string
  cs_timeout :: int
  cs_uptime :: int

section \<open>One probe\<close>

record 'w probe_env =
  pe_check :: "host \<Rightarrow> 'w \<times> db \<Rightarrow> ('w \<times> db) \<times> (ssh_err + int)"
  pe_now :: "'w \<Rightarrow> int"
  pe_timeout :: int

text \<open>The moment of the check is taken before the host is contacted.\<close>

definition probe_connectivity :: "'w probe_env \<Rightarrow> string \<Rightarrow> 'w \<times> db \<Rightarrow> ('w \<times> db) \<times> connectivity_status" where
  "probe_connectivity env i x =
     (let res = \<lparr>cs_host = i, cs_connected = False, cs_checked = format_rfc3339 (pe_now env (fst x) div second_ns), cs_error = [],
            cs_source = ''ssh_quick_check'', cs_timeout = pe_timeout env div second_ns, cs_uptime = 0\<rparr> in
      case get_host (snd x) i of
        Inl _ \<Rightarrow> (x, res\<lparr>cs_error := ''unable to load host secrets''\<rparr>)
      | Inr h \<Rightarrow>
          (case pe_check env h x of
             (y, Inl e) \<Rightarrow> (y, res\<lparr>cs_error := trim_space (err_text e)\<rparr>)
           | (y, Inr up) \<Rightarrow> (y, res\<lparr>cs_connected := True, cs_uptime := up\<rparr>)))"

section \<open>All hosts at once\<close>

datatype slot = Waiting | Probing | Row connectivity_status

definition slots :: nat where
  "slots = 6"

abbreviation probing :: "slot list \<Rightarrow> nat" where
  "probing ps \<equiv> length (filter (\<lambda>p. p = Probing) ps)"

type_synonym 'w bulk = "('w \<times> db) \<times> slot list"

text \<open>
  A goroutine takes a slot when one is free and gives it back when it has written its row; between the
  steps the world may change in any way.
\<close>

inductive bulk_step :: "'w probe_env \<Rightarrow> host list \<Rightarrow> 'w bulk \<Rightarrow> 'w bulk \<Rightarrow> bool" for env hs where
  Take: "k < length ps \<Longrightarrow> ps ! k = Waiting \<Longrightarrow> probing ps < slots \<Longrightarrow> bulk_step env hs (x, ps) (y, ps[k := Probing])"
| Write: "k < length ps \<Longrightarrow> ps ! k = Probing \<Longrightarrow> probe_connectivity env (h_id (hs ! k)) x = (y, r) \<Longrightarrow>
    bulk_step env hs (x, ps) (z, ps[k := Row r])"

inductive_cases bulk_stepE: "bulk_step env hs (x, ps) y"

text \<open>What \<open>hostConnectivity\<close> starts from, and its answer once every goroutine has finished.\<close>

definition bulk_start :: "host list \<Rightarrow> slot list" where
  "bulk_start hs = replicate (length hs) Waiting"

fun row_of :: "slot \<Rightarrow> connectivity_status option" where
  "row_of (Row r) = Some r"
| "row_of _ = None"

definition host_connectivity :: "slot list \<Rightarrow> connectivity_status list option" where
  "host_connectivity ps = those (map row_of ps)"

inductive bulk_run :: "'w probe_env \<Rightarrow> host list \<Rightarrow> 'w bulk \<Rightarrow> nat \<Rightarrow> bool" for env hs where
  Begin: "bulk_run env hs (x, bulk_start hs) 0"
| Next: "bulk_run env hs s n \<Longrightarrow> bulk_step env hs s t \<Longrightarrow> bulk_run env hs t (Suc n)"

fun work_left :: "slot \<Rightarrow> nat" where
  "work_left Waiting = 2"
| "work_left Probing = 1"
| "work_left (Row _) = 0"

definition bulk_inv :: "host list \<Rightarrow> slot list \<Rightarrow> nat \<Rightarrow> bool" where
  "bulk_inv hs ps n \<longleftrightarrow> length ps = length hs \<and> probing ps \<le> slots \<and>
     (\<forall>k < length ps. \<forall>r. ps ! k = Row r \<longrightarrow> cs_host r = h_id (hs ! k)) \<and>
     sum_list (map work_left ps) + n = 2 * length hs"

lemma probe_host: "cs_host (snd (probe_connectivity env i x)) = i"
  by (simp add: probe_connectivity_def Let_def split: sum.split prod.split)

lemma probe_row: "probe_connectivity env i x = (y, r) \<Longrightarrow> cs_host r = i"
  using probe_host [of env i x] by simp

lemma filter_update:
  "k < length xs \<Longrightarrow> length (filter P (xs[k := v])) + (if P (xs ! k) then 1 else 0) = length (filter P xs) + (if P v then 1 else 0)"
proof (induction xs arbitrary: k)
  case (Cons x xs)
  then show ?case by (cases k) auto
qed simp

lemma sum_update: "k < length xs \<Longrightarrow> sum_list (map f (xs[k := v])) + f (xs ! k) = sum_list (map f xs) + (f v :: nat)"
proof (induction xs arbitrary: k)
  case (Cons x xs)
  then show ?case by (cases k) (auto simp: add.commute add.left_commute)
qed simp

lemma bulk_inv_put:
  assumes "bulk_inv hs ps n" "k < length ps" "work_left (ps ! k) = Suc (work_left v)"
    and "v = Probing \<longrightarrow> probing ps < slots" "\<forall>r. v = Row r \<longrightarrow> cs_host r = h_id (hs ! k)"
  shows "bulk_inv hs (ps[k := v]) (Suc n)"
  using assms filter_update [of k ps "\<lambda>p. p = Probing" v] sum_update [of k ps work_left v]
  by (auto simp: bulk_inv_def nth_list_update split: if_splits)

lemma bulk_inv_step: "bulk_inv hs ps n \<Longrightarrow> bulk_step env hs (x, ps) (y, qs) \<Longrightarrow> bulk_inv hs qs (Suc n)"
  by (elim bulk_stepE) (auto intro!: bulk_inv_put dest: probe_row)

lemma bulk_inv_run: "bulk_run env hs s n \<Longrightarrow> bulk_inv hs (snd s) n"
proof (induction rule: bulk_run.induct)
  case (Begin x)
  then show ?case by (simp add: bulk_inv_def bulk_start_def slots_def sum_list_replicate)
next
  case (Next s n t)
  then show ?case using bulk_inv_step [of hs "snd s" n env "fst s" "fst t" "snd t"] by simp
qed

text \<open>C30
  Checking all hosts at once: in every interleaving at most six hosts are contacted at the same time,
  some goroutine can always go on until all have finished, which they have after two steps each, and the
  answer then has one row per host, in the order of the hosts.\<close>

theorem bulk_check_complete:
  assumes "bulk_run env hs (x, ps) n"
  shows "probing ps \<le> slots \<and> n \<le> 2 * length hs \<and>
    (if n = 2 * length hs then map_option (map cs_host) (host_connectivity ps) = Some (map h_id hs)
     else \<exists>t. bulk_step env hs (x, ps) t)"
proof -
  have inv: "bulk_inv hs ps n" using bulk_inv_run [OF assms] by simp
  then have len: "length ps = length hs" and le: "probing ps \<le> slots" and sum: "sum_list (map work_left ps) + n = 2 * length hs"
    by (simp_all add: bulk_inv_def)
  have "map_option (map cs_host) (host_connectivity ps) = Some (map h_id hs)" if "n = 2 * length hs"
  proof -
    have row: "\<exists>r. ps ! k = Row r \<and> cs_host r = h_id (hs ! k)" if "k < length ps" for k
    proof -
      have "work_left (ps ! k) = 0" using sum \<open>n = 2 * length hs\<close> that by (simp add: sum_list_eq_0_iff)
      then show ?thesis using inv that by (cases "ps ! k") (auto simp: bulk_inv_def)
    qed
    then obtain f where f: "\<forall>k < length ps. ps ! k = Row (f k) \<and> cs_host (f k) = h_id (hs ! k)" by metis
    then have "map row_of ps = map Some (map f [0..<length ps])" by (intro nth_equalityI) auto
    moreover have "those (map Some xs) = Some xs" for xs :: "connectivity_status list" by (induction xs) auto
    moreover have "map cs_host (map f [0..<length ps]) = map h_id hs" using f len by (intro nth_equalityI) auto
    ultimately have "host_connectivity ps = Some (map f [0..<length ps])" by (simp only: host_connectivity_def)
    then show ?thesis using \<open>map cs_host _ = map h_id hs\<close> by simp
  qed
  moreover have "\<exists>t. bulk_step env hs (x, ps) t" if "n \<noteq> 2 * length hs"
  proof (cases "\<exists>k < length ps. ps ! k = Probing")
    case True
    then obtain k where k: "k < length ps" "ps ! k = Probing" by blast
    obtain y r where "probe_connectivity env (h_id (hs ! k)) x = (y, r)" by fastforce
    from Write [OF k this] show ?thesis by blast
  next
    case False
    then have z: "probing ps = 0" by (auto simp: filter_empty_conv in_set_conv_nth)
    have "\<exists>k < length ps. ps ! k = Waiting"
    proof (rule ccontr)
      assume "\<not> ?thesis"
      then have "\<forall>p \<in> set ps. work_left p = 0" using False by (metis in_set_conv_nth slot.exhaust work_left.simps(3))
      then have "sum_list (map work_left ps) = 0" by (simp add: sum_list_eq_0_iff)
      then show False using sum that by linarith
    qed
    then show ?thesis using Take [of _ ps env hs x] z by (force simp: slots_def)
  qed
  ultimately show ?thesis using le sum by auto
qed

definition sample_probe_env :: "int probe_env" where
  "sample_probe_env = \<lparr>pe_check = (\<lambda>h x. (x, Inr 90061)), pe_now = (\<lambda>w. w), pe_timeout = 15000000000\<rparr>"

theorem bulk_check_complete_witness:
  "\<exists>ps. bulk_run sample_probe_env [sample_host ''a'' ''alpha''] ((0, sample_db), ps) 2 \<and>
     map_option (map cs_host) (host_connectivity ps) = Some [''a'']"
proof -
  let ?hs = "[sample_host ''a'' ''alpha'']" and ?x = "(0::int, sample_db)"
  obtain y r where r: "probe_connectivity sample_probe_env (h_id (?hs ! 0)) ?x = (y, r)" by fastforce
  have "bulk_run sample_probe_env ?hs (?x, [Waiting]) 0"
    using Begin [of sample_probe_env ?hs ?x] by (simp add: bulk_start_def)
  from Next [OF this Take [of 0 "[Waiting]" sample_probe_env ?hs ?x ?x]]
  have "bulk_run sample_probe_env ?hs (?x, [Probing]) 1" by (simp add: slots_def)
  from Next [OF this Write [of 0 "[Probing]" sample_probe_env ?hs ?x y r ?x]] r
  have run: "bulk_run sample_probe_env ?hs (?x, [Row r]) 2" by (simp add: numeral_2_eq_2)
  from bulk_check_complete [OF run] have "map_option (map cs_host) (host_connectivity [Row r]) = Some [''a'']"
    by (simp add: sample_host_def)
  with run show ?thesis by (intro exI [of _ "[Row r]"] conjI)
qed

section \<open>Waiting for a host\<close>

text \<open>
  \<open>awaitRecovery\<close>: the delay before the first check, the ticker made after it, and the browser that may
  leave during either. \<open>re_tick base k\<close> waits for the \<open>k\<close>-th value received from the ticker made at \<open>base\<close>;
  both waits say whether they ended because the browser left.
\<close>

record 'w recovery_env =
  re_check :: "host \<Rightarrow> 'w \<times> db \<Rightarrow> ('w \<times> db) \<times> bool"
  re_delay :: "'w \<Rightarrow> 'w \<times> bool"
  re_tick :: "int \<Rightarrow> nat \<Rightarrow> 'w \<Rightarrow> 'w \<times> bool"
  re_now :: "'w \<Rightarrow> int"

datatype recovery_event = RecStart string string int | Ping nat int bool | Recovered int | GaveUp int | RecDone

definition recovery_timeout :: "string \<Rightarrow> int" where
  "recovery_timeout q =
     (let raw = trim_space q;
          n = (if raw \<noteq> [] then (case atoi raw of Some n \<Rightarrow> if n > 0 then n else 180 | None \<Rightarrow> 180) else 180)
      in if n > 300 then 300 else n)"

definition elapsed_secs :: "int \<Rightarrow> int" where
  "elapsed_secs d = d div second_ns"

fun recovery_loop ::
  "nat \<Rightarrow> 'w recovery_env \<Rightarrow> host \<Rightarrow> int \<Rightarrow> int \<Rightarrow> int \<Rightarrow> nat \<Rightarrow> 'w \<times> db \<Rightarrow> recovery_event list option \<times> 'w \<times> db" where
  "recovery_loop 0 env h start base deadline attempt x = (None, x)"
| "recovery_loop (Suc fuel) env h start base deadline attempt x =
     (let attempt = attempt + 1; elapsed = elapsed_secs (re_now env (fst x) - start) in
      case re_check env h x of (y, connected) \<Rightarrow>
        (let ping = Ping attempt elapsed connected in
         if connected then (Some [ping, Recovered elapsed, RecDone], y)
         else if re_now env (fst y) - start \<ge> deadline then (Some [ping, GaveUp elapsed, RecDone], y)
         else case re_tick env base attempt (fst y) of
             (w, True) \<Rightarrow> (Some [ping, RecDone], w, snd y)
           | (w, False) \<Rightarrow>
               (case recovery_loop fuel env h start base deadline attempt (w, snd y) of
                  (evs, z) \<Rightarrow> (map_option (\<lambda>evs. ping # evs) evs, z))))"

definition await_recovery ::
  "nat \<Rightarrow> 'w recovery_env \<Rightarrow> string \<Rightarrow> string \<Rightarrow> 'w \<times> db \<Rightarrow> recovery_event stream_reply option \<times> 'w \<times> db" where
  "await_recovery fuel env i q x =
     (case get_host (snd x) i of
        Inl _ \<Rightarrow> (Some (NotStreamed 404 ''host not found''), x)
      | Inr h \<Rightarrow>
          (let timeout = recovery_timeout q; start = re_now env (fst x); first = RecStart (h_id h) (h_name h) timeout in
           case re_delay env (fst x) of
             (w, True) \<Rightarrow> (Some (Streamed [first, RecDone]), w, snd x)
           | (w, False) \<Rightarrow>
               (case recovery_loop fuel env h start (re_now env w) (timeout * second_ns) 0 (w, snd x) of
                  (evs, y) \<Rightarrow> (map_option (\<lambda>evs. Streamed (first # evs)) evs, y))))"

text \<open>What the clock and the ticker of Go promise.\<close>

definition ticker_laws :: "'w recovery_env \<Rightarrow> bool" where
  "ticker_laws env \<longleftrightarrow>
     (\<forall>h x. re_now env (fst x) \<le> re_now env (fst (fst (re_check env h x)))) \<and>
     (\<forall>w v. re_delay env w = (v, False) \<longrightarrow> re_now env w + 10 * second_ns \<le> re_now env v) \<and>
     (\<forall>b k w v. re_tick env b k w = (v, False) \<longrightarrow> b + int k * (10 * second_ns) \<le> re_now env v)"

definition pings :: "recovery_event list \<Rightarrow> nat" where
  "pings evs = length (filter (\<lambda>e. case e of Ping _ _ _ \<Rightarrow> True | _ \<Rightarrow> False) evs)"

lemma recovery_timeout_range: "1 \<le> recovery_timeout q \<and> recovery_timeout q \<le> 300"
  by (auto simp: recovery_timeout_def Let_def split: option.split)

lemma recovery_loop_ends:
  assumes "ticker_laws env" "start + 10 * second_ns \<le> base" "base + int attempt * (10 * second_ns) \<le> re_now env (fst x)"
    and "deadline \<le> 300 * second_ns" "attempt + fuel \<ge> 30" "attempt < 30"
  shows "\<exists>evs. fst (recovery_loop fuel env h start base deadline attempt x) = Some evs \<and> last evs = RecDone \<and>
    evs \<noteq> [] \<and> pings evs + attempt \<le> 30"
  using assms
proof (induction fuel arbitrary: attempt x)
  case (Suc fuel)
  obtain y c where c: "re_check env h x = (y, c)" by fastforce
  have y: "re_now env (fst x) \<le> re_now env (fst y)" using Suc.prems(1) c unfolding ticker_laws_def by (metis fst_conv)
  show ?case
  proof (cases "c \<or> re_now env (fst y) - start \<ge> deadline")
    case True
    with c Suc.prems(6) show ?thesis by (auto simp: Let_def pings_def)
  next
    case False
    obtain w b where t: "re_tick env base (Suc attempt) (fst y) = (w, b)" by fastforce
    show ?thesis
    proof (cases b)
      case True
      with False c t Suc.prems(6) show ?thesis by (auto simp: Let_def pings_def)
    next
      case nb: False
      have "\<not> start + deadline \<le> re_now env (fst y)" using False by simp
      then have "start + 10 * second_ns + int attempt * (10 * second_ns) < start + 300 * second_ns"
        using Suc.prems(2-4) y by linarith
      then have a: "Suc attempt < 30" by (simp add: second_ns_def)
      have "base + int (Suc attempt) * (10 * second_ns) \<le> re_now env (fst (w, snd y))"
        using Suc.prems(1) t nb unfolding ticker_laws_def by fastforce
      then obtain evs where "fst (recovery_loop fuel env h start base deadline (Suc attempt) (w, snd y)) = Some evs"
          "last evs = RecDone" "evs \<noteq> []" "pings evs + Suc attempt \<le> 30"
        using Suc.IH [of "Suc attempt" "(w, snd y)"] Suc.prems a by auto
      with False c t nb show ?thesis
        by (cases "recovery_loop fuel env h start base deadline (Suc attempt) (w, snd y)") (auto simp: Let_def pings_def)
    qed
  qed
qed simp

text \<open>
  Waiting for a host comes to an end: with the clock and the ticker as Go has them, the stream closes
  after at most thirty checks, whatever the host does and however long a check takes.\<close>

theorem recovery_ends:
  assumes "ticker_laws env" "30 \<le> fuel"
  shows "\<exists>r. fst (await_recovery fuel env i q x) = Some r \<and>
    (case r of Streamed evs \<Rightarrow> last evs = RecDone \<and> pings evs \<le> 30 | NotStreamed n m \<Rightarrow> n = 404 | StreamPanic _ \<Rightarrow> False)"
proof (cases "get_host (snd x) i")
  case (Inr h)
  obtain w b where d: "re_delay env (fst x) = (w, b)" by fastforce
  show ?thesis
  proof (cases b)
    case False
    let ?l = "recovery_loop fuel env h (re_now env (fst x)) (re_now env w) (recovery_timeout q * second_ns) 0 (w, snd x)"
    have "re_now env (fst x) + 10 * second_ns \<le> re_now env w"
      using assms(1) d False unfolding ticker_laws_def by fastforce
    then obtain evs where "fst ?l = Some evs" "last evs = RecDone" "evs \<noteq> []" "pings evs \<le> 30"
      using recovery_loop_ends [OF assms(1), of "re_now env (fst x)" "re_now env w" 0 "(w, snd x)" "recovery_timeout q * second_ns" fuel h]
        recovery_timeout_range [of q] assms(2) by (auto simp: second_ns_def)
    with Inr d False show ?thesis by (cases ?l) (auto simp: await_recovery_def Let_def pings_def)
  qed (use Inr d in \<open>simp add: await_recovery_def Let_def pings_def\<close>)
qed (simp add: await_recovery_def)

definition sample_recovery_env :: "int recovery_env" where
  "sample_recovery_env = \<lparr>re_check = (\<lambda>h x. (x, False)), re_delay = (\<lambda>w. (w + 10 * second_ns, False)),
     re_tick = (\<lambda>b k w. (b + int k * (10 * second_ns), False)), re_now = (\<lambda>w. w)\<rparr>"

theorem recovery_ends_witness:
  "\<exists>evs. fst (await_recovery 30 sample_recovery_env ''a'' ''20'' (0, sample_db)) = Some (Streamed evs) \<and> last evs = RecDone"
proof -
  have "ticker_laws sample_recovery_env" by (simp add: ticker_laws_def sample_recovery_env_def)
  from recovery_ends [OF this, of 30 "''a''" "''20''" "(0, sample_db)"]
  obtain r where r: "fst (await_recovery 30 sample_recovery_env ''a'' ''20'' (0, sample_db)) = Some r"
    "case r of Streamed evs \<Rightarrow> last evs = RecDone \<and> pings evs \<le> 30 | NotStreamed n m \<Rightarrow> n = 404 | StreamPanic _ \<Rightarrow> False" by auto
  have "get_host sample_db ''a'' = Inr (read_host sample_db (sample_host ''a'' ''alpha''))"
    using sample_host_found by (simp add: sample_ops_def)
  then have "\<not> (\<exists>n m. r = NotStreamed n m)"
    using r(1) by (auto simp: await_recovery_def Let_def split: prod.splits bool.splits option.splits)
  with r show ?thesis by (cases r) auto
qed

end
