(* ===== verification/Views.thy ===== *)
theory Views
  imports HostOps Timestamp DbScans
begin

text \<open>
  What the dashboard shows of the hosts, \<open>cmd/server/spike.go\<close>: the view of a host made from its row
  and its last scan, the view of all hosts, the summary over them, and the data of the pages and
  fragments. The HTML templates that print these are not modelled. The clock is an argument.
\<close>

section \<open>The view of a host\<close>

record host_view =
  hv_id :: string
  hv_name :: string
  hv_address :: string
  hv_has_scan :: bool
  hv_updates :: nat
  hv_security :: int
  hv_needs_reboot :: bool
  hv_reboot_reason :: string
  hv_restarts :: nat
  hv_deferred :: nat
  hv_os_name :: string
  hv_os_version :: string
  hv_os_short :: string
  hv_uptime :: string
  hv_updated :: int
  hv_scan_age :: string
  hv_state :: string
  hv_tags :: "string list"
  hv_unverified :: bool
  hv_pending_key :: bool
  hv_restart_services :: "string list"
  hv_reboot_services :: "string list"
  hv_reboot_any :: bool
  hv_restart_only :: bool
  hv_self :: bool
  hv_exclude_bulk :: bool

text \<open>Go's zero time, in nanoseconds.\<close>

definition no_time :: int where
  "no_time = zero_time * second_ns"

definition empty_view :: "string \<Rightarrow> string \<Rightarrow> string \<Rightarrow> host_view" where
  "empty_view i name address = \<lparr>hv_id = i, hv_name = name, hv_address = address, hv_has_scan = False,
     hv_updates = 0, hv_security = 0, hv_needs_reboot = False, hv_reboot_reason = [], hv_restarts = 0, hv_deferred = 0,
     hv_os_name = [], hv_os_version = [], hv_os_short = [], hv_uptime = [], hv_updated = no_time, hv_scan_age = [],
     hv_state = [], hv_tags = [], hv_unverified = False, hv_pending_key = False, hv_restart_services = [],
     hv_reboot_services = [], hv_reboot_any = False, hv_restart_only = False, hv_self = False, hv_exclude_bulk = False\<rparr>"

definition resolve_restart_buckets :: "scan_snapshot \<Rightarrow> string list \<times> string list" where
  "resolve_restart_buckets s =
     (if length (sn_restart s) = 0 \<and> length (sn_reboot s) = 0 \<and> length (sn_needs_restart s) > 0
      then (sn_needs_restart s, []) else (sn_restart s, sn_reboot s))"

definition short_os :: "string \<Rightarrow> string \<Rightarrow> string" where
  "short_os name version =
     (let name = trim_space name; version = trim_space version in
      if name = [] then []
      else
        (let distro = (if CHR '' '' \<in> set name \<and> hd name \<noteq> CHR '' '' then takeWhile (\<lambda>c. c \<noteq> CHR '' '') name else name)
         in if version \<noteq> [] then distro @ '' '' @ version else distro))"

definition minute_ns :: int where
  "minute_ns = 60 * second_ns"

definition time_ago_short :: "int \<Rightarrow> int \<Rightarrow> string" where
  "time_ago_short now t =
     (if t = no_time then ''never''
      else (let d = now - t in
        if d < minute_ns then ''just now''
        else if d < 60 * minute_ns then itoa (d div minute_ns) @ ''m ago''
        else if d < 24 * 60 * minute_ns then itoa (d div (60 * minute_ns)) @ ''h ago''
        else itoa (d div (60 * minute_ns) div 24) @ ''d ago''))"

definition fill_from_snapshot :: "int \<Rightarrow> scan_snapshot \<Rightarrow> host_view \<Rightarrow> host_view" where
  "fill_from_snapshot now s v =
     (case resolve_restart_buckets s of (restartable, reboot_only) \<Rightarrow>
        v\<lparr>hv_has_scan := True, hv_updates := length (sn_packages s),
          hv_security := foldl (\<lambda>n p. if is_security_source (p_source p) then n + 1 else n) (hv_security v) (sn_packages s),
          hv_needs_reboot := sn_needs_reboot s, hv_reboot_reason := sn_reboot_reason s,
          hv_restarts := length (sn_needs_restart s), hv_restart_services := restartable, hv_reboot_services := reboot_only,
          hv_reboot_any := sn_needs_reboot s \<or> length reboot_only > 0,
          hv_restart_only := \<not> (sn_needs_reboot s \<or> length reboot_only > 0) \<and> length restartable > 0,
          hv_deferred := length (sn_deferred s), hv_os_name := sn_os_name s, hv_os_version := sn_os_version s,
          hv_os_short := short_os (sn_os_name s) (sn_os_version s), hv_uptime := sn_uptime s, hv_updated := sn_updated s,
          hv_scan_age := time_ago_short now (sn_updated s)\<rparr>)"

definition derive_state :: "host_view \<Rightarrow> string" where
  "derive_state v =
     (if hv_pending_key v then ''attention''
      else if hv_unverified v then ''unverified''
      else if \<not> hv_has_scan v then ''noscan''
      else if hv_needs_reboot v \<or> hv_restarts v > 0 then ''attention''
      else if hv_updates v > 0 then ''updates''
      else ''uptodate'')"

text \<open>\<open>strings.EqualFold\<close> with a word without the letters k and s folds ASCII case only.\<close>

definition set_host_meta :: "host \<Rightarrow> host_view \<Rightarrow> host_view" where
  "set_host_meta h v =
     v\<lparr>hv_tags := h_tags h, hv_exclude_bulk := h_exclude_bulk h,
       hv_unverified := (map lower_char (trim_space (h_trust_mode h)) = ''pinned'' \<and> trim_space (h_trusted h) = []),
       hv_pending_key := (trim_space (h_pending h) \<noteq> [])\<rparr>"

definition is_self_host :: "string \<Rightarrow> scan_snapshot \<Rightarrow> bool" where
  "is_self_host self_boot s \<longleftrightarrow> self_boot \<noteq> [] \<and> sn_boot_id s \<noteq> [] \<and> sn_boot_id s = self_boot"

text \<open>What both of the functions below do with a host and the snapshot they found for it.\<close>

definition view_with :: "int \<Rightarrow> string \<Rightarrow> scan_snapshot option \<Rightarrow> host \<Rightarrow> host_view" where
  "view_with now self_boot snap h =
     (let v = set_host_meta h (empty_view (h_id h) (h_name h) (h_address h));
          v = (case snap of
                 None \<Rightarrow> v
               | Some s \<Rightarrow> (fill_from_snapshot now s v)\<lparr>hv_self := is_self_host self_boot s\<rparr>)
      in v\<lparr>hv_state := derive_state v\<rparr>)"

text \<open>The fleet: a map from host to snapshot in which a later snapshot replaces an earlier one.\<close>

definition next_host_views :: "int \<Rightarrow> string \<Rightarrow> db \<Rightarrow> host_view list" where
  "next_host_views now self_boot d =
     (let by_id = map_of (rev (map (\<lambda>(_, s). (sn_host s, s)) (list_scan_snapshots d))) in
      map (\<lambda>h. view_with now self_boot (by_id (h_id h)) h) (list_hosts d))"

text \<open>One host: the first snapshot of the list that is its own.\<close>

definition next_host_view :: "int \<Rightarrow> string \<Rightarrow> db \<Rightarrow> string \<Rightarrow> db_err + host_view \<times> scan_snapshot option" where
  "next_host_view now self_boot d i =
     (case get_host d i of
        Inl e \<Rightarrow> Inl e
      | Inr h \<Rightarrow>
          (let snap = find (\<lambda>s. sn_host s = i) (map snd (list_scan_snapshots d))
           in Inr (view_with now self_boot snap h, snap)))"

section \<open>The summary\<close>

record summary =
  su_total :: nat
  su_attention :: nat
  su_uptodate :: nat
  su_updates :: nat
  su_security :: int
  su_reboot :: nat
  su_reboot_excluded :: nat
  su_restart :: nat
  su_last_scan :: string

definition empty_summary :: summary where
  "empty_summary = \<lparr>su_total = 0, su_attention = 0, su_uptodate = 0, su_updates = 0, su_security = 0, su_reboot = 0,
     su_reboot_excluded = 0, su_restart = 0, su_last_scan = []\<rparr>"

definition needs_attention :: "host_view \<Rightarrow> bool" where
  "needs_attention v \<longleftrightarrow> hv_pending_key v \<or> hv_unverified v \<or>
     (hv_has_scan v \<and> (hv_updates v > 0 \<or> hv_needs_reboot v \<or> hv_restarts v > 0))"

definition count_bulk :: "host_view \<Rightarrow> summary \<Rightarrow> summary" where
  "count_bulk v s =
     (if hv_reboot_any v then
        (if hv_self v \<or> hv_exclude_bulk v then s\<lparr>su_reboot_excluded := su_reboot_excluded s + 1\<rparr>
         else s\<lparr>su_reboot := su_reboot s + 1\<rparr>)
      else if hv_restart_only v \<and> \<not> hv_self v \<and> \<not> hv_exclude_bulk v then s\<lparr>su_restart := su_restart s + 1\<rparr>
      else s)"

definition summary_step ::
  "summary \<times> host_view list \<times> host_view list \<times> int \<Rightarrow> host_view \<Rightarrow> summary \<times> host_view list \<times> host_view list \<times> int" where
  "summary_step = (\<lambda>(s, attention, healthy, latest) v.
     let s = count_bulk v (s\<lparr>su_total := su_total s + 1, su_updates := su_updates s + hv_updates v,
                su_security := su_security s + hv_security v\<rparr>);
         (s, attention, healthy) =
           (if needs_attention v then (s\<lparr>su_attention := su_attention s + 1\<rparr>, attention @ [v], healthy)
            else (if hv_state v = ''uptodate'' then s\<lparr>su_uptodate := su_uptodate s + 1\<rparr> else s, attention, healthy @ [v]))
     in (s, attention, healthy, if hv_has_scan v \<and> hv_updated v > latest then hv_updated v else latest))"

definition build_summary :: "int \<Rightarrow> host_view list \<Rightarrow> summary \<times> host_view list \<times> host_view list" where
  "build_summary now views =
     (case foldl summary_step (empty_summary, [], [], no_time) views of
        (s, attention, healthy, latest) \<Rightarrow>
          (if latest \<noteq> no_time then s\<lparr>su_last_scan := time_ago_short now latest\<rparr> else s, attention, healthy))"

definition human_uptime :: "int \<Rightarrow> string" where
  "human_uptime sec =
     (if sec \<le> 0 then []
      else (let d = sec div 86400; h = sec mod 86400 div 3600; m = sec mod 3600 div 60 in
        if d > 0 then itoa d @ ''d '' @ itoa h @ ''h''
        else if h > 0 then itoa h @ ''h '' @ itoa m @ ''m''
        else itoa m @ ''m''))"

section \<open>What the loops compute\<close>

abbreviation count_if :: "('a \<Rightarrow> bool) \<Rightarrow> 'a list \<Rightarrow> nat" where
  "count_if P xs \<equiv> length (filter P xs)"

abbreviation swept :: "host_view \<Rightarrow> bool" where
  "swept v \<equiv> \<not> hv_self v \<and> \<not> hv_exclude_bulk v"

lemma summary_step_eq:
  "summary_step (s, a, h, l) v =
     (\<lparr>su_total = su_total s + 1, su_attention = su_attention s + (if needs_attention v then 1 else 0),
       su_uptodate = su_uptodate s + (if \<not> needs_attention v \<and> hv_state v = ''uptodate'' then 1 else 0),
       su_updates = su_updates s + hv_updates v, su_security = su_security s + hv_security v,
       su_reboot = su_reboot s + (if hv_reboot_any v \<and> swept v then 1 else 0),
       su_reboot_excluded = su_reboot_excluded s + (if hv_reboot_any v \<and> \<not> swept v then 1 else 0),
       su_restart = su_restart s + (if \<not> hv_reboot_any v \<and> hv_restart_only v \<and> swept v then 1 else 0),
       su_last_scan = su_last_scan s\<rparr>,
      a @ (if needs_attention v then [v] else []), h @ (if needs_attention v then [] else [v]),
      if hv_has_scan v \<and> hv_updated v > l then hv_updated v else l)"
  by (cases "needs_attention v"; cases "hv_reboot_any v"; cases "hv_self v"; cases "hv_exclude_bulk v")
     (simp_all add: summary_step_def count_bulk_def Let_def)

definition latest_scan :: "int \<Rightarrow> host_view list \<Rightarrow> int" where
  "latest_scan l vs = foldl (\<lambda>l v. if hv_has_scan v \<and> hv_updated v > l then hv_updated v else l) l vs"

lemma summary_loop:
  "foldl summary_step (s, a, h, l) vs =
     (\<lparr>su_total = su_total s + length vs, su_attention = su_attention s + count_if needs_attention vs,
       su_uptodate = su_uptodate s + count_if (\<lambda>v. \<not> needs_attention v \<and> hv_state v = ''uptodate'') vs,
       su_updates = su_updates s + sum_list (map hv_updates vs), su_security = su_security s + sum_list (map hv_security vs),
       su_reboot = su_reboot s + count_if (\<lambda>v. hv_reboot_any v \<and> swept v) vs,
       su_reboot_excluded = su_reboot_excluded s + count_if (\<lambda>v. hv_reboot_any v \<and> \<not> swept v) vs,
       su_restart = su_restart s + count_if (\<lambda>v. \<not> hv_reboot_any v \<and> hv_restart_only v \<and> swept v) vs,
       su_last_scan = su_last_scan s\<rparr>,
      a @ filter needs_attention vs, h @ filter (\<lambda>v. \<not> needs_attention v) vs, latest_scan l vs)"
proof (induction vs arbitrary: s a h l)
  case (Cons v vs)
  then show ?case by (simp add: summary_step_eq latest_scan_def)
qed (simp add: latest_scan_def)

lemma count_if_split: "count_if (\<lambda>v. P v \<and> Q v) vs + count_if (\<lambda>v. P v \<and> \<not> Q v) vs = count_if P vs"
  by (induction vs) auto

text \<open>C31
  The fleet line counts what is there: every host is in exactly one of the two groups, each host that
  needs a reboot is counted once, as one that a fleet-wide reboot would touch or as one held back, and the
  machine Patchdeck runs on and protected hosts are never among those a fleet-wide action would touch.\<close>

theorem summary_exact:
  "case build_summary now views of (s, attention, healthy) \<Rightarrow>
     mset attention + mset healthy = mset views \<and> su_total s = length attention + length healthy \<and>
     su_attention s = length attention \<and>
     su_reboot s + su_reboot_excluded s = count_if hv_reboot_any views \<and>
     su_reboot s + su_restart s = count_if (\<lambda>v. swept v \<and> (hv_reboot_any v \<or> hv_restart_only v)) views \<and>
     su_updates s = sum_list (map hv_updates attention) + sum_list (map hv_updates healthy)"
proof -
  have r: "count_if (\<lambda>v. hv_reboot_any v \<and> swept v) views + count_if (\<lambda>v. \<not> hv_reboot_any v \<and> hv_restart_only v \<and> swept v) views =
      count_if (\<lambda>v. swept v \<and> (hv_reboot_any v \<or> hv_restart_only v)) views"
    by (induction views) auto
  have u: "sum_list (map hv_updates views) = sum_list (map hv_updates (filter needs_attention views)) +
      sum_list (map hv_updates (filter (\<lambda>v. \<not> needs_attention v) views))" by (induction views) auto
  have n: "length views = count_if needs_attention views + count_if (\<lambda>v. \<not> needs_attention v) views"
    by (simp add: sum_length_filter_compl)
  show ?thesis
    using count_if_split [of hv_reboot_any swept views] r u n
    by (auto simp: build_summary_def summary_loop empty_summary_def)
qed

text \<open>The groups of the summary are those of the state shown on the card.\<close>

lemma attention_by_state:
  "hv_state v = derive_state v \<Longrightarrow>
     needs_attention v \<longleftrightarrow> hv_state v \<in> {''attention'', ''unverified'', ''updates''} \<and> (hv_has_scan v \<or> hv_pending_key v \<or> hv_unverified v)"
  by (auto simp: needs_attention_def derive_state_def)

section \<open>One host and the fleet\<close>

definition scans_unique :: "db \<Rightarrow> bool" where
  "scans_unique d \<longleftrightarrow> distinct (map sn_host (d_scans d))"

lemma map_filter_sn_host:
  "map (sn_host \<circ> snd) (List.map_filter (\<lambda>s. map_option (\<lambda>h. (h_name h, s)) (f s)) ss) = map sn_host (filter (\<lambda>s. f s \<noteq> None) ss)"
  by (induction ss) (auto simp: List.map_filter_simps split: option.split)

lemma snapshots_distinct:
  assumes "scans_unique d"
  shows "distinct (map (sn_host \<circ> snd) (list_scan_snapshots d))"
proof -
  have m: "mset (map f (sort_key k xs)) = mset (map f xs)" for f :: "'a \<Rightarrow> 'b" and k :: "'a \<Rightarrow> 'c::linorder" and xs
    by (simp add: mset_map)
  have "distinct (map sn_host (filter P (d_scans d)))" for P
    using assms distinct_map_filter by (auto simp: scans_unique_def)
  then have "distinct (map (sn_host \<circ> snd) (List.map_filter
      (\<lambda>s. map_option (\<lambda>h. (h_name h, s)) (lookup_row h_id (sn_host s) (d_hosts d))) (d_scans d)))"
    by (simp only: map_filter_sn_host)
  then show ?thesis
    unfolding list_scan_snapshots_def using mset_eq_imp_distinct_iff [OF m] by blast
qed

lemma map_of_find:
  "distinct (map f xs) \<Longrightarrow> map_of (rev (map (\<lambda>x. (f x, x)) xs)) i = find (\<lambda>x. f x = i) xs"
proof (induction xs)
  case (Cons x xs)
  have "map_of (rev (map (\<lambda>x. (f x, x)) xs)) (f x) = None" using Cons.prems by (auto simp: map_of_eq_None_iff)
  with Cons show ?case by (auto simp: map_add_def split: option.split)
qed simp

lemma view_with_id: "hv_id (view_with now boot snap h) = h_id h"
  by (simp add: view_with_def Let_def set_host_meta_def empty_view_def fill_from_snapshot_def split: option.split prod.split)

lemma view_with_secret: "view_with now boot snap (h\<lparr>h_secret := x\<rparr>) = view_with now boot snap h"
  by (simp add: view_with_def set_host_meta_def)

lemma unique_filter: "distinct (map f xs) \<Longrightarrow> find (\<lambda>x. f x = i) xs = Some x \<Longrightarrow> filter (\<lambda>x. f x = i) xs = [x]"
proof (induction xs)
  case (Cons y ys)
  have "f y = i \<Longrightarrow> filter (\<lambda>x. f x = i) ys = []" using Cons.prems(1) by (auto simp: filter_empty_conv) (metis imageI)
  with Cons show ?case by (auto split: if_splits)
qed simp

text \<open>
  A card refreshed on its own shows what the dashboard would show: the view of one host and its view in
  the fleet are made in different ways and are the same.\<close>

theorem card_matches_dashboard:
  assumes "scans_unique d" "hosts_unique d" "next_host_view now boot d i = Inr (v, snap)"
  shows "filter (\<lambda>v. hv_id v = i) (next_host_views now boot d) = [v]"
proof -
  obtain h where h: "lookup_row h_id i (d_hosts d) = Some h"
    using assms(3) by (auto simp: next_host_view_def get_host_def split: option.splits)
  have "filter (\<lambda>r. h_id r = i) (d_hosts d) = [h]"
    using assms(2) h unfolding hosts_unique_def lookup_row_def by (auto intro: unique_filter)
  then have row: "filter (\<lambda>r. h_id r = i) (list_hosts d) = [(read_host d h)\<lparr>h_secret := []\<rparr>]"
    by (simp add: list_hosts_def filter_map comp_def filter_sort)
  let ?snaps = "map snd (list_scan_snapshots d)"
  have "map (\<lambda>(_, s). (sn_host s, s)) (list_scan_snapshots d) = map (\<lambda>s. (sn_host s, s)) ?snaps" by auto
  then have by_id: "map_of (rev (map (\<lambda>(_, s). (sn_host s, s)) (list_scan_snapshots d))) i = find (\<lambda>s. sn_host s = i) ?snaps"
    using map_of_find [of sn_host ?snaps i] snapshots_distinct [OF assms(1)] by (simp add: comp_def split_def)
  have i: "h_id h = i" using lookup_row_Some [OF h] by simp
  have "next_host_views now boot d = map (\<lambda>h. view_with now boot
      (map_of (rev (map (\<lambda>(_, s). (sn_host s, s)) (list_scan_snapshots d))) (h_id h)) h) (list_hosts d)"
    by (simp add: next_host_views_def)
  then have "filter (\<lambda>v. hv_id v = i) (next_host_views now boot d) =
      [view_with now boot (find (\<lambda>s. sn_host s = i) ?snaps) ((read_host d h)\<lparr>h_secret := []\<rparr>)]"
    using by_id i by (simp add: filter_map comp_def view_with_id row)
  then show ?thesis
    using assms(3) by (auto simp: next_host_view_def get_host_def h view_with_secret Let_def)
qed

theorem card_matches_dashboard_witness:
  "\<exists>v. filter (\<lambda>v. hv_id v = ''b'') (next_host_views 5 ''boot'' sample_db) = [v] \<and> hv_state v = ''noscan''"
proof -
  have l: "lookup_row h_id ''b'' (d_hosts sample_db) = Some (sample_host ''b'' ''beta'')"
    by (simp add: lookup_row_def sample_db_def sample_host_def)
  obtain v sn where v: "next_host_view 5 ''boot'' sample_db ''b'' = Inr (v, sn)"
    by (simp add: next_host_view_def get_host_def l Let_def)
  have "list_scan_snapshots sample_db = []" by (simp add: list_scan_snapshots_def sample_db_def empty_db_def List.map_filter_simps)
  moreover have "trim_space ''tofu'' = ''tofu''" by code_simp
  ultimately have "hv_state v = ''noscan''"
    using v by (auto simp: next_host_view_def get_host_def l Let_def view_with_def derive_state_def set_host_meta_def read_host_def
        sample_host_def empty_view_def lower_char_def is_upper_def byte_of_def)
  moreover have "scans_unique sample_db" "hosts_unique sample_db"
    by (simp_all add: scans_unique_def hosts_unique_def host_target_def sample_db_def empty_db_def sample_host_def)
  ultimately show ?thesis using card_matches_dashboard [OF _ _ v] by blast
qed

end
