(* ===== verification/DashboardOps.thy ===== *)
theory DashboardOps
  imports Views Connectivity
begin

text \<open>
  The dashboard's actions on a host, \<open>cmd/server/spike_actions.go\<close> and \<open>spike_restart.go\<close>: reboot and
  shutdown, the restart of what a restart can clear with the marks that teach the next scan, and the
  protection from fleet-wide actions; and the pages and fragments of \<open>spike.go\<close>, each as the template's
  name and the data it is given.
\<close>

datatype page = HttpError nat string
  | ActionOk string string string | ActionFailed string string string
  | RestartReport string string string "string list" bool "string list" bool
  | RebootPanel string string string | RebootWatch string bool string
  | PowerConfirm string string string string bool
  | RestartConfirm string string nat "string list" string
  | ApplyConfirm string string nat string
  | BulkProtect string bool bool
  | Dashboard summary "host_view list" bool int int int
  | Detail host_view "scan_snapshot option" "host option" host_prefs
  | Card host_view | Panel string string string string
  | Dot string bool | ConnLine string bool string string

text \<open>What these handlers read besides the state: the clock, the boot id of Patchdeck's own machine, the configuration.\<close>

record dash_env =
  de_self_boot :: string
  de_bulk :: int
  de_stagger :: int
  de_exec_timeout :: int

section \<open>Power\<close>

definition next_power ::
  "'w ops_env \<Rightarrow> string \<Rightarrow> (host \<Rightarrow> page) \<Rightarrow> string \<Rightarrow> 'w ops \<Rightarrow> page \<times> 'w ops" where
  "next_power env action ok_page i s =
     (case get_host (op_db s) i of
        Inl _ \<Rightarrow> (HttpError 404 ''host not found'', s)
      | Inr h \<Rightarrow>
          (case client_power env h action s of
             (Some e, s) \<Rightarrow>
               (ActionFailed (h_id h) (title_word action @ '' failed'') (err_text e),
                ops_activity env h (action @ ''_fail'') (title_word action @ '' failed: '' @ err_text e) s)
           | (None, s) \<Rightarrow>
               (ok_page h, ops_activity env h (action @ ''_ok'') (title_word action @ '' initiated on '' @ h_name h) s)))"

definition next_reboot :: "'w ops_env \<Rightarrow> string \<Rightarrow> string \<Rightarrow> 'w ops \<Rightarrow> page \<times> 'w ops" where
  "next_reboot env i ctx = next_power env ''reboot'' (\<lambda>h. RebootPanel (h_id h) (h_name h) ctx) i"

definition next_shutdown :: "'w ops_env \<Rightarrow> string \<Rightarrow> 'w ops \<Rightarrow> page \<times> 'w ops" where
  "next_shutdown env i =
     next_power env ''shutdown''
       (\<lambda>h. ActionOk (h_id h) ''Shutdown initiated''
          (h_name h @ '' is powering off. It won'' @ [squote] @ ''t return until it'' @ [squote] @ ''s powered back on.'')) i"

section \<open>The smart restart\<close>

definition left_quote :: string where
  "left_quote = [CHR 0xE2, CHR 0x80, CHR 0x9C]"

definition right_quote :: string where
  "right_quote = [CHR 0xE2, CHR 0x80, CHR 0x9D]"

definition mark_dispatched :: "int \<Rightarrow> string \<Rightarrow> string \<Rightarrow> string list \<Rightarrow> db \<Rightarrow> db" where
  "mark_dispatched now i boot = fold (\<lambda>svc. set_restart_mark now i svc boot)"

definition restart_breakdown :: "string \<Rightarrow> string list" where
  "restart_breakdown output = (if trim_space output \<noteq> [] then split_on NL (trim_space output) else [])"

definition smart_ok_text :: "restart_result \<Rightarrow> string" where
  "smart_ok_text res =
     (if length (rr_failed res) > 0
      then ''Restarted '' @ itoan (length (rr_dispatched res)) @ '' service(s); '' @ itoan (length (rr_failed res)) @
             '' could not be restarted (see below). Re-scanning to confirm.''
      else ''Restarted '' @ itoan (length (rr_dispatched res)) @ '' service(s). Re-scanning to confirm'' @ dash @
             ''any that come back flagged move to '' @ left_quote @ ''reboot required'' @ right_quote @ ''.'')"

definition smart_activity_text :: "restart_result \<Rightarrow> string" where
  "smart_activity_text res =
     ''Smart restart: '' @ itoan (length (rr_dispatched res)) @ '' dispatched ('' @ itoan (length (rr_dispatched res)) @
     '' watched), '' @ itoan (length (rr_failed res)) @ '' failed, '' @ itoan (length (rr_reboot_required res)) @ '' reboot-required''"

text \<open>The last snapshot, or the empty one; and what a restart can act on.\<close>

definition restartable_of :: "(string \<times> scan_snapshot) option \<Rightarrow> string list" where
  "restartable_of snap = (case snap of None \<Rightarrow> [] | Some (_, s) \<Rightarrow> fst (resolve_restart_buckets s))"

definition boot_of :: "(string \<times> scan_snapshot) option \<Rightarrow> string" where
  "boot_of snap = (case snap of None \<Rightarrow> [] | Some (_, s) \<Rightarrow> sn_boot_id s)"

definition next_restart_smart :: "'w ops_env \<Rightarrow> string \<Rightarrow> string \<Rightarrow> 'w ops \<Rightarrow> page \<times> 'w ops" where
  "next_restart_smart env i ctx s =
     (case get_host (op_db s) i of
        Inl _ \<Rightarrow> (HttpError 404 ''host not found'', s)
      | Inr h \<Rightarrow>
          (let snap = get_scan_snapshot (op_db s) i; restartable = restartable_of snap in
           if length restartable = 0
           then (ActionOk (h_id h) ''Nothing to restart'' ''No services are flagged for a restart right now.'', s)
           else (case client_restart env h (\<lambda>priv w. restart_deferred_detached priv w restartable) s of
               ((res, err), s) \<Rightarrow>
                 if is_host_key_err err
                 then (ActionFailed (h_id h) ''Restart failed'' (err_text (the err)),
                       ops_activity env h ''restart_fail'' (''Smart restart failed: '' @ err_text (the err)) s)
                 else
                   (RestartReport (h_id h)
                      (if length (rr_failed res) > 0 then ''Restart finished with issues'' else ''Services restarted'')
                      (smart_ok_text res) (restart_breakdown (rr_output res)) (length (rr_failed res) > 0)
                      (rr_reboot_required res) (ctx = ''bulk''),
                    ops_activity env h (if length (rr_failed res) > 0 then ''restart_fail'' else ''restart_ok'')
                      (smart_activity_text res)
                      (in_ops_db env (\<lambda>now. mark_dispatched now (h_id h) (boot_of snap) (rr_dispatched res)) s)))))"

definition next_restart_confirm_smart :: "int \<Rightarrow> dash_env \<Rightarrow> string \<Rightarrow> string \<Rightarrow> db \<Rightarrow> page" where
  "next_restart_confirm_smart now env i out d =
     (case next_host_view now (de_self_boot env) d i of
        Inl _ \<Rightarrow> HttpError 404 ''host not found''
      | Inr (v, snap) \<Rightarrow>
          (let restartable = (case snap of None \<Rightarrow> [] | Some s \<Rightarrow> fst (resolve_restart_buckets s))
           in RestartConfirm (hv_id v) (hv_name v) (length restartable) (filter is_disruptive restartable) out))"

definition next_toggle_exclude_bulk :: "'w ops_env \<Rightarrow> dash_env \<Rightarrow> string \<Rightarrow> 'w ops \<Rightarrow> page \<times> 'w ops" where
  "next_toggle_exclude_bulk env de i s =
     (case get_host (op_db s) i of
        Inl _ \<Rightarrow> (HttpError 404 ''host not found'', s)
      | Inr h \<Rightarrow>
          (let want = \<not> h_exclude_bulk h;
               s = s\<lparr>op_db := set_host_exclude_from_bulk i want (op_db s)\<rparr>;
               verb = (if want then ''protected from fleet reboots'' else ''returned to fleet reboots'');
               s = in_ops_db env (\<lambda>now. record_activity now i (h_name h) ''host_updated'' (h_name h @ '' '' @ verb)) s;
               self = (case get_scan_snapshot (op_db s) i of None \<Rightarrow> False | Some (_, sn) \<Rightarrow> is_self_host (de_self_boot de) sn)
           in (BulkProtect i want self, s)))"

section \<open>Pages\<close>

definition with_view :: "int \<Rightarrow> dash_env \<Rightarrow> string \<Rightarrow> db \<Rightarrow> (host_view \<Rightarrow> scan_snapshot option \<Rightarrow> page) \<Rightarrow> page" where
  "with_view now env i d f =
     (case next_host_view now (de_self_boot env) d i of
        Inl _ \<Rightarrow> HttpError 404 ''host not found''
      | Inr (v, snap) \<Rightarrow> f v snap)"

definition next_reboot_confirm :: "int \<Rightarrow> dash_env \<Rightarrow> string \<Rightarrow> string \<Rightarrow> db \<Rightarrow> page" where
  "next_reboot_confirm now env i out d =
     with_view now env i d (\<lambda>v _. PowerConfirm ''rebootconfirm'' (hv_id v) (hv_name v) out (hv_self v))"

definition next_shutdown_confirm :: "int \<Rightarrow> dash_env \<Rightarrow> string \<Rightarrow> string \<Rightarrow> db \<Rightarrow> page" where
  "next_shutdown_confirm now env i out d =
     with_view now env i d (\<lambda>v _. PowerConfirm ''shutdownconfirm'' (hv_id v) (hv_name v) out (hv_self v))"

definition next_apply_confirm :: "int \<Rightarrow> dash_env \<Rightarrow> string \<Rightarrow> string \<Rightarrow> db \<Rightarrow> page" where
  "next_apply_confirm now env i ctx d =
     with_view now env i d (\<lambda>v _. ApplyConfirm (hv_id v) (hv_name v) (hv_updates v) ctx)"

definition next_card :: "int \<Rightarrow> dash_env \<Rightarrow> string \<Rightarrow> db \<Rightarrow> page" where
  "next_card now env i d = with_view now env i d (\<lambda>v _. Card v)"

definition next_detail :: "int \<Rightarrow> dash_env \<Rightarrow> string \<Rightarrow> db \<Rightarrow> page" where
  "next_detail now env i d =
     with_view now env i d (\<lambda>v snap. Detail v snap
        (case get_host d i of Inl _ \<Rightarrow> None | Inr h \<Rightarrow> Some h) (get_host_notification_prefs d i))"

definition next_panel :: "string \<Rightarrow> string \<Rightarrow> string \<Rightarrow> db \<Rightarrow> page" where
  "next_panel template i ctx d =
     (case get_host d i of Inl _ \<Rightarrow> HttpError 404 ''host not found'' | Inr h \<Rightarrow> Panel template (h_id h) (h_name h) ctx)"

text \<open>The browser's watchdog for a stream is the timeout of a command and a minute, in milliseconds.\<close>

definition next_dashboard :: "int \<Rightarrow> dash_env \<Rightarrow> db \<Rightarrow> page" where
  "next_dashboard now env d =
     (let views = next_host_views now (de_self_boot env) d in
      Dashboard (fst (build_summary now views)) views (list_ex (\<lambda>v. length (hv_tags v) > 0) views)
        (de_bulk env) (de_stagger env) (de_exec_timeout env div 1000000 + 60000))"

definition next_dot :: "'w probe_env \<Rightarrow> string \<Rightarrow> 'w \<times> db \<Rightarrow> page \<times> 'w \<times> db" where
  "next_dot env i x = (case probe_connectivity env i x of (y, st) \<Rightarrow> (Dot i (cs_connected st), y))"

definition next_conn_line :: "'w probe_env \<Rightarrow> string \<Rightarrow> 'w \<times> db \<Rightarrow> page \<times> 'w \<times> db" where
  "next_conn_line env i x =
     (case probe_connectivity env i x of (y, st) \<Rightarrow> (ConnLine i (cs_connected st) (cs_error st) (human_uptime (cs_uptime st)), y))"

definition next_reboot_watch :: "'w probe_env \<Rightarrow> string \<Rightarrow> string \<Rightarrow> 'w \<times> db \<Rightarrow> page \<times> 'w \<times> db" where
  "next_reboot_watch env i ctx x =
     (case probe_connectivity env i x of (y, st) \<Rightarrow> (RebootWatch i (cs_connected st) ctx, y))"

section \<open>Marks\<close>

text \<open>Marking other services keeps a mark; so all dispatched services are marked with the boot of the scan.\<close>

lemma set_restart_mark_keeps:
  "m \<in> set (d_marks d) \<Longrightarrow> m_service m \<noteq> s \<Longrightarrow> m \<in> set (d_marks (set_restart_mark t i s b d))"
  by (auto simp: set_restart_mark_def Let_def update_rows_def image_iff)

lemma mark_dispatched_keeps:
  "m \<in> set (d_marks d) \<Longrightarrow> m_service m \<notin> set ss \<Longrightarrow> m \<in> set (d_marks (mark_dispatched t i b ss d))"
  by (induction ss arbitrary: d) (auto simp: mark_dispatched_def set_restart_mark_keeps)

lemma mark_dispatched_marks:
  "s \<in> set ss \<Longrightarrow> \<exists>m \<in> set (d_marks (mark_dispatched t i b ss d)). m_host m = i \<and> m_service m = s \<and> m_boot m = trim_space b"
proof (induction ss arbitrary: d)
  case (Cons x ss)
  show ?case
  proof (cases "s \<in> set ss")
    case True
    then show ?thesis using Cons.IH by (simp add: mark_dispatched_def)
  next
    case False
    then have "x = s" using Cons.prems by simp
    obtain m where m: "m \<in> set (d_marks (set_restart_mark t i s b d))" "m_host m = i" "m_service m = s"
      using set_restart_mark_marks(2) [of t i s b d] by blast
    from mark_dispatched_keeps [OF m(1), of ss t i b] m False set_restart_mark_marks(1) [OF m]
    show ?thesis by (auto simp: mark_dispatched_def \<open>x = s\<close>)
  qed
qed simp

lemma record_activity_tables [simp]:
  "d_marks (record_activity a b c e f d) = d_marks d" "d_hosts (record_activity a b c e f d) = d_hosts d"
  by (simp_all add: record_activity_def)

text \<open>What the snapshot after a scan lets the next smart restart do.\<close>

lemma resistant_not_restartable:
  assumes "svc \<in> resistant_services i (sr_needs_restart sr) (sr_boot_id sr) d"
  shows "svc \<notin> set (restartable_of (get_scan_snapshot (snd (upsert_scan_result uid t i sr d)) i))"
proof -
  let ?r = "\<lambda>x. x \<in> resistant_services i (sr_needs_restart sr) (sr_boot_id sr) d"
  obtain rs rb where c: "classify (sr_needs_restart sr) (sr_handlers sr) ?r = (rs, rb)"
    and l: "lookup_row sn_host i (d_scans (snd (upsert_scan_result uid t i sr d))) = Some (snapshot_row t i sr rs rb)"
    using snapshot_after_upsert by blast
  have n: "svc \<notin> set rs" using cls.bucket_resistant [of ?r svc] c assms by (metis fst_conv)
  have "svc \<in> set (sr_needs_restart sr)" using assms by (auto simp: resistant_services_def mark_stays_def)
  then have "svc \<in> set rb"
    using n cls.bucket_union [of "sr_needs_restart sr" "sr_handlers sr" ?r] c by auto
  then have "rb \<noteq> []" by auto
  with n l show ?thesis
    by (auto simp: restartable_of_def get_scan_snapshot_def resolve_restart_buckets_def snapshot_row_def split: option.split)
qed

text \<open>C32
  The smart restart learns: a service it restarted that the next scan still finds flagged on the same boot
  is not among those the next smart restart acts on, so no service is restarted in vain twice on one boot.\<close>

theorem smart_restart_learns:
  assumes host: "get_host (op_db s) i = Inr h" and snap: "get_scan_snapshot (op_db s) i = Some (n, snap)"
    and sent: "client_restart env h (\<lambda>priv w. restart_deferred_detached priv w (restartable_of (Some (n, snap)))) s = ((res, err), s0)"
      "\<not> is_host_key_err err" "svc \<in> set (rr_dispatched res)" "restartable_of (Some (n, snap)) \<noteq> []"
    and acted: "next_restart_smart env i ctx s = (pg, s1)"
    and scan: "d_marks d = d_marks (op_db s1)" "svc \<in> set (sr_needs_restart sr)"
      "trim_space (sr_boot_id sr) = trim_space (sn_boot_id snap)" "trim_space (sn_boot_id snap) \<noteq> []"
  shows "svc \<notin> set (restartable_of (get_scan_snapshot (snd (upsert_scan_result uid t i sr d)) i))"
proof (rule resistant_not_restartable)
  have i: "h_id h = i" using host by (auto simp: get_host_def dest: lookup_row_Some split: option.splits)
  have "\<exists>t'. d_marks (op_db s1) = d_marks (mark_dispatched t' i (sn_boot_id snap) (rr_dispatched res) (op_db s0))"
    using acted sent(2,4) by (auto simp: next_restart_smart_def host snap sent(1) i Let_def boot_of_def ops_activity_def in_ops_db_def)
  then obtain t' where "d_marks d = d_marks (mark_dispatched t' i (sn_boot_id snap) (rr_dispatched res) (op_db s0))"
    using scan(1) by auto
  then obtain m where "m \<in> set (d_marks d)" "m_host m = i" "m_service m = svc" "m_boot m = trim_space (sn_boot_id snap)"
    using mark_dispatched_marks [OF sent(3), of t' i "sn_boot_id snap" "op_db s0"] by auto
  then show "svc \<in> resistant_services i (sr_needs_restart sr) (sr_boot_id sr) d"
    using scan(2-4) unfolding resistant_services_def by (force simp: mark_stays_def)
qed

definition batch_ops_env :: "int ops_env" where
  "batch_ops_env = sample_ops_env\<lparr>oe_priv := (\<lambda>h x c. (x, ''PDSVCRESULT'' @ TAB # ''cron'' @ TAB # ''0'' @ [TAB], None))\<rparr>"

definition flagged_ops :: "int ops" where
  "flagged_ops = sample_ops\<lparr>op_db := snd (upsert_scan_result ''u'' 5 ''a'' (sample_scan [''cron''] ''boot1'') sample_db)\<rparr>"

theorem smart_restart_learns_witness:
  "\<exists>pg s1. next_restart_smart batch_ops_env ''a'' ''bulk'' flagged_ops = (pg, s1) \<and>
     ''cron'' \<in> set (restartable_of (get_scan_snapshot (op_db flagged_ops) ''a'')) \<and>
     ''cron'' \<notin> set (restartable_of (get_scan_snapshot (snd (upsert_scan_result ''v'' 9 ''a'' (sample_scan [''cron''] ''boot1'') (op_db s1))) ''a''))"
proof -
  obtain pg s1 where r: "next_restart_smart batch_ops_env ''a'' ''bulk'' flagged_ops = (pg, s1)" by fastforce
  have e: "case get_scan_snapshot (op_db flagged_ops) ''a'' of None \<Rightarrow> False
      | Some (n, sn) \<Rightarrow> sn_restart sn = [''cron''] \<and> sn_reboot sn = [] \<and> sn_boot_id sn = ''boot1''" by code_simp
  obtain n sn where sn: "get_scan_snapshot (op_db flagged_ops) ''a'' = Some (n, sn)" "sn_restart sn = [''cron'']" "sn_boot_id sn = ''boot1''"
    using e by (auto split: option.splits)
  have rs: "restartable_of (Some (n, sn)) = [''cron'']" by (simp add: restartable_of_def resolve_restart_buckets_def sn)
  obtain h where h: "get_host (op_db flagged_ops) ''a'' = Inr h"
    using sample_host_found
    by (auto simp: flagged_ops_def get_host_def upsert_tables(3) sample_ops_def split: option.splits)
  obtain res err s0 where c: "client_restart batch_ops_env h (\<lambda>priv w. restart_deferred_detached priv w [''cron'']) flagged_ops = ((res, err), s0)"
    by (metis surj_pair)
  have "client_restart batch_ops_env h f flagged_ops = client_restart batch_ops_env (sample_host ''a'' ''alpha'') f flagged_ops" for f
    by (simp add: client_restart_def batch_ops_env_def)
  moreover have "case client_restart batch_ops_env (sample_host ''a'' ''alpha'') (\<lambda>priv w. restart_deferred_detached priv w [''cron'']) flagged_ops of
      ((r, e), _) \<Rightarrow> rr_dispatched r = [''cron''] \<and> \<not> is_host_key_err e" by code_simp
  ultimately have res: "rr_dispatched res = [''cron'']" "\<not> is_host_key_err err" using c by auto
  have "trim_space ''boot1'' = ''boot1''" by code_simp
  then have "''cron'' \<notin> set (restartable_of (get_scan_snapshot (snd (upsert_scan_result ''v'' 9 ''a'' (sample_scan [''cron''] ''boot1'') (op_db s1))) ''a''))"
    using smart_restart_learns [OF h sn(1) c [folded rs] res(2) _ _ r refl, of "''cron''" "sample_scan [''cron''] ''boot1''"] res rs
    by (simp add: sample_scan_def sn)
  with r rs show ?thesis by (simp add: sn(1))
qed

end
