(* ===== verification/SettingsRequests.thy ===== *)
theory SettingsRequests
  imports Senders HostOps DbScans Oidc Machine Simulation
begin

text \<open>
  The settings in \<open>cmd/server/main.go\<close> and \<open>cmd/server/spike_settings.go\<close>: the notification target and its
  test, API tokens and the retention of the audit log, by JSON and by form; with the lists and small
  pages that only read. Live API tokens refine a set of pairs of id and hash.
\<close>

section \<open>The notification target\<close>

definition has_any :: "string \<Rightarrow> string \<Rightarrow> bool" where
  "has_any s cs \<longleftrightarrow> list_ex (\<lambda>c. c \<in> set cs) s"

definition example_text :: string where
  "example_text = ''apprise_url must look like a notification URL (example: gotify://, ntfy://, discord://, mailto://)''"

definition unsupported_target_text :: "(string \<Rightarrow> string) \<Rightarrow> string \<Rightarrow> string" where
  "unsupported_target_text quoted scheme =
     ''unsupported notification scheme '' @ quoted scheme @ '' '' @ em_dash @ '' supported: '' @ join '', '' supported_schemes"

definition validate_apprise_target :: "(string \<Rightarrow> string) \<Rightarrow> string \<Rightarrow> bool \<Rightarrow> string" where
  "validate_apprise_target quoted raw allow_empty =
     (let value = trim_space raw in
      if value = [] then (if allow_empty then [] else ''apprise_url is required'')
      else if length value > 2048 then ''apprise_url is too long''
      else if has_any value ('' '' @ [TAB, NL, CHR 0x0D]) then ''apprise_url must not contain whitespace''
      else if has_any value '',;'' then ''apprise_url must be a single destination URL''
      else if \<not> contains value ''://'' then example_text
      else if \<not> scheme_supported (scheme_of value) then unsupported_target_text quoted (scheme_of value)
      else [])"

section \<open>Notification settings\<close>

text \<open>The settings as they are shown: without a target of its own the program uses the configured one.\<close>

definition shown_settings :: "string \<Rightarrow> db \<Rightarrow> notification_settings" where
  "shown_settings configured d =
     (let s = get_notification_settings d
      in if trim_space (ns_url s) = [] then s\<lparr>ns_url := configured\<rparr> else s)"

text \<open>A JSON body is decoded on top of the stored settings, so a field it leaves out is not changed.\<close>

record notif_req =
  nq_url :: "string option"
  nq_updates :: "bool option"
  nq_apply_ok :: "bool option"
  nq_apply_fail :: "bool option"
  nq_scan_fail :: "bool option"
  nq_delivery :: "string option"
  nq_always :: "bool option"

definition or_old :: "'a option \<Rightarrow> 'a \<Rightarrow> 'a" where
  "or_old new old = (case new of None \<Rightarrow> old | Some x \<Rightarrow> x)"

definition decode_onto :: "notif_req \<Rightarrow> notification_settings \<Rightarrow> notification_settings" where
  "decode_onto q s =
     \<lparr>ns_url = or_old (nq_url q) (ns_url s), ns_updates = or_old (nq_updates q) (ns_updates s),
      ns_apply_ok = or_old (nq_apply_ok q) (ns_apply_ok s), ns_apply_fail = or_old (nq_apply_fail q) (ns_apply_fail s),
      ns_scan_fail = or_old (nq_scan_fail q) (ns_scan_fail s), ns_delivery = or_old (nq_delivery q) (ns_delivery s),
      ns_always = or_old (nq_always q) (ns_always s)\<rparr>"

definition put_notification_settings :: "(string \<Rightarrow> string) \<Rightarrow> notif_req option \<Rightarrow> db \<Rightarrow> response \<times> db" where
  "put_notification_settings quoted body d =
     (case body of
        None \<Rightarrow> ((400, ''invalid json''), d)
      | Some q \<Rightarrow>
          (let req = decode_onto q (get_notification_settings d); dl = trim_space (ns_delivery req);
               err = validate_apprise_target quoted (ns_url req) True in
           if dl \<noteq> delivery_digest \<and> dl \<noteq> delivery_per_host
           then ((400, ''delivery must be \"digest\" or \"per_host\"''), d)
           else if err \<noteq> [] then ((400, err), d)
           else ((200, ''notification settings updated''), upsert_notification_settings req d)))"

definition test_notification_settings ::
  "'w ops_env \<Rightarrow> notify_env \<Rightarrow> int \<Rightarrow> string option \<Rightarrow> db \<Rightarrow> response" where
  "test_notification_settings env nenv now body d =
     (case body of
        None \<Rightarrow> (400, ''invalid json'')
      | Some raw \<Rightarrow>
          (let target = (if trim_space raw = [] then current_apprise_url env d else trim_space raw);
               err = validate_apprise_target (ne_quoted nenv) target False in
           if err \<noteq> [] then (400, err)
           else (case send_text nenv target (''Patchdeck notification test from '' @ format_rfc3339 (now div 1000000000)) of
               Some e \<Rightarrow> (502, ''Test notification failed: '' @ e)
             | None \<Rightarrow> (200, ''test notification sent''))))"

text \<open>A card of the settings page: the flash, the error and the data below them.\<close>

record 'a card =
  cd_flash :: string
  cd_err :: string
  cd_data :: 'a

definition notif_data :: "string \<Rightarrow> string \<Rightarrow> string \<Rightarrow> db \<Rightarrow> notification_settings card" where
  "notif_data configured flash err d = \<lparr>cd_flash = flash, cd_err = err, cd_data = shown_settings configured d\<rparr>"

definition form_settings :: "(string \<Rightarrow> string) \<Rightarrow> notification_settings" where
  "form_settings f =
     \<lparr>ns_url = trim_space (f ''apprise_url''), ns_updates = (f ''updates_available'' \<noteq> []),
      ns_apply_ok = (f ''auto_apply_success'' \<noteq> []), ns_apply_fail = (f ''auto_apply_failure'' \<noteq> []),
      ns_scan_fail = (f ''scan_failure'' \<noteq> []), ns_delivery = normalize_delivery (f ''delivery''),
      ns_always = (f ''digest_always'' \<noteq> [])\<rparr>"

definition next_notif_save ::
  "(string \<Rightarrow> string) \<Rightarrow> string \<Rightarrow> (string \<Rightarrow> string) \<Rightarrow> db \<Rightarrow> notification_settings card \<times> db" where
  "next_notif_save quoted configured f d =
     (let req = form_settings f; err = validate_apprise_target quoted (ns_url req) True in
      if err \<noteq> [] then (notif_data configured [] err d, d)
      else (let d' = upsert_notification_settings req d in (notif_data configured ''Saved.'' [] d', d')))"

definition next_notif_test ::
  "'w ops_env \<Rightarrow> notify_env \<Rightarrow> (string \<Rightarrow> string) \<Rightarrow> db \<Rightarrow> notification_settings card" where
  "next_notif_test env nenv f d =
     (let raw = trim_space (f ''apprise_url''); target = (if raw = [] then current_apprise_url env d else raw);
          err = validate_apprise_target (ne_quoted nenv) target False; c = notif_data (oe_apprise_url env) in
      if err \<noteq> [] then c [] err d
      else (case send_text nenv target ''Patchdeck test notification'' of
          Some e \<Rightarrow> c [] (''Test failed: '' @ e) d
        | None \<Rightarrow> c ''Test notification sent.'' [] d))"

section \<open>The retention of the audit log\<close>

definition put_audit_retention :: "int option \<Rightarrow> db \<Rightarrow> response \<times> db" where
  "put_audit_retention body d =
     (case body of
        None \<Rightarrow> ((400, ''invalid json''), d)
      | Some days \<Rightarrow>
          if days \<noteq> 0 \<and> days < 30 then ((400, ''Minimum retention is 30 days. Use 0 for unlimited.''), d)
          else (case set_audit_retention_days days d of
              Inl _ \<Rightarrow> ((500, ''Failed to save audit retention setting''), d)
            | Inr d' \<Rightarrow> ((200, ''audit retention updated''), d')))"

definition audit_data :: "string \<Rightarrow> string \<Rightarrow> db \<Rightarrow> int card" where
  "audit_data flash err d = \<lparr>cd_flash = flash, cd_err = err, cd_data = get_audit_retention_days d\<rparr>"

text \<open>The form takes the number that \<open>strconv.Atoi\<close> gives beside its error: 0 for text that is no number.\<close>

definition next_audit_save :: "(string \<Rightarrow> string) \<Rightarrow> db \<Rightarrow> int card \<times> db" where
  "next_audit_save f d =
     (let days = atoi_value (trim_space (f ''retention_days'')) in
      if days \<noteq> 0 \<and> days < 30
      then (audit_data [] ''Minimum retention is 30 days (use 0 for unlimited).'' d, d)
      else (case set_audit_retention_days days d of
          Inl _ \<Rightarrow> (audit_data [] ''Failed to save audit retention.'' d, d)
        | Inr d' \<Rightarrow> (audit_data ''Saved.'' [] d', d')))"

section \<open>API tokens\<close>

record new_token =
  nt_id :: string
  nt_name :: string
  nt_token :: string
  nt_created :: string

text \<open>\<open>uid\<close> and \<open>random_hex\<close> are the values drawn by \<open>CreateAPIToken\<close>, \<open>hs\<close> is SHA-256.\<close>

definition create_api_token_req ::
  "(string \<Rightarrow> string) \<Rightarrow> string \<Rightarrow> string \<Rightarrow> int \<Rightarrow> string option \<Rightarrow> db \<Rightarrow> (response + new_token) \<times> db" where
  "create_api_token_req hs uid random_hex now body d =
     (case body of
        None \<Rightarrow> (Inl (400, ''invalid json''), d)
      | Some raw \<Rightarrow>
          (let name = trim_space raw in
           if name = [] then (Inl (400, ''name is required''), d)
           else (case create_api_token hs uid random_hex now name d of
               ((plaintext, i), d') \<Rightarrow>
                 (Inr \<lparr>nt_id = i, nt_name = name, nt_token = plaintext, nt_created = format_rfc3339 (now div 1000000000)\<rparr>, d'))))"

definition revoke_api_token_req :: "string \<Rightarrow> db \<Rightarrow> response \<times> db" where
  "revoke_api_token_req i d =
     (case revoke_api_token i d of
        Inl NoRows \<Rightarrow> ((404, ''token not found''), d)
      | Inl _ \<Rightarrow> ((500, ''Failed to revoke API token''), d)
      | Inr d' \<Rightarrow> ((200, ''token revoked''), d'))"

text \<open>The card shows the tokens that are not revoked, and the plaintext of the one just created as its flash.\<close>

definition tokens_data :: "string \<Rightarrow> string \<Rightarrow> db \<Rightarrow> api_token list card" where
  "tokens_data new err d = \<lparr>cd_flash = new, cd_err = err, cd_data = filter (\<lambda>t. \<not> at_revoked t) (list_api_tokens d)\<rparr>"

definition next_token_create ::
  "(string \<Rightarrow> string) \<Rightarrow> string \<Rightarrow> string \<Rightarrow> int \<Rightarrow> (string \<Rightarrow> string) \<Rightarrow> db \<Rightarrow> api_token list card \<times> db" where
  "next_token_create hs uid random_hex now f d =
     (let name = trim_space (f ''name'') in
      if name = [] then (tokens_data [] ''Token name is required.'' d, d)
      else (case create_api_token hs uid random_hex now name d of ((plaintext, _), d') \<Rightarrow> (tokens_data plaintext [] d', d')))"

definition next_token_revoke :: "string \<Rightarrow> db \<Rightarrow> api_token list card \<times> db" where
  "next_token_revoke i d =
     (case revoke_api_token i d of
        Inl _ \<Rightarrow> (tokens_data [] ''Failed to revoke token.'' d, d)
      | Inr d' \<Rightarrow> (tokens_data [] [] d', d'))"

section \<open>Lists and pages that only read\<close>

definition setup_status :: "db \<Rightarrow> bool \<times> string list" where
  "setup_status d = (\<not> has_users d, supported_roles)"

record health_report =
  hr_version :: string
  hr_uptime :: int
  hr_hosts :: int
  hr_db_ok :: bool

text \<open>\<open>Seconds()\<close> of a duration that is not negative, cut to an integer; the database answers in the model.\<close>

definition health_req :: "string \<Rightarrow> int \<Rightarrow> int \<Rightarrow> db \<Rightarrow> health_report" where
  "health_req version started now d =
     \<lparr>hr_version = version, hr_uptime = (now - started) div 1000000000, hr_hosts = count_hosts d, hr_db_ok = True\<rparr>"

definition list_scan_history_req :: "string \<Rightarrow> db \<Rightarrow> response + scan_history_entry list" where
  "list_scan_history_req i d =
     (case get_host d i of Inl _ \<Rightarrow> Inl (404, ''host not found'') | Inr _ \<Rightarrow> Inr (list_scan_history d i))"

definition sso_error_message :: "string \<Rightarrow> string" where
  "sso_error_message code =
     (if code = [] then []
      else if code = ''sso_forbidden'' then ''That account isn't allowed to sign in here.''
      else if code = ''sso_disabled'' then ''Single sign-on isn't enabled.''
      else if code \<in> set [''sso_expired'', ''sso_state'', ''sso_nonce'']
      then ''The sign-in attempt expired '' @ em_dash @ '' please try again.''
      else if code = ''sso_no_admin'' then ''No local admin exists yet '' @ em_dash @ '' finish first-run setup first.''
      else ''Single sign-on failed '' @ em_dash @ '' please try again or use your password.'')"

definition friendly_error :: "string option \<Rightarrow> string \<Rightarrow> string" where
  "friendly_error err context =
     (case err of
        None \<Rightarrow> context
      | Some msg \<Rightarrow>
          if contains msg ''sql: no rows in result set'' then context @ '' not found''
          else if contains msg ''connection refused''
          then ''Could not connect to host '' @ em_dash @ '' check that the address and port are correct''
          else if contains msg ''i/o timeout'' then ''Connection timed out '' @ em_dash @ '' the host may be unreachable''
          else if context \<noteq> [] then context @ '': '' @ msg
          else msg)"

section \<open>Live tokens\<close>

text \<open>
  What the table of tokens promises: a set of pairs of id and hash. A text is accepted when its hash is
  in it; creating adds a pair and revoking an id takes its pairs out for good.
\<close>

definition live_rows :: "api_token list \<Rightarrow> (string \<times> string) list" where
  "live_rows ts = map (\<lambda>t. (at_id t, at_hash t)) (filter (\<lambda>t. \<not> at_revoked t) ts)"

definition live_tokens :: "db \<Rightarrow> (string \<times> string) set" where
  "live_tokens d = set (live_rows (d_tokens d))"

datatype token_req =
    TokenCreate string string "string option"
  | TokenForm string string "string \<Rightarrow> string"
  | TokenRevoke string
  | TokenRevokeForm string
  | TokenUse string

definition token_req_step :: "(string \<Rightarrow> string) \<Rightarrow> int \<Rightarrow> token_req \<Rightarrow> db \<Rightarrow> db" where
  "token_req_step hs now e d =
     (case e of
        TokenCreate uid x body \<Rightarrow> snd (create_api_token_req hs uid x now body d)
      | TokenForm uid x f \<Rightarrow> snd (next_token_create hs uid x now f d)
      | TokenRevoke i \<Rightarrow> snd (revoke_api_token_req i d)
      | TokenRevokeForm i \<Rightarrow> snd (next_token_revoke i d)
      | TokenUse text \<Rightarrow> snd (validate_api_token hs now text d))"

fun spec_token_req :: "(string \<Rightarrow> string) \<Rightarrow> token_req \<Rightarrow> (string \<times> string) set \<Rightarrow> (string \<times> string) set" where
  "spec_token_req hs (TokenCreate uid x body) L =
     (case body of None \<Rightarrow> L | Some name \<Rightarrow> if trim_space name = [] then L else insert (uid, hs (''pd_'' @ x)) L)"
| "spec_token_req hs (TokenForm uid x f) L =
     (if trim_space (f ''name'') = [] then L else insert (uid, hs (''pd_'' @ x)) L)"
| "spec_token_req hs (TokenRevoke i) L = {p \<in> L. fst p \<noteq> i}"
| "spec_token_req hs (TokenRevokeForm i) L = {p \<in> L. fst p \<noteq> i}"
| "spec_token_req hs (TokenUse text) L = L"

lemma live_rows_simps [simp]:
  "live_rows [] = []"
  "live_rows (t # ts) = (if at_revoked t then live_rows ts else (at_id t, at_hash t) # live_rows ts)"
  "live_rows (ts @ us) = live_rows ts @ live_rows us"
  by (simp_all add: live_rows_def)

lemma live_created:
  "create_api_token hs uid x now name d = (r, d') \<Longrightarrow> live_tokens d' = insert (uid, hs (''pd_'' @ x)) (live_tokens d)"
  by (auto simp: create_api_token_def live_tokens_def Let_def)

lemma live_update:
  assumes "\<And>t. at_id (g t) = at_id t" "\<And>t. at_hash (g t) = at_hash t" "\<And>t. at_revoked (g t) = at_revoked t"
  shows "live_tokens (d\<lparr>d_tokens := update_rows p g (d_tokens d)\<rparr>) = live_tokens d"
proof -
  have "live_rows (update_rows p g ts) = live_rows ts" for ts
    by (induction ts) (simp_all add: update_rows_def assms)
  then show ?thesis by (simp add: live_tokens_def)
qed

lemma live_rows_revoke:
  "live_rows (update_rows (\<lambda>t. at_id t = i) (at_revoked_update (\<lambda>_. True)) ts) = filter (\<lambda>p. fst p \<noteq> i) (live_rows ts)"
  by (induction ts) (simp_all add: update_rows_def)

lemma live_rows_other: "rows_affected (\<lambda>t. at_id t = i) ts = 0 \<Longrightarrow> filter (\<lambda>p. fst p \<noteq> i) (live_rows ts) = live_rows ts"
  by (induction ts) (auto simp: rows_affected_0)

lemma live_revoke: "live_tokens (case revoke_api_token i d of Inl e \<Rightarrow> d | Inr d' \<Rightarrow> d') = {p \<in> live_tokens d. fst p \<noteq> i}"
proof (cases "rows_affected (\<lambda>t. at_id t = i) (d_tokens d) = 0")
  case True
  then have "{p \<in> live_tokens d. fst p \<noteq> i} = live_tokens d"
    unfolding live_tokens_def by (subst (2) live_rows_other [symmetric]) simp_all
  with True show ?thesis by (simp add: revoke_api_token_def)
next
  case False
  then show ?thesis by (simp add: revoke_api_token_def live_tokens_def live_rows_revoke)
qed

lemma validate_live: "fst (fst (validate_api_token hs now raw d)) \<longleftrightarrow> hs raw \<in> snd ` live_tokens d"
proof -
  have "(find (\<lambda>t. at_hash t = hs raw \<and> \<not> at_revoked t) ts \<noteq> None) = (hs raw \<in> snd ` set (live_rows ts))" for ts
    by (induction ts) auto
  from this [of "d_tokens d"] show ?thesis
    by (cases "find (\<lambda>t. at_hash t = hs raw \<and> \<not> at_revoked t) (d_tokens d)")
      (simp_all add: validate_api_token_def live_tokens_def)
qed

lemma token_req_live: "live_tokens (token_req_step hs now e d) = spec_token_req hs e (live_tokens d)"
proof (cases e)
  case (TokenRevoke i)
  show ?thesis using live_revoke [where i = i and d = d]
    by (simp add: TokenRevoke token_req_step_def revoke_api_token_req_def split: sum.splits db_err.splits)
next
  case (TokenRevokeForm i)
  show ?thesis using live_revoke [where i = i and d = d]
    by (simp add: TokenRevokeForm token_req_step_def next_token_revoke_def split: sum.splits)
next
  case (TokenUse raw)
  show ?thesis
    by (simp add: TokenUse token_req_step_def validate_api_token_def live_update split: option.splits)
qed (auto simp: token_req_step_def create_api_token_req_def next_token_create_def Let_def
    dest: live_created split: option.splits prod.splits)

section \<open>Requests in a row\<close>

datatype settings_op =
    PutNotifications "notif_req option"
  | FormNotifications "string \<Rightarrow> string"
  | PutRetention "int option"
  | FormRetention "string \<Rightarrow> string"
  | SaveSso "string \<Rightarrow> string" string
  | TokenRequest token_req

definition settings_step :: "(string \<Rightarrow> string) \<Rightarrow> idp \<Rightarrow> (string \<Rightarrow> string) \<Rightarrow> int \<Rightarrow> settings_op \<Rightarrow> db \<Rightarrow> db" where
  "settings_step quoted p hs now e d =
     (case e of
        PutNotifications b \<Rightarrow> snd (put_notification_settings quoted b d)
      | FormNotifications f \<Rightarrow> snd (next_notif_save quoted [] f d)
      | PutRetention b \<Rightarrow> snd (put_audit_retention b d)
      | FormRetention f \<Rightarrow> snd (next_audit_save f d)
      | SaveSso f nonce \<Rightarrow> snd (next_oidc_save p nonce f d)
      | TokenRequest t \<Rightarrow> token_req_step hs now t d)"

definition target_ok :: "string \<Rightarrow> bool" where
  "target_ok u \<longleftrightarrow>
     u = [] \<or> (length u \<le> 2048 \<and> list_all (\<lambda>c. c \<notin> set ('' ,;'' @ [TAB, NL, CHR 0x0D])) u \<and> contains u ''://'' \<and>
                scheme_supported (scheme_of u))"

definition settings_ok :: "db \<Rightarrow> bool" where
  "settings_ok d \<longleftrightarrow>
     target_ok (trim_space (ns_url (get_notification_settings d))) \<and>
     (get_audit_retention_days d = 0 \<or> 30 \<le> get_audit_retention_days d)"

lemma validate_target_ok: "validate_apprise_target quoted raw True = [] \<Longrightarrow> target_ok (trim_space raw)"
  by (auto simp: validate_apprise_target_def target_ok_def Let_def has_any_def list_ex_iff list_all_iff example_text_def
      unsupported_target_text_def split: if_splits)

lemma retention_put_other:
  "''audit_retention_days'' \<notin> fst ` set kvs \<Longrightarrow> get_audit_retention_days (put_settings kvs d) = get_audit_retention_days d"
  by (simp add: get_audit_retention_days_def get_put_settings_other)

lemma notifications_put_other:
  "fst ` set kvs \<inter> fst ` set (notification_pairs s) = {} \<Longrightarrow>
     get_notification_settings (put_settings kvs d) = get_notification_settings d"
  by (auto simp: get_notification_settings_def notification_pairs_def get_app_setting_def get_setting_bool_def
      get_put_settings_other)

lemma upsert_notifications_ok:
  assumes "settings_ok d" "validate_apprise_target quoted (ns_url s) True = []"
  shows "settings_ok (upsert_notification_settings s d)"
proof -
  have "get_audit_retention_days (upsert_notification_settings s d) = get_audit_retention_days d"
    unfolding upsert_notification_settings_def by (rule retention_put_other) (simp add: notification_pairs_def)
  then show ?thesis
    using assms validate_target_ok [OF assms(2)] by (simp add: settings_ok_def get_put_notifications)
qed

lemma put_notifications_get:
  "get_notification_settings (snd (put_notification_settings quoted (Some q) d)) =
     (if fst (fst (put_notification_settings quoted (Some q) d)) = 200
      then (let s = decode_onto q (get_notification_settings d)
            in s\<lparr>ns_url := trim_space (ns_url s), ns_delivery := normalize_delivery (ns_delivery s)\<rparr>)
      else get_notification_settings d)"
  by (simp add: put_notification_settings_def Let_def get_put_notifications)

lemma retention_set_ok: "set_audit_retention_days n d = Inr d' \<Longrightarrow> settings_ok d \<Longrightarrow> settings_ok d'"
proof -
  assume set: "set_audit_retention_days n d = Inr d'" and ok: "settings_ok d"
  then have d': "d' = put_settings [(''audit_retention_days'', Some (itoa n))] d" and n: "n = 0 \<or> 30 \<le> n"
    by (auto simp: set_audit_retention_days_def put_settings_def split: if_splits)
  have "get_notification_settings d' = get_notification_settings d"
    unfolding d' by (rule notifications_put_other) (simp add: notification_pairs_def)
  moreover have "get_audit_retention_days d' = 0 \<or> 30 \<le> get_audit_retention_days d'"
  proof -
    have "setting_get d' ''audit_retention_days'' = Some (itoa n)" unfolding d' by (rule get_put_settings) simp_all
    moreover have "atoi (itoa n) = Some n \<or> atoi (itoa n) = None"
      using n digits_no_sign [of "nat n"] by (auto simp: atoi_def itoa_def Let_def digits_all)
    ultimately show ?thesis using n by (auto simp: get_audit_retention_days_def)
  qed
  ultimately show ?thesis using ok by (simp add: settings_ok_def)
qed

lemma settings_other_table:
  "d_settings d' = d_settings d \<Longrightarrow> settings_ok d' = settings_ok d"
  by (simp add: settings_ok_def get_notification_settings_def get_app_setting_def get_setting_bool_def
      get_audit_retention_days_def setting_get_def)

lemma token_req_settings: "d_settings (token_req_step hs now e d) = d_settings d"
  by (auto simp: token_req_step_def create_api_token_req_def next_token_create_def revoke_api_token_req_def
      next_token_revoke_def create_api_token_def revoke_api_token_def validate_api_token_def Let_def
      split: token_req.splits option.splits sum.splits db_err.splits prod.splits if_splits)

lemma sso_keeps_ok: "settings_ok (set_oidc_config c d) = settings_ok d"
proof -
  have "get_notification_settings (set_oidc_config c d) = get_notification_settings d"
    unfolding set_oidc_config_def
    by (rule notifications_put_other [of _ "get_notification_settings d"]) (simp add: oidc_pairs_def notification_pairs_def)
  moreover have "get_audit_retention_days (set_oidc_config c d) = get_audit_retention_days d"
    unfolding set_oidc_config_def by (rule retention_put_other) (simp add: oidc_pairs_def)
  ultimately show ?thesis by (simp add: settings_ok_def)
qed

lemma settings_step_ok: "settings_ok d \<Longrightarrow> settings_ok (settings_step quoted p hs now e d)"
  by (cases e)
    (auto simp: settings_step_def put_notification_settings_def next_notif_save_def put_audit_retention_def
      next_audit_save_def next_oidc_save_def Let_def sso_keeps_ok upsert_notifications_ok token_req_settings
      settings_other_table [OF token_req_settings]
      intro: upsert_notifications_ok dest: retention_set_ok split: option.splits sum.splits)

interpretation settings_requests: machine "\<lambda>(now, e). settings_step quoted p hs now e" "\<lambda>_. True" settings_ok
  for quoted p hs
  by unfold_locales (auto simp: settings_step_ok)

definition settings_run :: "(string \<Rightarrow> string) \<Rightarrow> idp \<Rightarrow> (string \<Rightarrow> string) \<Rightarrow> (int \<times> settings_op) list \<Rightarrow> db \<Rightarrow> db" where
  "settings_run quoted p hs = fold (\<lambda>(now, e). settings_step quoted p hs now e)"

lemma settings_run_ok: "settings_ok d \<Longrightarrow> settings_ok (settings_run quoted p hs es d)"
  unfolding settings_run_def by (rule settings_requests.run_inv) (simp_all add: list_all_iff)

interpretation live: total_simulation "\<lambda>(now, e). token_req_step hs now e" "\<lambda>(now, e). spec_token_req hs e" live_tokens for hs
  by unfold_locales (auto simp: token_req_live)

definition token_reqs :: "(string \<Rightarrow> string) \<Rightarrow> (int \<times> token_req) list \<Rightarrow> db \<Rightarrow> db" where
  "token_reqs hs = fold (\<lambda>(now, e). token_req_step hs now e)"

section \<open>What the settings guarantee\<close>

text \<open>
  After any sequence of settings requests, by JSON or by form, the stored notification target is empty or
  one single URL of bounded length without blanks whose scheme the dispatcher knows, and the stored
  retention is unlimited or at least thirty days.\<close>

theorem settings_stay_valid:
  assumes "settings_ok d"
  shows "let d' = settings_run quoted p hs es d; u = trim_space (ns_url (get_notification_settings d')) in
     (u = [] \<or> length u \<le> 2048 \<and> set u \<inter> {CHR '' '', CHR '','', CHR '';'', TAB, NL, CHR 0x0D} = {} \<and>
        sublist ''://'' u \<and> to_lower (trim_space (scheme_of u)) \<in> set supported_schemes) \<and>
     get_audit_retention_days d' \<notin> {..<30} - {0}"
proof -
  let ?d = "settings_run quoted p hs es d"
  have ok: "settings_ok ?d" by (rule settings_run_ok [OF assms])
  have "u = [] \<or> length u \<le> 2048 \<and> set u \<inter> {CHR '' '', CHR '','', CHR '';'', TAB, NL, CHR 0x0D} = {} \<and>
      sublist ''://'' u \<and> to_lower (trim_space (scheme_of u)) \<in> set supported_schemes" if "target_ok u" for u
    using that unfolding target_ok_def scheme_supported_def contains_iff list_all_iff by auto
  with ok show ?thesis unfolding Let_def settings_ok_def by auto
qed

text \<open>C15
  The token requests refine a set: after any sequence of creations, revocations and uses, by JSON or by
  form, a text is accepted exactly when its hash belongs to a token created and not revoked since, and
  the settings page lists exactly those tokens.\<close>

theorem tokens_refine_live_set:
  "let d' = token_reqs hs es d; live = fold (\<lambda>(_, e). spec_token_req hs e) es (live_tokens d) in
     (fst (fst (validate_api_token hs now raw d')) \<longleftrightarrow> hs raw \<in> snd ` live) \<and>
     (\<lambda>t. (at_id t, at_hash t)) ` set (cd_data (tokens_data new err d')) = live"
proof -
  let ?d = "token_reqs hs es d"
  have "(\<lambda>t. (at_id t, at_hash t)) ` set (cd_data (tokens_data new err ?d)) = live_tokens ?d"
    by (simp add: tokens_data_def list_api_tokens_def live_tokens_def live_rows_def)
  then show ?thesis by (simp add: validate_live token_reqs_def live.run_abs)
qed

text \<open>
  An update of the notification settings by JSON changes exactly the fields it names, a refused one
  nothing, and neither the SSO configuration, nor the program's key, nor the retention.\<close>

theorem notification_update_exact:
  "case put_notification_settings quoted (Some q) d of (r, d') \<Rightarrow>
     get_notification_settings d' =
       (if fst r = 200
        then (let s = decode_onto q (get_notification_settings d)
              in s\<lparr>ns_url := trim_space (ns_url s), ns_delivery := normalize_delivery (ns_delivery s)\<rparr>)
        else get_notification_settings d) \<and>
     get_oidc_config d' = get_oidc_config d \<and> get_app_key_state d' = get_app_key_state d \<and>
     get_audit_retention_days d' = get_audit_retention_days d \<and> d_tokens d' = d_tokens d \<and> d_hosts d' = d_hosts d"
proof -
  have other: "get_oidc_config (upsert_notification_settings s d) = get_oidc_config d"
    "get_app_key_state (upsert_notification_settings s d) = get_app_key_state d"
    "get_audit_retention_days (upsert_notification_settings s d) = get_audit_retention_days d" for s
    by (simp_all add: upsert_notification_settings_def get_oidc_config_def get_app_key_state_def
        get_audit_retention_days_def get_app_setting_def get_put_settings_other notification_pairs_def)
  have "d_tokens (put_settings kvs d) = d_tokens d" "d_hosts (put_settings kvs d) = d_hosts d" for kvs
    unfolding put_settings_def by (induction kvs arbitrary: d) (auto simp: setting_put_def)
  then have tables: "d_tokens (upsert_notification_settings s d) = d_tokens d"
    "d_hosts (upsert_notification_settings s d) = d_hosts d" for s
    by (simp_all add: upsert_notification_settings_def)
  show ?thesis
    using put_notifications_get [of quoted q d]
    by (auto simp: put_notification_settings_def Let_def other tables split: if_splits)
qed

text \<open>A blank inside the scheme passes the check, which trims the scheme, but the dispatcher does not know it.\<close>

lemma padded_scheme_accepted:
  "validate_apprise_target quoted (''gotify'' @ [CHR 0x0B] @ ''://host/token'') True = [] \<and>
   build_http parse quoted (scheme_of (''gotify'' @ [CHR 0x0B] @ ''://host/token'')) t a b =
     Inl (unsupported_text quoted (''gotify'' @ [CHR 0x0B]))"
proof -
  have "scheme_of (''gotify'' @ [CHR 0x0B] @ ''://host/token'') = ''gotify'' @ [CHR 0x0B]" by code_simp
  moreover have "validate_apprise_target (\<lambda>_. []) (''gotify'' @ [CHR 0x0B] @ ''://host/token'') True = []" by code_simp
  then have "validate_apprise_target quoted (''gotify'' @ [CHR 0x0B] @ ''://host/token'') True = []"
    unfolding validate_apprise_target_def Let_def by (simp split: if_splits add: unsupported_target_text_def)
  ultimately show ?thesis by (simp add: build_http_def)
qed

text \<open>The form takes text that is no number for unlimited retention.\<close>

lemma no_number_is_unlimited: "get_audit_retention_days (snd (next_audit_save (\<lambda>_. ''90 days'') d)) = 0"
proof -
  have "trim_space ''90 days'' = ''90 days''" by code_simp
  moreover have "\<not> is_digit (CHR ''d'')" by code_simp
  then have "atoi_value ''90 days'' = 0" by (simp add: atoi_value_def)
  moreover have "atoi (itoa 0) = Some 0" by (rule atoi_itoa) (simp add: int64_range_def)
  ultimately have n: "atoi_value (trim_space ''90 days'') = 0" "atoi (itoa 0) = Some 0" by simp_all
  have "setting_get (put_settings [(''audit_retention_days'', Some (itoa 0))] d) ''audit_retention_days'' = Some (itoa 0)"
    by (rule get_put_settings) simp_all
  then have "get_audit_retention_days (setting_put ''audit_retention_days'' (Some (itoa 0)) d) = 0"
    unfolding get_audit_retention_days_def put_settings_def by (simp only: fold.simps prod.case o_apply id_apply option.case n)
  then show ?thesis unfolding next_audit_save_def set_audit_retention_days_def Let_def n by (simp only: simp_thms if_False sum.case snd_conv)
qed

section \<open>Witnesses\<close>

lemma empty_settings_ok: "settings_ok empty_db"
  by code_simp

theorem settings_stay_valid_witness:
  "let d' = settings_run (\<lambda>s. s) toy_idp (\<lambda>s. s) [(0, PutRetention (Some 90)), (1, FormNotifications (\<lambda>_. '' ntfy://host/topic ''))] empty_db
   in ns_url (get_notification_settings d') = ''ntfy://host/topic'' \<and> get_audit_retention_days d' \<notin> {..<30} - {0}"
proof -
  let ?es = "[(0::int, PutRetention (Some 90)), (1, FormNotifications (\<lambda>_. '' ntfy://host/topic ''))]"
  have "ns_url (get_notification_settings (settings_run (\<lambda>s. s) toy_idp (\<lambda>s. s) ?es empty_db)) = ''ntfy://host/topic''"
    by code_simp
  with settings_stay_valid [OF empty_settings_ok, of "\<lambda>s. s" toy_idp "\<lambda>s. s" ?es] show ?thesis
    unfolding Let_def by blast
qed

end
