(* ===== verification/Routes.thy ===== *)
theory Routes
  imports Accounts
begin

text \<open>
  The routes of \<open>main\<close> in \<open>cmd/server/main.go\<close>: every method and path with the middleware in front of it
  and the handler behind it, the dispatch of a request, and the redirects of the old dashboard's paths.
  The router is the library chi: the parameter \<open>pick\<close> says which registered route a request takes.
\<close>

section \<open>The table\<close>

datatype guard = Public | ApiAuth | StreamAuth | DashboardAuth

type_synonym route = "string \<times> string \<times> guard \<times> string"

definition routes :: "route list" where
  "routes =
  [(''GET'', ''/healthz'', Public, ''healthz''),
   (''GET'', ''/api/health'', Public, ''health''),
   (''GET'', ''/api/setup'', Public, ''setupStatus''),
   (''GET'', ''/api/version'', Public, ''version''),
   (''POST'', ''/api/bootstrap'', Public, ''bootstrap''),
   (''POST'', ''/api/login'', Public, ''login''),
   (''POST'', ''/api/logout'', Public, ''logout''),
   (''GET'', ''/api/auth/oidc/status'', Public, ''oidcStatus''),
   (''GET'', ''/auth/oidc/login'', Public, ''oidcLogin''),
   (''GET'', ''/auth/oidc/callback'', Public, ''oidcCallback''),
   (''GET'', ''/api/me'', ApiAuth, ''me''),
   (''GET'', ''/api/hosts'', ApiAuth, ''listHosts''),
   (''GET'', ''/api/hosts/connectivity'', ApiAuth, ''hostConnectivity''),
   (''GET'', ''/api/hosts/{id}/connectivity'', ApiAuth, ''hostConnectivityOne''),
   (''POST'', ''/api/hosts'', ApiAuth, ''createHost''),
   (''PUT'', ''/api/hosts/{id}'', ApiAuth, ''updateHost''),
   (''DELETE'', ''/api/hosts/{id}'', ApiAuth, ''deleteHost''),
   (''GET'', ''/api/scans'', ApiAuth, ''listScans''),
   (''POST'', ''/api/hosts/{id}/scan'', ApiAuth, ''scanHost''),
   (''POST'', ''/api/hosts/{id}/apply'', ApiAuth, ''applyUpdates''),
   (''POST'', ''/api/hosts/{id}/restart-services'', ApiAuth, ''restartServices''),
   (''POST'', ''/api/hosts/{id}/restart-all'', ApiAuth, ''restartAll''),
   (''POST'', ''/api/hosts/{id}/restart-deferred'', ApiAuth, ''restartDeferred''),
   (''POST'', ''/api/hosts/{id}/power'', ApiAuth, ''powerAction''),
   (''GET'', ''/api/jobs'', ApiAuth, ''listJobs''),
   (''POST'', ''/api/jobs'', ApiAuth, ''createJob''),
   (''POST'', ''/api/jobs/{id}/enabled'', ApiAuth, ''setJobEnabled''),
   (''GET'', ''/api/jobs/{id}/runs'', ApiAuth, ''listJobRuns''),
   (''DELETE'', ''/api/jobs/{id}'', ApiAuth, ''deleteJob''),
   (''GET'', ''/api/settings/notifications'', ApiAuth, ''getNotificationSettings''),
   (''GET'', ''/api/settings/notifications/runtime'', ApiAuth, ''getNotificationRuntime''),
   (''PUT'', ''/api/settings/notifications'', ApiAuth, ''putNotificationSettings''),
   (''POST'', ''/api/settings/notifications/test'', ApiAuth, ''testNotificationSettings''),
   (''GET'', ''/api/settings/ssh-key'', ApiAuth, ''getSSHKey''),
   (''POST'', ''/api/settings/ssh-key/rotate'', ApiAuth, ''apiKeyRotate''),
   (''POST'', ''/api/settings/ssh-key/check'', ApiAuth, ''apiKeyCheck''),
   (''POST'', ''/api/settings/ssh-key/finish'', ApiAuth, ''apiKeyFinish''),
   (''POST'', ''/api/settings/ssh-key/cancel'', ApiAuth, ''apiKeyCancel''),
   (''GET'', ''/api/settings/audit'', ApiAuth, ''getAuditRetention''),
   (''PUT'', ''/api/settings/audit'', ApiAuth, ''putAuditRetention''),
   (''GET'', ''/api/settings/oidc'', ApiAuth, ''getOIDCSettings''),
   (''PUT'', ''/api/settings/oidc'', ApiAuth, ''putOIDCSettings''),
   (''GET'', ''/api/activity/export'', ApiAuth, ''exportActivity''),
   (''PUT'', ''/api/hosts/{id}/notifications'', ApiAuth, ''putHostNotificationPrefs''),
   (''PUT'', ''/api/hosts/{id}/operations'', ApiAuth, ''putHostOperationalControls''),
   (''PUT'', ''/api/hosts/{id}/host-key-policy'', ApiAuth, ''putHostKeyPolicy''),
   (''GET'', ''/api/hosts/{id}/host-key-audit'', ApiAuth, ''listHostKeyAudit''),
   (''POST'', ''/api/hosts/{id}/host-key/accept'', ApiAuth, ''acceptHostKeyFingerprint''),
   (''POST'', ''/api/hosts/{id}/host-key/deny'', ApiAuth, ''denyHostKeyFingerprint''),
   (''GET'', ''/api/hosts/{id}/scans'', ApiAuth, ''listScanHistory''),
   (''GET'', ''/api/tags'', ApiAuth, ''listTags''),
   (''POST'', ''/api/hosts/scan-all'', ApiAuth, ''scanAllHosts''),
   (''GET'', ''/api/settings/tokens'', ApiAuth, ''listAPITokens''),
   (''POST'', ''/api/settings/tokens'', ApiAuth, ''createAPIToken''),
   (''DELETE'', ''/api/settings/tokens/{id}'', ApiAuth, ''revokeAPIToken''),
   (''GET'', ''/api/settings/totp'', ApiAuth, ''getTOTPStatus''),
   (''POST'', ''/api/settings/totp/setup'', ApiAuth, ''setupTOTP''),
   (''POST'', ''/api/settings/totp/confirm'', ApiAuth, ''confirmTOTP''),
   (''POST'', ''/api/settings/totp/disable'', ApiAuth, ''disableTOTP''),
   (''GET'', ''/api/activity'', ApiAuth, ''listActivity''),
   (''GET'', ''/api/hosts/{id}/scan/stream'', StreamAuth, ''scanHostStream''),
   (''GET'', ''/api/hosts/{id}/apply/stream'', StreamAuth, ''applyStream''),
   (''GET'', ''/api/hosts/{id}/await-recovery'', StreamAuth, ''awaitRecovery''),
   (''GET'', ''/assets/{file}'', Public, ''nextAsset''),
   (''GET'', ''/login'', Public, ''nextLogin''),
   (''POST'', ''/login'', Public, ''nextLoginPost''),
   (''POST'', ''/bootstrap'', Public, ''nextBootstrapPost''),
   (''POST'', ''/logout'', Public, ''nextLogout''),
   (''GET'', ''/'', DashboardAuth, ''nextDashboard''),
   (''GET'', ''/hosts/{id}'', DashboardAuth, ''nextDetail''),
   (''GET'', ''/hosts/{id}/card'', DashboardAuth, ''nextCard''),
   (''GET'', ''/hosts/{id}/dot'', DashboardAuth, ''nextDot''),
   (''GET'', ''/hosts/{id}/connline'', DashboardAuth, ''nextConnLine''),
   (''GET'', ''/hosts/{id}/scanpanel'', DashboardAuth, ''nextScanPanel''),
   (''GET'', ''/hosts/{id}/scan/stream'', DashboardAuth, ''nextScanStream''),
   (''GET'', ''/hosts/{id}/apply-confirm'', DashboardAuth, ''nextApplyConfirm''),
   (''GET'', ''/hosts/{id}/apply/panel'', DashboardAuth, ''nextApplyPanel''),
   (''GET'', ''/hosts/{id}/apply/stream'', DashboardAuth, ''nextApplyStream''),
   (''GET'', ''/hosts/{id}/restart-confirm'', DashboardAuth, ''nextRestartConfirmSmart''),
   (''POST'', ''/hosts/{id}/restart'', DashboardAuth, ''nextRestartSmart''),
   (''POST'', ''/hosts/{id}/exclude-bulk'', DashboardAuth, ''nextToggleExcludeBulk''),
   (''POST'', ''/hosts/{id}/notifications'', DashboardAuth, ''nextHostNotifPrefs''),
   (''GET'', ''/hosts/{id}/reboot-confirm'', DashboardAuth, ''nextRebootConfirm''),
   (''POST'', ''/hosts/{id}/reboot'', DashboardAuth, ''nextReboot''),
   (''GET'', ''/hosts/{id}/reboot-watch'', DashboardAuth, ''nextRebootWatch''),
   (''GET'', ''/hosts/{id}/shutdown-confirm'', DashboardAuth, ''nextShutdownConfirm''),
   (''POST'', ''/hosts/{id}/shutdown'', DashboardAuth, ''nextShutdown''),
   (''GET'', ''/add'', DashboardAuth, ''nextHostNew''),
   (''POST'', ''/hosts'', DashboardAuth, ''nextHostCreate''),
   (''GET'', ''/hosts/{id}/edit'', DashboardAuth, ''nextHostEdit''),
   (''POST'', ''/hosts/{id}/edit'', DashboardAuth, ''nextHostUpdate''),
   (''GET'', ''/hosts/{id}/delete-confirm'', DashboardAuth, ''nextHostDeleteConfirm''),
   (''POST'', ''/hosts/{id}/delete'', DashboardAuth, ''nextHostDelete''),
   (''POST'', ''/hosts/{id}/host-key/accept'', DashboardAuth, ''nextHostKeyAccept''),
   (''POST'', ''/hosts/{id}/host-key/deny'', DashboardAuth, ''nextHostKeyDeny''),
   (''POST'', ''/hosts/{id}/verify'', DashboardAuth, ''nextHostVerify''),
   (''GET'', ''/settings'', DashboardAuth, ''nextSettings''),
   (''POST'', ''/settings/notifications'', DashboardAuth, ''nextNotifSave''),
   (''POST'', ''/settings/notifications/test'', DashboardAuth, ''nextNotifTest''),
   (''POST'', ''/settings/oidc'', DashboardAuth, ''nextOIDCSave''),
   (''POST'', ''/settings/tokens'', DashboardAuth, ''nextTokenCreate''),
   (''POST'', ''/settings/tokens/{id}/revoke'', DashboardAuth, ''nextTokenRevoke''),
   (''POST'', ''/settings/audit'', DashboardAuth, ''nextAuditSave''),
   (''POST'', ''/settings/sshkey/rotate'', DashboardAuth, ''nextKeyRotate''),
   (''POST'', ''/settings/sshkey/check'', DashboardAuth, ''nextKeyCheck''),
   (''POST'', ''/settings/sshkey/finish'', DashboardAuth, ''nextKeyFinish''),
   (''POST'', ''/settings/sshkey/cancel'', DashboardAuth, ''nextKeyCancel''),
   (''POST'', ''/settings/totp/setup'', DashboardAuth, ''nextTotpSetup''),
   (''POST'', ''/settings/totp/confirm'', DashboardAuth, ''nextTotpConfirm''),
   (''POST'', ''/settings/totp/disable'', DashboardAuth, ''nextTotpDisable''),
   (''GET'', ''/activity'', DashboardAuth, ''nextActivity''),
   (''GET'', ''/activity/rows'', DashboardAuth, ''nextActivityRows''),
   (''GET'', ''/schedules'', DashboardAuth, ''nextSchedules''),
   (''POST'', ''/schedules'', DashboardAuth, ''nextScheduleCreate''),
   (''POST'', ''/schedules/{id}/toggle'', DashboardAuth, ''nextScheduleToggle''),
   (''POST'', ''/schedules/{id}/delete'', DashboardAuth, ''nextScheduleDelete''),
   (''GET'', ''/schedules/{id}/runs'', DashboardAuth, ''nextScheduleRuns''),
   (''GET'', ''/next'', Public, ''nextRoot''),
   (''GET'', ''/next/*'', Public, ''nextRest''),
   (''GET'', ''/favicon.ico'', Public, ''nextFavicon''),
   (''GET'', ''/manifest.webmanifest'', Public, ''nextManifest'')]"

type_synonym router = "string \<Rightarrow> string \<Rightarrow> route option"

section \<open>The dispatch\<close>

text \<open>The answer of a guard, or the handler that runs and the claims in its context.\<close>

datatype served = Handled string "claims option" | Unauthorized | ToLogin | NotFound

definition run_guard :: "crypt \<Rightarrow> int \<Rightarrow> http_req \<Rightarrow> guard \<Rightarrow> string \<Rightarrow> db \<Rightarrow> served \<times> db" where
  "run_guard cr now r g h d =
     (case g of
        Public \<Rightarrow> (Handled h None, d)
      | ApiAuth \<Rightarrow>
          (case auth_middleware cr now r d of (None, d') \<Rightarrow> (Unauthorized, d') | (Some c, d') \<Rightarrow> (Handled h (Some c), d'))
      | StreamAuth \<Rightarrow>
          (case auth_middleware_flexible cr now r d of (None, d') \<Rightarrow> (Unauthorized, d') | (Some c, d') \<Rightarrow> (Handled h (Some c), d'))
      | DashboardAuth \<Rightarrow>
          (case next_auth cr now r d of (None, d') \<Rightarrow> (ToLogin, d') | (Some c, d') \<Rightarrow> (Handled h (Some c), d')))"

definition serve_route :: "crypt \<Rightarrow> router \<Rightarrow> int \<Rightarrow> string \<Rightarrow> string \<Rightarrow> http_req \<Rightarrow> db \<Rightarrow> served \<times> db" where
  "serve_route cr pick now method path r d =
     (case pick method path of
        None \<Rightarrow> (NotFound, d)
      | Some (_, _, g, h) \<Rightarrow> run_guard cr now r g h d)"

text \<open>What is relied on: the router only takes a route that is registered, under its own method.\<close>

definition router_law :: "router \<Rightarrow> bool" where
  "router_law pick \<longleftrightarrow> (\<forall>m p rt. pick m p = Some rt \<longrightarrow> rt \<in> set routes \<and> fst rt = m)"

section \<open>Redirects of old paths\<close>

definition next_root :: string where
  "next_root = ''/''"

definition next_rest :: "string \<Rightarrow> string \<Rightarrow> string" where
  "next_rest path query =
     (let dst = trim_prefix path ''/next''; dst = (if dst = [] then ''/'' else dst)
      in if query \<noteq> [] then dst @ ''?'' @ query else dst)"

text \<open>A path with two slashes after \<open>/next\<close> leads to another site.\<close>

lemma next_rest_leaves_site: "next_rest ''/next//evil.example/login'' [] = ''//evil.example/login''"
  by code_simp

section \<open>Who reaches what\<close>

definition public_handlers :: "string list" where
  "public_handlers =
     [''healthz'', ''health'', ''setupStatus'', ''version'', ''bootstrap'', ''login'', ''logout'', ''oidcStatus'', ''oidcLogin'',
      ''oidcCallback'', ''nextAsset'', ''nextLogin'', ''nextLoginPost'', ''nextBootstrapPost'', ''nextLogout'', ''nextRoot'',
      ''nextRest'', ''nextFavicon'', ''nextManifest'']"

lemma public_routes: "list_all (\<lambda>(m, p, g, h). g = Public \<longrightarrow> h \<in> set public_handlers) routes"
  by code_simp

lemma api_routes:
  "list_all (\<lambda>(m, p, g, h). g = ApiAuth \<or> g = StreamAuth \<longrightarrow> has_prefix p ''/api/'') routes"
  by code_simp

definition shows_token :: "crypt \<Rightarrow> http_req \<Rightarrow> db \<Rightarrow> bool" where
  "shows_token cr r d \<longleftrightarrow> has_prefix (bearer r) ''pd_'' \<and> live_token cr (bearer r) d"

lemma run_guard_handled:
  assumes "run_guard cr now r g h d = (Handled h' c, d')"
  shows "h' = h \<and>
    (case g of
       Public \<Rightarrow> c = None \<and> d' = d
     | DashboardAuth \<Rightarrow> (\<exists>s. live_session cr now r d = Some s \<and> c = Some (claims_of s))
     | _ \<Rightarrow> (case live_session cr now r d of Some s \<Rightarrow> c = Some (claims_of s) | None \<Rightarrow> shows_token cr r d \<and> c = Some api_claims))"
  using assms auth_middleware_fst [of cr now r d] flexible_fst [of cr now r d] session_claims_live [of cr now r d]
  by (cases g; auto simp: run_guard_def shows_token_def next_auth_def split: prod.splits option.splits if_splits)

text \<open>C3
  Nothing but the public handlers runs without authentication: with neither a live session nor a live API
  token a request reaches one of the nineteen handlers meant to be public, without claims and without a
  change by the guards; with a token alone also those under \<open>/api/\<close>, but never the dashboard; and a
  session always acts as its own user.\<close>

theorem login_needed:
  assumes law: "router_law pick" and handled: "serve_route cr pick now m p r d = (Handled h c, d')"
  shows "case live_session cr now r d of
      Some s \<Rightarrow> c = Some (claims_of s) \<or> (c = None \<and> h \<in> set public_handlers)
    | None \<Rightarrow>
        (c = None \<and> d' = d \<and> h \<in> set public_handlers) \<or>
        (c = Some api_claims \<and> shows_token cr r d \<and> (\<exists>p' g. (m, p', g, h) \<in> set routes \<and> has_prefix p' ''/api/''))"
proof -
  obtain p' g where pick: "pick m p = Some (m, p', g, h)" and run: "run_guard cr now r g h d = (Handled h c, d')"
  proof -
    from handled obtain m' p' g h' where "pick m p = Some (m', p', g, h')" "run_guard cr now r g h' d = (Handled h c, d')"
      by (auto simp: serve_route_def split: option.splits)
    moreover have "m' = m" using law \<open>pick m p = Some (m', p', g, h')\<close> by (auto simp: router_law_def)
    ultimately show thesis using that run_guard_handled by blast
  qed
  have route: "(m, p', g, h) \<in> set routes" using law pick by (auto simp: router_law_def)
  have public: "g = Public \<Longrightarrow> h \<in> set public_handlers" using public_routes route by (auto simp: list_all_iff)
  have api: "g = ApiAuth \<or> g = StreamAuth \<Longrightarrow> has_prefix p' ''/api/''" using api_routes route by (auto simp: list_all_iff)
  note h = run_guard_handled [OF run]
  show ?thesis
    using h public api route by (cases g; cases "live_session cr now r d"; auto)
qed

section \<open>A witness\<close>

definition exact_router :: router where
  "exact_router m p = find (\<lambda>rt. fst rt = m \<and> fst (snd rt) = p) routes"

lemma exact_router_law: "router_law exact_router"
proof -
  have "rt \<in> set routes \<and> fst rt = m" if "exact_router m p = Some rt" for m p rt
    using that unfolding exact_router_def find_Some_iff by (metis nth_mem)
  then show ?thesis by (auto simp: router_law_def)
qed

theorem login_needed_witness:
  "fst (serve_route toy_crypt exact_router 5 ''GET'' ''/api/setup'' toy_req empty_db) = Handled ''setupStatus'' None \<and>
   fst (serve_route toy_crypt exact_router 5 ''POST'' ''/hosts/{id}/reboot'' toy_req empty_db) = ToLogin \<and>
   ''setupStatus'' \<in> set public_handlers"
proof -
  have reached: "serve_route toy_crypt exact_router 5 ''GET'' ''/api/setup'' toy_req empty_db = (Handled ''setupStatus'' None, empty_db)"
  proof -
    have "exact_router ''GET'' ''/api/setup'' = Some (''GET'', ''/api/setup'', Public, ''setupStatus'')" by code_simp
    then show ?thesis by (simp add: serve_route_def run_guard_def)
  qed
  moreover have "fst (serve_route toy_crypt exact_router 5 ''POST'' ''/hosts/{id}/reboot'' toy_req empty_db) = ToLogin"
  proof -
    have "exact_router ''POST'' ''/hosts/{id}/reboot'' = Some (''POST'', ''/hosts/{id}/reboot'', DashboardAuth, ''nextReboot'')" by code_simp
    then show ?thesis by (simp add: serve_route_def run_guard_def next_auth_def session_claims_def toy_req_def)
  qed
  moreover have "live_session toy_crypt 5 toy_req empty_db = None" by (simp add: live_session_def toy_req_def)
  ultimately show ?thesis using login_needed [OF exact_router_law reached] by simp
qed

end
