(* ===== verification/Migration.thy ===== *)
theory Migration
  imports GoStrings
begin

text \<open>
  The migration of the database at every start in \<open>internal/db/db.go\<close>: \<open>Migrate\<close> and the functions that
  add a missing column. A schema is the columns of each table, the indexes, and two facts about the rows
  of hosts that matter here: the flags \<open>host_key_required\<close> and whether two hosts clash in the unique index.
\<close>

section \<open>The statements\<close>

record schema =
  sc_tables :: "string \<rightharpoonup> string list"
  sc_indexes :: "string set"
  sc_required :: "bool list"
  sc_clash :: bool

datatype ddl =
    CreateTable string "string list"
  | CreateIndex bool string string "string list"
  | EnsureColumn string string string
  | RequireHostKeys

text \<open>Names are compared without case, as by \<open>strings.EqualFold\<close> on ASCII names.\<close>

definition has_column :: "string list \<Rightarrow> string \<Rightarrow> bool" where
  "has_column cs c \<longleftrightarrow> list_ex (\<lambda>x. to_lower x = to_lower c) cs"

definition column_in :: "schema \<Rightarrow> string \<Rightarrow> string \<Rightarrow> bool" where
  "column_in s t c = (case sc_tables s t of None \<Rightarrow> False | Some cs \<Rightarrow> has_column cs c)"

text \<open>
  A table that does not exist has no columns, and cannot be altered. SQLite refuses to add a column that may
  not be null and has no default.
\<close>

definition addable :: "string \<Rightarrow> bool" where
  "addable def \<longleftrightarrow> (contains def ''NOT NULL'' \<longrightarrow> contains def ''DEFAULT'')"

definition ensure_table_column :: "string \<Rightarrow> string \<Rightarrow> string \<Rightarrow> schema \<Rightarrow> schema option" where
  "ensure_table_column t c def s =
     (case sc_tables s t of
        None \<Rightarrow> None
      | Some cs \<Rightarrow>
          if has_column cs c then Some s
          else if addable def then Some (s\<lparr>sc_tables := (sc_tables s)(t \<mapsto> cs @ [c])\<rparr>)
          else None)"

fun exec_ddl :: "ddl \<Rightarrow> schema \<Rightarrow> schema option" where
  "exec_ddl (CreateTable t cs) s =
     Some (case sc_tables s t of Some _ \<Rightarrow> s | None \<Rightarrow> s\<lparr>sc_tables := (sc_tables s)(t \<mapsto> cs)\<rparr>)"
| "exec_ddl (CreateIndex uniq i t cs) s =
     (if i \<in> sc_indexes s then Some s
      else if list_all (column_in s t) cs \<and> \<not> (uniq \<and> sc_clash s) then Some (s\<lparr>sc_indexes := insert i (sc_indexes s)\<rparr>)
      else None)"
| "exec_ddl (EnsureColumn t c def) s = ensure_table_column t c def s"
| "exec_ddl RequireHostKeys s =
     (if column_in s ''hosts'' ''host_key_required'' then Some (s\<lparr>sc_required := map (\<lambda>_. True) (sc_required s)\<rparr>) else None)"

text \<open>The first failure ends the migration.\<close>

fun run_ddl :: "ddl list \<Rightarrow> schema \<Rightarrow> schema option" where
  "run_ddl [] s = Some s"
| "run_ddl (e # es) s = (case exec_ddl e s of None \<Rightarrow> None | Some s' \<Rightarrow> run_ddl es s')"

definition quoted :: "string \<Rightarrow> string" where
  "quoted x = [CHR 0x27] @ x @ [CHR 0x27]"

definition migrations :: "ddl list" where
  "migrations =
     [
      CreateTable ''users'' [''id'', ''username'', ''role'', ''password_hash'', ''totp_secret'',
        ''created_at''],
      CreateTable ''hosts'' [''id'', ''name'', ''address'', ''port'', ''ssh_user'', ''auth_type'',
        ''secret_cipher'', ''checks_enabled'', ''auto_update_policy'', ''host_key_required'',
        ''host_key_trust_mode'', ''host_key_pinned_fingerprint'', ''host_key_trusted_fingerprint'',
        ''host_key_pending_fingerprint'', ''host_key_last_verified_at'', ''created_at''],
      CreateIndex True ''idx_hosts_unique_target'' ''hosts'' [''address'', ''port'', ''ssh_user''],
      CreateTable ''scans'' [''host_id'', ''packages_json'', ''needs_reboot'', ''needs_restart_json'',
        ''needrestart_found'', ''raw_output'', ''updated_at''],
      CreateTable ''jobs'' [''id'', ''host_id'', ''name'', ''cron_expr'', ''mode'', ''enabled''],
      CreateTable ''app_settings'' [''key'', ''value''],
      CreateTable ''host_notification_prefs'' [''host_id'', ''updates_available'', ''auto_apply_success'',
        ''auto_apply_failure'', ''scan_failure''],
      CreateTable ''host_key_audit'' [''id'', ''host_id'', ''event'', ''previous_fingerprint'',
        ''new_fingerprint'', ''note'', ''created_at''],
      CreateTable ''recovery_codes'' [''id'', ''user_id'', ''code_hash'', ''used'', ''created_at''],
      CreateIndex False ''idx_recovery_codes_user'' ''recovery_codes'' [''user_id''],
      CreateTable ''sessions'' [''token_hash'', ''user_id'', ''username'', ''role'', ''created_at'',
        ''expires_at'', ''last_seen_at''],
      CreateIndex False ''idx_sessions_expires'' ''sessions'' [''expires_at''],
      EnsureColumn ''hosts'' ''checks_enabled'' ''INTEGER NOT NULL DEFAULT 1'',
      EnsureColumn ''hosts'' ''auto_update_policy'' (''TEXT NOT NULL DEFAULT '' @ quoted ''manual''),
      EnsureColumn ''hosts'' ''host_key_required'' ''INTEGER NOT NULL DEFAULT 1'',
      EnsureColumn ''hosts'' ''host_key_trust_mode'' (''TEXT NOT NULL DEFAULT '' @ quoted ''tofu''),
      EnsureColumn ''hosts'' ''host_key_pinned_fingerprint'' (''TEXT NOT NULL DEFAULT '' @ quoted []),
      EnsureColumn ''hosts'' ''host_key_trusted_fingerprint'' (''TEXT NOT NULL DEFAULT '' @ quoted []),
      EnsureColumn ''hosts'' ''host_key_pending_fingerprint'' (''TEXT NOT NULL DEFAULT '' @ quoted []),
      EnsureColumn ''hosts'' ''host_key_last_verified_at'' ''DATETIME'',
      RequireHostKeys,
      EnsureColumn ''users'' ''role'' (''TEXT NOT NULL DEFAULT '' @ quoted ''admin''),
      EnsureColumn ''host_notification_prefs'' ''scan_failure'' ''INTEGER NOT NULL DEFAULT 1'',
      CreateTable ''scan_history'' [''id'', ''host_id'', ''packages_json'', ''needs_reboot'',
        ''needs_restart_json'', ''needrestart_found'', ''raw_output'', ''created_at''],
      EnsureColumn ''hosts'' ''tags_json'' (''TEXT NOT NULL DEFAULT '' @ quoted ''[]''),
      CreateTable ''api_tokens'' [''id'', ''name'', ''token_hash'', ''created_at'', ''last_used_at'',
        ''revoked''],
      CreateIndex False ''idx_api_tokens_hash'' ''api_tokens'' [''token_hash''],
      CreateTable ''job_runs'' [''id'', ''job_id'', ''mode'', ''status'', ''started_at'', ''finished_at'',
        ''hosts_total'', ''hosts_ok'', ''hosts_failed'', ''detail''],
      CreateIndex False ''idx_job_runs_job'' ''job_runs'' [''job_id'', ''started_at''],
      CreateTable ''activity_log'' [''id'', ''host_id'', ''host_name'', ''event_type'', ''summary'',
        ''created_at''],
      EnsureColumn ''scans'' ''os_name'' (''TEXT NOT NULL DEFAULT '' @ quoted []),
      EnsureColumn ''scans'' ''os_version'' (''TEXT NOT NULL DEFAULT '' @ quoted []),
      EnsureColumn ''scans'' ''uptime'' (''TEXT NOT NULL DEFAULT '' @ quoted []),
      EnsureColumn ''scans'' ''kernel'' (''TEXT NOT NULL DEFAULT '' @ quoted []),
      EnsureColumn ''jobs'' ''host_ids_json'' (''TEXT NOT NULL DEFAULT '' @ quoted ''[]''),
      EnsureColumn ''jobs'' ''tag_filter'' (''TEXT NOT NULL DEFAULT '' @ quoted []),
      EnsureColumn ''scans'' ''reboot_reason'' (''TEXT NOT NULL DEFAULT '' @ quoted []),
      EnsureColumn ''scan_history'' ''reboot_reason'' (''TEXT NOT NULL DEFAULT '' @ quoted []),
      EnsureColumn ''scans'' ''deferred_packages_json'' (''TEXT NOT NULL DEFAULT '' @ quoted ''[]''),
      EnsureColumn ''scans'' ''boot_id'' (''TEXT NOT NULL DEFAULT '' @ quoted []),
      EnsureColumn ''scans'' ''restart_services_json'' (''TEXT NOT NULL DEFAULT '' @ quoted ''[]''),
      EnsureColumn ''scans'' ''reboot_services_json'' (''TEXT NOT NULL DEFAULT '' @ quoted ''[]''),
      EnsureColumn ''hosts'' ''exclude_from_bulk'' ''INTEGER NOT NULL DEFAULT 0'',
      CreateTable ''restart_marks'' [''host_id'', ''service'', ''boot_id'', ''created_at'']]"

definition migrate :: "schema \<Rightarrow> schema option" where
  "migrate s = run_ddl migrations s"

section \<open>Steps only extend the schema\<close>

definition extends :: "schema \<Rightarrow> schema \<Rightarrow> bool" where
  "extends s s' \<longleftrightarrow>
     (\<forall>t cs. sc_tables s t = Some cs \<longrightarrow> (\<exists>more. sc_tables s' t = Some (cs @ more))) \<and> sc_indexes s \<subseteq> sc_indexes s' \<and>
     sc_clash s' = sc_clash s \<and> length (sc_required s') = length (sc_required s) \<and>
     (\<forall>i < length (sc_required s). sc_required s ! i \<longrightarrow> sc_required s' ! i)"

lemma extends_refl [simp]: "extends s s"
  by (auto simp: extends_def)

lemma extends_trans: "extends s s' \<Longrightarrow> extends s' s'' \<Longrightarrow> extends s s''"
  unfolding extends_def by (metis append.assoc subset_trans)

lemma exec_extends: "exec_ddl e s = Some s' \<Longrightarrow> extends s s'"
  by (cases e) (auto simp: extends_def ensure_table_column_def split: option.splits if_splits)

lemma run_extends: "run_ddl es s = Some s' \<Longrightarrow> extends s s'"
  by (induction es arbitrary: s) (auto split: option.splits intro: extends_trans exec_extends)

lemma column_extends: "extends s s' \<Longrightarrow> column_in s t c \<Longrightarrow> column_in s' t c"
  by (fastforce simp: extends_def column_in_def has_column_def split: option.splits)

lemma table_extends: "extends s s' \<Longrightarrow> sc_tables s t \<noteq> None \<Longrightarrow> sc_tables s' t \<noteq> None"
  unfolding extends_def by blast

section \<open>What a statement establishes stays\<close>

fun settled :: "schema \<Rightarrow> ddl \<Rightarrow> bool" where
  "settled s (CreateTable t cs) \<longleftrightarrow> sc_tables s t \<noteq> None"
| "settled s (CreateIndex uniq i t cs) \<longleftrightarrow> i \<in> sc_indexes s"
| "settled s (EnsureColumn t c def) \<longleftrightarrow> column_in s t c"
| "settled s RequireHostKeys \<longleftrightarrow> column_in s ''hosts'' ''host_key_required'' \<and> list_all id (sc_required s)"

lemma exec_settled: "exec_ddl e s = Some s' \<Longrightarrow> settled s' e"
  by (cases e) (auto simp: ensure_table_column_def column_in_def has_column_def list_all_iff split: option.splits if_splits)

lemma flags_extends: "extends s s' \<Longrightarrow> list_all id (sc_required s) \<Longrightarrow> list_all id (sc_required s')"
  by (simp add: extends_def list_all_length)

lemma settled_extends: "extends s s' \<Longrightarrow> settled s e \<Longrightarrow> settled s' e"
proof (cases e)
  case (CreateTable t cs)
  assume "extends s s'" "settled s e"
  then show ?thesis by (force simp: CreateTable extends_def)
next
  case (CreateIndex uniq i t cs)
  assume "extends s s'" "settled s e"
  then show ?thesis by (auto simp: CreateIndex extends_def)
qed (simp_all add: column_extends flags_extends)

lemma all_true: "list_all id bs \<Longrightarrow> map (\<lambda>_. True) bs = bs"
  by (induction bs) auto

lemma settled_exec: "settled s e \<Longrightarrow> exec_ddl e s = Some s"
  by (cases e; force simp: ensure_table_column_def column_in_def all_true split: option.splits)

lemma run_settled: "run_ddl es s = Some s' \<Longrightarrow> list_all (settled s') es"
  by (induction es arbitrary: s)
    (auto split: option.splits intro: settled_extends [OF run_extends exec_settled])

lemma settled_run: "list_all (settled s) es \<Longrightarrow> run_ddl es s = Some s"
  by (induction es) (auto simp: settled_exec)

section \<open>The migration succeeds\<close>

definition ensures :: "ddl list \<Rightarrow> string \<Rightarrow> string \<Rightarrow> bool" where
  "ensures es t c \<longleftrightarrow> list_ex (\<lambda>e. case e of EnsureColumn t' c' _ \<Rightarrow> t' = t \<and> c' = c | _ \<Rightarrow> False) es"

text \<open>
  A check of the order of the statements: \<open>T\<close> are tables and \<open>K\<close> columns that exist by now. A table that is
  there already may lack those of its columns that a later statement of \<open>all\<close> adds.
\<close>

fun ordered_plan :: "ddl list \<Rightarrow> ddl list \<Rightarrow> string list \<Rightarrow> (string \<times> string) list \<Rightarrow> bool" where
  "ordered_plan all [] T K = True"
| "ordered_plan all (CreateTable t cs # es) T K =
     (t \<notin> set T \<and> ordered_plan all es (t # T) (map (Pair t) (filter (\<lambda>c. \<not> ensures all t c) cs) @ K))"
| "ordered_plan all (CreateIndex uniq i t cs # es) T K = (list_all (\<lambda>c. (t, c) \<in> set K) cs \<and> ordered_plan all es T K)"
| "ordered_plan all (EnsureColumn t c def # es) T K = (t \<in> set T \<and> addable def \<and> ordered_plan all es T ((t, c) # K))"
| "ordered_plan all (RequireHostKeys # es) T K =
     ((''hosts'', ''host_key_required'') \<in> set K \<and> ordered_plan all es T K)"

lemma migrations_ordered: "ordered_plan migrations migrations [] []"
  by code_simp

text \<open>
  The history of the schema, apart from the statements: the columns that each table has had since the version
  that introduced it, and those that the queries of today name.
\<close>

definition first_columns :: "(string \<times> string list) list" where
  "first_columns =
     [(''users'', [''id'', ''username'', ''password_hash'', ''totp_secret'', ''created_at'']),
      (''hosts'', [''id'', ''name'', ''address'', ''port'', ''ssh_user'', ''auth_type'', ''secret_cipher'', ''created_at'']),
      (''scans'', [''host_id'', ''packages_json'', ''needs_reboot'', ''needs_restart_json'', ''needrestart_found'',
        ''raw_output'', ''updated_at'']),
      (''jobs'', [''id'', ''host_id'', ''name'', ''cron_expr'', ''mode'', ''enabled'']),
      (''app_settings'', [''key'', ''value'']),
      (''host_notification_prefs'', [''host_id'', ''updates_available'', ''auto_apply_success'', ''auto_apply_failure'']),
      (''host_key_audit'', [''id'', ''host_id'', ''event'', ''previous_fingerprint'', ''new_fingerprint'', ''note'', ''created_at'']),
      (''recovery_codes'', [''id'', ''user_id'', ''code_hash'', ''used'', ''created_at'']),
      (''sessions'', [''token_hash'', ''user_id'', ''username'', ''role'', ''created_at'', ''expires_at'', ''last_seen_at'']),
      (''scan_history'', [''id'', ''host_id'', ''packages_json'', ''needs_reboot'', ''needs_restart_json'',
        ''needrestart_found'', ''raw_output'', ''created_at'']),
      (''api_tokens'', [''id'', ''name'', ''token_hash'', ''created_at'', ''last_used_at'', ''revoked'']),
      (''job_runs'', [''id'', ''job_id'', ''mode'', ''status'', ''started_at'', ''finished_at'', ''hosts_total'', ''hosts_ok'',
        ''hosts_failed'', ''detail'']),
      (''activity_log'', [''id'', ''host_id'', ''host_name'', ''event_type'', ''summary'', ''created_at'']),
      (''restart_marks'', [''host_id'', ''service'', ''boot_id'', ''created_at''])]"

definition added_columns :: "(string \<times> string list) list" where
  "added_columns =
     [(''users'', [''role'']),
      (''hosts'', [''checks_enabled'', ''auto_update_policy'', ''host_key_required'', ''host_key_trust_mode'',
        ''host_key_pinned_fingerprint'', ''host_key_trusted_fingerprint'', ''host_key_pending_fingerprint'',
        ''host_key_last_verified_at'', ''tags_json'', ''exclude_from_bulk'']),
      (''scans'', [''deferred_packages_json'', ''reboot_reason'', ''os_name'', ''os_version'', ''uptime'', ''kernel'', ''boot_id'',
        ''restart_services_json'', ''reboot_services_json'']),
      (''scan_history'', [''reboot_reason'']),
      (''jobs'', [''host_ids_json'', ''tag_filter'']),
      (''host_notification_prefs'', [''scan_failure''])]"

definition used_columns :: "(string \<times> string list) list" where
  "used_columns = first_columns @ added_columns"

definition used_indexes :: "string list" where
  "used_indexes = [''idx_hosts_unique_target'', ''idx_recovery_codes_user'', ''idx_sessions_expires'',
     ''idx_api_tokens_hash'', ''idx_job_runs_job'']"

text \<open>
  A schema left by an earlier version: each table it has got at least the first columns of that table, and no
  two hosts have the same address, port and user unless the unique index is there (which then excludes it).
\<close>

definition old_schema :: "schema \<Rightarrow> bool" where
  "old_schema s \<longleftrightarrow>
     list_all (\<lambda>(t, cs). sc_tables s t \<noteq> None \<longrightarrow> list_all (column_in s t) cs) first_columns \<and>
     (sc_clash s \<longrightarrow> ''idx_hosts_unique_target'' \<in> sc_indexes s)"

lemma plan_members:
  "ensures es t c \<longleftrightarrow> (\<exists>def. EnsureColumn t c def \<in> set es)"
  "list_ex (\<lambda>e. case e of CreateTable t' bs \<Rightarrow> t' = t \<and> c \<in> set bs | _ \<Rightarrow> False) es \<longleftrightarrow>
     (\<exists>bs. CreateTable t bs \<in> set es \<and> c \<in> set bs)"
  "list_ex (\<lambda>e. case e of CreateIndex _ i' _ _ \<Rightarrow> i' = i | _ \<Rightarrow> False) es \<longleftrightarrow>
     (\<exists>uniq t cs. CreateIndex uniq i t cs \<in> set es)"
  unfolding ensures_def by (induction es; auto split: ddl.splits)+

text \<open>What the statements need of such a schema, and what they make of it.\<close>

lemma first_enough:
  "list_all (\<lambda>e. case e of
       CreateTable t cs \<Rightarrow> list_all (\<lambda>c. ensures migrations t c \<or> list_ex (\<lambda>(t', bs). t' = t \<and> c \<in> set bs) first_columns) cs
     | CreateIndex uniq i t cs \<Rightarrow> uniq \<longrightarrow> i = ''idx_hosts_unique_target''
     | _ \<Rightarrow> True) migrations"
  by code_simp

lemma used_made:
  "list_all (\<lambda>(t, cs). list_all (\<lambda>c. ensures migrations t c \<or>
     list_ex (\<lambda>e. case e of CreateTable t' bs \<Rightarrow> t' = t \<and> c \<in> set bs | _ \<Rightarrow> False) migrations) cs) used_columns"
  "list_all (\<lambda>i. list_ex (\<lambda>e. case e of CreateIndex _ i' _ _ \<Rightarrow> i' = i | _ \<Rightarrow> False) migrations) used_indexes"
  by code_simp+

lemma old_table:
  assumes "old_schema s" "CreateTable t cs \<in> set migrations" "sc_tables s t \<noteq> None" "c \<in> set cs" "\<not> ensures migrations t c"
  shows "column_in s t c"
proof -
  obtain bs where "(t, bs) \<in> set first_columns" "c \<in> set bs"
    using first_enough assms(2,4,5) by (fastforce simp: list_all_iff list_ex_iff)
  then show ?thesis using assms(1,3) by (fastforce simp: old_schema_def list_all_iff)
qed

lemma old_index:
  assumes "old_schema s" "CreateIndex uniq i t cs \<in> set migrations"
  shows "\<not> (uniq \<and> sc_clash s) \<or> i \<in> sc_indexes s"
  using first_enough assms by (fastforce simp: list_all_iff old_schema_def)

definition plan_state :: "schema \<Rightarrow> schema \<Rightarrow> string list \<Rightarrow> (string \<times> string) list \<Rightarrow> bool" where
  "plan_state s0 s T K \<longleftrightarrow>
     extends s0 s \<and> (\<forall>t. t \<notin> set T \<longrightarrow> sc_tables s t = sc_tables s0 t) \<and> (\<forall>t \<in> set T. sc_tables s t \<noteq> None) \<and>
     (\<forall>(t, c) \<in> set K. column_in s t c)"

fun base_columns :: "schema \<Rightarrow> ddl \<Rightarrow> bool" where
  "base_columns s (CreateTable t cs) \<longleftrightarrow> (\<forall>c \<in> set cs. ensures migrations t c \<or> column_in s t c)"
| "base_columns s _ \<longleftrightarrow> True"

lemma base_columns_extends: "extends s s' \<Longrightarrow> base_columns s e \<Longrightarrow> base_columns s' e"
  by (cases e) (auto simp: column_extends)

lemma plan_step:
  assumes "old_schema s0" "e \<in> set migrations" "plan_state s0 s T K" "ordered_plan migrations (e # es) T K"
  shows "\<exists>s' T' K'. exec_ddl e s = Some s' \<and> plan_state s0 s' T' K' \<and> ordered_plan migrations es T' K' \<and> base_columns s' e"
proof (cases e)
  case (CreateTable t cs)
  let ?K = "map (Pair t) (filter (\<lambda>c. \<not> ensures migrations t c) cs) @ K"
  obtain s' where s': "exec_ddl e s = Some s'" by (simp add: CreateTable)
  have new: "t \<notin> set T" and rest: "ordered_plan migrations es (t # T) ?K" using assms(4) by (simp_all add: CreateTable)
  have st: "sc_tables s t = sc_tables s0 t" using assms(3) new by (auto simp: plan_state_def)
  have col: "column_in s' t c" if "c \<in> set cs" "\<not> ensures migrations t c" for c
  proof (cases "sc_tables s0 t")
    case None
    then show ?thesis using s' st that by (auto simp: CreateTable column_in_def has_column_def list_ex_iff)
  next
    case (Some cs0)
    then have "column_in s0 t c" using old_table [OF assms(1)] assms(2) that by (simp add: CreateTable)
    then show ?thesis using s' st Some by (simp add: CreateTable column_in_def)
  qed
  have "extends s s'" by (rule exec_extends [OF s'])
  then have "plan_state s0 s' (t # T) ?K"
    using assms(3) s' col by (auto simp: plan_state_def CreateTable intro: extends_trans column_extends split: option.splits)
  moreover have "base_columns s' e" using col by (auto simp: CreateTable)
  ultimately show ?thesis using s' rest by blast
next
  case (EnsureColumn t c def)
  from assms(3,4) obtain cs where cs: "sc_tables s t = Some cs" "t \<in> set T" and add: "addable def" by (auto simp: EnsureColumn plan_state_def)
  then obtain s' where s': "exec_ddl e s = Some s'" by (cases "has_column cs c") (auto simp: EnsureColumn ensure_table_column_def)
  have ext: "extends s s'" and "column_in s' t c"
    using exec_extends [OF s'] exec_settled [OF s'] by (simp_all add: EnsureColumn)
  moreover have "sc_tables s' u = sc_tables s u" if "u \<noteq> t" for u
    using s' cs that by (auto simp: EnsureColumn ensure_table_column_def split: if_splits)
  moreover have "sc_tables s' u \<noteq> None" if "sc_tables s u \<noteq> None" for u
    using ext that by (rule table_extends)
  ultimately have "plan_state s0 s' T ((t, c) # K)"
    using assms(3) cs(2) by (fastforce simp: plan_state_def intro: extends_trans column_extends)
  with s' assms(4) show ?thesis by (auto simp: EnsureColumn)
next
  case (CreateIndex uniq i t cs)
  have "list_all (column_in s t) cs" using assms(3,4) by (auto simp: CreateIndex plan_state_def list_all_iff)
  moreover have "\<not> (uniq \<and> sc_clash s) \<or> i \<in> sc_indexes s"
  proof -
    have "\<not> (uniq \<and> sc_clash s0) \<or> i \<in> sc_indexes s0"
      using old_index [OF assms(1)] assms(2) by (simp add: CreateIndex)
    then show ?thesis using assms(3) by (auto simp: plan_state_def extends_def)
  qed
  ultimately have "exec_ddl e s \<noteq> None" by (auto simp: CreateIndex)
  then obtain s' where s': "exec_ddl e s = Some s'" by auto
  then have "sc_tables s' = sc_tables s" by (auto simp: CreateIndex split: if_splits)
  with assms(3) exec_extends [OF s'] have "plan_state s0 s' T K"
    by (auto simp: plan_state_def column_in_def intro: extends_trans)
  with s' assms(4) show ?thesis by (auto simp: CreateIndex)
next
  case RequireHostKeys
  have "column_in s ''hosts'' ''host_key_required''" using assms(3,4) by (auto simp: RequireHostKeys plan_state_def)
  then obtain s' where s': "exec_ddl e s = Some s'" "sc_tables s' = sc_tables s" by (simp add: RequireHostKeys)
  with assms(3) exec_extends [OF s'(1)] have "plan_state s0 s' T K"
    by (auto simp: plan_state_def column_in_def intro: extends_trans)
  with s' assms(4) show ?thesis by (auto simp: RequireHostKeys)
qed

lemma plan_run:
  assumes "old_schema s0"
  shows "set es \<subseteq> set migrations \<Longrightarrow> plan_state s0 s T K \<Longrightarrow> ordered_plan migrations es T K \<Longrightarrow>
    \<exists>s'. run_ddl es s = Some s' \<and> list_all (base_columns s') es"
proof (induction es arbitrary: s T K)
  case (Cons e es)
  from Cons.prems obtain s1 T' K' where s1: "exec_ddl e s = Some s1" "plan_state s0 s1 T' K'"
    "ordered_plan migrations es T' K'" "base_columns s1 e"
    using plan_step [OF assms, of e s T K es] by auto
  moreover have "set es \<subseteq> set migrations" using Cons.prems(1) by simp
  ultimately obtain s' where "run_ddl es s1 = Some s'" "list_all (base_columns s') es" using Cons.IH by blast
  moreover from this(1) s1(4) have "base_columns s' e" by (blast intro: base_columns_extends run_extends)
  ultimately show ?case using s1(1) by simp
qed simp

text \<open>C40
  Every start brings the database up to date: from an empty database or one of an earlier version, whose tables
  have at least the columns they were introduced with and which has no two hosts with one target, the migration
  succeeds, loses no column and no index, ends with every table, column and index that the queries of today use
  and with the verification of host keys required for every host, and the next start changes nothing.\<close>

theorem migration_completes:
  assumes "old_schema s"
  shows "\<exists>s'. migrate s = Some s' \<and> migrate s' = Some s' \<and> list_all id (sc_required s') \<and>
    (\<forall>t cs. sc_tables s t = Some cs \<longrightarrow> (\<exists>more. sc_tables s' t = Some (cs @ more))) \<and> sc_indexes s \<subseteq> sc_indexes s' \<and>
    list_all (\<lambda>(t, cs). list_all (column_in s' t) cs) used_columns \<and> set used_indexes \<subseteq> sc_indexes s'"
proof -
  have "plan_state s s [] []" by (simp add: plan_state_def)
  with plan_run [OF assms _ _ migrations_ordered] obtain s'
    where s': "run_ddl migrations s = Some s'" and base: "list_all (base_columns s') migrations" by blast
  note ext = run_extends [OF s'] and done_all = run_settled [OF s']
  have "RequireHostKeys \<in> set migrations" by (simp add: migrations_def)
  then have flags: "list_all id (sc_required s')" using done_all settled.simps(4) [of s'] unfolding list_all_iff by blast
  have ens: "column_in s' t c" if "ensures migrations t c" for t c
    using that done_all settled.simps(3) unfolding plan_members(1) list_all_iff by blast
  have "column_in s' t c" if "(t, cs) \<in> set used_columns" "c \<in> set cs" for t cs c
  proof -
    have "ensures migrations t c \<or> (\<exists>bs. CreateTable t bs \<in> set migrations \<and> c \<in> set bs)"
      using used_made(1) that unfolding plan_members(2) list_all_iff by blast
    then show ?thesis using ens base base_columns.simps(1) unfolding list_all_iff by blast
  qed
  then have cols: "list_all (\<lambda>(t, cs). list_all (column_in s' t) cs) used_columns" by (auto simp: list_all_iff)
  have "set used_indexes \<subseteq> sc_indexes s'"
    using used_made(2) done_all settled.simps(2) unfolding plan_members(3) list_all_iff by blast
  then show ?thesis
    using s' settled_run [OF done_all] flags cols ext unfolding migrate_def extends_def by blast
qed

section \<open>A witness\<close>

text \<open>A database of an early version: only users and hosts, the latter without the columns of today.\<close>

definition early_schema :: schema where
  "early_schema =
     \<lparr>sc_tables = [''users'' \<mapsto> [''id'', ''username'', ''password_hash'', ''totp_secret'', ''created_at''],
        ''hosts'' \<mapsto> [''id'', ''name'', ''address'', ''port'', ''ssh_user'', ''auth_type'', ''secret_cipher'', ''created_at'']],
      sc_indexes = {}, sc_required = [False, True], sc_clash = False\<rparr>"

theorem migration_completes_witness:
  "\<exists>s'. migrate early_schema = Some s' \<and> migrate s' = Some s' \<and> list_all id (sc_required s') \<and>
     list_all (\<lambda>(t, cs). list_all (column_in s' t) cs) used_columns"
proof -
  have "old_schema early_schema" by code_simp
  from migration_completes [OF this] show ?thesis by blast
qed

end
