(* ===== verification/Spec2Isabelle.thy ===== *)
theory Spec2Isabelle
  imports Machine RestartPolicy Cron RateLimit Models Store DbHosts DbScans DbAccounts DbSettings
    HostKey Digest Coalescer Shell Restart ScanParse Apply ApplyLog Scheduler JobRun
    ClientIp Auth Login Accounts HostRequests HostRows HostTrust HostForms Oidc JobRequests
    Timestamp SealBox Config Simulation AppKey KeyRotation Pool Session HostOps
    EventStream Streams Connectivity Views DashboardOps Activity Senders SettingsRequests Routes Migration
begin

text \<open>
  PatchDeck is a Go server that keeps a fleet of Debian and Ubuntu machines up to date over SSH. It scans hosts
  for updates, applies them, restarts services and reboots machines, from a dashboard, a JSON API and a scheduler.
  This library models its logic and proves what it relies on. Each theory opens with what it holds; this is the map.

  \<^bold>\<open>How the program works.\<close> A request passes a guard (session cookie, API token) and reaches a handler, which
  reads and writes the SQLite database and may run commands on a host through the SSH client. The client takes a
  pooled connection, verifies the host's key with a function of the server that itself reads and writes the
  database, gets root by sudo or su, and runs a script. Results are stored, logged in the audit log and
  reported as notifications, at once or gathered into a digest. The scheduler runs the same operations on cron times.

  \<^bold>\<open>Conventions.\<close> A Go string is a \<^typ>\<open>string\<close> of bytes; integers are \<^typ>\<open>int\<close> with the wrap-around written out
  where it matters (\<open>Config\<close>); the clock, random ids and tokens are arguments or fields of an environment. The database is the
  record \<open>db\<close> of \<open>Store\<close>, one list or map per table, threaded through every operation; I/O failures of SQLite are
  not modelled, constraint violations and missing rows are (\<open>db_err\<close>). A body that \<open>decodeJSON\<close> refuses is \<open>None\<close>. A panic of the
  code is a value of its own. Stateful components are step functions or inductive step relations, and their invariants
  are lifted to runs by the locales \<open>machine\<close>, \<open>timed_machine\<close> (\<open>Machine\<close>), \<open>simulation\<close> and \<open>total_simulation\<close>
  (\<open>Simulation\<close>), each interpreted on the code's own operations.

  \<^bold>\<open>The theories and the code.\<close> All paths are below \<open>src/api\<close>.

  \<^item> \<open>Prelude\<close>, \<open>GoStrings\<close>, \<open>Timestamp\<close>: the functions of Go's \<open>strings\<close>, \<open>strconv\<close> and \<open>time\<close> that are used.
  \<^item> \<open>internal/models\<close>, \<open>internal/db\<close>: \<open>Models\<close>, \<open>Store\<close>, \<open>DbHosts\<close>, \<open>DbScans\<close>, \<open>DbAccounts\<close>, \<open>DbSettings\<close>,
    and \<open>Migration\<close> for the schema at every start.
  \<^item> \<open>internal/restartpolicy\<close>, \<open>internal/ratelimit\<close>, \<open>internal/config\<close>, \<open>internal/crypto\<close>: \<open>RestartPolicy\<close>, \<open>RateLimit\<close>, \<open>Config\<close>, \<open>SealBox\<close>.
  \<^item> \<open>internal/sshx\<close>: \<open>Shell\<close> (quoting, root), \<open>ScanParse\<close> (scan script and parser), \<open>Restart\<close>, \<open>Apply\<close> (detached upgrades),
    \<open>Pool\<close> (connections as a step machine), \<open>Session\<close> (a command over the pool), \<open>ApplyLog\<close> (an upgrade over it).
  \<^item> \<open>internal/appkey\<close>, \<open>cmd/server/sshkey.go\<close>: \<open>AppKey\<close>, \<open>KeyRotation\<close>.
  \<^item> \<open>internal/scheduler\<close>: \<open>Cron\<close>, \<open>Scheduler\<close> (ticks and running jobs), \<open>JobRun\<close> (one run of a job).
  \<^item> \<open>internal/notify\<close>: \<open>Digest\<close>, \<open>Coalescer\<close>, \<open>Senders\<close>.
  \<^item> \<open>internal/auth\<close>, \<open>internal/oidc\<close>, \<open>internal/rbac\<close> and the sign-in handlers: \<open>ClientIp\<close>, \<open>Auth\<close>, \<open>Login\<close>, \<open>Accounts\<close>, \<open>Oidc\<close>.
  \<^item> The other handlers in \<open>cmd/server\<close>: \<open>HostKey\<close>, \<open>HostRequests\<close>, \<open>HostRows\<close>, \<open>HostTrust\<close>, \<open>HostForms\<close>, \<open>JobRequests\<close>, \<open>HostOps\<close>, \<open>EventStream\<close> and
    \<open>Streams\<close> (live output), \<open>Connectivity\<close>, \<open>Views\<close>, \<open>DashboardOps\<close>, \<open>Activity\<close>, \<open>SettingsRequests\<close>, and \<open>Routes\<close>, the table of routes.

  \<^bold>\<open>What the lemmas show.\<close> Who gets in: the routes and their guards, sign-in with every factor, single sign-on, bounded
  guessing, tokens as a refinement of a set. Which host is talked to: only keys vouched for, whatever requests come, approval
  of new hosts, connections never shared across credentials and never leaked, jobs only on the hosts they select. What is run
  on a host: exact quoting, an upgrade launched at most once and, of a host that prints it cleanly, its log read without loss,
  restarts that do not cut off SSH, cooldowns. What is stored: well-formed hosts,
  jobs and settings after any sequence of requests, cascades, learned restart marks, a complete and repeatable migration.
  What is shown and sent: scan output and event streams read back exactly, counts, CSV, emails without smuggled headers,
  every event of a digest exactly once. Keys: the rotation refines a two-phase specification and locks no host out.
  When things end: upgrades, recovery, scheduled runs, fleet checks. Some lemmas record surprising behaviour of the code
  instead, such as \<open>HostOps.untrimmed_name_runs_command\<close>, \<open>ApplyLog.stderr_line_skips\<close> and \<open>Routes.next_rest_leaves_site\<close>.

  \<^bold>\<open>Parameters.\<close> What is not in the repository is an argument, with its documented laws as hypotheses where a theorem needs
  them: bcrypt, TOTP and SHA-256 (\<open>crypt\<close>), AES-GCM (\<open>aead\<close>) and the JSON of sealed credentials (\<open>vault\<close>), key generation
  (\<open>keylib\<close>), the identity provider (\<open>idp\<close>), the local clock (\<open>civil\<close>), the SSH library and the hosts (\<open>transport\<close> and runners with a
  world that they change), Go's URL parser, \<open>%q\<close> and mail headers, the HTTP and SMTP servers (\<open>notify_env\<close>), the router.

  \<^bold>\<open>Bounds and fuel.\<close> \<open>next_run\<close> searches the 366 days that the code searches. \<open>apply_detached\<close> takes fuel and is shown
  to end after at most 2402 attempts, with a result that more fuel does not change. A recovery stream needs at most
  thirty checks. \<open>open_session\<close> tries twice, as the code does. No other loop needs fuel.

  \<^bold>\<open>Not modelled.\<close> The self-signed certificate (\<open>internal/tlsutil\<close>), the health check command, opening the database and the
  sockets in \<open>main\<close>, HTML templates, scripts and embedded assets, log lines, and the wording of pages beyond the data they are
  given. Unexpected failures of SQLite and of random numbers are left out: the handlers answer them with a fixed text,
  the smart restart goes on without the marks, and a job whose run cannot be recorded runs unrecorded. The types and defaults
  of the columns in \<open>CREATE TABLE\<close> are left out.

  \<^bold>\<open>Simplifications.\<close> The JSON of sealed secrets is exact; \<open>json.Marshal\<close> replaces bytes that are not UTF-8. A job run panics
  only in a scan; the code recovers from any panic. The error of a refused host key leaves \<open>tr_dial\<close> as such; the SSH library
  wraps it and \<open>errors.As\<close> finds it. \<open>finish_rotation\<close> is one step; the code checks the hosts and promotes the key in two, and
  \<open>KeyRotation.unchecked_key_promoted\<close> shows what can come between.
\<close>

end
